(* ===== verification/NC_Prelude.thy ===== *)
theory NC_Prelude
  imports Main
begin

text \<open>
  Shared vocabulary of the development: the outcomes a C++ member function can
  have (return, exception, invalid memory access, non-termination), the
  state-passing combinator the components are written with, machine integers of
  the LP64 platform as naturals and integers with the wrap-around written out,
  C strings as suffix lists, and the \<open>ctype\<close>/\<open>stdlib\<close> functions the sources call.
\<close>

section \<open>Collections of facts\<close>

named_theorems act_simps \<open>evaluation of the outcome combinators\<close>
named_theorems mem_simps \<open>reads and writes of the byte memory\<close>

section \<open>Outcomes and actions\<close>

text \<open>The exception classes of Error.h, NSError.h, Article.h and Lexer.h.\<close>

datatype nserror =
    Error string
  | SystemError string
  | IOError string
  | AssertionError string
  | SyntaxError string
  | NSError string
  | NoSuchFieldError string
  | NoSuchGroupError string
  | NoSuchArticleError string
  | DuplicateArticleError string
  | NotAllowedError string
  | PostingFailedError string
  | InvalidArticleError string
  | ResponseError string string string

datatype 'a outcome = Ok 'a | Throw nserror | Crash | Diverge

type_synonym ('s, 'a) act = "'s \<Rightarrow> 'a outcome \<times> 's"

definition ret :: "'a \<Rightarrow> ('s, 'a) act" where
  "ret a s = (Ok a, s)"

definition throw :: "nserror \<Rightarrow> ('s, 'a) act" where
  "throw e s = (Throw e, s)"

definition crash :: "('s, 'a) act" where
  "crash s = (Crash, s)"

definition bnd :: "('s, 'a) act \<Rightarrow> ('a \<Rightarrow> ('s, 'b) act) \<Rightarrow> ('s, 'b) act" where
  "bnd f g s = (case f s of
      (Ok a, s') \<Rightarrow> g a s'
    | (Throw e, s') \<Rightarrow> (Throw e, s')
    | (Crash, s') \<Rightarrow> (Crash, s')
    | (Diverge, s') \<Rightarrow> (Diverge, s'))"

definition gets :: "('s \<Rightarrow> 'a) \<Rightarrow> ('s, 'a) act" where
  "gets f s = (Ok (f s), s)"

definition upd :: "('s \<Rightarrow> 's) \<Rightarrow> ('s, unit) act" where
  "upd f s = (Ok (), f s)"

definition check :: "bool \<Rightarrow> nserror \<Rightarrow> ('s, unit) act" where
  "check b e = (if b then ret () else throw e)"

lemma ret_eval [act_simps]: "ret a s = (Ok a, s)"
  by (simp add: ret_def)

lemma throw_eval [act_simps]: "throw e s = (Throw e, s)"
  by (simp add: throw_def)

lemma crash_eval [act_simps]: "crash s = (Crash, s)"
  by (simp add: crash_def)

lemma gets_eval [act_simps]: "gets f s = (Ok (f s), s)"
  by (simp add: gets_def)

lemma upd_eval [act_simps]: "upd f s = (Ok (), f s)"
  by (simp add: upd_def)

lemma check_eval [act_simps]:
  "check b e s = (if b then (Ok (), s) else (Throw e, s))"
  by (simp add: check_def act_simps)

text \<open>
  \<open>bnd\<close> is evaluated from a fact about its first action; it is never unfolded
  while that action is still symbolic.
\<close>

lemma bnd_Ok [act_simps]: "f s = (Ok a, s') \<Longrightarrow> bnd f g s = g a s'"
  by (simp add: bnd_def)

lemma bnd_Throw [act_simps]: "f s = (Throw e, s') \<Longrightarrow> bnd f g s = (Throw e, s')"
  by (simp add: bnd_def)

lemma bnd_Crash [act_simps]: "f s = (Crash, s') \<Longrightarrow> bnd f g s = (Crash, s')"
  by (simp add: bnd_def)

lemma bnd_Diverge [act_simps]: "f s = (Diverge, s') \<Longrightarrow> bnd f g s = (Diverge, s')"
  by (simp add: bnd_def)

lemma bnd_ret [simp]: "bnd (ret a) g = g a"
  by (rule ext) (simp add: act_simps)

lemma bnd_assoc: "bnd (bnd f g) h = bnd f (\<lambda>a. bnd (g a) h)"
  by (rule ext) (simp add: bnd_def split: prod.split outcome.split)

lemma bnd_OkE:
  assumes "bnd f g s = (Ok b, s'')"
  obtains a s' where "f s = (Ok a, s')" and "g a s' = (Ok b, s'')"
  using assms by (auto simp: bnd_def split: prod.splits outcome.splits)

text \<open>An outcome as an action; catching an exception.\<close>

definition of_outcome :: "'a outcome \<Rightarrow> ('s, 'a) act" where
  "of_outcome r s = (r, s)"

definition try_catch :: "('s, 'a) act \<Rightarrow> (nserror \<Rightarrow> ('s, 'a) act) \<Rightarrow> ('s, 'a) act" where
  "try_catch f h s = (case f s of (Throw e, s') \<Rightarrow> h e s' | r \<Rightarrow> r)"

fun is_system_error :: "nserror \<Rightarrow> bool" where
  "is_system_error (SystemError _) = True"
| "is_system_error (IOError _) = True"
| "is_system_error _ = False"

text \<open>Actions on one of two objects.\<close>

definition on_fst :: "('s, 'a) act \<Rightarrow> ('s \<times> 't, 'a) act" where
  "on_fst f st = (case f (fst st) of (r, s) \<Rightarrow> (r, (s, snd st)))"

definition on_snd :: "('t, 'a) act \<Rightarrow> ('s \<times> 't, 'a) act" where
  "on_snd f st = (case f (snd st) of (r, t) \<Rightarrow> (r, (fst st, t)))"

text \<open>
  Loops that need not end are partial functions: \<open>None\<close> is a run that never returns.
  \<open>obnd\<close> is \<open>bnd\<close> for them, \<open>loop\<close> makes an action of one.
\<close>

definition obnd ::
  "('a outcome \<times> 's) option \<Rightarrow> ('a \<Rightarrow> 's \<Rightarrow> ('b outcome \<times> 's) option) \<Rightarrow> ('b outcome \<times> 's) option" where
  "obnd r g = (case r of
      None \<Rightarrow> None
    | Some (Ok a, s) \<Rightarrow> g a s
    | Some (Throw e, s) \<Rightarrow> Some (Throw e, s)
    | Some (Crash, s) \<Rightarrow> Some (Crash, s)
    | Some (Diverge, s) \<Rightarrow> Some (Diverge, s))"

lemma obnd_simps [simp]:
  "obnd None g = None"
  "obnd (Some (Ok a, s)) g = g a s"
  "obnd (Some (Throw e, s)) g = Some (Throw e, s)"
  "obnd (Some (Crash, s)) g = Some (Crash, s)"
  "obnd (Some (Diverge, s)) g = Some (Diverge, s)"
  by (simp_all add: obnd_def)

lemma obnd_mono [partial_function_mono]:
  assumes B: "mono_option B" and C: "\<And>a s. mono_option (\<lambda>f. C a s f)"
  shows "mono_option (\<lambda>f. obnd (B f) (\<lambda>a s. C a s f))"
proof (rule monotoneI)
  fix f g :: "'a \<Rightarrow> 'b option" assume fg: "fun_ord option_ord f g"
  with B have b: "option_ord (B f) (B g)" by (rule monotoneD [of _ _ _ f g])
  have c: "option_ord (C a s f) (C a s g)" for a s using C by (rule monotoneD) (rule fg)
  show "option_ord (obnd (B f) (\<lambda>a s. C a s f)) (obnd (B g) (\<lambda>a s. C a s g))"
  proof (cases "B f")
    case None
    then show ?thesis by (simp add: flat_ord_def obnd_def)
  next
    case (Some r)
    then have "B g = Some r" using b by (simp add: flat_ord_def)
    with Some c show ?thesis
      by (cases r) (auto simp: obnd_def flat_ord_def split: outcome.split)
  qed
qed

definition loop :: "('s \<Rightarrow> ('a outcome \<times> 's) option) \<Rightarrow> ('s, 'a) act" where
  "loop f s = (case f s of None \<Rightarrow> (Diverge, s) | Some r \<Rightarrow> r)"

lemma loop_eval [act_simps]: "f s = Some r \<Longrightarrow> loop f s = r"
  by (simp add: loop_def)

section \<open>Machine integers (LP64)\<close>

text \<open>\<open>unsigned long\<close>, \<open>size_t\<close>: 64 bits; \<open>unsigned int\<close>: 32 bits; \<open>int\<close>: 32 bits, two's complement.\<close>

definition u64 :: "nat \<Rightarrow> nat" where
  "u64 n = n mod 2 ^ 64"

definition u32 :: "nat \<Rightarrow> nat" where
  "u32 n = n mod 2 ^ 32"

definition i32 :: "int \<Rightarrow> int" where
  "i32 i = (i + 2 ^ 31) mod 2 ^ 32 - 2 ^ 31"

definition u32_of_int :: "int \<Rightarrow> nat" where
  "u32_of_int i = nat (i mod 2 ^ 32)"

definition u64_of_int :: "int \<Rightarrow> nat" where
  "u64_of_int i = nat (i mod 2 ^ 64)"

lemma u64_small [simp]: "n < 2 ^ 64 \<Longrightarrow> u64 n = n"
  by (simp add: u64_def)

lemma u64_less [simp]: "u64 n < 2 ^ 64"
  by (simp add: u64_def)

lemma u32_small [simp]: "n < 2 ^ 32 \<Longrightarrow> u32 n = n"
  by (simp add: u32_def)

lemma i32_small [simp]: "- (2 ^ 31) \<le> i \<Longrightarrow> i < 2 ^ 31 \<Longrightarrow> i32 i = i"
  by (simp add: i32_def)

lemma i32_bounds: "- (2 ^ 31) \<le> i32 i \<and> i32 i < 2 ^ 31"
  by (simp add: i32_def)

lemma u64_of_int_small [simp]: "0 \<le> i \<Longrightarrow> i < 2 ^ 64 \<Longrightarrow> u64_of_int i = nat i"
  by (simp add: u64_of_int_def)

lemma u32_of_int_small [simp]: "0 \<le> i \<Longrightarrow> i < 2 ^ 32 \<Longrightarrow> u32_of_int i = nat i"
  by (simp add: u32_of_int_def)

text \<open>Rounding to a multiple of a power of two, as \<open>x & ~(k - 1)\<close> does.\<close>

definition round_down :: "nat \<Rightarrow> nat \<Rightarrow> nat" where
  "round_down k n = n div k * k"

lemma round_down_le: "round_down k n \<le> n"
  by (simp add: round_down_def)

lemma round_down_dvd [simp]: "k dvd round_down k n"
  by (simp add: round_down_def)

lemma round_down_gt: "0 < k \<Longrightarrow> n < round_down k n + k"
  by (metis add.commute add_less_cancel_left div_mult_mod_eq mod_less_divisor round_down_def)

section \<open>C strings\<close>

abbreviation NUL :: char where "NUL \<equiv> CHR 0x00"
abbreviation TAB :: char where "TAB \<equiv> CHR 0x09"
abbreviation LF :: char where "LF \<equiv> CHR 0x0A"
abbreviation CR :: char where "CR \<equiv> CHR 0x0D"

definition CRLF :: string where "CRLF = [CR, LF]"

text \<open>
  A \<open>char *\<close> that walks over a string is the suffix it points to; \<open>deref\<close> reads the
  character under it, which at the end of the string is the terminating zero.
  \<open>chr_at\<close> is the same for an index.
\<close>

definition deref :: "string \<Rightarrow> char" where
  "deref p = (case p of [] \<Rightarrow> NUL | c # _ \<Rightarrow> c)"

definition chr_at :: "string \<Rightarrow> nat \<Rightarrow> char" where
  "chr_at s i = (if i < length s then s ! i else NUL)"

lemma deref_simps [simp]: "deref [] = NUL" "deref (c # p) = c"
  by (simp_all add: deref_def)

lemma chr_at_drop: "deref (drop i s) = chr_at s i"
  by (auto simp: deref_def chr_at_def split: list.split)
     (metis Cons_nth_drop_Suc drop_eq_Nil list.inject not_le list.distinct(1))+

text \<open>What \<open>c_str()\<close> hands to a function that stops at the first zero.\<close>

definition c_str :: "string \<Rightarrow> string" where
  "c_str s = takeWhile (\<lambda>c. c \<noteq> NUL) s"

lemma c_str_id: "NUL \<notin> set s \<Longrightarrow> c_str s = s"
  by (auto simp: c_str_def takeWhile_eq_all_conv)

definition isspace :: "char \<Rightarrow> bool" where
  "isspace c \<longleftrightarrow> c \<in> {CHR '' '', TAB, LF, CHR 0x0B, CHR 0x0C, CR}"

definition isdigit :: "char \<Rightarrow> bool" where
  "isdigit c \<longleftrightarrow> 48 \<le> (of_char c :: nat) \<and> (of_char c :: nat) \<le> 57"

definition tolower :: "char \<Rightarrow> char" where
  "tolower c = (if 65 \<le> (of_char c :: nat) \<and> (of_char c :: nat) \<le> 90
                then char_of ((of_char c :: nat) + 32) else c)"

definition strcaseeq :: "string \<Rightarrow> string \<Rightarrow> bool" where
  "strcaseeq a b \<longleftrightarrow> map tolower a = map tolower b"

definition strncaseeq :: "string \<Rightarrow> string \<Rightarrow> nat \<Rightarrow> bool" where
  "strncaseeq a b n \<longleftrightarrow> map tolower (take n a) = map tolower (take n b)"

definition strneq :: "string \<Rightarrow> string \<Rightarrow> nat \<Rightarrow> bool" where
  "strneq a b n \<longleftrightarrow> take n a = take n b"

lemma isspace_NUL [simp]: "\<not> isspace NUL"
  by (simp add: isspace_def)

lemma isdigit_not_space: "isdigit c \<Longrightarrow> \<not> isspace c"
  by (auto simp: isdigit_def isspace_def)

subsection \<open>Numbers in text\<close>

definition digit_val :: "char \<Rightarrow> nat" where
  "digit_val c = (of_char c :: nat) - 48"

fun scan_digits :: "nat \<Rightarrow> string \<Rightarrow> nat \<times> string" where
  "scan_digits acc [] = (acc, [])"
| "scan_digits acc (c # p) =
     (if isdigit c then scan_digits (acc * 10 + digit_val c) p else (acc, c # p))"

definition clamp64 :: "int \<Rightarrow> int" where
  "clamp64 i = max (- (2 ^ 63)) (min (2 ^ 63 - 1) i)"

text \<open>
  \<open>strtol(p, &e, 10)\<close>: white space, an optional sign, digits. Without a digit the
  value is 0 and \<open>e\<close> is \<open>p\<close> itself.
\<close>

definition strtol :: "string \<Rightarrow> int \<times> string" where
  "strtol p =
     (let q = dropWhile isspace p;
          neg = (deref q = CHR ''-'');
          r = (if deref q = CHR ''-'' \<or> deref q = CHR ''+'' then tl q else q)
      in if isdigit (deref r)
         then (let (v, e) = scan_digits 0 r
               in (clamp64 (if neg then - int v else int v), e))
         else (0, p))"

definition atoi :: "string \<Rightarrow> int" where
  "atoi s = i32 (fst (strtol s))"

text \<open>Decimal printing, as \<open>operator<<\<close> and \<open>%u\<close> do it.\<close>

fun show_nat :: "nat \<Rightarrow> string" where
  "show_nat n = (if n < 10 then [char_of (48 + n)]
                 else show_nat (n div 10) @ [char_of (48 + n mod 10)])"

declare show_nat.simps [simp del]

definition show_int :: "int \<Rightarrow> string" where
  "show_int i = (if i < 0 then CHR ''-'' # show_nat (nat (- i)) else show_nat (nat i))"

lemma of_char_digit: "d < 10 \<Longrightarrow> (of_char (char_of (48 + d :: nat)) :: nat) = 48 + d"
  by (simp add: of_char_of)

lemma isdigit_char_of [simp]: "d < 10 \<Longrightarrow> isdigit (char_of (48 + d :: nat))"
  by (simp add: isdigit_def)

lemma digit_val_char_of [simp]: "d < 10 \<Longrightarrow> digit_val (char_of (48 + d :: nat)) = d"
  by (simp add: digit_val_def)

lemma show_nat_digits: "c \<in> set (show_nat n) \<Longrightarrow> isdigit c"
proof (induction n rule: show_nat.induct)
  case (1 n)
  show ?case
  proof (cases "n < 10")
    case True
    with 1 show ?thesis by (simp add: show_nat.simps [of n])
  next
    case False
    with 1 show ?thesis by (auto simp: show_nat.simps [of n])
  qed
qed

lemma show_nat_nonempty [simp]: "show_nat n \<noteq> []"
  by (subst show_nat.simps) simp

lemma scan_digits_append:
  "(\<forall>c \<in> set ds. isdigit c) \<Longrightarrow>
   scan_digits acc (ds @ p) = scan_digits (fst (scan_digits acc ds)) p"
  by (induction ds arbitrary: acc) auto

lemma scan_digits_rest:
  "(\<forall>c \<in> set ds. isdigit c) \<Longrightarrow> snd (scan_digits acc ds) = []"
  by (induction ds arbitrary: acc) auto

lemma scan_digits_show:
  "fst (scan_digits 0 (show_nat n)) = n"
proof (induction n rule: show_nat.induct)
  case (1 n)
  show ?case
  proof (cases "n < 10")
    case True
    then show ?thesis by (simp add: show_nat.simps [of n])
  next
    case False
    with 1 show ?thesis
      by (simp add: show_nat.simps [of n] scan_digits_append show_nat_digits)
  qed
qed

lemma deref_show_nat [simp]: "isdigit (deref (show_nat n @ p))"
proof -
  have "deref (show_nat n @ p) \<in> set (show_nat n)"
    by (cases "show_nat n") simp_all
  then show ?thesis by (rule show_nat_digits)
qed

text \<open>Printing a number and reading it back.\<close>

lemma strtol_show_nat:
  assumes "n < 2 ^ 63" and "\<not> isdigit (deref p)"
  shows "strtol (show_nat n @ p) = (int n, p)"
proof -
  have d: "isdigit (deref (show_nat n @ p))" by simp
  have sp: "dropWhile isspace (show_nat n @ p) = show_nat n @ p"
    using d isdigit_not_space by (cases "show_nat n @ p") auto
  have ns: "deref (show_nat n @ p) \<noteq> CHR ''-''" "deref (show_nat n @ p) \<noteq> CHR ''+''"
    using d by (auto simp: isdigit_def)
  have "scan_digits 0 (show_nat n @ p) = (n, p)"
    using assms(2) by (cases p)
      (simp_all add: scan_digits_append scan_digits_rest show_nat_digits scan_digits_show
        prod_eq_iff)
  moreover have "clamp64 (int n) = int n"
    using assms(1) by (simp add: clamp64_def)
  ultimately show ?thesis
    using d by (simp add: strtol_def sp ns Let_def)
qed

lemma atoi_show_nat:
  assumes "n < 2 ^ 31" and "\<not> isdigit (deref p)"
  shows "atoi (show_nat n @ p) = int n"
  using assms by (simp add: atoi_def strtol_show_nat)

section \<open>Lists\<close>

lemma takeWhile_dropWhile_length:
  "length (dropWhile P xs) = length xs - length (takeWhile P xs)"
  by (metis add_diff_cancel_left' length_append takeWhile_dropWhile_id)

lemma tl_dropWhile_shorter:
  assumes "dropWhile P xs \<noteq> []"
  shows "length (tl (dropWhile P xs)) < length xs"
proof -
  have "0 < length (dropWhile P xs)" using assms length_greater_0_conv by blast
  moreover have "length (dropWhile P xs) \<le> length xs" by (rule length_dropWhile_le)
  ultimately show ?thesis unfolding length_tl by linarith
qed

lemma sum_list_map_filter_split:
  fixes f :: "'a \<Rightarrow> nat"
  shows "sum_list (map f (filter P xs)) + sum_list (map f (filter (\<lambda>x. \<not> P x) xs))
         = sum_list (map f xs)"
  by (induction xs) auto

lemma takeWhile_stop: "(\<forall>c \<in> set l. P c) \<Longrightarrow> \<not> P d \<Longrightarrow>
    takeWhile P (l @ d # r) = l \<and> dropWhile P (l @ d # r) = d # r"
  by (induction l) auto

end
