(* ===== verification/NV_Container.thy ===== *)
theory NV_Container
  imports NC_Prelude
begin

text \<open>
  NVClasses-0.9.1/NVcontainer.{h,cc}: the persistent container. A database file is
  mapped into memory; its header names a circular list of free blocks, from which
  \<open>nvalloc\<close> takes and to which \<open>nvfree\<close> returns; a stack of 16 nested locks is kept
  over one POSIX record lock. Pointers into the mapping are offsets (0 is the null
  pointer, as in \<open>o2fl\<close>), so that remapping by \<open>make_current\<close> does not move them.
  The answers of the operating system are the fields of \<open>osenv\<close>.
  \<open>ENABLE_ASSERTIONS\<close> is on, as configure.in sets it by default.
\<close>

section \<open>Byte memory\<close>

type_synonym mem = "nat \<Rightarrow> nat"

fun rdn :: "mem \<Rightarrow> nat \<Rightarrow> nat \<Rightarrow> nat" where
  "rdn m a 0 = 0"
| "rdn m a (Suc n) = m a mod 256 + 256 * rdn m (Suc a) n"

definition wrn :: "mem \<Rightarrow> nat \<Rightarrow> nat \<Rightarrow> nat \<Rightarrow> mem" where
  "wrn m a n v = (\<lambda>x. if a \<le> x \<and> x < a + n then v div 256 ^ (x - a) mod 256 else m x)"

definition rl :: "mem \<Rightarrow> nat \<Rightarrow> nat" where  \<comment> \<open>\<open>*(unsigned long *)\<close>\<close>
  "rl m a = rdn m a 8"

definition wl :: "mem \<Rightarrow> nat \<Rightarrow> nat \<Rightarrow> mem" where
  "wl m a v = wrn m a 8 v"

definition rbytes :: "mem \<Rightarrow> nat \<Rightarrow> nat \<Rightarrow> string" where
  "rbytes m a n = map (\<lambda>i. char_of (m (a + i))) [0..<n]"

definition wbytes :: "mem \<Rightarrow> nat \<Rightarrow> string \<Rightarrow> mem" where  \<comment> \<open>\<open>memcpy\<close>\<close>
  "wbytes m a d = (\<lambda>x. if a \<le> x \<and> x < a + length d then of_char (d ! (x - a)) else m x)"

text \<open>Two memories agree on the \<open>n\<close> bytes at \<open>a\<close>.\<close>

definition agree :: "mem \<Rightarrow> mem \<Rightarrow> nat \<Rightarrow> nat \<Rightarrow> bool" where
  "agree m m' a n \<longleftrightarrow> (\<forall>x. a \<le> x \<and> x < a + n \<longrightarrow> m x = m' x)"

lemma agree_refl [simp]: "agree m m a n"
  by (simp add: agree_def)

lemma agree_trans: "agree m m' a n \<Longrightarrow> agree m' m'' a n \<Longrightarrow> agree m m'' a n"
  by (simp add: agree_def)

lemma agree_sym: "agree m m' a n \<Longrightarrow> agree m' m a n"
  by (simp add: agree_def)

lemma agree_sub: "agree m m' a n \<Longrightarrow> a \<le> b \<Longrightarrow> b + k \<le> a + n \<Longrightarrow> agree m m' b k"
  by (simp add: agree_def)

lemma rdn_cong: "agree m m' a n \<Longrightarrow> rdn m a n = rdn m' a n"
  by (induction m a n rule: rdn.induct) (auto simp: agree_def)

lemma rl_cong: "agree m m' a 8 \<Longrightarrow> rl m a = rl m' a"
  by (simp add: rl_def rdn_cong)

lemma rbytes_cong: "agree m m' a n \<Longrightarrow> rbytes m a n = rbytes m' a n"
  by (simp add: rbytes_def agree_def)

lemma agree_wrn: "b + k \<le> a \<or> a + n \<le> b \<Longrightarrow> agree (wrn m a n v) m b k"
  by (auto simp: agree_def wrn_def)

lemma agree_wl: "b + k \<le> a \<or> a + 8 \<le> b \<Longrightarrow> agree (wl m a v) m b k"
  by (simp add: wl_def agree_wrn)

lemma agree_wbytes: "b + k \<le> a \<or> a + length d \<le> b \<Longrightarrow> agree (wbytes m a d) m b k"
  by (auto simp: agree_def wbytes_def)

lemma rdn_wrn_same: "rdn (wrn m a n v) a n = v mod 256 ^ n"
proof (induction n arbitrary: m a v)
  case 0
  show ?case by simp
next
  case (Suc n)
  have "agree (wrn m a (Suc n) v) (wrn m (Suc a) n (v div 256)) (Suc a) n"
    by (auto simp: agree_def wrn_def div_mult2_eq dest!: le_Suc_ex)
  then have "rdn (wrn m a (Suc n) v) (Suc a) n = v div 256 mod 256 ^ n"
    by (simp add: rdn_cong Suc.IH)
  moreover have "wrn m a (Suc n) v a = v mod 256"
    by (simp add: wrn_def)
  ultimately show ?case
    by (simp add: mod_mult2_eq)
qed

lemma rl_wl_same [mem_simps]: "rl (wl m a v) a = u64 v"
  by (simp add: rl_def wl_def rdn_wrn_same u64_def)

lemma rl_wl_other [mem_simps]: "b + 8 \<le> a \<or> a + 8 \<le> b \<Longrightarrow> rl (wl m a v) b = rl m b"
  by (rule rl_cong) (simp add: agree_wl)

lemma rl_wbytes_other [mem_simps]:
  "b + 8 \<le> a \<or> a + length d \<le> b \<Longrightarrow> rl (wbytes m a d) b = rl m b"
  by (rule rl_cong) (simp add: agree_wbytes)

lemma rdn_less: "rdn m a n < 256 ^ n"
proof (induction n arbitrary: a)
  case 0
  show ?case by simp
next
  case (Suc n)
  have "m a mod 256 < 256" by simp
  moreover have "256 * rdn m (Suc a) n + 256 \<le> 256 * 256 ^ n"
    using Suc [of "Suc a"] by (metis Suc_leI mult_Suc_right add.commute mult_le_mono2)
  ultimately show ?case by simp
qed

lemma rl_less: "rl m a < 2 ^ 64"
proof -
  have "rdn m a 8 < 256 ^ 8" by (rule rdn_less)
  also have "(256::nat) ^ 8 = 2 ^ 64" by simp
  finally show ?thesis by (simp only: rl_def)
qed

lemma rl_less_num [simp]: "rl m a < 18446744073709551616"
  using rl_less [of m a] by simp

lemma rbytes_wbytes_same [mem_simps]: "rbytes (wbytes m a d) a (length d) = d"
  by (rule nth_equalityI) (simp_all add: rbytes_def wbytes_def)

section \<open>The container object and its environment\<close>

datatype lockcmd = UnLock | ShrdLock | ExclLock
datatype lockblock = Block | NoBlock
datatype errno = EACCES | EAGAIN | EWOULDBLOCK | EBADF | EOTHER

text \<open>Which class the object is of: the virtual \<open>make_current\<close> dispatches on it.\<close>

datatype vclass = ClsContainer | ClsArray | ClsHash

text \<open>\<open>NullPtr\<close>: \<open>mem_p == NULL\<close>; \<open>Dangling\<close>: \<open>mem_p\<close> points to an unmapped region.\<close>

datatype mapstate = NullPtr | Live | Dangling

record osenv =
  os_fcntl :: "lockcmd \<Rightarrow> lockblock \<Rightarrow> errno option"
  os_fstat :: bool
  os_ftruncate :: "nat \<Rightarrow> bool"
  os_mmap :: "nat \<Rightarrow> bool"
  os_open :: "string \<Rightarrow> bool"
  os_write :: bool
  os_rename :: bool

record nvc =
  lck_stack :: "lockcmd list"
  lck_stackp :: nat
  klock :: lockcmd            \<comment> \<open>the record lock the kernel holds for the process\<close>
  mem_fn :: string
  mem_fd :: bool              \<comment> \<open>\<open>mem_fd >= 0\<close>\<close>
  mem_p :: mapstate
  mem_sz :: nat
  fbytes :: mem               \<comment> \<open>content and length of the open file\<close>
  fsize :: nat
  fname :: "string option"    \<comment> \<open>the name it is linked under\<close>
  disk :: "string \<Rightarrow> (mem \<times> nat) option"
  vcls :: vclass
  arrtab :: nat
  arrfst :: nat
  arrlst :: nat
  hashtab :: nat
  hashsz :: nat
  os :: osenv

definition LOCKSTACKSIZE :: nat where "LOCKSTACKSIZE = 16"

abbreviation (input) "SZ_HEADER \<equiv> (48::nat)"
abbreviation (input) "SZ_FREELIST \<equiv> (16::nat)"
abbreviation (input) "SZ_ULONG \<equiv> (8::nat)"

text \<open>Offsets of the fields of \<open>Header\<close> and \<open>FreeList\<close>.\<close>

abbreviation (input) "H_hlen \<equiv> (0::nat)"
abbreviation (input) "H_version \<equiv> (4::nat)"
abbreviation (input) "H_size \<equiv> (8::nat)"
abbreviation (input) "H_mtime \<equiv> (16::nat)"
abbreviation (input) "H_freelist \<equiv> (24::nat)"
abbreviation (input) "H_bytes_free \<equiv> (32::nat)"
abbreviation (input) "H_userdata \<equiv> (40::nat)"
abbreviation (input) "FL_next \<equiv> (0::nat)"
abbreviation (input) "FL_size \<equiv> (8::nat)"

definition sub64 :: "nat \<Rightarrow> nat \<Rightarrow> nat" where
  "sub64 a b = u64 (a + (2 ^ 64 - u64 b))"

lemma sub64_le [simp]:
  assumes "b \<le> a" and "a < 2 ^ 64"
  shows "sub64 a b = a - b"
proof -
  have "u64 b = b" using assms by simp
  then have "sub64 a b = (a - b + 2 ^ 64) mod 2 ^ 64"
    using assms by (simp add: sub64_def u64_def)
  also have "\<dots> = a - b"
    using assms by (simp only: mod_add_self2) simp
  finally show ?thesis .
qed

subsection \<open>Memory accesses through \<open>mem_p\<close>\<close>

definition in_map :: "nvc \<Rightarrow> nat \<Rightarrow> nat \<Rightarrow> bool" where
  "in_map s a n \<longleftrightarrow> mem_p s = Live \<and> a + n \<le> mem_sz s"

definition rd :: "nat \<Rightarrow> (nvc, nat) act" where
  "rd a s = (if in_map s a 8 then (Ok (rl (fbytes s) a), s) else (Crash, s))"

definition rd4 :: "nat \<Rightarrow> (nvc, nat) act" where
  "rd4 a s = (if in_map s a 4 then (Ok (rdn (fbytes s) a 4), s) else (Crash, s))"

definition wr :: "nat \<Rightarrow> nat \<Rightarrow> (nvc, unit) act" where
  "wr a v s = (if in_map s a 8 then (Ok (), s\<lparr>fbytes := wl (fbytes s) a v\<rparr>) else (Crash, s))"

definition memcpy_to :: "nat \<Rightarrow> string \<Rightarrow> (nvc, unit) act" where
  "memcpy_to a d s = (if in_map s a (length d)
     then (Ok (), s\<lparr>fbytes := wbytes (fbytes s) a d\<rparr>) else (Crash, s))"

text \<open>Field \<open>k\<close> of the structure a pointer points to; the null pointer faults.\<close>

definition rdf :: "nat \<Rightarrow> nat \<Rightarrow> (nvc, nat) act" where
  "rdf p k = (if p = 0 then crash else rd (p + k))"

definition wrf :: "nat \<Rightarrow> nat \<Rightarrow> nat \<Rightarrow> (nvc, unit) act" where
  "wrf p k v = (if p = 0 then crash else wr (p + k) v)"

subsection \<open>Mapping the file: \<open>make_current\<close>, \<open>close\<close>\<close>

definition nvcontainer_new :: "vclass \<Rightarrow> osenv \<Rightarrow> (string \<Rightarrow> (mem \<times> nat) option) \<Rightarrow> nvc" where
  "nvcontainer_new c e d =
     \<lparr>lck_stack = replicate LOCKSTACKSIZE UnLock, lck_stackp = LOCKSTACKSIZE, klock = UnLock,
      mem_fn = [], mem_fd = False, mem_p = NullPtr, mem_sz = 0,
      fbytes = (\<lambda>_. 0), fsize = 0, fname = None, disk = d, vcls = c,
      arrtab = 0, arrfst = 1, arrlst = 0, hashtab = 0, hashsz = 0, os = e\<rparr>"

definition close_nv :: "(nvc, unit) act" where
  "close_nv = bnd (gets mem_fd) (\<lambda>fd.
     if \<not> fd then ret ()
     else upd (\<lambda>s. s\<lparr>disk := (case fname s of None \<Rightarrow> disk s
                                 | Some f \<Rightarrow> (disk s)(f \<mapsto> (fbytes s, fsize s))),
                       klock := UnLock, lck_stackp := LOCKSTACKSIZE,
                       mem_fn := [], mem_fd := False, mem_p := NullPtr, fname := None\<rparr>))"

definition rename_to_bad_and_close :: "(nvc, unit) act" where
  "rename_to_bad_and_close =
     bnd (upd (\<lambda>s. if os_rename (os s)
                    then s\<lparr>fname := Some (mem_fn s @ ''.bad'')\<rparr> else s))
         (\<lambda>_. close_nv)"

definition is_current :: "(nvc, bool) act" where
  "is_current = bnd (rd H_size) (\<lambda>sz. gets (\<lambda>s. mem_sz s = sz))"

definition getdata :: "(nvc, nat) act" where
  "getdata = rd H_userdata"

definition getdatap :: nat where
  "getdatap = H_userdata"

definition setdata :: "nat \<Rightarrow> (nvc, unit) act" where
  "setdata d = wr H_userdata d"

definition remap_nv :: "(nvc, unit) act" where
  "remap_nv =
     bnd (gets id) (\<lambda>s0.
     bnd (check (os_fstat (os s0)) (SystemError ''NVContainer(20801): fstat failed'')) (\<lambda>_.
     bnd (check (\<not> fsize s0 \<le> SZ_HEADER + SZ_FREELIST)
                (Error ''NVConatiner::make_current(): info-record shrunk'')) (\<lambda>_.
     bnd (upd (\<lambda>s. s\<lparr>mem_sz := fsize s,
                        mem_p := (if os_mmap (os s) (fsize s) then Live else NullPtr)\<rparr>)) (\<lambda>_.
     bnd (check (os_mmap (os s0) (fsize s0))
                (SystemError ''NVContainer::make_current(): mmap failed'')) (\<lambda>_.
     bnd (rd4 H_hlen) (\<lambda>hlen.
     if hlen \<noteq> SZ_HEADER then
       bnd rename_to_bad_and_close (\<lambda>_.
         throw (Error ''NVConatiner::make_current(): wrong header size''))
     else
     bnd (rd4 H_version) (\<lambda>version.
     if version \<noteq> 2 then
       bnd rename_to_bad_and_close (\<lambda>_.
         throw (Error ''NVConatiner::make_current(): wrong header version''))
     else
     bnd (rd H_size) (\<lambda>_. ret ()))))))))"

definition make_current_nv :: "(nvc, unit) act" where
  "make_current_nv =
     bnd (gets mem_p) (\<lambda>p.
     if p = NullPtr then remap_nv
     else bnd is_current (\<lambda>cur.
       if cur then ret ()
       else bnd (upd (\<lambda>s. s\<lparr>mem_p := Dangling\<rparr>)) (\<lambda>_. remap_nv)))"

definition make_current_array :: "(nvc, unit) act" where
  "make_current_array =
     bnd (gets mem_p) (\<lambda>p.
     bnd (if p = NullPtr then ret False else is_current) (\<lambda>cur.
     bnd (if cur then ret () else make_current_nv) (\<lambda>_.
     bnd getdata (\<lambda>adata.
     if adata = 0 then upd (\<lambda>s. s\<lparr>arrtab := 0, arrfst := 1, arrlst := 0\<rparr>)
     else bnd (rd adata) (\<lambda>f.
          bnd (rd (adata + SZ_ULONG)) (\<lambda>l.
          upd (\<lambda>s. s\<lparr>arrtab := adata + 2 * SZ_ULONG, arrfst := f, arrlst := l\<rparr>)))))))"

definition make_current_hash :: "(nvc, unit) act" where
  "make_current_hash =
     bnd (gets mem_p) (\<lambda>p.
     bnd (if p = NullPtr then ret False else is_current) (\<lambda>cur.
     if cur then ret ()
     else bnd make_current_nv (\<lambda>_.
       bnd getdata (\<lambda>hdata.
       if hdata = 0 then upd (\<lambda>s. s\<lparr>hashtab := 0, hashsz := 0\<rparr>)
       else bnd (rd hdata) (\<lambda>n.
            upd (\<lambda>s. s\<lparr>hashtab := hdata + SZ_ULONG, hashsz := n\<rparr>))))))"

definition make_current :: "(nvc, unit) act" where
  "make_current = bnd (gets vcls) (\<lambda>c. case c of
       ClsContainer \<Rightarrow> make_current_nv
     | ClsArray \<Rightarrow> make_current_array
     | ClsHash \<Rightarrow> make_current_hash)"

subsection \<open>Locking\<close>

definition nvflock :: "lockcmd \<Rightarrow> lockblock \<Rightarrow> (nvc, errno option) act" where
  "nvflock cmd blk s =
     (if \<not> mem_fd s then (Ok (Some EBADF), s)
      else case (if cmd \<noteq> UnLock then os_fcntl (os s) UnLock blk else None) of
        Some e \<Rightarrow> (Ok (Some e), s)
      | None \<Rightarrow>
          (let s1 = (if cmd \<noteq> UnLock then s\<lparr>klock := UnLock\<rparr> else s)
           in case os_fcntl (os s) cmd blk of
                None \<Rightarrow> (Ok None, s1\<lparr>klock := cmd\<rparr>)
              | Some e \<Rightarrow>
                  (Ok (Some (if e = EACCES \<or> e = EAGAIN then EWOULDBLOCK else e)), s1)))"

definition get_lock :: "nvc \<Rightarrow> lockcmd" where
  "get_lock s = (if lck_stackp s < LOCKSTACKSIZE then lck_stack s ! lck_stackp s else UnLock)"

text \<open>The second half of \<open>lock\<close>: tell the kernel, if the lock to be held has changed.\<close>

definition relock :: "lockcmd \<Rightarrow> lockcmd \<Rightarrow> lockblock \<Rightarrow> (nvc, int) act" where
  "relock curLock command blk =
     (if curLock = command then ret 0
      else bnd (nvflock command blk) (\<lambda>res. case res of
          Some e \<Rightarrow>
            (if e = EWOULDBLOCK \<and> blk = NoBlock
             then bnd (upd (\<lambda>s. s\<lparr>lck_stackp := lck_stackp s + 1\<rparr>)) (\<lambda>_. ret (- 1))
             else throw (SystemError ''NVContainer::lock(): flock failed''))
        | None \<Rightarrow>
            (if command \<noteq> UnLock then bnd make_current (\<lambda>_. ret 0) else ret 0)))"

definition lock :: "lockcmd \<Rightarrow> lockblock \<Rightarrow> (nvc, int) act" where
  "lock command blk =
     bnd (gets get_lock) (\<lambda>curLock.
     bnd (gets lck_stackp) (\<lambda>sp.
     if command = UnLock then
       bnd (check (sp < LOCKSTACKSIZE)
              (Error ''NVContainer::lock(): Lock Stack underflow'')) (\<lambda>_.
       bnd (upd (\<lambda>s. s\<lparr>lck_stackp := sp + 1\<rparr>)) (\<lambda>_.
       bnd (gets get_lock) (\<lambda>command'. relock curLock command' blk)))
     else
       bnd (check (sp \<noteq> 0) (Error ''NVContainer::lock(): Lock Stack overflow'')) (\<lambda>_.
       (let command' = (if curLock = ExclLock then ExclLock else command)
        in bnd (upd (\<lambda>s. s\<lparr>lck_stackp := sp - 1,
                            lck_stack := (lck_stack s)[sp - 1 := command']\<rparr>)) (\<lambda>_.
           relock curLock command' blk)))))"

subsection \<open>Allocation\<close>

definition resize :: "nat \<Rightarrow> (nvc, nat) act" where
  "resize nsz0 =
     bnd (gets mem_sz) (\<lambda>msz.
     if nsz0 < msz then ret msz
     else
     bnd (lock ExclLock Block) (\<lambda>_.
     bnd (rd H_freelist) (\<lambda>flhead.
     bnd (gets (\<lambda>s. u64 (round_down 0x10000 (u64 (nsz0 + 0x10000))))) (\<lambda>nsz.
     bnd (gets (\<lambda>s. os_ftruncate (os s) nsz)) (\<lambda>ok.
     bnd (check ok (SystemError ''NVConatiner::resize(): ftruncate failed'')) (\<lambda>_.
     bnd (upd (\<lambda>s. s\<lparr>fbytes := (\<lambda>x. if fsize s \<le> x then 0 else fbytes s x),
                        fsize := nsz\<rparr>)) (\<lambda>_.
     bnd (gets mem_sz) (\<lambda>msz'.
     bnd (rd H_bytes_free) (\<lambda>bf.
     bnd (wr H_bytes_free (u64 (bf + sub64 nsz msz'))) (\<lambda>_.
     bnd (rdf flhead FL_size) (\<lambda>fsz.
     bnd (wrf flhead FL_size (u64 (fsz + sub64 nsz msz'))) (\<lambda>_.
     bnd (wr H_size nsz) (\<lambda>_.
     bnd make_current (\<lambda>_.
     bnd (lock UnLock Block) (\<lambda>_.
     gets mem_sz)))))))))))))))"

text \<open>
  The search for the first block that is large enough. On a corrupted list it need not
  stop, hence \<open>None\<close>; \<open>Some Crash\<close> is a null or wild pointer.
\<close>

definition peek :: "nvc \<Rightarrow> nat \<Rightarrow> nat \<Rightarrow> nat option" where
  "peek s p k = (if p \<noteq> 0 \<and> in_map s (p + k) 8 then Some (rl (fbytes s) (p + k)) else None)"

partial_function (option) find_block ::
  "nvc \<Rightarrow> nat \<Rightarrow> nat \<Rightarrow> nat \<Rightarrow> nat \<Rightarrow> (nat \<times> nat) outcome option" where
  "find_block s flhead rsz prv cur =
     (case peek s cur FL_size of
        None \<Rightarrow> Some Crash
      | Some sz \<Rightarrow>
          if sz < rsz \<and> cur \<noteq> flhead
          then (case peek s cur FL_next of
                  None \<Rightarrow> Some Crash
                | Some nxt \<Rightarrow> find_block s flhead rsz cur nxt)
          else Some (Ok (prv, cur)))"

declare find_block.simps [code]

definition nvalloc_find :: "nat \<Rightarrow> nat \<Rightarrow> nat \<Rightarrow> nat \<Rightarrow> (nvc, nat \<times> nat) act" where
  "nvalloc_find flhead rsz prv cur s =
     (case find_block s flhead rsz prv cur of None \<Rightarrow> (Diverge, s) | Some r \<Rightarrow> (r, s))"

text \<open>The last block is grown, when it cannot give \<open>rsz\<close> bytes and stay a block.\<close>

definition nvalloc_grow :: "nat \<Rightarrow> nat \<Rightarrow> nat \<Rightarrow> nat \<Rightarrow> (nvc, nat \<times> nat \<times> nat) act" where
  "nvalloc_grow flhead rsz prv cur =
     (if cur \<noteq> flhead then ret (flhead, prv, cur)
      else bnd (rdf flhead FL_size) (\<lambda>fsz.
        if fsz < u64 (rsz + SZ_FREELIST) then
          (let needsz = i32 (int (sub64 (u64 (rsz + SZ_FREELIST)) fsz))
           in bnd (gets mem_sz) (\<lambda>msz.
              bnd (resize (u64_of_int (int msz + needsz))) (\<lambda>_.
              bnd (rd H_freelist) (\<lambda>flhead'.
              bnd (rdf flhead' FL_size) (\<lambda>csz.
              bnd (check (\<not> csz < u64 (rsz + SZ_FREELIST))
                     (AssertionError ''NVContainer::nvalloc: resize failed'')) (\<lambda>_.
              ret (flhead', prv, flhead')))))))
        else ret (flhead, prv, cur)))"

text \<open>Take the block \<open>res\<close> off the list, or its first \<open>rsz\<close> bytes; the size taken is returned.\<close>

definition nvalloc_carve :: "nat \<Rightarrow> nat \<Rightarrow> nat \<Rightarrow> nat \<Rightarrow> (nvc, nat) act" where
  "nvalloc_carve flhead rsz prv res =
     bnd (rdf res FL_size) (\<lambda>csz.
     if csz < u64 (rsz + SZ_FREELIST) then
       bnd (check (res \<noteq> flhead)
         (AssertionError ''NVContainer::nvalloc: Cannot split block of free memory at tail of database'')) (\<lambda>_.
       bnd (rdf res FL_next) (\<lambda>nxt.
       bnd (wrf prv FL_next nxt) (\<lambda>_. ret csz)))
     else
       (let cur = res + rsz
        in bnd (wrf cur FL_size (sub64 csz rsz)) (\<lambda>_.
           if prv \<noteq> res then
             bnd (rdf res FL_next) (\<lambda>nxt.
             bnd (wrf cur FL_next nxt) (\<lambda>_.
             bnd (wrf prv FL_next cur) (\<lambda>_.
             bnd (if res = flhead then wr H_freelist cur else ret ()) (\<lambda>_. ret rsz))))
           else
             bnd (check (res = flhead)
               (AssertionError ''NVList::nvalloc: Lost block of free memory at tail of database'')) (\<lambda>_.
             bnd (wrf cur FL_next cur) (\<lambda>_.
             bnd (wr H_freelist cur) (\<lambda>_. ret rsz))))))"

definition nvalloc :: "nat \<Rightarrow> (nvc, nat) act" where
  "nvalloc rsz0 =
     bnd (lock ExclLock Block) (\<lambda>_.
     bnd (rd H_freelist) (\<lambda>flhead.
     bnd (gets (\<lambda>s. round_down 16 (u64 (rsz0 + SZ_ULONG + 0xf)))) (\<lambda>rsz.
     bnd (check (flhead \<noteq> 0)
       (Error ''NVContainer(5946): Database file corrupted (freelist==NULL)'')) (\<lambda>_.
     bnd (rdf flhead FL_next) (\<lambda>first.
     bnd (nvalloc_find flhead rsz flhead first) (\<lambda>(prv, cur).
     bnd (nvalloc_grow flhead rsz prv cur) (\<lambda>(flhead', prv', res).
     bnd (rdf res FL_size) (\<lambda>csz.
     bnd (check (\<not> csz < rsz) (AssertionError
       ''NVContainer::nvalloc: did not find a large enough free memory block'')) (\<lambda>_.
     bnd (nvalloc_carve flhead' rsz prv' res) (\<lambda>rsz'.
     bnd (rd H_bytes_free) (\<lambda>bf.
     bnd (wr H_bytes_free (sub64 bf rsz')) (\<lambda>_.
     bnd (lock UnLock Block) (\<lambda>_.
     bnd (wrf res 0 rsz') (\<lambda>_.
     ret (res + SZ_ULONG)))))))))))))))"

text \<open>
  The free block before \<open>pb\<close> and the one after it. The assertion in the loop makes the
  offsets increase, so the walk ends on every memory.
\<close>

function nvfree_walk :: "nat \<Rightarrow> nat \<Rightarrow> nat \<Rightarrow> nat \<Rightarrow> (nvc, nat \<times> nat) act" where
  "nvfree_walk flhead pb prv cur s =
     (if cur < pb \<and> cur \<noteq> flhead then
        (case peek s cur FL_next of
           None \<Rightarrow> (Crash, s)
         | Some nxt \<Rightarrow>
             if nxt \<le> cur
             then (Throw (AssertionError ''NVContainer::nvfree: freelist out of order!''), s)
             else nvfree_walk flhead pb cur nxt s)
      else (Ok (prv, cur), s))"
  by pat_completeness auto
termination
  by (relation "measure (\<lambda>(flhead, pb, prv, cur, s). pb - cur)") auto

declare nvfree_walk.simps [simp del]

text \<open>Insert the block \<open>pb\<close> between \<open>prv\<close> and \<open>cur\<close>, joining it with its neighbours.\<close>

definition nvfree_insert :: "nat \<Rightarrow> nat \<Rightarrow> int \<Rightarrow> nat \<Rightarrow> nat \<Rightarrow> (nvc, unit) act" where
  "nvfree_insert flhead pb psz prv cur =
     bnd (rdf prv FL_size) (\<lambda>vsz.
     if prv + vsz = pb then
       bnd (wrf prv FL_size (u64_of_int (int vsz + psz))) (\<lambda>_.
       if int pb + psz = int cur then
         bnd (if cur = flhead then wr H_freelist prv else ret ()) (\<lambda>_.
         bnd (rdf prv FL_size) (\<lambda>vsz'.
         bnd (rdf cur FL_size) (\<lambda>csz.
         bnd (wrf prv FL_size (u64 (vsz' + csz))) (\<lambda>_.
         bnd (rdf cur FL_next) (\<lambda>nxt.
         wrf prv FL_next nxt)))))
       else ret ())
     else if int pb + psz = int cur then
       bnd (rdf cur FL_next) (\<lambda>nxt.
       if nxt = cur then
         bnd (check (flhead = cur) (AssertionError
           ''NVContainer::nvfree: flhead lost trailing block of free memory'')) (\<lambda>_.
         bnd (wrf pb FL_next pb) (\<lambda>_.
         bnd (wr H_freelist pb) (\<lambda>_.
         bnd (rdf cur FL_size) (\<lambda>csz.
         wrf pb FL_size (u64_of_int (psz + int csz))))))
       else
         bnd (wrf pb FL_next nxt) (\<lambda>_.
         bnd (rdf cur FL_size) (\<lambda>csz.
         bnd (wrf pb FL_size (u64_of_int (psz + int csz))) (\<lambda>_.
         bnd (wrf prv FL_next pb) (\<lambda>_.
         if cur = flhead then wr H_freelist pb else ret ())))))
     else
       bnd (wrf pb FL_next cur) (\<lambda>_.
       bnd (wrf pb FL_size (u64_of_int psz)) (\<lambda>_.
       wrf prv FL_next pb)))"

definition nvfree :: "nat \<Rightarrow> (nvc, unit) act" where
  "nvfree p =
     bnd (lock ExclLock Block) (\<lambda>_.
     bnd (rd H_freelist) (\<lambda>flhead.
     bnd (gets (\<lambda>s. sub64 p SZ_ULONG)) (\<lambda>pb.
     bnd (rdf pb 0) (\<lambda>sz.
     bnd (gets (\<lambda>s. i32 (int sz))) (\<lambda>psz.
     bnd (gets mem_sz) (\<lambda>msz.
     bnd (if int msz < int pb + psz then
            bnd close_nv (\<lambda>_. throw (AssertionError
              ''NVcontainer::nvfree: tried to free illegal memory block''))
          else ret ()) (\<lambda>_.
     bnd (rdf flhead FL_next) (\<lambda>first.
     bnd (nvfree_walk flhead pb flhead first) (\<lambda>(prv, cur).
     bnd (if cur < pb then
            bnd close_nv (\<lambda>_. throw (AssertionError
              ''NVcontainer::nvfree: tried to free unallocated memory block''))
          else ret ()) (\<lambda>_.
     bnd (nvfree_insert flhead pb psz prv cur) (\<lambda>_.
     bnd (rd H_bytes_free) (\<lambda>bf.
     bnd (wr H_bytes_free (u64_of_int (int bf + psz))) (\<lambda>_.
     bnd (lock UnLock Block) (\<lambda>_. ret ()))))))))))))))"

subsection \<open>Opening a database, modification time\<close>

definition init_file :: "(nvc, unit) act" where
  "init_file =
     bnd (gets os) (\<lambda>e.
     bnd (if os_ftruncate e 0x10000 then ret ()
          else bnd (upd (\<lambda>s. s\<lparr>fname := None\<rparr>)) (\<lambda>_.
            throw (SystemError ''NVConatiner::open(): ftruncate failed, unlinked''))) (\<lambda>_.
     bnd (upd (\<lambda>s. s\<lparr>fbytes := (\<lambda>_. 0), fsize := 0x10000\<rparr>)) (\<lambda>_.
     bnd (if os_write e then ret ()
          else bnd (upd (\<lambda>s. s\<lparr>fname := None\<rparr>)) (\<lambda>_.
            throw (SystemError ''NVConatiner::open(): write(info-record) failed, unlinked''))) (\<lambda>_.
     upd (\<lambda>s. s\<lparr>fbytes :=
       (let m1 = wrn (wrn (fbytes s) H_hlen 4 SZ_HEADER) H_version 4 2;
            m2 = wl (wl m1 H_size 0x10000) H_mtime 0;
            m3 = wl (wl m2 H_freelist SZ_HEADER) H_bytes_free (0x10000 - SZ_HEADER);
            m4 = wl m3 H_userdata 0
        in wl (wl m4 (SZ_HEADER + FL_next) SZ_HEADER)
              (SZ_HEADER + FL_size) (0x10000 - SZ_HEADER))\<rparr>)))))"

definition open_nv :: "string \<Rightarrow> (nvc, unit) act" where
  "open_nv dbname =
     bnd (gets mem_fn) (\<lambda>fn.
     if fn = dbname then ret ()
     else
     bnd (gets mem_fd) (\<lambda>fd.
     bnd (if fd then close_nv else ret ()) (\<lambda>_.
     bnd (upd (\<lambda>s. s\<lparr>mem_fn := dbname\<rparr>)) (\<lambda>_.
     bnd (gets os) (\<lambda>e.
     bnd (check (os_open e dbname) (SystemError ''NVConatiner::open(): cannot open'')) (\<lambda>_.
     bnd (upd (\<lambda>s. s\<lparr>mem_fd := True, fname := Some dbname,
                        fbytes := (case disk s dbname of None \<Rightarrow> (\<lambda>_. 0) | Some (m, n) \<Rightarrow> m),
                        fsize := (case disk s dbname of None \<Rightarrow> 0 | Some (m, n) \<Rightarrow> n),
                        disk := (disk s)(dbname := None)\<rparr>)) (\<lambda>_.
     bnd (nvflock ExclLock Block) (\<lambda>_.
     bnd (check (os_fstat e) (SystemError ''NVConatiner::open(): fstat failed'')) (\<lambda>_.
     bnd (gets fsize) (\<lambda>sz.
     bnd (if sz = 0 then init_file else ret ()) (\<lambda>_.
     bnd (nvflock UnLock Block) (\<lambda>_.
     make_current))))))))))))"

definition is_open :: "nvc \<Rightarrow> bool" where
  "is_open s = mem_fd s"

definition setmtime :: "nat \<Rightarrow> bool \<Rightarrow> (nvc, unit) act" where
  "setmtime tm force =
     bnd (lock ExclLock Block) (\<lambda>_.
     bnd (rd H_mtime) (\<lambda>ctm.
     bnd (if force \<or> ctm < tm then wr H_mtime tm else ret ()) (\<lambda>_.
     bnd (lock UnLock Block) (\<lambda>_. ret ()))))"

definition getmtime :: "(nvc, nat) act" where
  "getmtime =
     bnd (lock ShrdLock Block) (\<lambda>_.
     bnd (rd H_mtime) (\<lambda>tm.
     bnd (lock UnLock Block) (\<lambda>_. ret tm)))"

end
