(* ===== verification/NV_Locking.thy ===== *)
theory NV_Locking
  imports NV_Container
begin

text \<open>
  The lock stack of NVcontainer.cc as a stack: \<open>locks s\<close> is the list of the locks
  held, the innermost first. What \<open>lock\<close> and \<open>make_current\<close> do when the operating
  system grants what they ask for, and when it does not.
\<close>

section \<open>Evaluation of memory accesses\<close>

lemma in_map_fbytes [simp]: "in_map (s\<lparr>fbytes := m\<rparr>) a n = in_map s a n"
  by (simp add: in_map_def)

lemma rd_eval [act_simps]: "in_map s a 8 \<Longrightarrow> rd a s = (Ok (rl (fbytes s) a), s)"
  by (simp add: rd_def)

lemma rd4_eval [act_simps]: "in_map s a 4 \<Longrightarrow> rd4 a s = (Ok (rdn (fbytes s) a 4), s)"
  by (simp add: rd4_def)

lemma wr_eval [act_simps]:
  "in_map s a 8 \<Longrightarrow> wr a v s = (Ok (), s\<lparr>fbytes := wl (fbytes s) a v\<rparr>)"
  by (simp add: wr_def)

lemma memcpy_to_eval [act_simps]:
  "in_map s a (length d) \<Longrightarrow> memcpy_to a d s = (Ok (), s\<lparr>fbytes := wbytes (fbytes s) a d\<rparr>)"
  by (simp add: memcpy_to_def)

lemma rdf_eval [act_simps]:
  "0 < p \<Longrightarrow> in_map s (p + k) 8 \<Longrightarrow> rdf p k s = (Ok (rl (fbytes s) (p + k)), s)"
  by (simp add: rdf_def act_simps)

lemma wrf_eval [act_simps]:
  "0 < p \<Longrightarrow> in_map s (p + k) 8 \<Longrightarrow>
   wrf p k v s = (Ok (), s\<lparr>fbytes := wl (fbytes s) (p + k) v\<rparr>)"
  by (simp add: wrf_def act_simps)

section \<open>A database that can be mapped\<close>

text \<open>The header \<open>make_current\<close> accepts.\<close>

definition hdr :: "mem \<Rightarrow> nat \<Rightarrow> bool" where
  "hdr m n \<longleftrightarrow> rdn m H_hlen 4 = SZ_HEADER \<and> rdn m H_version 4 = 2 \<and> rl m H_size = n
     \<and> SZ_HEADER + SZ_FREELIST < n
     \<and> (rl m H_userdata = 0 \<or> rl m H_userdata + 2 * SZ_ULONG \<le> n)"

definition os_grants :: "osenv \<Rightarrow> bool" where
  "os_grants e \<longleftrightarrow> (\<forall>c b. os_fcntl e c b = None) \<and> os_fstat e \<and> (\<forall>n. os_ftruncate e n)
     \<and> (\<forall>n. os_mmap e n)"

text \<open>Not mapped yet, or mapped with a size that may be out of date.\<close>

definition mappable :: "nvc \<Rightarrow> bool" where
  "mappable s \<longleftrightarrow> mem_fd s \<and> hdr (fbytes s) (fsize s)
     \<and> (mem_p s = NullPtr \<or> mem_p s = Live \<and> SZ_HEADER \<le> mem_sz s)"

definition mapped :: "nvc \<Rightarrow> bool" where
  "mapped s \<longleftrightarrow> mem_p s = Live \<and> mem_sz s = fsize s"

text \<open>The same file in the same condition: only the mapping and the lock may differ.\<close>

definition same_db :: "nvc \<Rightarrow> nvc \<Rightarrow> bool" where
  "same_db s s' \<longleftrightarrow> fbytes s' = fbytes s \<and> fsize s' = fsize s \<and> fname s' = fname s
     \<and> disk s' = disk s \<and> os s' = os s \<and> vcls s' = vcls s \<and> mem_fd s' = mem_fd s
     \<and> mem_fn s' = mem_fn s"

lemma same_db_refl [simp]: "same_db s s"
  by (simp add: same_db_def)

lemma same_db_trans: "same_db s s' \<Longrightarrow> same_db s' s'' \<Longrightarrow> same_db s s''"
  by (simp add: same_db_def)

definition same_locks :: "nvc \<Rightarrow> nvc \<Rightarrow> bool" where
  "same_locks s s' \<longleftrightarrow> lck_stack s' = lck_stack s \<and> lck_stackp s' = lck_stackp s \<and> klock s' = klock s"

lemma same_locks_refl [simp]: "same_locks s s"
  by (simp add: same_locks_def)

lemma same_locks_trans: "same_locks s s' \<Longrightarrow> same_locks s' s'' \<Longrightarrow> same_locks s s''"
  by (simp add: same_locks_def)

lemma mapped_in_map [act_simps]: "mapped s \<Longrightarrow> in_map s a n \<longleftrightarrow> a + n \<le> fsize s"
  by (simp add: mapped_def in_map_def)

lemma remap_nv_ok:
  assumes "hdr (fbytes s) (fsize s)" and "os_grants (os s)"
  shows "remap_nv s = (Ok (), s\<lparr>mem_sz := fsize s, mem_p := Live\<rparr>)"
  using assms by (simp add: remap_nv_def hdr_def os_grants_def act_simps in_map_def)

lemma is_current_ok:
  "mem_p s = Live \<Longrightarrow> SZ_HEADER \<le> mem_sz s \<Longrightarrow>
   is_current s = (Ok (mem_sz s = rl (fbytes s) H_size), s)"
  by (simp add: is_current_def act_simps in_map_def)

lemma make_current_nv_ok:
  assumes "mappable s" and "os_grants (os s)"
  shows "make_current_nv s = (Ok (), s\<lparr>mem_sz := fsize s, mem_p := Live\<rparr>)"
proof (cases "mem_p s = NullPtr")
  case True
  with assms show ?thesis
    by (simp add: make_current_nv_def act_simps mappable_def remap_nv_ok)
next
  case False
  with assms have live: "mem_p s = Live" "SZ_HEADER \<le> mem_sz s" and h: "hdr (fbytes s) (fsize s)"
    by (auto simp: mappable_def)
  show ?thesis
  proof (cases "mem_sz s = fsize s")
    case True
    moreover from this live have "s\<lparr>mem_sz := fsize s, mem_p := Live\<rparr> = s" by simp
    ultimately show ?thesis
      using live h by (simp add: make_current_nv_def act_simps is_current_ok hdr_def)
  next
    case False
    with live h assms(2) show ?thesis
      by (simp add: make_current_nv_def act_simps is_current_ok remap_nv_ok hdr_def)
  qed
qed

text \<open>The bounds and the table that an array keeps beside those in its file.\<close>

definition arrs :: "nvc \<Rightarrow> nat \<times> nat \<times> nat" where
  "arrs s = (arrtab s, arrfst s, arrlst s)"

definition loaded :: "mem \<Rightarrow> nat \<times> nat \<times> nat" where
  "loaded m = (let u = rl m H_userdata
     in if u = 0 then (0, 1, 0) else (u + 2 * SZ_ULONG, rl m u, rl m (u + SZ_ULONG)))"

definition coherent :: "nvc \<Rightarrow> bool" where
  "coherent s \<longleftrightarrow> arrs s = loaded (fbytes s)"

lemma make_current_array_ok:
  assumes "mappable s" and "os_grants (os s)"
  shows "\<exists>s'. make_current_array s = (Ok (), s') \<and> same_db s s' \<and> same_locks s s' \<and> mapped s' \<and> coherent s'"
proof -
  let ?s = "s\<lparr>mem_sz := fsize s, mem_p := Live\<rparr>"
  have h: "hdr (fbytes s) (fsize s)" using assms(1) by (simp add: mappable_def)
  let ?rest = "bnd getdata (\<lambda>adata.
     if adata = 0 then upd (\<lambda>s. s\<lparr>arrtab := 0, arrfst := 1, arrlst := 0\<rparr>)
     else bnd (rd adata) (\<lambda>f. bnd (rd (adata + 8)) (\<lambda>l.
          upd (\<lambda>s. s\<lparr>arrtab := adata + 2 * 8, arrfst := f, arrlst := l\<rparr>))))"
  have "make_current_array s = ?rest ?s"
  proof (cases "mem_p s = NullPtr")
    case True
    then show ?thesis
      by (simp add: make_current_array_def make_current_nv_ok [OF assms] act_simps)
  next
    case False
    with assms(1) have live: "mem_p s = Live" "SZ_HEADER \<le> mem_sz s" by (auto simp: mappable_def)
    show ?thesis
    proof (cases "mem_sz s = fsize s")
      case True
      then have eq: "?s = s" using live by simp
      show ?thesis
        unfolding eq using live h True
        by (simp add: make_current_array_def act_simps is_current_ok hdr_def)
    next
      case False
      then show ?thesis
        using live h by (simp add: make_current_array_def make_current_nv_ok [OF assms] act_simps
          is_current_ok hdr_def)
    qed
  qed
  moreover have "\<exists>s'. ?rest ?s = (Ok (), s') \<and> same_db s s' \<and> same_locks s s' \<and> mapped s' \<and> coherent s'"
    using h by (auto simp: getdata_def act_simps in_map_def hdr_def same_db_def same_locks_def
      mapped_def coherent_def arrs_def loaded_def Let_def)
  ultimately show ?thesis by simp
qed

lemma make_current_hash_ok:
  assumes "mappable s" and "os_grants (os s)"
  shows "\<exists>s'. make_current_hash s = (Ok (), s') \<and> same_db s s' \<and> same_locks s s' \<and> mapped s'"
proof -
  let ?s = "s\<lparr>mem_sz := fsize s, mem_p := Live\<rparr>"
  have h: "hdr (fbytes s) (fsize s)" using assms(1) by (simp add: mappable_def)
  let ?rest = "bnd getdata (\<lambda>hdata.
     if hdata = 0 then upd (\<lambda>s. s\<lparr>hashtab := 0, hashsz := 0\<rparr>)
     else bnd (rd hdata) (\<lambda>n. upd (\<lambda>s. s\<lparr>hashtab := hdata + 8, hashsz := n\<rparr>)))"
  have "make_current_hash s = (if mem_p s = Live \<and> mem_sz s = fsize s then (Ok (), s) else ?rest ?s)"
  proof (cases "mem_p s = NullPtr")
    case True
    then show ?thesis
      by (simp add: make_current_hash_def make_current_nv_ok [OF assms] act_simps)
  next
    case False
    with assms(1) have live: "mem_p s = Live" "SZ_HEADER \<le> mem_sz s" by (auto simp: mappable_def)
    then show ?thesis
      using h by (cases "mem_sz s = fsize s")
        (simp_all add: make_current_hash_def make_current_nv_ok [OF assms] act_simps
          is_current_ok hdr_def)
  qed
  moreover have "\<exists>s'. ?rest ?s = (Ok (), s') \<and> same_db s s' \<and> same_locks s s' \<and> mapped s'"
    using h by (auto simp: getdata_def act_simps in_map_def hdr_def same_db_def same_locks_def
      mapped_def)
  ultimately show ?thesis by (auto simp: mapped_def)
qed

lemma make_current_ok:
  assumes "mappable s" and "os_grants (os s)"
  shows "\<exists>s'. make_current s = (Ok (), s') \<and> same_db s s' \<and> same_locks s s' \<and> mapped s'
    \<and> (vcls s = ClsArray \<longrightarrow> coherent s')"
proof (cases "vcls s")
  case ClsContainer
  then show ?thesis
    by (simp add: make_current_def act_simps make_current_nv_ok [OF assms] same_db_def
      same_locks_def mapped_def)
next
  case ClsArray
  then show ?thesis
    using make_current_array_ok [OF assms] by (auto simp: make_current_def act_simps)
next
  case ClsHash
  then show ?thesis
    using make_current_hash_ok [OF assms] by (simp add: make_current_def act_simps)
qed

section \<open>The lock stack\<close>

definition locks :: "nvc \<Rightarrow> lockcmd list" where
  "locks s = drop (lck_stackp s) (lck_stack s)"

definition top_lock :: "lockcmd list \<Rightarrow> lockcmd" where
  "top_lock ls = (case ls of [] \<Rightarrow> UnLock | c # _ \<Rightarrow> c)"

text \<open>Under an exclusive lock every further lock is exclusive.\<close>

definition push_lock :: "lockcmd \<Rightarrow> lockcmd list \<Rightarrow> lockcmd list" where
  "push_lock c ls = (if top_lock ls = ExclLock then ExclLock else c) # ls"

definition sticky :: "lockcmd list \<Rightarrow> bool" where
  "sticky ls \<longleftrightarrow> UnLock \<notin> set ls \<and> sorted_wrt (\<lambda>c d. d = ExclLock \<longrightarrow> c = ExclLock) ls"

definition lock_wf :: "nvc \<Rightarrow> bool" where
  "lock_wf s \<longleftrightarrow> length (lck_stack s) = LOCKSTACKSIZE \<and> lck_stackp s \<le> LOCKSTACKSIZE
     \<and> sticky (locks s) \<and> klock s = top_lock (locks s)"

lemma top_lock_simps [simp]: "top_lock [] = UnLock" "top_lock (c # ls) = c"
  by (simp_all add: top_lock_def)

lemma sticky_push: "sticky ls \<Longrightarrow> c \<noteq> UnLock \<Longrightarrow> sticky (push_lock c ls)"
  by (cases ls) (auto simp: sticky_def push_lock_def)

lemma sticky_tl: "sticky ls \<Longrightarrow> sticky (tl ls)"
  by (cases ls) (auto simp: sticky_def)

lemma get_lock_top: "lock_wf s \<Longrightarrow> get_lock s = top_lock (locks s)"
  by (auto simp: get_lock_def locks_def top_lock_def lock_wf_def Cons_nth_drop_Suc [symmetric]
      split: list.split)

lemma locks_stackp: "lock_wf s \<Longrightarrow> lck_stackp s = LOCKSTACKSIZE - length (locks s)"
  by (simp add: locks_def lock_wf_def)

lemma locks_pop:
  "lock_wf s \<Longrightarrow> locks (s\<lparr>lck_stackp := Suc (lck_stackp s)\<rparr>) = tl (locks s)"
  by (simp add: locks_def drop_Suc tl_drop)

lemma locks_push:
  assumes "lock_wf s" and "lck_stackp s = Suc p"
  shows "locks (s\<lparr>lck_stackp := p, lck_stack := (lck_stack s)[p := c]\<rparr>) = c # locks s"
proof -
  have "p < length (lck_stack s)" using assms by (simp add: lock_wf_def)
  then show ?thesis
    using assms(2) by (simp add: locks_def Cons_nth_drop_Suc [symmetric])
qed

text \<open>
  A container that can work: it can be mapped, the operating system grants what it
  is asked for, the lock stack is well formed, and under a lock the mapping is
  up to date.
\<close>

text \<open>Under a lock the members of an array are those of its file.\<close>

definition arr_sync :: "nvc \<Rightarrow> bool" where
  "arr_sync s \<longleftrightarrow> (vcls s = ClsArray \<longrightarrow> locks s \<noteq> [] \<longrightarrow> coherent s)"

definition ready :: "nvc \<Rightarrow> bool" where
  "ready s \<longleftrightarrow> mappable s \<and> os_grants (os s) \<and> lock_wf s \<and> (locks s \<noteq> [] \<longrightarrow> mapped s)"

lemma same_locks_wf: "same_locks s s' \<Longrightarrow> lock_wf s' = lock_wf s \<and> locks s' = locks s"
  by (simp add: same_locks_def lock_wf_def locks_def)

lemma same_db_mapped_mappable:
  "same_db s s' \<Longrightarrow> mappable s \<Longrightarrow> mapped s' \<Longrightarrow> mappable s'"
  by (auto simp: same_db_def mappable_def mapped_def hdr_def)

lemma nvflock_ok:
  "mem_fd s \<Longrightarrow> os_grants (os s) \<Longrightarrow> nvflock c b s = (Ok None, s\<lparr>klock := c\<rparr>)"
  by (simp add: nvflock_def os_grants_def Let_def)

text \<open>The second half of \<open>lock\<close> once the stack has been changed.\<close>

lemma relock_ok:
  assumes "mappable s" and "os_grants (os s)" and "cur = klock s"
  shows "\<exists>s'. relock cur c b s = (Ok 0, s') \<and> same_db s s' \<and> locks s' = locks s
           \<and> lck_stack s' = lck_stack s \<and> lck_stackp s' = lck_stackp s \<and> klock s' = c
           \<and> mappable s' \<and> (mapped s \<or> cur \<noteq> c \<and> c \<noteq> UnLock \<longrightarrow> mapped s')
           \<and> (if cur = c \<or> c = UnLock then arrs s' = arrs s else vcls s = ClsArray \<longrightarrow> coherent s')"
proof (cases "cur = c")
  case True
  with assms show ?thesis by (simp add: relock_def act_simps)
next
  case False
  let ?s = "s\<lparr>klock := c\<rparr>"
  have fd: "mem_fd s" using assms(1) by (simp add: mappable_def)
  have mp: "mappable ?s" using assms(1) by (simp add: mappable_def)
  have os: "os_grants (os ?s)" using assms(2) by simp
  show ?thesis
  proof (cases "c = UnLock")
    case True
    with False fd mp assms show ?thesis
      by (simp add: relock_def act_simps nvflock_ok same_db_def locks_def mapped_def arrs_def)
  next
    case c: False
    obtain s' where s': "make_current ?s = (Ok (), s')" "same_db ?s s'" "same_locks ?s s'" "mapped s'"
      "vcls s = ClsArray \<longrightarrow> coherent s'"
      using make_current_ok [OF mp os] by auto
    moreover from this have "relock cur c b s = (Ok 0, s')"
      using False c fd assms(2) by (simp add: relock_def act_simps nvflock_ok)
    moreover have "mappable s'"
      using same_db_mapped_mappable [OF s'(2) mp s'(4)] .
    ultimately show ?thesis
      using False c by (simp add: same_db_def same_locks_def locks_def)
  qed
qed

lemma lock_ok:
  assumes "ready s" and "c \<noteq> UnLock" and "length (locks s) < LOCKSTACKSIZE"
  shows "\<exists>s'. lock c b s = (Ok 0, s') \<and> same_db s s' \<and> locks s' = push_lock c (locks s) \<and> ready s'
    \<and> (arr_sync s \<longrightarrow> arr_sync s') \<and> (top_lock (locks s) = ExclLock \<longrightarrow> arrs s' = arrs s)"
proof -
  have wf: "lock_wf s" and gr: "os_grants (os s)" and mp: "mappable s"
    using assms(1) by (auto simp: ready_def)
  obtain p where p: "lck_stackp s = Suc p"
    using assms(3) wf by (cases "lck_stackp s") (auto simp: lock_wf_def locks_def)
  let ?c = "if top_lock (locks s) = ExclLock then ExclLock else c"
  let ?s = "s\<lparr>lck_stackp := p, lck_stack := (lck_stack s)[p := ?c]\<rparr>"
  have lk: "locks ?s = push_lock c (locks s)"
    using locks_push [OF wf p] by (simp add: push_lock_def)
  have cur: "get_lock s = klock ?s"
    using wf by (simp add: get_lock_top) (simp add: lock_wf_def)
  have "mappable ?s" "os_grants (os ?s)" using mp gr by (simp_all add: mappable_def)
  from relock_ok [OF this cur, of ?c b] obtain s' where
    s': "relock (get_lock s) ?c b ?s = (Ok 0, s')" "same_db ?s s'" "locks s' = locks ?s"
      "lck_stack s' = lck_stack ?s" "lck_stackp s' = lck_stackp ?s" "klock s' = ?c" "mappable s'"
      "mapped ?s \<or> get_lock s \<noteq> ?c \<and> ?c \<noteq> UnLock \<longrightarrow> mapped s'"
      "if get_lock s = ?c \<or> ?c = UnLock then arrs s' = arrs ?s else vcls ?s = ClsArray \<longrightarrow> coherent s'"
    by blast
  have gl: "get_lock s = top_lock (locks s)" by (rule get_lock_top [OF wf])
  have ne: "?c \<noteq> UnLock" using assms(2) by simp
  have sync: "arr_sync s'" if "arr_sync s"
  proof (cases "get_lock s = ?c")
    case True
    then have "locks s \<noteq> []" using ne gl by (auto simp: top_lock_def split: list.splits)
    then show ?thesis
      using that True s'(2,9) by (simp add: arr_sync_def coherent_def same_db_def arrs_def)
  next
    case False
    then show ?thesis using s'(2,9) ne by (simp add: arr_sync_def same_db_def split: if_splits)
  qed
  have same: "arrs s' = arrs s" if "top_lock (locks s) = ExclLock"
    using that s'(9) gl by (simp add: arrs_def)
  have "lock c b s = relock (get_lock s) ?c b ?s"
    using assms(2) p wf by (simp add: lock_def act_simps Let_def get_lock_top)
  moreover have "sticky (locks s')"
    using wf assms(2) by (simp add: s' lk sticky_push lock_wf_def)
  then have "lock_wf s'"
    using wf p by (simp add: lock_wf_def s' lk push_lock_def)
  moreover have "mapped s'"
    using s'(8) assms(1,2) wf get_lock_top [OF wf]
    by (cases "locks s") (auto simp: ready_def mapped_def lock_wf_def sticky_def split: if_splits)
  ultimately show ?thesis
    using s' gr sync same by (auto simp: same_db_def lk ready_def)
qed

lemma unlock_ok:
  assumes "ready s" and "locks s \<noteq> []"
  shows "\<exists>s'. lock UnLock b s = (Ok 0, s') \<and> same_db s s' \<and> locks s' = tl (locks s)
           \<and> lck_stack s' = lck_stack s \<and> ready s' \<and> mapped s'
           \<and> (arr_sync s \<longrightarrow> arr_sync s')
           \<and> (top_lock (tl (locks s)) = ExclLock \<longrightarrow> arrs s' = arrs s)"
proof -
  have wf: "lock_wf s" and gr: "os_grants (os s)" and mp: "mappable s" and mapd: "mapped s"
    using assms by (auto simp: ready_def)
  have sp: "lck_stackp s < LOCKSTACKSIZE"
    using assms(2) wf by (auto simp: lock_wf_def locks_def)
  let ?s = "s\<lparr>lck_stackp := Suc (lck_stackp s)\<rparr>"
  have lk: "locks ?s = tl (locks s)" by (rule locks_pop [OF wf])
  have c: "get_lock ?s = top_lock (tl (locks s))"
    using lk sp wf by (auto simp: get_lock_def locks_def top_lock_def lock_wf_def
      Cons_nth_drop_Suc [symmetric] split: list.split)
  have cur: "get_lock s = klock ?s"
    using wf by (simp add: get_lock_top) (simp add: lock_wf_def)
  have "mappable ?s" "os_grants (os ?s)" using mp gr by (simp_all add: mappable_def)
  from relock_ok [OF this cur, of "get_lock ?s" b] obtain s' where
    s': "relock (get_lock s) (get_lock ?s) b ?s = (Ok 0, s')" "same_db ?s s'" "locks s' = locks ?s"
      "lck_stack s' = lck_stack ?s" "lck_stackp s' = lck_stackp ?s" "klock s' = get_lock ?s"
      "mappable s'" "mapped ?s \<longrightarrow> mapped s'"
      "if get_lock s = get_lock ?s \<or> get_lock ?s = UnLock then arrs s' = arrs ?s
       else vcls ?s = ClsArray \<longrightarrow> coherent s'"
    by blast
  have gl: "get_lock s = top_lock (locks s)" by (rule get_lock_top [OF wf])
  have st: "sticky (locks s)" using wf by (simp add: lock_wf_def)
  have sync: "arr_sync s'" if "arr_sync s"
  proof (cases "tl (locks s) = []")
    case True
    then show ?thesis using s'(3) lk by (simp add: arr_sync_def)
  next
    case False
    then have "get_lock ?s \<noteq> UnLock" using c st
      by (cases "locks s"; cases "tl (locks s)") (auto simp: sticky_def)
    then show ?thesis
      using that assms(2) s'(2,9)
      by (simp add: arr_sync_def coherent_def same_db_def arrs_def split: if_splits)
  qed
  have same: "arrs s' = arrs s" if "top_lock (tl (locks s)) = ExclLock"
  proof -
    have "top_lock (locks s) = ExclLock"
      using that st by (cases "locks s"; cases "tl (locks s)") (auto simp: sticky_def)
    then show ?thesis using that s'(9) gl c by (simp add: arrs_def)
  qed
  have "lock UnLock b s = relock (get_lock s) (get_lock ?s) b ?s"
    using sp by (simp add: lock_def act_simps)
  moreover have "lock_wf s'"
    using wf sp c by (simp add: lock_wf_def s' lk sticky_tl)
  moreover have "mapped s'" using mapd s'(8) by (simp add: mapped_def)
  ultimately show ?thesis
    using s' gr sync same by (auto simp: same_db_def lk ready_def)
qed

lemma lock_overflow:
  assumes "lock_wf s" and "length (locks s) = LOCKSTACKSIZE" and "c \<noteq> UnLock"
  shows "lock c b s = (Throw (Error ''NVContainer::lock(): Lock Stack overflow''), s)"
  using assms by (auto simp: lock_def act_simps locks_stackp)

lemma lock_underflow:
  assumes "lock_wf s" and "locks s = []"
  shows "lock UnLock b s = (Throw (Error ''NVContainer::lock(): Lock Stack underflow''), s)"
  using assms by (simp add: lock_def act_simps locks_stackp)

text \<open>A lock that would block and must not: the stack is as before the call.\<close>

lemma lock_refused:
  assumes "lock_wf s" and "mem_fd s" and "c \<noteq> UnLock" and "length (locks s) < LOCKSTACKSIZE" and "top_lock (locks s) \<noteq> ExclLock" "top_lock (locks s) \<noteq> c"
    and "os_fcntl (os s) UnLock NoBlock = None"
    and "os_fcntl (os s) c NoBlock \<in> {Some EACCES, Some EAGAIN}"
  shows "\<exists>s'. lock c NoBlock s = (Ok (- 1), s') \<and> same_db s s' \<and> locks s' = locks s
           \<and> klock s' = UnLock \<and> length (lck_stack s') = length (lck_stack s)"
proof -
  obtain p where p: "lck_stackp s = Suc p"
    using assms(1,4) by (cases "lck_stackp s") (auto simp: lock_wf_def locks_def)
  let ?s = "s\<lparr>lck_stackp := p, lck_stack := (lck_stack s)[p := c]\<rparr>"
  have "nvflock c NoBlock ?s = (Ok (Some EWOULDBLOCK), ?s\<lparr>klock := UnLock\<rparr>)"
    using assms by (auto simp: nvflock_def Let_def)
  then have "lock c NoBlock s
      = (Ok (- 1), ?s\<lparr>klock := UnLock, lck_stackp := Suc p\<rparr>)"
    using assms p by (simp add: lock_def act_simps Let_def get_lock_top relock_def)
  moreover have "locks (?s\<lparr>klock := UnLock, lck_stackp := Suc p\<rparr>) = locks s"
    using p by (simp add: locks_def)
  ultimately show ?thesis by (simp add: same_db_def)
qed

section \<open>Sessions of lock calls\<close>

text \<open>A program that only locks and unlocks, calls that throw included.\<close>

inductive lock_step :: "nvc \<Rightarrow> nvc \<Rightarrow> bool" where
  acquire: "c \<noteq> UnLock \<Longrightarrow> lock c b s = (r, s') \<Longrightarrow> lock_step s s'"
| release: "lock UnLock b s = (r, s') \<Longrightarrow> lock_step s s'"

inductive lock_reach :: "nvc \<Rightarrow> nvc \<Rightarrow> bool" for s0 where
  start: "lock_reach s0 s0"
| step: "lock_reach s0 s \<Longrightarrow> lock_step s s' \<Longrightarrow> lock_reach s0 s'"

lemma lock_step_ready:
  assumes "lock_step s s'" and "ready s"
  shows "ready s' \<and> same_db s s'"
  using assms(1)
proof cases
  case (acquire c b r)
  have "lock_wf s" using assms(2) by (simp add: ready_def)
  then have "length (locks s) \<le> LOCKSTACKSIZE"
    by (simp add: lock_wf_def locks_def)
  then consider "length (locks s) < LOCKSTACKSIZE" | "length (locks s) = LOCKSTACKSIZE"
    by linarith
  then show ?thesis
  proof cases
    case 1
    from lock_ok [OF assms(2) acquire(1) 1, of b] acquire(2) show ?thesis by auto
  next
    case 2
    from lock_overflow [OF \<open>lock_wf s\<close> 2 acquire(1), of b] acquire(2) assms(2)
    show ?thesis by auto
  qed
next
  case (release b r)
  have "lock_wf s" using assms(2) by (simp add: ready_def)
  show ?thesis
  proof (cases "locks s = []")
    case True
    from lock_underflow [OF \<open>lock_wf s\<close> True, of b] release assms(2) show ?thesis by auto
  next
    case False
    from unlock_ok [OF assms(2) False, of b] release show ?thesis by auto
  qed
qed

lemma lock_reach_ready:
  "lock_reach s0 s \<Longrightarrow> ready s0 \<Longrightarrow> ready s \<and> same_db s0 s"
  by (induction rule: lock_reach.induct) (auto dest: lock_step_ready intro: same_db_trans)

end
