(* ===== verification/NV_Heap.thy ===== *)
theory NV_Heap
  imports NV_Locking
begin

text \<open>
  The heap inside a database file: the tiling of the file by free and allocated
  blocks, its representation in memory as a circular free list, and what
  \<open>resize\<close>, \<open>nvalloc\<close> and \<open>nvfree\<close> of NVcontainer.cc do to it.
\<close>

section \<open>Tilings and circular lists\<close>

text \<open>A block: its offset, its size, whether it is free.\<close>

type_synonym tile = "nat \<times> nat \<times> bool"

abbreviation off :: "tile \<Rightarrow> nat" where "off \<equiv> fst"
abbreviation sz :: "tile \<Rightarrow> nat" where "sz \<equiv> (\<lambda>t. fst (snd t))"
abbreviation is_free :: "tile \<Rightarrow> bool" where "is_free \<equiv> (\<lambda>t. snd (snd t))"

fun tiles :: "nat \<Rightarrow> tile list \<Rightarrow> nat \<Rightarrow> bool" where
  "tiles a [] e \<longleftrightarrow> a = e"
| "tiles a (t # T) e \<longleftrightarrow> off t = a \<and> 16 dvd sz t \<and> 0 < sz t \<and> tiles (a + sz t) T e"

definition coalesced :: "tile list \<Rightarrow> bool" where
  "coalesced T \<longleftrightarrow> successively (\<lambda>t u. \<not> (is_free t \<and> is_free u)) T"

definition frees :: "tile list \<Rightarrow> (nat \<times> nat) list" where
  "frees T = map (\<lambda>t. (off t, sz t)) (filter is_free T)"

lemma frees_simps [simp]:
  "frees [] = []"
  "frees (t # T) = (if is_free t then (off t, sz t) # frees T else frees T)"
  "frees (T @ U) = frees T @ frees U"
  by (simp_all add: frees_def)

lemma tiles_append:
  "tiles a (T @ U) e \<longleftrightarrow> (\<exists>b. tiles a T b \<and> tiles b U e)"
  by (induction T arbitrary: a) auto

lemma tiles_mid:
  "tiles a (T @ t # U) e \<longleftrightarrow>
   tiles a T (off t) \<and> 16 dvd sz t \<and> 0 < sz t \<and> tiles (off t + sz t) U e"
  by (auto simp: tiles_append)

lemma tiles_le: "tiles a T e \<Longrightarrow> a \<le> e"
  by (induction T arbitrary: a) fastforce+

lemma tiles_bounds:
  assumes "tiles a T e" and "t \<in> set T" and "16 dvd a"
  shows "a \<le> off t" and "off t + sz t \<le> e" and "16 dvd off t" and "16 \<le> sz t" and "16 dvd sz t"
proof -
  have "a \<le> off t \<and> off t + sz t \<le> e \<and> 16 dvd off t \<and> 16 \<le> sz t \<and> 16 dvd sz t"
    using assms
  proof (induction T arbitrary: a)
    case Nil
    then show ?case by simp
  next
    case (Cons u T)
    show ?case
    proof (cases "t = u")
      case True
      with Cons.prems show ?thesis
        by (auto dest: tiles_le dvd_imp_le)
    next
      case False
      with Cons.prems have "t \<in> set T" and "tiles (a + sz u) T e" and "16 dvd a + sz u"
        by auto
      with Cons.IH [of "a + sz u"] show ?thesis by simp
    qed
  qed
  then show "a \<le> off t" "off t + sz t \<le> e" "16 dvd off t" "16 \<le> sz t" "16 dvd sz t"
    by auto
qed

lemma frees_bounds:
  assumes "tiles a T e" and "16 dvd a" and "(b, n) \<in> set (frees T)"
  shows "a \<le> b" and "b + n \<le> e" and "16 dvd b" and "16 \<le> n" and "16 dvd n"
  using assms tiles_bounds [OF assms(1) _ assms(2), of "(b, n, True)"]
  by (auto simp: frees_def)

lemma tiles_frees_sorted:
  "tiles a T e \<Longrightarrow> sorted_wrt (\<lambda>x y. fst x + snd x \<le> fst y) (frees T)"
proof (induction T arbitrary: a)
  case Nil
  then show ?case by simp
next
  case (Cons t T)
  then have "tiles (a + sz t) T e" and "off t = a" by auto
  moreover from this have "a + sz t \<le> off u" if "u \<in> set T" for u
    using that by (induction T arbitrary: a t) (auto, fastforce dest: tiles_le)
  ultimately show ?case
    using Cons by (auto simp: frees_def)
qed

lemma tiles_distinct:
  assumes "tiles a T e"
  shows "distinct (map fst (frees T))"
proof -
  have "sorted_wrt (\<lambda>x y. fst x < fst y) (frees T)"
  proof (rule sorted_wrt_mono_rel [OF _ tiles_frees_sorted [OF assms]])
    fix x y assume "x \<in> set (frees T)" "fst x + snd x \<le> fst y"
    moreover have "0 < snd x" if "x \<in> set (frees T)" for x
      using assms that by (induction T arbitrary: a) (auto split: if_splits)
    ultimately show "fst x < fst y" by fastforce
  qed
  then have "sorted_wrt (<) (map fst (frees T))"
    by (simp add: sorted_wrt_map)
  then show ?thesis
    by (simp add: strict_sorted_iff)
qed

text \<open>
  A list of blocks linked through their first words, their sizes in the second
  words; \<open>e\<close> is the link of the last. \<open>r\<close> reads an \<open>unsigned long\<close>.
\<close>

definition hd_off :: "(nat \<times> nat) list \<Rightarrow> nat \<Rightarrow> nat" where
  "hd_off L e = (case L of [] \<Rightarrow> e | x # _ \<Rightarrow> fst x)"

fun lseg :: "(nat \<Rightarrow> nat) \<Rightarrow> (nat \<times> nat) list \<Rightarrow> nat \<Rightarrow> bool" where
  "lseg r [] e \<longleftrightarrow> True"
| "lseg r (x # L) e \<longleftrightarrow> r (fst x) = hd_off L e \<and> r (fst x + 8) = snd x \<and> lseg r L e"

definition circ :: "(nat \<Rightarrow> nat) \<Rightarrow> (nat \<times> nat) list \<Rightarrow> bool" where
  "circ r L \<longleftrightarrow> lseg r L (hd_off L 0)"

lemma hd_off_simps [simp]:
  "hd_off [] e = e" "hd_off (x # L) e = fst x"
  "hd_off (L @ M) e = hd_off L (hd_off M e)"
  by (simp_all add: hd_off_def split: list.split)

lemma lseg_append [simp]:
  "lseg r (L @ M) e \<longleftrightarrow> lseg r L (hd_off M e) \<and> lseg r M e"
  by (induction L) auto

lemma circ_rotate: "circ r (L @ M) \<Longrightarrow> circ r (M @ L)"
  by (cases L; cases M) (simp_all add: circ_def)

lemma lseg_cong:
  "(\<And>x. x \<in> set L \<Longrightarrow> r' (fst x) = r (fst x) \<and> r' (fst x + 8) = r (fst x + 8)) \<Longrightarrow>
   lseg r L e \<Longrightarrow> lseg r' L e"
  by (induction L) auto

text \<open>A word write seen by word reads at aligned addresses.\<close>

lemma rl_wl_aligned:
  assumes "8 dvd a" and "8 dvd b"
  shows "rl (wl m a v) b = (if a = b then u64 v else rl m b)"
proof (cases "a = b")
  case False
  with assms have "b + 8 \<le> a \<or> a + 8 \<le> b"
    by (auto elim!: dvdE)
  with False show ?thesis by (simp add: rl_wl_other)
qed (simp add: rl_wl_same)

lemma u64_rl [simp]: "u64 (rl m a) = rl m a"
  by (rule u64_small) (rule rl_less)

lemma dvd8_of_16 [simp]: "16 dvd (a::nat) \<Longrightarrow> 8 dvd a" "16 dvd (a::nat) \<Longrightarrow> 8 dvd a + 8"
  by (auto elim!: dvdE)

lemma aligned16_neq [simp]:
  "16 dvd (a::nat) \<Longrightarrow> 16 dvd b \<Longrightarrow> a \<noteq> b + 8"
  "16 dvd (a::nat) \<Longrightarrow> 16 dvd b \<Longrightarrow> a + 8 \<noteq> b"
  by presburger+

text \<open>The offsets of a list of blocks are aligned and distinct.\<close>

definition nodes :: "(nat \<times> nat) list \<Rightarrow> bool" where
  "nodes L \<longleftrightarrow> (\<forall>x \<in> set L. 16 dvd fst x) \<and> distinct (map fst L)"

lemma nodes_simps [simp]:
  "nodes []"
  "nodes (x # L) \<longleftrightarrow> 16 dvd fst x \<and> fst x \<notin> fst ` set L \<and> nodes L"
  "nodes (L @ M) \<longleftrightarrow> nodes L \<and> nodes M \<and> fst ` set L \<inter> fst ` set M = {}"
  by (auto simp: nodes_def)

lemma lseg_wl [simp]:
  assumes "nodes L" and "16 dvd a" and "a \<notin> fst ` set L"
  shows "lseg (rl (wl m a v)) L e \<longleftrightarrow> lseg (rl m) L e"
    and "lseg (rl (wl m (a + 8) v)) L e \<longleftrightarrow> lseg (rl m) L e"
  using assms by (induction L) (auto simp: rl_wl_aligned)

lemma circ_unlink_first:
  assumes "circ (rl m) ((c, n) # M @ [(pv, vs)])" and "nodes ((c, n) # M @ [(pv, vs)])"
  shows "circ (rl (wl m pv (rl m c))) (M @ [(pv, vs)])"
  using assms u64_rl [of m c] by (auto simp: circ_def rl_wl_aligned)

lemma circ_split_first:
  assumes "circ (rl m) ((c, n) # M @ [(pv, vs)])"
    and "nodes ((c, n) # M @ [(pv, vs)])" and "nodes ((c + k, n - k) # M @ [(pv, vs)])"
    and "c + k < 2 ^ 64" and "n - k < 2 ^ 64"
  shows "circ (rl (wl (wl (wl m (c + k + 8) (n - k)) (c + k) (rl m c)) pv (c + k)))
           ((c + k, n - k) # M @ [(pv, vs)])"
  using assms u64_rl [of m c] by (auto simp: circ_def rl_wl_aligned)

lemma circ_single:
  assumes "16 dvd c" and "c < 2 ^ 64" and "n < 2 ^ 64"
  shows "circ (rl (wl (wl m (c + 8) n) c c)) [(c, n)]"
    and "circ (rl (wl (wl m c c) (c + 8) n)) [(c, n)]"
  using assms by (auto simp: circ_def rl_wl_aligned)

lemma circ_resize_last:
  assumes "circ (rl m) (M @ [(pv, vs)])" and "nodes (M @ [(pv, vs)])" and "k < 2 ^ 64"
  shows "circ (rl (wl m (pv + 8) k)) (M @ [(pv, k)])"
  using assms by (auto simp: circ_def rl_wl_aligned)

lemma circ_insert_last:
  assumes "circ (rl m) (L @ [(pv, vs)])" and "nodes (L @ [(pv, vs), (b, n)])"
    and "n < 2 ^ 64" and "b < 2 ^ 64" and "\<forall>x \<in> set (L @ [(pv, vs)]). fst x < 2 ^ 64"
  shows "circ (rl (wl (wl (wl m b (hd_off (L @ [(pv, vs)]) 0)) (b + 8) n) pv b))
           (L @ [(pv, vs), (b, n)])"
  using assms by (cases L) (auto simp: circ_def rl_wl_aligned)

lemma circ_header [simp]:
  assumes "nodes L" and "\<forall>x \<in> set L. 48 \<le> fst x" and "8 dvd a" and "a < 48"
  shows "circ (rl (wl m a v)) L \<longleftrightarrow> circ (rl m) L"
proof -
  have "lseg (rl (wl m a v)) L e \<longleftrightarrow> lseg (rl m) L e" for e
    using assms by (induction L) (auto simp: rl_wl_aligned)
  then show ?thesis by (simp add: circ_def)
qed

section \<open>The heap invariant\<close>

definition heap :: "mem \<Rightarrow> nat \<Rightarrow> tile list \<Rightarrow> bool" where
  "heap m n T \<longleftrightarrow> hdr m n \<and> tiles 48 T n \<and> coalesced T \<and> T \<noteq> [] \<and> is_free (last T)
     \<and> circ (rl m) (frees T) \<and> rl m H_freelist = off (last T)
     \<and> rl m H_bytes_free = sum_list (map snd (frees T))
     \<and> (\<forall>t \<in> set T. \<not> is_free t \<longrightarrow> rl m (off t) = sz t)"

text \<open>The blocks handed out: where the caller's bytes start and how many there are.\<close>

definition used :: "tile list \<Rightarrow> (nat \<times> nat) list" where
  "used T = map (\<lambda>t. (off t + 8, sz t - 8)) (filter (\<lambda>t. \<not> is_free t) T)"

lemma nodes_frees: "tiles 48 T n \<Longrightarrow> nodes (frees T)"
  using tiles_distinct frees_bounds(3) by (fastforce simp: nodes_def)

lemma heap_bounds:
  assumes "heap m n T" and "t \<in> set T"
  shows "48 \<le> off t" "off t + sz t \<le> n" "16 dvd off t" "16 \<le> sz t" "16 dvd sz t"
  using tiles_bounds [of 48 T n t] assms by (auto simp: heap_def)

lemma tiles_distinct_off: "tiles a T e \<Longrightarrow> distinct (map off T)"
proof -
  assume "tiles a T e"
  then have "tiles a (map (\<lambda>t. (off t, sz t, True)) T) e"
    by (induction T arbitrary: a) auto
  from tiles_distinct [OF this] show ?thesis
    by (simp add: frees_def filter_map o_def)
qed

lemma rdn_wl_low [simp]: "8 \<le> a \<Longrightarrow> rdn (wl m a v) 0 4 = rdn m 0 4"
  "8 \<le> a \<Longrightarrow> rdn (wl m a v) 4 4 = rdn m 4 4"
  by (rule rdn_cong, rule agree_wl, simp)+

lemma hdr_wl [simp]:
  assumes "8 dvd a" and "16 \<le> a" and "a \<noteq> 40"
  shows "hdr (wl m a v) n \<longleftrightarrow> hdr m n"
  using assms by (auto simp: hdr_def rl_wl_aligned)

lemma sum_frees_le: "tiles a T e \<Longrightarrow> sum_list (map snd (frees T)) \<le> e - a"
proof (induction T arbitrary: a)
  case Nil
  then show ?case by simp
next
  case (Cons t T)
  moreover from this have "tiles (a + sz t) T e" by simp
  moreover from tiles_le [OF this] have "a + sz t \<le> e" .
  ultimately show ?case by fastforce
qed

text \<open>The free list seen from one of its blocks.\<close>

lemma heap_at:
  assumes "heap m n (T @ (a, k, True) # U)"
  shows "circ (rl m) ((a, k) # frees U @ frees T)" and "nodes ((a, k) # frees U @ frees T)"
    and "rl m (a + 8) = k"
proof -
  have "circ (rl m) (frees T @ ((a, k) # frees U))" using assms by (simp add: heap_def)
  then show c: "circ (rl m) ((a, k) # frees U @ frees T)"
    by (metis append_Cons circ_rotate)
  then show "rl m (a + 8) = k" by (simp add: circ_def)
  have "nodes (frees (T @ (a, k, True) # U))"
    by (rule nodes_frees [of _ n]) (use assms in \<open>simp add: heap_def\<close>)
  then show "nodes ((a, k) # frees U @ frees T)" by auto
qed

lemma heap_last:
  assumes "heap m n T"
  shows "\<exists>T0 k. T = T0 @ [(off (last T), k, True)]" and "rl m H_freelist = off (last T)"
    and "frees T \<noteq> []" and "fst (last (frees T)) = off (last T)"
proof -
  have ne: "T \<noteq> []" "is_free (last T)" using assms by (auto simp: heap_def)
  then have "T = butlast T @ [(off (last T), sz (last T), True)]"
    by (metis append_butlast_last_id prod.collapse)
  then show e: "\<exists>T0 k. T = T0 @ [(off (last T), k, True)]" by blast
  from e obtain T0 k where "T = T0 @ [(off (last T), k, True)]" by blast
  then have "frees T = frees T0 @ [(off (last T), k)]"
    by (metis frees_simps fst_conv snd_conv)
  then show "frees T \<noteq> []" "fst (last (frees T)) = off (last T)"
    by simp_all
  show "rl m H_freelist = off (last T)" using assms by (simp add: heap_def)
qed

section \<open>First fit\<close>

text \<open>What the search of \<open>nvalloc\<close> finds: the block, and the one linked to it.\<close>

fun first_fit :: "nat \<Rightarrow> nat \<Rightarrow> (nat \<times> nat) list \<Rightarrow> nat \<times> nat" where
  "first_fit rsz prv [] = (prv, prv)"
| "first_fit rsz prv [x] = (prv, fst x)"
| "first_fit rsz prv (x # y # L) =
     (if snd x < rsz then first_fit rsz (fst x) (y # L) else (prv, fst x))"

lemma find_block_ok:
  assumes "lseg (rl (fbytes s)) G e" and "G \<noteq> []" and "distinct (map fst G)"
    and "fst (last G) = flhead" and "\<forall>x \<in> set G. 0 < fst x \<and> in_map s (fst x) 16"
  shows "find_block s flhead rsz prv (fst (hd G)) = Some (Ok (first_fit rsz prv G))"
  using assms
proof (induction rsz prv G rule: first_fit.induct)
  case (1 rsz prv)
  then show ?case by simp
next
  case (2 rsz prv x)
  then have "peek s (fst x) 8 = Some (rl (fbytes s) (fst x + 8))"
    by (simp add: peek_def in_map_def)
  with 2 show ?case by (subst find_block.simps) simp
next
  case (3 rsz prv x y L)
  have ne: "fst x \<noteq> flhead"
    using 3(4,5) by (metis distinct.simps(2) last_ConsR last_in_set list.distinct(1) list.map(2)
      image_eqI list.set_map)
  have pk: "peek s (fst x) 8 = Some (snd x)" "peek s (fst x) 0 = Some (fst y)"
    using 3(2,6) by (auto simp: peek_def in_map_def)
  show ?case
  proof (cases "snd x < rsz")
    case True
    with 3 have "find_block s flhead rsz (fst x) (fst y) = Some (Ok (first_fit rsz (fst x) (y # L)))"
      by simp
    with True ne pk show ?thesis by (subst find_block.simps) simp
  next
    case False
    with pk show ?thesis by (subst find_block.simps) simp
  qed
qed

lemma first_fit_split:
  assumes "G \<noteq> []"
  shows "\<exists>G1 a k G2. G = G1 @ (a, k) # G2
     \<and> first_fit rsz prv G = (if G1 = [] then prv else fst (last G1), a)
     \<and> (\<forall>x \<in> set G1. snd x < rsz) \<and> (rsz \<le> k \<or> G2 = [])"
  using assms
proof (induction rsz prv G rule: first_fit.induct)
  case (1 rsz prv)
  then show ?case by simp
next
  case (2 rsz prv x)
  then show ?case by - (rule exI [of _ "[]"], rule exI [of _ "fst x"], rule exI [of _ "snd x"], simp)
next
  case (3 rsz prv x y L)
  show ?case
  proof (cases "snd x < rsz")
    case True
    with 3 obtain G1 a k G2 where "y # L = G1 @ (a, k) # G2"
      "first_fit rsz (fst x) (y # L) = (if G1 = [] then fst x else fst (last G1), a)"
      "\<forall>x \<in> set G1. snd x < rsz" "rsz \<le> k \<or> G2 = []" by blast
    moreover from this True have "first_fit rsz prv (x # G1 @ (a, k) # G2)
        = first_fit rsz (fst x) (G1 @ (a, k) # G2)"
      by (metis first_fit.simps(3))
    ultimately show ?thesis using True
      by - (rule exI [of _ "x # G1"], rule exI [of _ a], rule exI [of _ k], rule exI [of _ G2], auto)
  next
    case False
    then show ?thesis
      by - (rule exI [of _ "[]"], rule exI [of _ "fst x"], rule exI [of _ "snd x"], rule exI [of _ "y # L"], simp)
  qed
qed

lemma frees_split:
  "frees T = G1 @ (a, k) # G2 \<Longrightarrow>
   \<exists>T1 T2. T = T1 @ (a, k, True) # T2 \<and> frees T1 = G1 \<and> frees T2 = G2"
proof (induction T arbitrary: G1)
  case Nil
  then show ?case by simp
next
  case (Cons t T)
  show ?case
  proof (cases "is_free t \<and> G1 = []")
    case True
    with Cons.prems have "t = (a, k, True)" "frees T = G2" by (cases t; simp)+
    with True show ?thesis by - (rule exI [of _ "[]"], rule exI [of _ T], simp)
  next
    case False
    then obtain G where "frees T = G @ (a, k) # G2" "G1 = (if is_free t then (off t, sz t) # G else G)"
      using Cons.prems by (cases "is_free t"; cases G1) auto
    with Cons.IH [of G] obtain T1 T2 where
      "T = T1 @ (a, k, True) # T2" "frees T1 = G" "frees T2 = G2" by blast
    with \<open>G1 = _\<close> show ?thesis
      by - (rule exI [of _ "t # T1"], rule exI [of _ T2], simp)
  qed
qed

lemma heap_frees_in_map:
  assumes "heap (fbytes s) (fsize s) T" and "mapped s" and "x \<in> set (frees T)"
  shows "0 < fst x \<and> in_map s (fst x) 16"
proof -
  have "tiles 48 T (fsize s)" "(fst x, snd x) \<in> set (frees T)"
    using assms by (simp_all add: heap_def)
  from frees_bounds [OF this(1) _ this(2)] show ?thesis
    using assms(2) by (simp add: mapped_in_map)
qed

text \<open>Words that are in no free block and not in the header do not matter to the free list.\<close>

lemma circ_wl_other [simp]:
  assumes "nodes L" and "16 dvd a" and "a \<notin> fst ` set L"
  shows "circ (rl (wl m a v)) L \<longleftrightarrow> circ (rl m) L"
  using assms by (simp add: circ_def)

lemma used_not_free:
  assumes "tiles a T e" and "t \<in> set T" and "\<not> is_free t"
  shows "off t \<notin> fst ` set (frees T)"
proof
  assume "off t \<in> fst ` set (frees T)"
  then obtain u where "u \<in> set T" "is_free u" "off u = off t" by (auto simp: frees_def)
  with assms tiles_distinct_off [OF assms(1)] show False
    by (metis distinct_map inj_on_def)
qed

lemma frees_ge:
  "tiles 48 T n \<Longrightarrow> x \<in> set (frees T) \<Longrightarrow> 48 \<le> fst x \<and> fst x + snd x \<le> n \<and> 16 dvd fst x"
  using frees_bounds [of 48 T n "fst x" "snd x"] by simp

lemma coalesced_append_Cons:
  "coalesced (T @ t # U) \<longleftrightarrow> coalesced T \<and> coalesced U
     \<and> (T = [] \<or> \<not> (is_free (last T) \<and> is_free t)) \<and> (U = [] \<or> \<not> (is_free t \<and> is_free (hd U)))"
  by (cases U) (auto simp: coalesced_def successively_append_iff)

lemma heap_sums:
  assumes "heap m n (T @ (a, k, True) # U)" and "n < 2 ^ 64"
  shows "rl m 32 = sum_list (map snd (frees T)) + (k + sum_list (map snd (frees U)))"
    and "sum_list (map snd (frees T)) + (k + sum_list (map snd (frees U))) < 18446744073709551616"
    and "k \<le> n"
  using assms sum_frees_le [of 48 "T @ (a, k, True) # U" n] by (auto simp: heap_def)

lemma coalesced_Cons:
  "coalesced []"
  "coalesced (t # U) \<longleftrightarrow> coalesced U \<and> (U = [] \<or> \<not> (is_free t \<and> is_free (hd U)))"
   apply (simp add: coalesced_def)
  using coalesced_append_Cons [of "[]" t U] by (simp add: coalesced_def)

text \<open>
  To establish \<open>heap\<close> after an update: the list in any rotation, and the reads of the
  words that are not free blocks.
\<close>

lemma heapI:
  assumes "hdr m n" and "tiles 48 (T @ U) n" and "coalesced (T @ U)" and "T @ U \<noteq> []"
    and "is_free (last (T @ U))" and "circ (rl m) (frees U @ frees T)"
    and "rl m 24 = off (last (T @ U))" and "rl m 32 = sum_list (map snd (frees T)) + sum_list (map snd (frees U))"
    and "\<And>t. t \<in> set T \<union> set U \<Longrightarrow> \<not> is_free t \<Longrightarrow> rl m (off t) = sz t"
  shows "heap m n (T @ U)"
  using assms circ_rotate [of "rl m" "frees U" "frees T"] by (auto simp: heap_def)

end
