(* ===== verification/NV_Alloc.thy ===== *)
theory NV_Alloc
  imports NV_Heap
begin

text \<open>
  \<open>resize\<close>, \<open>nvalloc\<close> and \<open>nvfree\<close> of NVcontainer.cc keep the heap invariant; the
  tilings before and after say which block was handed out or taken back.
\<close>

section \<open>Taking a block off the free list\<close>

lemma heap_take_whole:
  assumes h: "heap m n (T @ (a, k, True) # U)" and W: "frees U @ frees T = M @ [(pv, vs)]"
    and U: "U \<noteq> []" and n: "n < 2 ^ 64"
  shows "heap (wl (wl (wl m pv (rl m a)) 32 (rl m 32 - k)) a k) n (T @ (a, k, False) # U)"
proof -
  let ?m1 = "wl m pv (rl m a)"
  note at = heap_at [OF h]
  have tl: "tiles 48 (T @ (a, k, True) # U) n" using h by (simp add: heap_def)
  have fr: "fst x \<ge> 48 \<and> 16 dvd fst x \<and> fst x < 2 ^ 64" if "x \<in> set ((a, k) # M @ [(pv, vs)])" for x
    using that frees_ge [OF tl, of x] n unfolding W [symmetric] by auto
  note sm = heap_sums [OF h n]
  then have k: "k < 2 ^ 64" by simp
  have nd: "nodes ((a, k) # M @ [(pv, vs)])" using at(2) by (simp only: append_Cons W)
  have c1: "circ (rl ?m1) (M @ [(pv, vs)])"
    using circ_unlink_first [of m a k M pv vs] at(1) nd by (simp only: W)
  show ?thesis
  proof (rule heapI [of _ _ T "(a, k, False) # U"])
    show "circ (rl (wl (wl ?m1 32 (rl m 32 - k)) a k)) (frees ((a, k, False) # U) @ frees T)"
      using c1 nd fr by (simp add: W)
    fix t assume t: "t \<in> set T \<union> set ((a, k, False) # U)" "\<not> is_free t"
    show "rl (wl (wl ?m1 32 (rl m 32 - k)) a k) (off t) = sz t"
    proof (cases "t = (a, k, False)")
      case True
      then show ?thesis using k by (simp add: rl_wl_same)
    next
      case False
      with t have tt: "t \<in> set (T @ (a, k, True) # U)" by auto
      have "off t \<notin> fst ` set ((a, k) # M @ [(pv, vs)])"
        using used_not_free [OF tl tt t(2)] unfolding W [symmetric] by auto
      moreover have "rl m (off t) = sz t" using h tt t(2) by (auto simp: heap_def)
      ultimately show ?thesis
        using fr [of "(a, k)"] fr [of "(pv, vs)"] heap_bounds [OF h tt]
        by (simp add: rl_wl_aligned)
    qed
  qed (use h U fr [of "(a, k)"] fr [of "(pv, vs)"] sm in \<open>auto simp: heap_def rl_wl_aligned
         coalesced_append_Cons tiles_mid\<close>)
qed

text \<open>
  The part \<open>m1\<close> of the memory in which the rest of the split block has been linked in;
  it agrees with \<open>m\<close> on the words outside the free list.
\<close>

lemma heap_take_split:
  assumes h: "heap m n (T @ (a, k, True) # U)" and n: "n < 2 ^ 64"
    and r: "16 dvd r" "0 < r" "r + 16 \<le> k"
    and c: "circ (rl m1) ((a + r, k - r) # frees U @ frees T)" and hd: "hdr m1 n"
    and same: "\<And>x. 8 dvd x \<Longrightarrow> x \<noteq> a + r \<Longrightarrow> x \<noteq> a + r + 8
      \<Longrightarrow> x \<notin> fst ` set (frees U @ frees T) \<Longrightarrow> rl m1 x = rl m x"
    and m2: "m2 = (if U = [] then wl m1 24 (a + r) else m1)"
  shows "heap (wl (wl m2 32 (rl m 32 - r)) a r) n (T @ (a, r, False) # (a + r, k - r, True) # U)"
proof -
  have tl: "tiles 48 (T @ (a, k, True) # U) n" using h by (simp add: heap_def)
  note sm = heap_sums [OF h n]
  have nd: "nodes ((a, k) # frees U @ frees T)" by (rule heap_at [OF h])
  have fr: "fst x \<ge> 48 \<and> 16 dvd fst x" if "x \<in> set ((a, k) # frees U @ frees T)" for x
    using that frees_ge [OF tl, of x] by auto
  have a: "48 \<le> a" "16 dvd a" using fr [of "(a, k)"] by simp_all
  have kn: "a + k \<le> n" "16 dvd k" using tl tiles_bounds [OF tl, of "(a, k, True)"] by auto
  let ?T = "T @ [(a, r, False)]" and ?U = "(a + r, k - r, True) # U"
  have tl': "tiles 48 (?T @ ?U) n"
    using tl r kn(2) by (simp add: tiles_mid dvd_diff_nat)
  then have nd': "nodes (frees ?U @ frees ?T)"
    using nodes_frees [of "?T @ ?U" n] by auto
  have fr': "fst x \<ge> 48 \<and> 16 dvd fst x" if "x \<in> set (frees ?U @ frees ?T)" for x
    using that frees_ge [OF tl', of x] by auto
  have c2: "circ (rl m2) (frees ?U @ frees ?T)"
    using circ_header [OF nd', of 24 m1 "a + r"] c fr' by (cases "U = []") (simp_all add: m2)
  have same2: "rl m2 x = (if U = [] \<and> x = 24 then a + r else rl m x)"
    if "8 dvd x" "x \<noteq> a + r" "x \<noteq> a + r + 8" "x \<notin> fst ` set (frees U @ frees T)" for x
    using same that kn n r by (auto simp: m2 rl_wl_aligned)
  have an: "a \<notin> fst ` set (frees ?U @ frees ?T)"
    using used_not_free [OF tl', of "(a, r, False)"] by auto
  have low: "x \<notin> fst ` set (frees U @ frees T)" if "x < 48" for x
    using fr that by force
  have "heap (wl (wl m2 32 (rl m 32 - r)) a r) n (?T @ ?U)"
  proof (rule heapI)
    show "circ (rl (wl (wl m2 32 (rl m 32 - r)) a r)) (frees ?U @ frees ?T)"
      using circ_header [OF nd', of 32 m2 "rl m 32 - r"] circ_wl_other [OF nd' _ an] c2 fr' a by simp
    show "hdr (wl (wl m2 32 (rl m 32 - r)) a r) n"
      using hd a by (simp add: m2)
    show "rl (wl (wl m2 32 (rl m 32 - r)) a r) 24 = off (last (?T @ ?U))"
      using same2 [of 24] low [of 24] a h by (auto simp: rl_wl_aligned heap_def)
    show "rl (wl (wl m2 32 (rl m 32 - r)) a r) 32
        = sum_list (map snd (frees ?T)) + sum_list (map snd (frees ?U))"
      using a sm r by (simp add: rl_wl_aligned)
    show "coalesced (?T @ ?U)" using h by (auto simp: heap_def coalesced_append_Cons coalesced_Cons)
  next
    fix t assume t: "t \<in> set ?T \<union> set ?U" "\<not> is_free t"
    show "rl (wl (wl m2 32 (rl m 32 - r)) a r) (off t) = sz t"
    proof (cases "t = (a, r, False)")
      case True
      then show ?thesis using r kn n by (simp add: rl_wl_same)
    next
      case False
      with t have tt: "t \<in> set (T @ (a, k, True) # U)" and tt': "t \<in> set (?T @ ?U)" by auto
      note b = heap_bounds [OF h tt]
      have "off t \<notin> fst ` set (frees ?U @ frees ?T)"
        using used_not_free [OF tl' tt' t(2)] by auto
      moreover have "off t \<noteq> a" using used_not_free [OF tl tt t(2)] by auto
      moreover have "rl m (off t) = sz t" using h tt t(2) by (auto simp: heap_def)
      ultimately show ?thesis
        using b a same2 [of "off t"] r by (auto simp: rl_wl_aligned)
    qed
  qed (use tl' h in \<open>auto simp: heap_def\<close>)
  then show ?thesis by simp
qed

section \<open>Blocks in use keep their bytes\<close>

definition keeps :: "tile list \<Rightarrow> mem \<Rightarrow> mem \<Rightarrow> bool" where
  "keeps T m m' \<longleftrightarrow> (\<forall>t \<in> set T. \<not> is_free t \<longrightarrow> agree m m' (off t) (sz t)) \<and> agree m m' H_userdata 8"

lemma keeps_refl [simp]: "keeps T m m"
  by (simp add: keeps_def)

lemma keeps_trans: "keeps T m m' \<Longrightarrow> keeps T m' m'' \<Longrightarrow> keeps T m m''"
  by (auto simp: keeps_def intro: agree_trans)

lemma tiles_disjoint:
  assumes "tiles a T e" and "t \<in> set T" and "u \<in> set T" and "t \<noteq> u"
  shows "off t + sz t \<le> off u \<or> off u + sz u \<le> off t"
proof -
  have le: "b \<le> off x" if "tiles b X c" "x \<in> set X" for b X c x
    using that by (induction X arbitrary: b) fastforce+
  show ?thesis
    using assms by (induction T arbitrary: a) (auto dest: le)
qed

text \<open>A write inside a free block, or in the header before the user data, keeps the others.\<close>

lemma keeps_wl_free:
  assumes "tiles 48 T n" and "u \<in> set T" and "is_free u" and "off u \<le> x" and "x + 8 \<le> off u + sz u"
  shows "keeps T m (wl m x v)"
proof -
  have "agree m (wl m x v) (off t) (sz t)" if "t \<in> set T" "\<not> is_free t" for t
  proof -
    have "t \<noteq> u" using that(2) assms(3) by auto
    with tiles_disjoint [OF assms(1) that(1) assms(2)] assms show ?thesis
      by (intro agree_sym [OF agree_wl]) auto
  qed
  moreover have "agree m (wl m x v) H_userdata 8"
    using tiles_bounds(1) [OF assms(1,2)] assms(4) by (intro agree_sym [OF agree_wl]) auto
  ultimately show ?thesis by (simp add: keeps_def)
qed

lemma keeps_wl_header:
  assumes "tiles 48 T n" and "x + 8 \<le> 40"
  shows "keeps T m (wl m x v)"
proof -
  have "agree m (wl m x v) (off t) (sz t)" if "t \<in> set T" for t
    using tiles_bounds(1) [OF assms(1) that] assms by (intro agree_sym [OF agree_wl]) auto
  moreover have "agree m (wl m x v) H_userdata 8"
    using assms by (intro agree_sym [OF agree_wl]) auto
  ultimately show ?thesis by (simp add: keeps_def)
qed

text \<open>The words that may be written: those of the header and of the free blocks.\<close>

definition safe :: "tile list \<Rightarrow> nat \<Rightarrow> bool" where
  "safe T x \<longleftrightarrow> x + 8 \<le> 40 \<or> (\<exists>u \<in> set T. is_free u \<and> off u \<le> x \<and> x + 8 \<le> off u + sz u)"

lemma keeps_wl:
  assumes "tiles 48 T n" and "safe T x" and "keeps T m m1"
  shows "keeps T m (wl m1 x v)"
  using assms keeps_wl_free [OF assms(1)] keeps_wl_header [OF assms(1)]
  by (auto simp: safe_def intro: keeps_trans)

lemma safe_free: "(a, k, True) \<in> set T \<Longrightarrow> a \<le> x \<Longrightarrow> x + 8 \<le> a + k \<Longrightarrow> safe T x"
  by (force simp: safe_def)

lemma safe_header: "x + 8 \<le> 40 \<Longrightarrow> safe T x"
  by (simp add: safe_def)

lemma keeps_mono: "keeps T m m' \<Longrightarrow> {t \<in> set U. \<not> is_free t} \<subseteq> set T \<Longrightarrow> keeps U m m'"
  by (auto simp: keeps_def)

lemma keeps_below:
  assumes "tiles 48 T n" and "T \<noteq> []" and "agree m m' 0 n"
  shows "keeps T m m'"
proof -
  have "agree m m' (off t) (sz t)" if "t \<in> set T" for t
    using tiles_bounds(2) [OF assms(1) that] assms(3) by (auto elim: agree_sub)
  moreover have "48 \<le> n" using assms(1) by (rule tiles_le)
  then have "agree m m' H_userdata 8" using assms(3) by (auto elim: agree_sub)
  ultimately show ?thesis by (simp add: keeps_def)
qed

section \<open>Growing the last block\<close>

lemma heap_agree:
  assumes "heap m n T" and "agree m m' 0 n"
  shows "heap m' n T"
proof -
  have rl: "rl m' x = rl m x" if "x + 8 \<le> n" for x
    using rl_cong [of m m' x] agree_sub [OF assms(2), of x 8] that by simp
  have n: "64 < n" and tl: "tiles 48 T n" using assms(1) by (auto simp: heap_def hdr_def)
  have "rdn m' 0 4 = rdn m 0 4" "rdn m' 4 4 = rdn m 4 4"
    using n by (auto intro!: rdn_cong agree_sub [OF agree_sym [OF assms(2)]])
  then have "hdr m' n" using assms(1) n by (simp add: heap_def hdr_def rl)
  moreover have "circ (rl m') (frees T)"
  proof -
    have "rl m' (fst x) = rl m (fst x) \<and> rl m' (fst x + 8) = rl m (fst x + 8)"
      if x: "x \<in> set (frees T)" for x
      using frees_bounds [OF tl, of "fst x" "snd x"] x by (simp add: rl)
    then show ?thesis
      using assms(1) lseg_cong [of "frees T" "rl m'" "rl m"] by (auto simp: heap_def circ_def)
  qed
  moreover have "rl m' (off t) = rl m (off t)" if "t \<in> set T" for t
    using heap_bounds [OF assms(1) that] by (simp add: rl)
  ultimately show ?thesis using assms(1) n by (simp add: heap_def rl)
qed

lemma heap_grow:
  assumes h: "heap m n (T @ [(a, k, True)])" and d: "16 dvd d" and n: "n + d < 2 ^ 64"
  shows "heap (wl (wl (wl m 32 (rl m 32 + d)) (a + 8) (k + d)) 8 (n + d)) (n + d)
           (T @ [(a, k + d, True)])"
    and "keeps T m (wl (wl (wl m 32 (rl m 32 + d)) (a + 8) (k + d)) 8 (n + d))"
proof -
  let ?m = "wl (wl (wl m 32 (rl m 32 + d)) (a + 8) (k + d)) 8 (n + d)"
  have tl: "tiles 48 (T @ [(a, k, True)]) n" using h by (simp add: heap_def)
  have tl': "tiles 48 (T @ [(a, k + d, True)]) (n + d)" using tl d by (auto simp: tiles_mid)
  have n64: "n < 2 ^ 64" using n by simp
  note sm = heap_sums [of m n T a k "[]", simplified, OF h n64 [simplified]]
  have b: "48 \<le> a" "a + k \<le> n" "16 dvd a" "16 \<le> k" using heap_bounds [OF h, of "(a, k, True)"] by auto
  have nd: "nodes (frees T @ [(a, k + d)])" "nodes (frees T @ [(a, k)])"
    using nodes_frees [OF tl'] nodes_frees [OF tl] by simp_all
  have ge: "\<forall>x \<in> set (frees T @ [(a, k + d)]). 48 \<le> fst x" using frees_ge [OF tl'] by fastforce
  have c: "circ (rl ?m) (frees T @ [(a, k + d)])"
  proof -
    have "circ (rl m) (frees T @ [(a, k)])" using h by (simp add: heap_def)
    then have "circ (rl (wl m 32 (rl m 32 + d))) (frees T @ [(a, k)])"
      using circ_header [OF nd(2)] ge by simp
    from circ_resize_last [OF this nd(2)] b n
    have "circ (rl (wl (wl m 32 (rl m 32 + d)) (a + 8) (k + d))) (frees T @ [(a, k + d)])" by simp
    then show ?thesis using circ_header [OF nd(1) ge, of 8] by simp
  qed
  have hd: "hdr ?m (n + d)"
    using h b n d by (auto simp: heap_def hdr_def rl_wl_aligned)
  have us: "rl ?m (off t) = sz t" if "t \<in> set T" "\<not> is_free t" for t
  proof -
    have t: "t \<in> set (T @ [(a, k, True)])" using that by simp
    have "rl m (off t) = sz t" using h that by (auto simp: heap_def)
    moreover have "off t \<noteq> a" using used_not_free [OF tl t that(2)] by auto
    ultimately show ?thesis using heap_bounds [OF h t] b by (simp add: rl_wl_aligned)
  qed
  have sum: "sum_list (map snd (frees T)) + (k + d) \<le> n + d" using sum_frees_le [OF tl'] by simp
  have w: "rl ?m 24 = rl m 24" "rl ?m 32 = sum_list (map snd (frees T)) + (k + d)"
    using b sm sum n by (auto simp: rl_wl_aligned)
  show "heap ?m (n + d) (T @ [(a, k + d, True)])"
    using hd tl' c us w h by (auto simp: heap_def coalesced_append_Cons coalesced_Cons)
  have "keeps (T @ [(a, k, True)]) m ?m"
    using keeps_wl_header [OF tl, of 32 m "rl m 32 + d"]
      keeps_wl_free [OF tl, of "(a, k, True)" "a + 8" "wl m 32 (rl m 32 + d)" "k + d"]
      keeps_wl_header [OF tl, of 8 "wl (wl m 32 (rl m 32 + d)) (a + 8) (k + d)" "n + d"] b
    by (auto intro: keeps_trans)
  then show "keeps T m ?m" by (rule keeps_mono) auto
qed

definition same_env :: "nvc \<Rightarrow> nvc \<Rightarrow> bool" where
  "same_env s s' \<longleftrightarrow> fname s' = fname s \<and> disk s' = disk s \<and> os s' = os s \<and> vcls s' = vcls s
     \<and> mem_fd s' = mem_fd s \<and> mem_fn s' = mem_fn s"

lemma same_db_env: "same_db s s' \<Longrightarrow> same_env s s'"
  by (simp add: same_db_def same_env_def)

lemma same_env_trans: "same_env s s' \<Longrightarrow> same_env s' s'' \<Longrightarrow> same_env s s''"
  by (simp add: same_env_def)

lemma locks_tl_push [simp]: "tl (push_lock c ls) = ls" "push_lock c ls \<noteq> []"
  by (simp_all add: push_lock_def)

lemma tiles_end_dvd: "tiles a T e \<Longrightarrow> 16 dvd a \<Longrightarrow> 16 dvd e"
  by (induction T arbitrary: a) auto

lemma heap_mappable:
  "heap (fbytes s) (fsize s) T \<Longrightarrow> mem_fd s \<Longrightarrow> mapped s \<Longrightarrow> mappable s"
  by (auto simp: heap_def mappable_def mapped_def hdr_def)

text \<open>The memory operations of \<open>resize\<close>, between taking the lock and releasing it.\<close>

definition grown :: "mem \<Rightarrow> nat \<Rightarrow> nat \<Rightarrow> nat \<Rightarrow> mem" where
  "grown m n a n' =
     (let m0 = (\<lambda>x. if n \<le> x then 0 else m x)
      in wl (wl (wl m0 32 (rl m0 32 + (n' - n))) (a + 8) (rl m0 (a + 8) + (n' - n))) 8 n')"

lemma grown_heap:
  assumes h: "heap m n (T @ [(a, k, True)])" and "16 dvd n' - n" and le: "n \<le> n'" and "n' < 2 ^ 64"
  shows "heap (grown m n a n') n' (T @ [(a, k + (n' - n), True)])" and "keeps T m (grown m n a n')"
proof -
  let ?m0 = "\<lambda>x. if n \<le> x then 0 else m x"
  have ag: "agree m ?m0 0 n" by (simp add: agree_def)
  have h0: "heap ?m0 n (T @ [(a, k, True)])" using heap_agree [OF h ag] .
  have a8: "rl ?m0 (a + 8) = k" using heap_at(3) [OF h0] .
  have eq: "grown m n a n' = wl (wl (wl ?m0 32 (rl ?m0 32 + (n' - n))) (a + 8) (k + (n' - n))) 8 n'"
    by (simp add: grown_def Let_def a8 [simplified])
  note g = heap_grow [OF h0 assms(2), unfolded le_add_diff_inverse [OF le], OF assms(4)]
  show "heap (grown m n a n') n' (T @ [(a, k + (n' - n), True)])"
    unfolding eq by (rule g(1))
  have "keeps (T @ [(a, k, True)]) m ?m0"
    by (rule keeps_below [OF _ _ ag]) (use h in \<open>simp_all add: heap_def\<close>)
  then have "keeps T m ?m0" by (rule keeps_mono) auto
  then show "keeps T m (grown m n a n')"
    unfolding eq using g(2) by (rule keeps_trans)
qed

lemma resize_ok:
  assumes rdy: "ready s" and mp: "mapped s" and ls: "locks s \<noteq> []" "length (locks s) < LOCKSTACKSIZE"
    and h: "heap (fbytes s) (fsize s) (T @ [(a, k, True)])"
    and r: "fsize s \<le> r" "r + 0x10000 < 2 ^ 64"
  defines "n' \<equiv> round_down 0x10000 (r + 0x10000)"
  shows "\<exists>s'. resize r s = (Ok n', s') \<and> ready s' \<and> mapped s' \<and> locks s' = locks s
           \<and> fbytes s' = grown (fbytes s) (fsize s) a n' \<and> fsize s' = n' \<and> r \<le> n' \<and> same_env s s'
           \<and> heap (fbytes s') n' (T @ [(a, k + (n' - fsize s), True)]) \<and> keeps T (fbytes s) (fbytes s')
           \<and> (vcls s = ClsArray \<longrightarrow> coherent s')"
proof -
  obtain s1 where s1: "lock ExclLock Block s = (Ok 0, s1)" "same_db s s1"
    "locks s1 = push_lock ExclLock (locks s)" "ready s1"
    using lock_ok [OF rdy _ ls(2), of ExclLock Block] by auto
  have m1: "mapped s1" using s1(3,4) by (simp add: ready_def)
  have eq: "fbytes s1 = fbytes s" "fsize s1 = fsize s" using s1(2) by (simp_all add: same_db_def)
  have n': "r \<le> n'" "n' < 2 ^ 64" "16 dvd n'"
  proof -
    have "r + 0x10000 < n' + 0x10000" unfolding n'_def by (rule round_down_gt) simp
    then show "r \<le> n'" by simp
    show "n' < 2 ^ 64" using round_down_le [of 65536 "r + 0x10000"] r(2) by (simp add: n'_def)
    have "(0x10000::nat) dvd n'" by (simp add: n'_def)
    then show "16 dvd n'" by (rule dvd_trans [rotated]) simp
  qed
  have "16 dvd fsize s" using h tiles_end_dvd by (fastforce simp: heap_def)
  with n' have d: "16 dvd n' - fsize s" by (simp add: dvd_diff_nat)
  have le: "fsize s \<le> n'" using n' r by simp
  note g = grown_heap [OF h d le n'(2)]
  have b: "48 \<le> a" "a + 16 \<le> fsize s" "64 < fsize s" using heap_bounds [OF h, of "(a, k, True)"] h
    by (auto simp: heap_def hdr_def)
  let ?m0 = "\<lambda>x. if fsize s \<le> x then 0 else fbytes s x"
  have fl: "rl (fbytes s) 24 = a" using h by (simp add: heap_def)
  have u1: "rl ?m0 32 + (n' - fsize s) < 2 ^ 64" and u2: "rl ?m0 (a + 8) + (n' - fsize s) < 2 ^ 64"
  proof -
    have h0: "heap ?m0 (fsize s) (T @ [(a, k, True)])" by (rule heap_agree [OF h]) (simp add: agree_def)
    then have "rl ?m0 (a + 8) = k" by (rule heap_at(3))
    moreover have "rl ?m0 32 = sum_list (map snd (frees (T @ [(a, k, True)])))"
      using h0 by (simp add: heap_def)
    moreover have "sum_list (map snd (frees (T @ [(a, k, True)]))) \<le> fsize s - 48"
      using sum_frees_le h0 by (simp only: heap_def)
    ultimately show "rl ?m0 32 + (n' - fsize s) < 2 ^ 64" "rl ?m0 (a + 8) + (n' - fsize s) < 2 ^ 64"
      using le n'(2) by auto
  qed
  have a32: "rl (wl m 32 v) (a + 8) = rl m (a + 8)" for m v
    using b heap_bounds(3) [OF h, of "(a, k, True)"] by (simp add: rl_wl_aligned)
  let ?s5 = "s1\<lparr>fsize := n', fbytes := grown (fbytes s) (fsize s) a n'\<rparr>"
  have "mappable ?s5"
    using g(1) m1 s1(4) b eq by (auto simp: heap_def mappable_def mapped_def ready_def)
  moreover have "os_grants (os ?s5)" using s1(4) by (simp add: ready_def)
  ultimately obtain s6 where s6: "make_current ?s5 = (Ok (), s6)" "same_db ?s5 s6"
    "same_locks ?s5 s6" "mapped s6" "vcls ?s5 = ClsArray \<longrightarrow> coherent s6"
    using make_current_ok by blast
  have l6: "lock_wf s6 \<and> locks s6 = push_lock ExclLock (locks s)"
    using same_locks_wf [OF s6(3)] s1(3,4) by (auto simp: ready_def lock_wf_def locks_def)
  have "ready s6"
    using same_db_mapped_mappable [OF s6(2) \<open>mappable ?s5\<close> s6(4)] s6(2,4) l6 s1(4)
    by (simp add: ready_def same_db_def)
  from unlock_ok [OF this, of Block] l6 obtain s7 where
    s7: "lock UnLock Block s6 = (Ok 0, s7)" "same_db s6 s7" "locks s7 = locks s" "ready s7" "mapped s7"
      "arr_sync s6 \<longrightarrow> arr_sync s7"
    by auto
  have co: "coherent s7" if "vcls s = ClsArray"
    using that s6(5) s7(3,6) ls(1) s1(2) s6(2) s7(2) by (simp add: arr_sync_def same_db_def)
  have f7: "fbytes s7 = grown (fbytes s) (fsize s) a n'" "fsize s7 = n'"
    using s6(2) s7(2) by (simp_all add: same_db_def)
  have "resize r s = (Ok n', s7)"
  proof -
    have mz: "mem_sz s = fsize s" "mem_sz s1 = fsize s" "mem_p s1 = Live" "mem_sz s7 = n'"
      using mp m1 eq s7(5) f7 by (simp_all add: mapped_def)
    have nn: "round_down 65536 (r + 65536) = n'" using n'_def by simp
    have gr: "os_ftruncate (os s1) x" for x using s1(4) by (simp add: ready_def os_grants_def)
    have z: "(\<lambda>x. if fsize s \<le> x then 0 else fbytes s1 x) = ?m0" by (simp only: eq)
    have "resize r s = bnd make_current (\<lambda>_. bnd (lock UnLock Block) (\<lambda>_. gets mem_sz)) ?s5"
      using r n' le b u1 u2
      by (simp add: resize_def act_simps mz s1(1) in_map_def eq fl nn gr a32 z grown_def Let_def)
    then show ?thesis
      using mz(4) by (simp add: act_simps s6(1) s7(1))
  qed
  moreover have "same_env s s7"
    using s1(2) s6(2) s7(2) by (simp add: same_db_def same_env_def)
  ultimately show ?thesis
    using co by (intro exI [of _ s7]) (simp add: s7 f7 g n')
qed

section \<open>nvalloc\<close>

definition inuse :: "tile list \<Rightarrow> tile set" where
  "inuse T = {t \<in> set T. \<not> is_free t}"

lemma inuse_simps [simp]:
  "inuse [] = {}"
  "inuse (t # T) = (if is_free t then inuse T else insert t (inuse T))"
  "inuse (T @ U) = inuse T \<union> inuse U"
  by (auto simp: inuse_def)

lemma keeps_inuse: "keeps T m m' \<Longrightarrow> inuse U \<subseteq> inuse T \<Longrightarrow> keeps U m m'"
  by (auto simp: keeps_def inuse_def)

lemma frees_last_cases:
  assumes "frees U @ frees T \<noteq> []" and "tiles 48 (T @ t # U) n"
  obtains M pv vs where "frees U @ frees T = M @ [(pv, vs)]" and "(pv, vs, True) \<in> set (T @ t # U)"
proof -
  obtain M x where M: "frees U @ frees T = M @ [x]" using assms(1) by (metis rev_exhaust)
  then have "x \<in> set (frees U @ frees T)" by simp
  then have "(fst x, snd x, True) \<in> set (T @ t # U)" by (auto simp: frees_def)
  with M that [of M "fst x" "snd x"] show thesis by simp
qed

lemma carve_ok:
  assumes mp: "mapped s" and h: "heap (fbytes s) (fsize s) (T @ (a, k, True) # U)"
    and n: "fsize s < 2 ^ 64"
    and prv: "prv = (if frees U @ frees T = [] then a else fst (last (frees U @ frees T)))"
    and fl: "flhead = off (last (T @ (a, k, True) # U))"
    and r: "16 dvd r" "0 < r" "r \<le> k" "U = [] \<longrightarrow> r + 16 \<le> k"
  shows "\<exists>m r' T'. nvalloc_carve flhead r prv a s = (Ok r', s\<lparr>fbytes := m\<rparr>) \<and> r \<le> r' \<and> r' < 2 ^ 64
     \<and> hdr m (fsize s) \<and> rl m 32 = rl (fbytes s) 32 \<and> r' \<le> rl m 32
     \<and> heap (wl (wl m 32 (rl m 32 - r')) a r') (fsize s) T'
     \<and> inuse T' = insert (a, r', False) (inuse (T @ (a, k, True) # U))
     \<and> keeps (T @ (a, k, True) # U) (fbytes s) (wl (wl m 32 (rl m 32 - r')) a r')"
proof -
  let ?T = "T @ (a, k, True) # U" and ?m = "fbytes s" and ?n = "fsize s"
  have tl: "tiles 48 ?T ?n" using h by (simp add: heap_def)
  have b: "48 \<le> a" "a + k \<le> ?n" "16 dvd a" "16 \<le> k" "16 dvd k"
    using heap_bounds [OF h, of "(a, k, True)"] by auto
  have hd: "hdr ?m ?n" using h by (simp add: heap_def)
  note sm = heap_sums [OF h n] and at = heap_at [OF h]
  have U: "is_free (last U)" if "U \<noteq> []" using h that by (simp add: heap_def)
  have Ufr: "frees U \<noteq> []" if "U \<noteq> []"
    using U [OF that] that by (simp add: frees_def filter_empty_conv) (metis last_in_set)
  have aU: "a \<noteq> off (last U)" if "U \<noteq> []"
    using tiles_distinct_off [OF tl] that by (auto dest!: last_in_set)
  have flU: "flhead = (if U = [] then a else off (last U))" using fl by simp
  have sf: "safe ?T x" if "a \<le> x" "x + 8 \<le> a + k" for x
    using safe_free [of a k ?T] that by simp
  have k8: "rl ?m (a + 8) = k" by (rule at)
  consider (whole) "k < r + 16" | (single) "r + 16 \<le> k" "frees U @ frees T = []"
    | (split) "r + 16 \<le> k" "frees U @ frees T \<noteq> []" by linarith
  then show ?thesis
  proof cases
    case whole
    then have ne: "U \<noteq> []" using r(4) by auto
    with Ufr have "frees U @ frees T \<noteq> []" by simp
    then obtain M pv vs where W: "frees U @ frees T = M @ [(pv, vs)]" and pv: "(pv, vs, True) \<in> set ?T"
      using frees_last_cases [OF _ tl] by blast
    have bp: "48 \<le> pv" "pv + 8 \<le> ?n" "16 dvd pv" using heap_bounds [OF h pv] by auto
    have pe: "prv = pv" using prv W by simp
    let ?m1 = "wl ?m pv (rl ?m a)"
    have m32: "rl ?m1 32 = rl ?m 32" using bp by (simp add: rl_wl_aligned)
    have "nvalloc_carve flhead r prv a s = (Ok k, s\<lparr>fbytes := ?m1\<rparr>)"
      using whole b bp n k8 ne aU r
      by (simp add: nvalloc_carve_def act_simps mapped_in_map [OF mp] pe flU)
    moreover have "keeps ?T ?m (wl (wl ?m1 32 (rl ?m1 32 - k)) a k)"
      using safe_free [OF pv, of pv] heap_bounds [OF h pv] b
      by (simp add: keeps_wl [OF tl] sf safe_header)
    moreover have "r \<le> k" "k < 2 ^ 64" "k \<le> rl ?m1 32" "hdr ?m1 ?n"
      using r sm n m32 hd bp by simp_all
    moreover have "heap (wl (wl ?m1 32 (rl ?m1 32 - k)) a k) ?n (T @ (a, k, False) # U)"
      unfolding m32 by (rule heap_take_whole [OF h W ne n])
    moreover have "inuse (T @ (a, k, False) # U) = insert (a, k, False) (inuse ?T)" by simp
    ultimately show ?thesis using m32 by (intro exI conjI)
  next
    case single
    have e: "U = []" "frees T = []" "frees U = []" "prv = a" using single Ufr prv by auto
    let ?m1 = "wl (wl ?m (a + r + 8) (k - r)) (a + r) (a + r)"
    let ?m2 = "wl ?m1 24 (a + r)"
    have ar: "16 dvd a + r" "a + r < 2 ^ 64" "k - r < 2 ^ 64" using b r n single by auto
    have m32: "rl ?m2 32 = rl ?m 32" using b ar by (simp add: rl_wl_aligned)
    have c: "circ (rl ?m1) ((a + r, k - r) # frees U @ frees T)"
      using circ_single(1) [OF ar] e by simp
    have hd1: "hdr ?m1 ?n" using hd b ar by simp
    have "heap (wl (wl ?m2 32 (rl ?m2 32 - r)) a r) ?n (T @ (a, r, False) # (a + r, k - r, True) # U)"
      unfolding m32 by (rule heap_take_split [OF h n r(1,2) single(1) c hd1])
         (use ar e in \<open>auto simp: rl_wl_aligned\<close>)
    moreover have "nvalloc_carve flhead r prv a s = (Ok r, s\<lparr>fbytes := ?m2\<rparr>)"
      using single(1) b(1,2) n k8 r(2) e
      by (simp add: nvalloc_carve_def act_simps mapped_in_map [OF mp] flU Let_def)
    moreover have "keeps ?T ?m (wl (wl ?m2 32 (rl ?m2 32 - r)) a r)"
      using single b r by (simp add: keeps_wl [OF tl] sf safe_header)
    moreover have "r \<le> r" "r < 2 ^ 64" "r \<le> rl ?m2 32" "hdr ?m2 ?n"
      using r sm n m32 hd1 b by simp_all
    moreover have "inuse (T @ (a, r, False) # (a + r, k - r, True) # U) = insert (a, r, False) (inuse ?T)"
      by simp
    ultimately show ?thesis using m32 by (intro exI conjI)
  next
    case split
    then obtain M pv vs where W: "frees U @ frees T = M @ [(pv, vs)]" and pv: "(pv, vs, True) \<in> set ?T"
      using frees_last_cases [OF _ tl] by blast
    have bp: "48 \<le> pv" "pv + 8 \<le> ?n" "16 dvd pv" using heap_bounds [OF h pv] by auto
    have pe: "prv = pv" using prv W by simp
    let ?m1 = "wl (wl (wl ?m (a + r + 8) (k - r)) (a + r) (rl ?m a)) pv (a + r)"
    let ?m2 = "if U = [] then wl ?m1 24 (a + r) else ?m1"
    have ar: "16 dvd a + r" "a + r < 2 ^ 64" "k - r < 2 ^ 64" "16 dvd k - r"
      using b r n split by (auto simp: dvd_diff_nat)
    have nd: "nodes ((a, k) # M @ [(pv, vs)])" using at(2) by (simp only: append_Cons W)
    have "tiles 48 (T @ (a, r, False) # (a + r, k - r, True) # U) ?n"
      using tl r b split ar by (auto simp: tiles_mid)
    from nodes_frees [OF this] have "nodes ((a + r, k - r) # frees U @ frees T)" by auto
    then have nd': "nodes ((a + r, k - r) # M @ [(pv, vs)])" by (simp only: append_Cons W)
    have pa: "pv \<noteq> a" "pv \<noteq> a + r" using nd nd' by auto
    have m32: "rl ?m2 32 = rl ?m 32" using b ar bp by (simp add: rl_wl_aligned)
    have c: "circ (rl ?m1) ((a + r, k - r) # frees U @ frees T)"
      unfolding W by (rule circ_split_first [OF _ nd nd' ar(2,3)]) (use at(1) W in simp)
    have hd1: "hdr ?m1 ?n" using hd b ar bp by simp
    have pin: "pv \<in> fst ` set (frees U @ frees T)" unfolding W by simp
    have "heap (wl (wl ?m2 32 (rl ?m2 32 - r)) a r) ?n (T @ (a, r, False) # (a + r, k - r, True) # U)"
      unfolding m32 by (rule heap_take_split [OF h n r(1,2) split(1) c hd1])
         (use ar bp pin in \<open>auto simp: rl_wl_aligned\<close>)
    moreover have "nvalloc_carve flhead r prv a s = (Ok r, s\<lparr>fbytes := ?m2\<rparr>)"
    proof -
      have "rl (wl ?m (a + r + 8) (k - r)) a = rl ?m a" by (rule rl_wl_other) simp
      then show ?thesis
        using split(1) b(1,2) bp(1,2) n k8 r(2) pa aU
        by (simp add: nvalloc_carve_def act_simps mapped_in_map [OF mp] flU pe Let_def)
    qed
    moreover have "keeps ?T ?m (wl (wl ?m2 32 (rl ?m2 32 - r)) a r)"
    proof -
      have s: "safe ?T pv" "safe ?T a" "safe ?T (a + r)" "safe ?T (a + r + 8)" "safe ?T 24" "safe ?T 32"
        using split b r safe_free [OF pv, of pv] heap_bounds [OF h pv] by (simp_all add: sf safe_header)
      note kw = keeps_wl [OF tl]
      have "keeps ?T ?m ?m1" by (intro kw s keeps_refl)
      then have "keeps ?T ?m ?m2" using kw [OF s(5)] by (simp only: split: if_split) simp
      then show ?thesis by (intro kw s)
    qed
    moreover have "r \<le> r" "r < 2 ^ 64" "r \<le> rl ?m2 32" "hdr ?m2 ?n"
      using r sm n m32 hd1 b by simp_all
    moreover have "inuse (T @ (a, r, False) # (a + r, k - r, True) # U) = insert (a, r, False) (inuse ?T)"
      by simp
    ultimately show ?thesis using m32 by (intro exI conjI)
  qed
qed

lemma grow_ok:
  assumes rdy: "ready s" and mp: "mapped s" and ls: "locks s \<noteq> []" "length (locks s) < LOCKSTACKSIZE"
    and h: "heap (fbytes s) (fsize s) (T @ (a, k, True) # U)" and r: "U = [] \<or> rsz \<le> k"
    and n: "fsize s + rsz + 0x10010 < 2 ^ 31"
    and fl: "flhead = off (last (T @ (a, k, True) # U))"
  shows "\<exists>s' k'. nvalloc_grow flhead rsz prv a s = (Ok (flhead, prv, a), s') \<and> ready s' \<and> mapped s'
     \<and> locks s' = locks s \<and> same_env s s' \<and> fsize s \<le> fsize s' \<and> fsize s' < 2 ^ 31
     \<and> heap (fbytes s') (fsize s') (T @ (a, k', True) # U) \<and> rsz \<le> k' \<and> (U = [] \<longrightarrow> rsz + 16 \<le> k')
     \<and> keeps (T @ (a, k, True) # U) (fbytes s) (fbytes s')
     \<and> (vcls s = ClsArray \<and> coherent s \<longrightarrow> coherent s')"
proof (cases "U = [] \<and> k < rsz + 16")
  case False
  have b: "48 \<le> a" "a + k \<le> fsize s" "16 \<le> k" using heap_bounds [OF h, of "(a, k, True)"] by auto
  have k8: "rl (fbytes s) (a + 8) = k" by (rule heap_at [OF h])
  have tl: "tiles 48 (T @ (a, k, True) # U) (fsize s)" using h by (simp add: heap_def)
  have "flhead = a \<longleftrightarrow> U = []"
    using tiles_distinct_off [OF tl] fl by (auto dest!: last_in_set)
  then have "nvalloc_grow flhead rsz prv a s = (Ok (flhead, prv, a), s)"
    using False b k8 n
    by (cases "U = []") (simp_all add: nvalloc_grow_def act_simps mapped_in_map [OF mp])
  moreover have "rsz \<le> k" "U = [] \<longrightarrow> rsz + 16 \<le> k" using False r by auto
  moreover have "same_env s s" by (simp add: same_env_def)
  ultimately show ?thesis
    using assms by (intro exI [of _ s] exI [of _ k]) auto
next
  case True
  then have U: "U = []" and k: "k < rsz + 16" by auto
  have h': "heap (fbytes s) (fsize s) (T @ [(a, k, True)])" using h U by simp
  have b: "48 \<le> a" "a + k \<le> fsize s" "16 \<le> k" using heap_bounds [OF h, of "(a, k, True)"] by auto
  have k8: "rl (fbytes s) (a + 8) = k" by (rule heap_at [OF h])
  have fla: "flhead = a" using fl U by simp
  let ?q = "fsize s + (rsz + 16 - k)"
  let ?n = "round_down 0x10000 (?q + 0x10000)"
  have "?q + 0x10000 < 2 ^ 64" "fsize s \<le> ?q" using n by auto
  from resize_ok [OF rdy mp ls h' this(2,1)] obtain s' where
    s': "resize ?q s = (Ok ?n, s')" "ready s'" "mapped s'" "locks s' = locks s" "fsize s' = ?n"
      "?q \<le> ?n" "same_env s s'" "heap (fbytes s') ?n (T @ [(a, k + (?n - fsize s), True)])"
      "keeps T (fbytes s) (fbytes s')" "vcls s = ClsArray \<longrightarrow> coherent s'" by blast
  have nn: "?n < 2 ^ 31" using round_down_le [of 65536 "?q + 65536"] n k b by simp
  have k': "rsz + 16 \<le> k + (?n - fsize s)" using s'(6) k by simp
  have rd': "rl (fbytes s') 24 = a" "rl (fbytes s') (a + 8) = k + (?n - fsize s)"
    using heap_at(3) [OF s'(8) [unfolded append_Cons [symmetric]]] s'(8) by (auto simp: heap_def)
  have q: "u64_of_int (int (fsize s) + i32 (int (rsz + 16 - k))) = ?q"
    using n k by simp
  have sub: "sub64 (rsz + 16) k = rsz + 16 - k" using n k by simp
  have b': "64 < fsize s'" "a + 16 \<le> fsize s'"
    using s'(5,6,8) b by (auto simp: heap_def hdr_def)
  have "nvalloc_grow flhead rsz prv a s = (Ok (a, prv, a), s')"
  proof -
    define K Q N where "K = k + (?n - fsize s)" and "Q = ?q" and "N = ?n"
    have "mem_sz s = fsize s" using mp by (simp add: mapped_def)
    moreover have "rl (fbytes s') (a + 8) = K" "rsz + 16 \<le> K" "resize Q s = (Ok N, s')"
      "u64_of_int (int (fsize s) + i32 (int (rsz + 16 - k))) = Q"
      using rd' k' s'(1) q by (simp_all only: K_def Q_def N_def)
    ultimately show ?thesis
      using b k n k8 fla rd'(1) b'
      by (simp add: nvalloc_grow_def act_simps mapped_in_map [OF mp] mapped_in_map [OF s'(3)] Let_def
          sub del: of_nat_diff)
  qed
  moreover have "keeps (T @ (a, k, True) # U) (fbytes s) (fbytes s')"
    using s'(9) by (rule keeps_mono) (auto simp: U)
  ultimately show ?thesis
    using s' nn k' U fla by (intro exI [of _ s'] exI [of _ "k + (?n - fsize s)"]) simp
qed

text \<open>The lookup of a block: where the search stops, seen in the tiling.\<close>

lemma find_ok:
  assumes mp: "mapped s" and h: "heap (fbytes s) (fsize s) T"
  shows "\<exists>T1 a k U prv. T = T1 @ (a, k, True) # U \<and> (U = [] \<or> rsz \<le> k)
     \<and> nvalloc_find (off (last T)) rsz (off (last T)) (rl (fbytes s) (off (last T))) s = (Ok (prv, a), s)
     \<and> prv = (if frees U @ frees T1 = [] then a else fst (last (frees U @ frees T1)))
     \<and> (\<forall>x \<in> set (frees T1). snd x < rsz)"
proof -
  let ?F = "frees T" and ?fl = "off (last T)"
  note hl = heap_last [OF h]
  have tl: "tiles 48 T (fsize s)" and ci: "circ (rl (fbytes s)) ?F" using h by (simp_all add: heap_def)
  obtain G x where G: "?F = G @ [x]" using hl(3) by (metis rev_exhaust)
  then have x: "fst x = ?fl" using hl(4) by simp
  have first: "rl (fbytes s) ?fl = fst (hd ?F)"
    using ci x by (cases G) (auto simp: G circ_def)
  have fb: "find_block s ?fl rsz ?fl (fst (hd ?F)) = Some (Ok (first_fit rsz ?fl ?F))"
    by (rule find_block_ok [where e = "hd_off ?F 0"])
       (use ci hl tiles_distinct [OF tl] heap_frees_in_map [OF h mp] in \<open>auto simp: circ_def\<close>)
  obtain G1 a k G2 where g: "?F = G1 @ (a, k) # G2"
    "first_fit rsz ?fl ?F = (if G1 = [] then ?fl else fst (last G1), a)"
    "\<forall>x \<in> set G1. snd x < rsz" "rsz \<le> k \<or> G2 = []"
    using first_fit_split [OF hl(3)] by blast
  obtain T1 U where T: "T = T1 @ (a, k, True) # U" "frees T1 = G1" "frees U = G2"
    using frees_split [OF g(1)] by blast
  have "U = []" if "G2 = []"
  proof (rule ccontr)
    assume "U \<noteq> []"
    moreover from this have "is_free (last U)" using h T(1) by (simp add: heap_def)
    ultimately have "frees U \<noteq> []"
      by (simp add: frees_def filter_empty_conv) (metis last_in_set)
    with that T show False by simp
  qed
  with g(4) have "U = [] \<or> rsz \<le> k" by blast
  moreover have "nvalloc_find ?fl rsz ?fl (rl (fbytes s) ?fl) s
      = (Ok (if G1 = [] then ?fl else fst (last G1), a), s)"
    by (simp only: nvalloc_find_def first fb g(2)) simp
  moreover have "(if G1 = [] then ?fl else fst (last G1))
      = (if frees U @ frees T1 = [] then a else fst (last (frees U @ frees T1)))"
    using hl(4) unfolding g(1) T(2,3) by auto
  moreover have "\<forall>x \<in> set (frees T1). snd x < rsz" using g(3) T(2) by simp
  ultimately show ?thesis using T(1) by blast
qed

lemma alloc_size:
  assumes "rsz0 < 2 ^ 31"
  defines "rsz \<equiv> round_down 16 (u64 (rsz0 + 8 + 0xf))"
  shows "rsz0 + 8 \<le> rsz" and "rsz \<le> rsz0 + 23" and "16 dvd rsz" and "0 < rsz"
proof -
  have r: "rsz = round_down 16 (rsz0 + 23)" using assms by (simp add: add.commute)
  show "rsz0 + 8 \<le> rsz" using round_down_gt [of 16 "rsz0 + 23"] r by simp
  then show "0 < rsz" by simp
  show "rsz \<le> rsz0 + 23" using round_down_le [of 16 "rsz0 + 23"] r by simp
  show "16 dvd rsz" by (simp add: r)
qed

lemma ready_upd:
  assumes "ready s" and "mapped s" and "hdr m (fsize s)"
  shows "ready (s\<lparr>fbytes := m\<rparr>)" and "mapped (s\<lparr>fbytes := m\<rparr>)"
    and "locks (s\<lparr>fbytes := m\<rparr>) = locks s"
  using assms by (auto simp: ready_def mappable_def mapped_def lock_wf_def locks_def)

lemma nvalloc_ok:
  assumes rdy: "ready s" and h: "heap (fbytes s) (fsize s) T"
    and ls: "length (locks s) + 2 \<le> LOCKSTACKSIZE" and n: "fsize s + rsz0 + 0x10040 < 2 ^ 31"
  shows "\<exists>s' p k T'. nvalloc rsz0 s = (Ok (p + 8), s') \<and> ready s' \<and> mapped s' \<and> locks s' = locks s
     \<and> same_env s s' \<and> heap (fbytes s') (fsize s') T' \<and> fsize s \<le> fsize s' \<and> fsize s' < 2 ^ 31
     \<and> (p, k, False) \<notin> inuse T \<and> inuse T' = insert (p, k, False) (inuse T) \<and> rsz0 + 8 \<le> k
     \<and> keeps T (fbytes s) (fbytes s')
     \<and> (vcls s = ClsArray \<and> coherent s \<and> top_lock (locks s) = ExclLock
        \<longrightarrow> (\<exists>m. keeps T (fbytes s) m \<and> arrs s' = loaded m))"
proof -
  define rsz where "rsz = round_down 16 (u64 (rsz0 + 8 + 0xf))"
  have r0: "rsz0 < 2 ^ 31" using n by simp
  note r = alloc_size [OF r0, folded rsz_def]
  obtain s1 where s1: "lock ExclLock Block s = (Ok 0, s1)" "same_db s s1"
    "locks s1 = push_lock ExclLock (locks s)" "ready s1"
    "top_lock (locks s) = ExclLock \<longrightarrow> arrs s1 = arrs s"
    using lock_ok [OF rdy, of ExclLock Block] ls by auto
  have m1: "mapped s1" using s1(3,4) by (simp add: ready_def)
  have h1: "heap (fbytes s1) (fsize s1) T" and e1: "fsize s1 = fsize s" "fbytes s1 = fbytes s"
    using h s1(2) by (simp_all add: same_db_def)
  have ls1: "locks s1 \<noteq> []" "length (locks s1) < LOCKSTACKSIZE"
    using ls s1(3) by (simp_all add: push_lock_def)
  let ?fl = "off (last T)"
  obtain T1 a k U prv where f: "T = T1 @ (a, k, True) # U" "U = [] \<or> rsz \<le> k"
    "nvalloc_find ?fl rsz ?fl (rl (fbytes s1) ?fl) s1 = (Ok (prv, a), s1)"
    "prv = (if frees U @ frees T1 = [] then a else fst (last (frees U @ frees T1)))"
    using find_ok [OF m1 h1, of rsz] by blast
  have fb: "48 \<le> ?fl" "?fl + 16 \<le> fsize s1"
    using heap_bounds [OF h1, of "last T"] h by (auto simp: heap_def)
  have fl: "rl (fbytes s1) 24 = ?fl" using h1 by (simp add: heap_def)
  have "fsize s1 + rsz + 0x10010 < 2 ^ 31" using n r(2) e1 by simp
  from grow_ok [OF s1(4) m1 ls1 h1 [unfolded f(1)] f(2) this, of ?fl prv] f(1) obtain s2 k' where
    s2: "nvalloc_grow ?fl rsz prv a s1 = (Ok (?fl, prv, a), s2)" "ready s2" "mapped s2"
      "locks s2 = locks s1" "same_env s1 s2" "fsize s1 \<le> fsize s2" "fsize s2 < 2 ^ 31"
      "heap (fbytes s2) (fsize s2) (T1 @ (a, k', True) # U)" "rsz \<le> k'" "U = [] \<longrightarrow> rsz + 16 \<le> k'"
      "keeps T (fbytes s1) (fbytes s2)" "vcls s1 = ClsArray \<and> coherent s1 \<longrightarrow> coherent s2"
    by auto
  let ?T2 = "T1 @ (a, k', True) # U"
  have b: "48 \<le> a" "a + k' \<le> fsize s2" "16 \<le> k'" "64 < fsize s2"
    using heap_bounds [OF s2(8), of "(a, k', True)"] s2(8) by (auto simp: heap_def hdr_def)
  have n2: "fsize s2 < 2 ^ 64" using s2(7) by simp
  have fl2: "?fl = off (last ?T2)" using f(1) by simp
  from carve_ok [OF s2(3,8) n2 f(4) fl2 r(3,4) s2(9,10)] obtain m r' T' where
    c: "nvalloc_carve ?fl rsz prv a s2 = (Ok r', s2\<lparr>fbytes := m\<rparr>)" "rsz \<le> r'" "r' < 2 ^ 64"
      "hdr m (fsize s2)" "rl m 32 = rl (fbytes s2) 32" "r' \<le> rl m 32"
      "heap (wl (wl m 32 (rl m 32 - r')) a r') (fsize s2) T'"
      "inuse T' = insert (a, r', False) (inuse ?T2)"
      "keeps ?T2 (fbytes s2) (wl (wl m 32 (rl m 32 - r')) a r')" by blast
  let ?m3 = "wl m 32 (rl m 32 - r')"
  have hd3: "hdr ?m3 (fsize s2)" using c(4) by simp
  note s3 = ready_upd [OF s2(2,3) hd3]
  have "locks (s2\<lparr>fbytes := ?m3\<rparr>) \<noteq> []" using s3(3) s2(4) ls1(1) by simp
  from unlock_ok [OF s3(1) this, of Block] obtain s4 where
    s4: "lock UnLock Block (s2\<lparr>fbytes := ?m3\<rparr>) = (Ok 0, s4)" "same_db (s2\<lparr>fbytes := ?m3\<rparr>) s4"
      "locks s4 = locks s" "ready s4" "mapped s4"
      "top_lock (locks s) = ExclLock \<longrightarrow> arrs s4 = arrs (s2\<lparr>fbytes := ?m3\<rparr>)"
    using s3(3) s2(4) s1(3) by auto
  have e4: "fbytes s4 = ?m3" "fsize s4 = fsize s2" using s4(2) by (simp_all add: same_db_def)
  let ?s5 = "s4\<lparr>fbytes := wl ?m3 a r'\<rparr>"
  have "hdr (wl ?m3 a r') (fsize s4)" using c(7) e4 by (simp add: heap_def)
  note s5 = ready_upd [OF s4(4,5) this]
  have rz: "round_down 16 (u64 (23 + rsz0)) = rsz" by (simp add: rsz_def)
  have "nvalloc rsz0 s = (Ok (a + 8), ?s5)"
    using fb b r s2(9) c(6)
    by (simp add: nvalloc_def act_simps s1(1) mapped_in_map [OF m1] mapped_in_map [OF s2(3)]
        mapped_in_map [OF s4(5)] fl rz f(3) s2(1) c(1) heap_at(3) [OF s2(8)]
        s4(1) e4)
  moreover have "same_env s ?s5"
    using s1(2) s2(5) s4(2) by (simp add: same_db_def same_env_def)
  moreover have "keeps T (fbytes s) (wl ?m3 a r')"
  proof -
    have "keeps T (fbytes s2) (wl ?m3 a r')" by (rule keeps_inuse [OF c(9)]) (simp add: f(1))
    with s2(11) show ?thesis unfolding e1 by (rule keeps_trans)
  qed
  moreover have "\<exists>m. keeps T (fbytes s) m \<and> arrs ?s5 = loaded m"
    if "vcls s = ClsArray" "coherent s" "top_lock (locks s) = ExclLock"
  proof (intro exI conjI)
    show "keeps T (fbytes s) (fbytes s2)" using s2(11) e1 by simp
    have "coherent s2"
      using that s1(2,5) s2(12) by (simp add: coherent_def same_db_def)
    then show "arrs ?s5 = loaded (fbytes s2)"
      using that(3) s4(6) by (simp add: coherent_def arrs_def)
  qed
  moreover have "inuse T' = insert (a, r', False) (inuse T)" using c(8) f(1) by simp
  moreover have "(a, r', False) \<notin> inuse T"
  proof
    assume "(a, r', False) \<in> inuse T"
    then have "(a, r', False) \<in> set T" by (simp add: inuse_def)
    from used_not_free [OF _ this] h f(1) show False by (auto simp: heap_def)
  qed
  moreover have "heap (fbytes ?s5) (fsize ?s5) T'" using c(7) e4 by simp
  moreover have "rsz0 + 8 \<le> r'" using r(1) c(2) by simp
  ultimately show ?thesis
    using s5 s4(3) s2(6,7) e1 e4
    by (intro exI [of _ ?s5] exI [of _ a] exI [of _ r'] exI [of _ T']) simp
qed

end
