(* ===== verification/NV_Free.thy ===== *)
theory NV_Free
  imports NV_Alloc
begin

text \<open>
  \<open>nvfree\<close> of NVcontainer.cc: the walk to the place of the block in the free list, the
  four ways of inserting it, and the invariant after each of them.
\<close>

section \<open>The walk\<close>

lemma nvfree_walk_ok:
  assumes "lseg (rl (fbytes s)) (G @ H) e" and "H \<noteq> []"
    and "sorted_wrt (\<lambda>x y. fst x < fst y) (G @ H)"
    and "\<forall>x \<in> set G. fst x < pb \<and> fst x \<noteq> fl" and "pb \<le> fst (hd H)"
    and "\<forall>x \<in> set (G @ H). 0 < fst x \<and> in_map s (fst x) 16"
  shows "nvfree_walk fl pb prv (hd_off (G @ H) 0) s
    = (Ok (if G = [] then prv else fst (last G), fst (hd H)), s)"
  using assms
proof (induction G arbitrary: prv)
  case Nil
  then show ?case by (cases H) (simp_all add: nvfree_walk.simps)
next
  case (Cons x G)
  have pk: "peek s (fst x) 0 = Some (hd_off (G @ H) 0)"
  proof -
    have "rl (fbytes s) (fst x) = hd_off (G @ H) 0" using Cons.prems(1,2) by (cases H) auto
    moreover have "0 < fst x \<and> in_map s (fst x) 8"
      using Cons.prems(6) by (auto simp: in_map_def)
    ultimately show ?thesis by (simp add: peek_def)
  qed
  have "fst x < hd_off (G @ H) 0"
    using Cons.prems(2,3) by (cases "G @ H") auto
  moreover have "nvfree_walk fl pb (fst x) (hd_off (G @ H) 0) s
      = (Ok (if G = [] then fst x else fst (last G), fst (hd H)), s)"
    using Cons.prems by (intro Cons.IH) auto
  ultimately show ?case
    using pk Cons.prems(4) by (simp add: nvfree_walk.simps [of _ _ _ "fst x"])
qed

section \<open>Inserting the block\<close>

lemma heap_put:
  assumes h: "heap m n (T @ (pb, k, False) # U)" and n: "n < 2 ^ 64"
    and tl': "tiles 48 (A @ (q, j, True) # B) n" and co: "coalesced (A @ (q, j, True) # B)"
    and la: "B = [] \<or> is_free (last B)"
    and iu: "inuse A \<union> inuse B \<subseteq> inuse T \<union> inuse U"
    and sum: "sum_list (map snd (frees A)) + (j + sum_list (map snd (frees B)))
        = sum_list (map snd (frees T)) + sum_list (map snd (frees U)) + k"
    and c: "circ (rl m1) (frees B @ frees A @ [(q, j)])"
    and kp: "keeps (T @ (pb, k, True) # U) m m1" and hd: "hdr m1 n"
    and w: "rl m1 24 = off (last (A @ (q, j, True) # B))" "rl m1 32 = rl m 32"
  shows "heap (wl m1 32 (rl m 32 + k)) n (A @ (q, j, True) # B)"
    and "keeps (T @ (pb, k, True) # U) m (wl m1 32 (rl m 32 + k))"
proof -
  have tl: "tiles 48 (T @ (pb, k, False) # U) n" using h by (simp add: heap_def)
  then have tlp: "tiles 48 (T @ (pb, k, True) # U) n" by (simp add: tiles_mid)
  have b32: "rl m 32 = sum_list (map snd (frees T)) + sum_list (map snd (frees U))"
    using h by (simp add: heap_def)
  have le: "rl m 32 + k < 2 ^ 64"
    using sum_frees_le [OF tlp] n b32 by simp
  have nd: "nodes (frees B @ frees A @ [(q, j)])" using nodes_frees [OF tl'] by auto
  have ge: "\<forall>x \<in> set (frees B @ frees A @ [(q, j)]). 48 \<le> fst x"
    using frees_ge [OF tl'] by fastforce
  have "heap (wl m1 32 (rl m 32 + k)) n ((A @ [(q, j, True)]) @ B)"
  proof (rule heapI)
    show "circ (rl (wl m1 32 (rl m 32 + k))) (frees B @ frees (A @ [(q, j, True)]))"
      using c circ_header [OF nd ge] by simp
    show "rl (wl m1 32 (rl m 32 + k)) 32
        = sum_list (map snd (frees (A @ [(q, j, True)]))) + sum_list (map snd (frees B))"
      using le sum b32 by (simp add: rl_wl_aligned)
    show "rl (wl m1 32 (rl m 32 + k)) 24 = off (last ((A @ [(q, j, True)]) @ B))"
      using w by (simp add: rl_wl_aligned)
    fix t assume t: "t \<in> set (A @ [(q, j, True)]) \<union> set B" "\<not> is_free t"
    then have "t \<in> inuse T \<union> inuse U" using iu by (auto simp: inuse_def)
    then have tt: "t \<in> set (T @ (pb, k, False) # U)" "t \<in> set (T @ (pb, k, True) # U)"
      by (auto simp: inuse_def)
    note bd = heap_bounds [OF h tt(1)]
    have "agree m m1 (off t) (sz t)" using kp tt(2) t(2) unfolding keeps_def by blast
    then have "rl m1 (off t) = rl m (off t)"
      using bd rl_cong [of m m1 "off t"] agree_sub [of m m1 "off t" "sz t" "off t" 8] by simp
    moreover have "rl m (off t) = sz t" using h tt(1) t(2) by (auto simp: heap_def)
    ultimately show "rl (wl m1 32 (rl m 32 + k)) (off t) = sz t"
      using bd by (simp add: rl_wl_aligned)
  qed (use tl' co la hd in auto)
  then show "heap (wl m1 32 (rl m 32 + k)) n (A @ (q, j, True) # B)" by simp
  show "keeps (T @ (pb, k, True) # U) m (wl m1 32 (rl m 32 + k))"
    by (rule keeps_wl [OF tlp _ kp]) (simp add: safe_header)
qed

text \<open>Two more updates of a circular list.\<close>

lemma circ_move_first:
  assumes "circ (rl m) ((c, cs) # M @ [(pv, vs)])" and "nodes ((c, cs) # M @ [(pv, vs), (b, v)])"
    and "b < 2 ^ 64" and "v < 2 ^ 64"
  shows "circ (rl (wl (wl (wl m b (rl m c)) (b + 8) v) pv b)) (M @ [(pv, vs), (b, v)])"
  using assms u64_rl [of m c] by (cases M) (auto simp: circ_def rl_wl_aligned)

lemma circ_merge_last:
  assumes "circ (rl m) ((c, cs) # M @ [(pv, vs)])" and "nodes ((c, cs) # M @ [(pv, vs)])"
    and "v < 2 ^ 64"
  shows "circ (rl (wl (wl (wl m (pv + 8) u) (pv + 8) v) pv (rl m c))) (M @ [(pv, v)])"
  using assms u64_rl [of m c] by (cases M) (auto simp: circ_def rl_wl_aligned)

text \<open>The neighbours of a block in the tiling, as the walk sees them.\<close>

lemma free_after:
  assumes tl: "tiles e U n" and la: "U \<noteq> []" "is_free (last U)"
  shows "frees U \<noteq> []" and "e \<le> fst (hd (frees U))" and "e = fst (hd (frees U)) \<longleftrightarrow> is_free (hd U)"
proof -
  obtain t V where U: "U = t # V" using la by (cases U) auto
  have "frees U \<noteq> [] \<and> e \<le> fst (hd (frees U)) \<and> (e = fst (hd (frees U)) \<longleftrightarrow> is_free (hd U))"
  proof (cases "is_free t")
    case True
    then show ?thesis using tl U by simp
  next
    case False
    then have "V \<noteq> []" "is_free (last V)" using la U by (auto split: if_splits)
    then have ne: "frees V \<noteq> []" by (simp add: frees_def filter_empty_conv) (metis last_in_set)
    define x where "x = hd (frees V)"
    then have x: "x \<in> set (frees V)" "hd (frees V) = x" using ne by simp_all
    then obtain u where u: "u \<in> set V" "off u = fst x" by (auto simp: frees_def)
    have "b \<le> off u" if "tiles b V n" for b
      using that u(1) by (induction V arbitrary: b) fastforce+
    from this [of "e + sz t"] tl U have "e < fst x" using u by auto
    then show ?thesis using False U ne x by simp
  qed
  then show "frees U \<noteq> []" "e \<le> fst (hd (frees U))"
    "e = fst (hd (frees U)) \<longleftrightarrow> is_free (hd U)" by auto
qed

lemma free_before:
  assumes tl: "tiles a T e" and ne: "frees T \<noteq> []"
  shows "fst (last (frees T)) + snd (last (frees T)) \<le> e"
    and "fst (last (frees T)) + snd (last (frees T)) = e \<longleftrightarrow> is_free (last T)"
proof -
  obtain t X where T: "T = X @ [t]" using ne by (cases T rule: rev_cases) auto
  then have X: "tiles a X (off t)" "e = off t + sz t" "0 < sz t" using tl by (auto simp: tiles_mid)
  have "(fst (last (frees T)) + snd (last (frees T)) \<le> e)
      \<and> (fst (last (frees T)) + snd (last (frees T)) = e \<longleftrightarrow> is_free (last T))"
  proof (cases "is_free t")
    case True
    then show ?thesis using X T by simp
  next
    case False
    then have "last (frees T) \<in> set (frees X)" using ne T by simp
    then obtain u where "u \<in> set X" "last (frees T) = (off u, sz u)" by (auto simp: frees_def)
    moreover have "off u + sz u \<le> c" if "tiles b X c" for b c
      using that \<open>u \<in> set X\<close> by (induction X arbitrary: b) (auto dest: tiles_le)
    ultimately show ?thesis using X T False by fastforce
  qed
  then show "fst (last (frees T)) + snd (last (frees T)) \<le> e"
    "fst (last (frees T)) + snd (last (frees T)) = e \<longleftrightarrow> is_free (last T)" by auto
qed

text \<open>
  What inserting the block \<open>(pb, k)\<close> into the heap of \<open>s\<close> has to achieve: the outcome
  \<open>r\<close> is with a memory from which, once the free bytes are counted, a heap results
  in which that block is no longer in use.
\<close>

definition inserts :: "nvc \<Rightarrow> tile list \<Rightarrow> nat \<Rightarrow> nat \<Rightarrow> tile list \<Rightarrow> unit outcome \<times> nvc \<Rightarrow> bool" where
  "inserts s T pb k U r \<longleftrightarrow> (\<exists>m T'. r = (Ok (), s\<lparr>fbytes := m\<rparr>) \<and> hdr m (fsize s)
     \<and> rl m 32 = rl (fbytes s) 32 \<and> heap (wl m 32 (rl m 32 + k)) (fsize s) T'
     \<and> inuse T' = inuse T \<union> inuse U
     \<and> keeps (T @ (pb, k, True) # U) (fbytes s) (wl m 32 (rl m 32 + k)))"

lemma insertsI:
  assumes "r = (Ok (), s\<lparr>fbytes := m1\<rparr>)"
    and "heap (fbytes s) (fsize s) (T @ (pb, k, False) # U)" and "fsize s < 2 ^ 64"
    and "tiles 48 (A @ (q, j, True) # B) (fsize s)" and "coalesced (A @ (q, j, True) # B)"
    and "B = [] \<or> is_free (last B)"
    and "inuse A \<union> inuse B = inuse T \<union> inuse U"
    and "sum_list (map snd (frees A)) + (j + sum_list (map snd (frees B)))
        = sum_list (map snd (frees T)) + sum_list (map snd (frees U)) + k"
    and "circ (rl m1) (frees B @ frees A @ [(q, j)])"
    and "keeps (T @ (pb, k, True) # U) (fbytes s) m1" and "hdr m1 (fsize s)"
    and "rl m1 24 = off (last (A @ (q, j, True) # B))" and "rl m1 32 = rl (fbytes s) 32"
  shows "inserts s T pb k U r"
proof -
  note p = heap_put [OF assms(2-6) equalityD1 [OF assms(7)] assms(8-13)]
  have "inuse (A @ (q, j, True) # B) = inuse T \<union> inuse U" using assms(7) by simp
  with p assms(1,11,13) show ?thesis
    unfolding inserts_def by (intro exI [of _ m1] exI [of _ "A @ (q, j, True) # B"]) simp
qed

text \<open>The facts about the place of the block that the four cases share.\<close>

lemma insert_place:
  assumes h: "heap m n (T @ (pb, k, False) # U)"
  shows "tiles 48 T pb" and "tiles (pb + k) U n" and "U \<noteq> []" and "is_free (last U)"
    and "coalesced T" and "coalesced U" and "circ (rl m) (frees U @ frees T)"
    and "nodes (frees U @ frees T)" and "16 dvd k" and "48 \<le> pb" and "16 dvd pb" and "16 \<le> k"
    and "pb + k \<le> n" and "rl m 24 = off (last U)" and "hdr m n"
    and "nodes (frees U @ frees T @ [(pb, k)])" and "tiles 48 (T @ (pb, k, True) # U) n"
proof -
  have tl: "tiles 48 (T @ (pb, k, False) # U) n" using h by (simp add: heap_def)
  then show "tiles 48 T pb" "tiles (pb + k) U n" "16 dvd k" by (simp_all add: tiles_mid)
  show "tiles 48 (T @ (pb, k, True) # U) n" using tl by (simp add: tiles_mid)
  from nodes_frees [OF this] show "nodes (frees U @ frees T @ [(pb, k)])" by auto
  show "coalesced T" "coalesced U" using h by (auto simp: heap_def coalesced_append_Cons)
  show "U \<noteq> []" "is_free (last U)" "rl m 24 = off (last U)" "hdr m n"
    using h by (auto simp: heap_def split: if_splits)
  show "circ (rl m) (frees U @ frees T)"
    using h circ_rotate [of "rl m" "frees T" "frees U"] by (simp add: heap_def)
  show "nodes (frees U @ frees T)" using nodes_frees [OF tl] by auto
  show "48 \<le> pb" "16 dvd pb" "16 \<le> k" "pb + k \<le> n"
    using heap_bounds [OF h, of "(pb, k, False)"] by auto
qed

lemma insert_none:
  assumes mp: "mapped s" and h: "heap (fbytes s) (fsize s) (T @ (pb, k, False) # U)"
    and n: "fsize s < 2 ^ 31" and L: "frees U @ frees T = M @ [(pv, vs)]"
    and pv: "(pv, vs, True) \<in> set (T @ (pb, k, True) # U)"
    and cur: "cur = fst (hd (frees U))" and adj: "pv + vs \<noteq> pb" "pb + k \<noteq> cur"
    and na: "T = [] \<or> \<not> is_free (last T)" "\<not> is_free (hd U)"
  shows "inserts s T pb k U (nvfree_insert fl pb (int k) pv cur s)"
proof -
  let ?m = "fbytes s" and ?T = "T @ (pb, k, True) # U"
  note p = insert_place [OF h]
  have bp: "48 \<le> pv" "pv + vs \<le> fsize s" "16 \<le> vs" "16 dvd pv"
    using tiles_bounds [OF p(17) pv] by auto
  have pvs: "rl ?m (pv + 8) = vs" using p(7) L by (simp add: circ_def)
  have hdL: "hd_off (M @ [(pv, vs)]) 0 = cur"
    unfolding L [symmetric] using free_after(1) [OF p(2-4)] cur by (cases "frees U") auto
  have cn: "cur < 2 ^ 64"
  proof -
    have "hd (frees U) \<in> set (frees U)" using free_after(1) [OF p(2-4)] by simp
    then have "hd (frees U) \<in> set (frees ?T)" by simp
    from frees_ge [OF p(17) this] cur n show ?thesis by simp
  qed
  let ?m1 = "wl (wl (wl ?m pb cur) (pb + 8) k) pv pb"
  have "pb \<noteq> pv" using p(16) unfolding append_assoc [symmetric] L by auto
  then have ev: "nvfree_insert fl pb (int k) pv cur s = (Ok (), s\<lparr>fbytes := ?m1\<rparr>)"
    using adj bp p(10-13) n pvs
    by (simp add: nvfree_insert_def act_simps mapped_in_map [OF mp])
  show ?thesis
  proof (rule insertsI [OF ev h _ p(17)])
    have nd: "nodes (M @ [(pv, vs), (pb, k)])" using p(16) unfolding append_assoc [symmetric] L by simp
    have lt: "\<forall>x \<in> set (M @ [(pv, vs)]). fst x < 2 ^ 64"
    proof
      fix x assume "x \<in> set (M @ [(pv, vs)])"
      then have "x \<in> set (frees ?T)" unfolding L [symmetric] by auto
      from frees_ge [OF p(17) this] n show "fst x < 2 ^ 64" by simp
    qed
    have "circ (rl ?m1) (M @ [(pv, vs), (pb, k)])"
      using circ_insert_last [of ?m M pv vs pb k] p(7) nd lt n p(13) unfolding L hdL by simp
    then show "circ (rl ?m1) (frees U @ frees T @ [(pb, k)])"
      unfolding append_assoc [symmetric] L by simp
    show "keeps ?T ?m ?m1"
      using safe_free [OF pv, of pv] safe_free [of pb k ?T] bp p(12)
      by (simp add: keeps_wl [OF p(17)])
    show "coalesced ?T" using p(3,5,6) na by (auto simp: coalesced_append_Cons)
  qed (use n p bp in \<open>auto simp: rl_wl_aligned\<close>)
qed

lemma insert_prev:
  assumes mp: "mapped s" and h: "heap (fbytes s) (fsize s) ((X @ [(pv, vs, True)]) @ (pb, k, False) # U)"
    and n: "fsize s < 2 ^ 31" and adj: "pb + k \<noteq> cur" and na: "\<not> is_free (hd U)"
  shows "inserts s (X @ [(pv, vs, True)]) pb k U (nvfree_insert fl pb (int k) pv cur s)"
proof -
  let ?m = "fbytes s" and ?X = "X @ [(pv, vs, True)]"
  let ?T = "?X @ (pb, k, True) # U"
  note p = insert_place [OF h]
  have pv: "(pv, vs, True) \<in> set ?T" by simp
  have bp: "48 \<le> pv" "pv + vs = pb" "16 \<le> vs" "16 dvd pv" "16 dvd vs"
    using tiles_bounds [OF p(17) pv] p(1) by (auto simp: tiles_mid)
  have pvs: "rl ?m (pv + 8) = vs" using p(7) by (simp add: circ_def)
  let ?m1 = "wl ?m (pv + 8) (vs + k)"
  have u: "u64_of_int (int vs + int k) = vs + k" using bp p(13) n
    by (simp add: nat_add_distrib)
  then have ev: "nvfree_insert fl pb (int k) pv cur s = (Ok (), s\<lparr>fbytes := ?m1\<rparr>)"
    using adj bp p(10-13) n pvs
    by (simp add: nvfree_insert_def act_simps mapped_in_map [OF mp])
  have tl: "tiles 48 (X @ (pv, vs + k, True) # U) (fsize s)"
  proof -
    have e: "pv + (vs + k) = pb + k" using bp(2) by simp
    show ?thesis using p(1,2,9) bp by (simp add: tiles_mid e)
  qed
  show ?thesis
  proof (rule insertsI [OF ev h _ tl])
    have "circ (rl ?m) ((frees U @ frees X) @ [(pv, vs)])" "nodes ((frees U @ frees X) @ [(pv, vs)])"
      using p(7,8) by simp_all
    from circ_resize_last [OF this, of "vs + k"] bp n p(13)
    show "circ (rl ?m1) (frees U @ frees X @ [(pv, vs + k)])" by simp
    show "keeps ?T ?m ?m1"
      by (intro keeps_wl [OF p(17)] keeps_refl safe_free [OF pv]) (use bp in simp_all)
    show "coalesced (X @ (pv, vs + k, True) # U)"
      using p(3,5,6) na by (auto simp: coalesced_append_Cons)
  qed (use n p bp in \<open>auto simp: rl_wl_aligned\<close>)
qed

lemma insert_next:
  assumes mp: "mapped s" and h: "heap (fbytes s) (fsize s) (T @ (pb, k, False) # (c, cs, True) # Y)"
    and n: "fsize s < 2 ^ 31" and pve: "pv = fst (last (frees ((c, cs, True) # Y) @ frees T))"
    and adj: "pv + snd (last (frees ((c, cs, True) # Y) @ frees T)) \<noteq> pb"
    and na: "T = [] \<or> \<not> is_free (last T)" and fl: "fl = off (last ((c, cs, True) # Y))"
  shows "inserts s T pb k ((c, cs, True) # Y) (nvfree_insert fl pb (int k) pv c s)"
proof -
  let ?m = "fbytes s" and ?U = "(c, cs, True) # Y"
  let ?T = "T @ (pb, k, True) # ?U"
  note p = insert_place [OF h]
  have ci: "(c, cs, True) \<in> set ?T" by simp
  have bc: "c = pb + k" "c + cs \<le> fsize s" "16 \<le> cs" "16 dvd c" "16 dvd cs"
    using tiles_bounds [OF p(17) ci] p(2) by auto
  have cr: "circ (rl ?m) ((c, cs) # frees Y @ frees T)" using p(7) by simp
  have cs: "rl ?m (c + 8) = cs" using cr by (simp add: circ_def)
  have ce: "rl ?m c = hd_off (frees Y @ frees T) c" using cr by (simp add: circ_def)
  have u: "u64_of_int (int k + int cs) = k + cs" using bc p(12,13) n by (simp add: nat_add_distrib)
  have tl: "tiles 48 (T @ (pb, k + cs, True) # Y) (fsize s)"
    using p(1,2,9) bc by (simp add: tiles_mid add.assoc)
  have co: "coalesced (T @ (pb, k + cs, True) # Y)"
    using p(5,6) na by (auto simp: coalesced_append_Cons coalesced_Cons)
  have flc: "fl = c \<longleftrightarrow> Y = []"
    using tiles_distinct_off [OF p(2)] fl by (auto dest!: last_in_set)
  have la: "Y = [] \<or> is_free (last Y)" using p(4) by (auto split: if_splits)
  have pbn: "pb < 2 ^ 64" "k + cs < 2 ^ 64" using bc n p(13) by auto
  have s: "safe ?T pb" "safe ?T (pb + 8)" "safe ?T 24"
    using safe_free [of pb k ?T] p(12) by (simp_all add: safe_header)
  show ?thesis
  proof (cases "frees Y @ frees T = []")
    case True
    then have "\<forall>x \<in> set Y. \<not> is_free x" by (simp add: frees_def filter_empty_conv)
    then have Y: "Y = []" using la last_in_set by blast
    have fT: "frees T = []" using True by simp
    let ?m1 = "wl (wl (wl ?m pb pb) 24 pb) (pb + 8) (k + cs)"
    have sw: "?m1 = wl (wl (wl ?m pb pb) (pb + 8) (k + cs)) 24 pb"
      using p(10) by (auto simp: wl_def wrn_def fun_eq_iff)
    have e: "c \<noteq> pb" using bc p(12) by simp
    have ev: "nvfree_insert fl pb (int k) pv c s = (Ok (), s\<lparr>fbytes := ?m1\<rparr>)"
      using adj bc p(10-13) n ce cs fT Y flc pve u e
      by (simp add: nvfree_insert_def act_simps mapped_in_map [OF mp] rl_wl_aligned)
    show ?thesis
    proof (rule insertsI [OF ev h _ tl co la])
      show "circ (rl ?m1) (frees Y @ frees T @ [(pb, k + cs)])"
        unfolding sw using circ_single(2) [OF p(11) pbn, of ?m] p(10,11) Y fT by simp
      show "keeps ?T ?m ?m1" by (intro keeps_wl [OF p(17)] s keeps_refl)
    qed (use n p bc Y fT in \<open>auto simp: rl_wl_aligned\<close>)
  next
    case False
    then obtain M vs where W: "frees Y @ frees T = M @ [(pv, vs)]"
      using pve by (cases "frees Y @ frees T" rule: rev_cases) auto
    have pv: "(pv, vs, True) \<in> set ?T"
    proof -
      have "(pv, vs) \<in> set (frees Y @ frees T)" unfolding W by simp
      then show ?thesis by (auto simp: frees_def)
    qed
    have bp: "48 \<le> pv" "pv + vs \<le> fsize s" "16 \<le> vs" "16 dvd pv"
      using tiles_bounds [OF p(17) pv] by auto
    have nd: "nodes ((c, cs) # M @ [(pv, vs), (pb, k + cs)])"
      using p(16) W by (auto simp: append_assoc [symmetric] simp del: append_assoc)
    have vse: "rl ?m (pv + 8) = vs" "pv + vs \<noteq> pb"
      using cr adj unfolding W by (auto simp: circ_def W)
    have nc: "rl ?m c \<noteq> c"
      using ce nd unfolding W by (cases M) auto
    let ?w = "wl (wl (wl ?m pb (rl ?m c)) (pb + 8) (k + cs)) pv pb"
    let ?m1 = "if Y = [] then wl ?w 24 pb else ?w"
    have ev: "nvfree_insert fl pb (int k) pv c s = (Ok (), s\<lparr>fbytes := ?m1\<rparr>)"
    proof -
      have "c \<noteq> pb" using bc p(12) by simp
      then have "rl (wl ?m pb x) (c + 8) = cs" for x using cs p(11) bc(4) by (simp add: rl_wl_aligned)
      then show ?thesis
        using vse bc p(10-13) bp n nc flc u
        by (cases "Y = []") (simp_all add: nvfree_insert_def act_simps mapped_in_map [OF mp])
    qed
    show ?thesis
    proof (rule insertsI [OF ev h _ tl co la])
      have c0: "circ (rl ?w) (M @ [(pv, vs), (pb, k + cs)])"
        by (rule circ_move_first [OF _ nd pbn]) (use cr W in simp)
      have "nodes (M @ [(pv, vs), (pb, k + cs)])" using nd by simp
      moreover have "\<forall>x \<in> set (M @ [(pv, vs), (pb, k + cs)]). 48 \<le> fst x"
      proof
        fix x assume "x \<in> set (M @ [(pv, vs), (pb, k + cs)])"
        then have "x \<in> set ((frees Y @ frees T) @ [(pb, k + cs)])" unfolding W by auto
        then show "48 \<le> fst x" using frees_ge [OF tl, of x] by auto
      qed
      ultimately have "circ (rl ?m1) (M @ [(pv, vs), (pb, k + cs)])"
        using c0 by (simp only: circ_header split: if_split) simp
      then show "circ (rl ?m1) (frees Y @ frees T @ [(pb, k + cs)])"
        unfolding append_assoc [symmetric] W by (simp only: append_assoc append.simps)
      have "safe ?T pv" using safe_free [OF pv, of pv] bp by simp
      then have "keeps ?T ?m ?w" by (intro keeps_wl [OF p(17)] s keeps_refl)
      then show "keeps ?T ?m ?m1" using keeps_wl [OF p(17) s(3)] by (simp only: split: if_split) simp
    qed (use n p bc bp in \<open>auto simp: rl_wl_aligned\<close>)
  qed
qed

lemma insert_both:
  assumes mp: "mapped s"
    and h: "heap (fbytes s) (fsize s) ((X @ [(pv, vs, True)]) @ (pb, k, False) # (c, cs, True) # Y)"
    and n: "fsize s < 2 ^ 31" and fl: "fl = off (last ((c, cs, True) # Y))"
  shows "inserts s (X @ [(pv, vs, True)]) pb k ((c, cs, True) # Y) (nvfree_insert fl pb (int k) pv c s)"
proof -
  let ?m = "fbytes s" and ?X = "X @ [(pv, vs, True)]" and ?U = "(c, cs, True) # Y"
  let ?T = "?X @ (pb, k, True) # ?U"
  note p = insert_place [OF h]
  have pv: "(pv, vs, True) \<in> set ?T" and ci: "(c, cs, True) \<in> set ?T" by simp_all
  have bp: "48 \<le> pv" "pv + vs = pb" "16 \<le> vs" "16 dvd pv" "16 dvd vs"
    using tiles_bounds [OF p(17) pv] p(1) by (auto simp: tiles_mid)
  have bc: "c = pb + k" "c + cs \<le> fsize s" "16 \<le> cs" "16 dvd c" "16 dvd cs"
    using tiles_bounds [OF p(17) ci] p(2) by auto
  have cr: "circ (rl ?m) ((c, cs) # (frees Y @ frees X) @ [(pv, vs)])" using p(7) by simp
  have rs: "rl ?m (c + 8) = cs" "rl ?m (pv + 8) = vs" using cr by (simp_all add: circ_def)
  have tl: "tiles 48 (X @ (pv, vs + k + cs, True) # Y) (fsize s)"
  proof -
    have e: "pv + (vs + k + cs) = c + cs" using bp(2) bc(1) by simp
    show ?thesis using p(1,2,9) bp bc(5) by (simp add: tiles_mid e)
  qed
  have flc: "fl = c \<longleftrightarrow> Y = []"
    using tiles_distinct_off [OF p(2)] fl by (auto dest!: last_in_set)
  have la: "Y = [] \<or> is_free (last Y)" using p(4) by (auto split: if_splits)
  have nd: "nodes ((c, cs) # (frees Y @ frees X) @ [(pv, vs)])" using p(8) by simp
  have cp: "c \<noteq> pv" using bc bp by simp
  let ?w = "if Y = [] then wl ?m 24 pv else ?m"
  let ?m1 = "wl (wl (wl ?w (pv + 8) (vs + k)) (pv + 8) (vs + k + cs)) pv (rl ?m c)"
  let ?v = "if Y = [] then wl (wl ?m (pv + 8) (vs + k)) 24 pv else wl ?m (pv + 8) (vs + k)"
  have wv: "wl ?w (pv + 8) (vs + k) = ?v"
    using bp(1) by (auto simp: wl_def wrn_def fun_eq_iff)
  have rw: "rl ?v (c + 8) = cs" "rl ?v (pv + 8) = vs + k"
      "rl (wl ?v (pv + 8) y) c = rl ?m c" for y
    using rs cp bp bc n by (simp_all add: rl_wl_aligned)
  have u: "u64_of_int (int vs + int k) = vs + k" "u64 (vs + k + cs) = vs + k + cs"
    using bp bc n by (simp_all add: nat_add_distrib)
  have ev: "nvfree_insert fl pb (int k) pv c s = (Ok (), s\<lparr>fbytes := ?m1\<rparr>)"
  proof -
    have "rl ?m (pv + 8) = vs" "0 < pv" "0 < c" "pv + 16 \<le> fsize s" "c + 16 \<le> fsize s"
      "pv + vs = pb" "int pb + int k = int c" "64 \<le> fsize s"
      using rs bp bc by auto
    then show ?thesis
      unfolding wv using rw u flc
      by (cases "Y = []") (simp_all add: nvfree_insert_def act_simps mapped_in_map [OF mp])
  qed
  show ?thesis
  proof (rule insertsI [OF ev h _ tl])
    have ge: "\<forall>x \<in> set ((c, cs) # (frees Y @ frees X) @ [(pv, vs)]). 48 \<le> fst x"
      using frees_ge [OF p(17)] by fastforce
    have rc: "rl ?w c = rl ?m c" using bc p(10) by (simp add: rl_wl_aligned)
    have "circ (rl ?w) ((c, cs) # (frees Y @ frees X) @ [(pv, vs)])"
      using cr circ_header [OF nd ge, of 24 ?m pv] by (cases "Y = []") simp_all
    moreover have "vs + k + cs < 2 ^ 64" using bp bc n by simp
    ultimately have "circ (rl ?m1) ((frees Y @ frees X) @ [(pv, vs + k + cs)])"
      using circ_merge_last [OF _ nd, of ?w "vs + k + cs" "vs + k"] unfolding rc by blast
    then show "circ (rl ?m1) (frees Y @ frees X @ [(pv, vs + k + cs)])"
      by (simp only: append_assoc)
    have s: "safe ?T pv" "safe ?T (pv + 8)" "safe ?T 24"
      using bp(3) safe_free [OF pv, of pv] safe_free [OF pv, of "pv + 8"]
      by (simp_all add: safe_header)
    have "keeps ?T ?m (wl ?m 24 pv)" by (intro keeps_wl [OF p(17)] s keeps_refl)
    then have "keeps ?T ?m ?w" by (cases "Y = []") simp_all
    then show "keeps ?T ?m ?m1" by (intro keeps_wl [OF p(17)] s)
    show "coalesced (X @ (pv, vs + k + cs, True) # Y)"
      using p(5,6) by (auto simp: coalesced_append_Cons coalesced_Cons)
    show "rl ?m1 24 = off (last (X @ (pv, vs + k + cs, True) # Y))"
      using bp p(14) n bc by (auto simp: rl_wl_aligned)
    show "hdr ?m1 (fsize s)" using p(15) bp by simp
    show "rl ?m1 32 = rl ?m 32" using bp by (simp add: rl_wl_aligned)
  qed (use n la in auto)
qed

end
