(* ===== verification/NV_Store.thy ===== *)
theory NV_Store
  imports NV_Free
begin

text \<open>
  The store a database file offers: \<open>nvfree\<close> completed, opening a file, the
  modification time, and the contract of the allocator as an interface.
\<close>

section \<open>nvfree\<close>

lemma nvfree_insert_ok:
  assumes mp: "mapped s" and h: "heap (fbytes s) (fsize s) (T @ (pb, k, False) # U)"
    and n: "fsize s < 2 ^ 31" and fl: "fl = off (last U)"
    and pv: "pv = (if frees T = [] then fl else fst (last (frees T)))"
  shows "inserts s T pb k U (nvfree_insert fl pb (int k) pv (fst (hd (frees U))) s)"
proof -
  note p = insert_place [OF h] and fa = free_after [OF p(2-4)]
  let ?c = "fst (hd (frees U))"
  have ul: "fst (last (frees U)) = fl"
    using p(3,4) fl by (cases U rule: rev_cases) auto
  have pvl: "pv = fst (last (frees U @ frees T))" using pv ul fa(1) by auto
  have lastU: "fl + snd (last (frees U)) = fsize s"
    using free_before(2) [OF p(2) fa(1)] p(4) ul by simp
  have nextfree: "U = (?c, snd (hd (frees U)), True) # tl U" if "pb + k = ?c"
    using fa(3) that p(3) by (cases U) auto
  show ?thesis
  proof (cases "T \<noteq> [] \<and> is_free (last T)")
    case True
    then obtain X vs where X: "T = X @ [(pv, vs, True)]"
      using pv by (cases T rule: rev_cases) auto
    show ?thesis
    proof (cases "pb + k = ?c")
      case c: True
      show ?thesis
        using insert_both [OF mp, of X pv vs pb k ?c "snd (hd (frees U))" "tl U" fl] h n fl
        unfolding X nextfree [OF c, symmetric] by simp
    next
      case c: False
      then have "\<not> is_free (hd U)" using fa(3) by simp
      then show ?thesis
        using insert_prev [OF mp, of X pv vs pb k U ?c fl] h n c unfolding X by simp
    qed
  next
    case False
    have adj: "pv + snd (last (frees U @ frees T)) \<noteq> pb"
    proof (cases "frees T = []")
      case True
      then have "pv = fl" using pv by simp
      with True lastU p(2,12,13) tiles_le [OF p(2)] show ?thesis by simp
    next
      case ne: False
      then have "T \<noteq> []" by auto
      with False free_before(2) [OF p(1) ne] ne pvl show ?thesis by simp
    qed
    have na: "T = [] \<or> \<not> is_free (last T)" using False by blast
    show ?thesis
    proof (cases "pb + k = ?c")
      case c: True
      show ?thesis
        using insert_next [OF mp, of T pb k ?c "snd (hd (frees U))" "tl U" pv fl] h n pvl adj na fl
        unfolding nextfree [OF c, symmetric] by simp
    next
      case c: False
      obtain M vs where W: "frees U @ frees T = M @ [(pv, vs)]"
        using pvl fa(1) by (cases "frees U @ frees T" rule: rev_cases) auto
      have "(pv, vs) \<in> set (frees U @ frees T)" unfolding W by simp
      then have "(pv, vs, True) \<in> set (T @ (pb, k, True) # U)" by (auto simp: frees_def)
      moreover have "pv + vs \<noteq> pb" using adj unfolding W by simp
      ultimately show ?thesis
        using insert_none [OF mp h n W _ refl _ c na] fa(3) c by simp
    qed
  qed
qed

lemma nvfree_ok:
  assumes rdy: "ready s" and h: "heap (fbytes s) (fsize s) T" and b: "(p, k, False) \<in> inuse T"
    and ls: "length (locks s) < LOCKSTACKSIZE" and n: "fsize s < 2 ^ 31"
  shows "\<exists>s' T'. nvfree (p + 8) s = (Ok (), s') \<and> ready s' \<and> mapped s' \<and> locks s' = locks s
     \<and> same_env s s' \<and> fsize s' = fsize s \<and> heap (fbytes s') (fsize s') T'
     \<and> inuse T' = inuse T - {(p, k, False)} \<and> keeps T' (fbytes s) (fbytes s')
     \<and> (top_lock (locks s) = ExclLock \<longrightarrow> arrs s' = arrs s)"
proof -
  obtain T1 U where T: "T = T1 @ (p, k, False) # U"
    using b by (auto simp: inuse_def dest: split_list)
  obtain s1 where s1: "lock ExclLock Block s = (Ok 0, s1)" "same_db s s1"
    "locks s1 = push_lock ExclLock (locks s)" "ready s1"
    "top_lock (locks s) = ExclLock \<longrightarrow> arrs s1 = arrs s"
    using lock_ok [OF rdy _ ls, of ExclLock Block] by auto
  have m1: "mapped s1" using s1(3,4) by (simp add: ready_def)
  have e1: "fsize s1 = fsize s" "fbytes s1 = fbytes s" using s1(2) by (simp_all add: same_db_def)
  have h1: "heap (fbytes s1) (fsize s1) (T1 @ (p, k, False) # U)" using h T e1 by simp
  note pl = insert_place [OF h1] and fa = free_after [OF pl(2-4)]
  let ?fl = "off (last U)" and ?c = "fst (hd (frees U))"
  let ?pv = "if frees T1 = [] then ?fl else fst (last (frees T1))"
  have tl: "tiles 48 T (fsize s1)" using h e1 by (simp add: heap_def)
  have fr: "frees T = frees T1 @ frees U" using T by simp
  have ul: "fst (last (frees U)) = ?fl" using pl(3,4) by (cases U rule: rev_cases) auto
  have first: "rl (fbytes s1) ?fl = hd_off (frees T) 0"
  proof -
    have "circ (rl (fbytes s1)) (frees T)" using h e1 by (simp add: heap_def)
    then show ?thesis
      using ul fa(1) unfolding fr by (cases "frees U" rule: rev_cases) (auto simp: circ_def)
  qed
  have walk: "nvfree_walk ?fl p ?fl (hd_off (frees T) 0) s1 = (Ok (?pv, ?c), s1)"
  proof -
    have srt: "sorted_wrt (\<lambda>x y. fst x < fst y) (frees T)"
      using sorted_wrt_mono_rel [OF _ tiles_frees_sorted [OF tl], of "\<lambda>x y. fst x < fst y"]
        frees_bounds(4) [OF tl] by fastforce
    have lt: "fst x < p" if "x \<in> set (frees T1)" for x
      using that frees_bounds [OF pl(1), of "fst x" "snd x"] by auto
    have "p < ?fl" using lt fa(2) tiles_bounds(1) [OF pl(2), of "last U"] pl(3,9,11,12) by auto
    then have G: "\<forall>x \<in> set (frees T1). fst x < p \<and> fst x \<noteq> ?fl" using lt by fastforce
    show ?thesis
      unfolding fr
    proof (rule nvfree_walk_ok [OF _ fa(1) _ G])
      show "lseg (rl (fbytes s1)) (frees T1 @ frees U) (hd_off (frees T) 0)"
        using h e1 fr by (simp add: heap_def circ_def)
      show "\<forall>x \<in> set (frees T1 @ frees U). 0 < fst x \<and> in_map s1 (fst x) 16"
        using heap_frees_in_map [OF h1 m1] by auto
    qed (use srt fr fa(2) pl(12) in auto)
  qed
  have "inserts s1 T1 p k U (nvfree_insert ?fl p (int k) ?pv ?c s1)"
    by (rule nvfree_insert_ok [OF m1 h1 _ refl refl]) (use n e1 in simp)
  then obtain m T' where i: "nvfree_insert ?fl p (int k) ?pv ?c s1 = (Ok (), s1\<lparr>fbytes := m\<rparr>)"
    "hdr m (fsize s1)" "rl m 32 = rl (fbytes s1) 32" "heap (wl m 32 (rl m 32 + k)) (fsize s1) T'"
    "inuse T' = inuse T1 \<union> inuse U"
    "keeps (T1 @ (p, k, True) # U) (fbytes s1) (wl m 32 (rl m 32 + k))"
    by (auto simp: inserts_def)
  let ?m = "wl m 32 (rl m 32 + k)"
  have hd: "hdr ?m (fsize s1)" using i(2) by simp
  note s2 = ready_upd [OF s1(4) m1 hd]
  have "locks (s1\<lparr>fbytes := ?m\<rparr>) \<noteq> []" using s2(3) s1(3) by simp
  from unlock_ok [OF s2(1) this, of Block] obtain s3 where
    s3: "lock UnLock Block (s1\<lparr>fbytes := ?m\<rparr>) = (Ok 0, s3)" "same_db (s1\<lparr>fbytes := ?m\<rparr>) s3"
      "locks s3 = locks s" "ready s3" "mapped s3"
      "top_lock (locks s) = ExclLock \<longrightarrow> arrs s3 = arrs (s1\<lparr>fbytes := ?m\<rparr>)"
    using s2(3) s1(3) by auto
  have e3: "fbytes s3 = ?m" "fsize s3 = fsize s" using s3(2) e1 by (simp_all add: same_db_def)
  have sum: "rl m 32 + k < 2 ^ 64"
  proof -
    have "rl m 32 = sum_list (map snd (frees (T1 @ (p, k, False) # U)))"
      using h1 i(3) by (simp add: heap_def)
    also have "\<dots> + k = sum_list (map snd (frees (T1 @ (p, k, True) # U)))" by simp
    finally show ?thesis using sum_frees_le [OF pl(17)] e1 n by simp
  qed
  have "nvfree (p + 8) s = (Ok (), s3)"
  proof -
    have kp: "rl (fbytes s1) p = k" using h1 by (simp add: heap_def)
    have fl: "rl (fbytes s1) 24 = ?fl" "48 \<le> ?fl" "?fl + 16 \<le> fsize s1" "mem_sz s1 = fsize s1"
      using pl(14) heap_bounds [OF h1, of "last U"] pl(3) m1 by (auto simp: mapped_def)
    have sb: "sub64 (p + 8) 8 = p" using pl(13) n e1 by simp
    have cp: "\<not> ?c < p" using fa(2) by simp
    have u: "u64_of_int (int (rl m 32) + int k) = rl m 32 + k"
      using sum by (simp add: nat_add_distrib)
    have k31: "i32 (int k) = int k" using pl(13) n e1 by simp
    show ?thesis
      using pl(10,12,13) fl(2,3)
      by (simp add: nvfree_def act_simps s1(1) mapped_in_map [OF m1] kp fl(1,4) sb k31 first walk cp
          i(1) u s3(1))
  qed
  moreover have "inuse T' = inuse T - {(p, k, False)}"
  proof -
    have "(p, k, False) \<notin> inuse T1 \<union> inuse U"
      using tiles_distinct_off [OF tl] unfolding T by (force simp: inuse_def)
    then show ?thesis using i(5) T by auto
  qed
  moreover have "keeps T' (fbytes s) (fbytes s3)"
    using keeps_inuse [OF i(6), of T'] i(5) e1 e3 by simp
  moreover have "same_env s s3" using s1(2) s3(2) by (simp add: same_db_def same_env_def)
  moreover have "arrs s3 = arrs s" if "top_lock (locks s) = ExclLock"
    using that s1(5) s3(6) by (simp add: arrs_def)
  ultimately show ?thesis
    using s3 e3 i(4) e1 by (intro exI [of _ s3] exI [of _ T']) simp
qed

section \<open>The contract of the allocator\<close>

text \<open>The bytes of the blocks \<open>B\<close> are the same.\<close>

definition unchanged :: "(nat \<times> nat) set \<Rightarrow> mem \<Rightarrow> mem \<Rightarrow> bool" where
  "unchanged B m m' \<longleftrightarrow> (\<forall>(q, d) \<in> B. agree m m' q d)"

lemma unchangedI:
  assumes "\<And>q d x. (q, d) \<in> B \<Longrightarrow> q \<le> x \<Longrightarrow> x < q + d \<Longrightarrow> m' x = m x"
  shows "unchanged B m m'"
proof -
  have "agree m m' q d" if "(q, d) \<in> B" for q d
    unfolding agree_def using assms [OF that] by simp
  then show ?thesis by (auto simp: unchanged_def)
qed

lemma unchanged_trans: "unchanged B m m' \<Longrightarrow> unchanged B m' m'' \<Longrightarrow> unchanged B m m''"
  by (fastforce simp: unchanged_def intro: agree_trans)

lemma unchanged_mono: "unchanged B m m' \<Longrightarrow> C \<subseteq> B \<Longrightarrow> unchanged C m m'"
  by (auto simp: unchanged_def)

text \<open>
  What the lists, hashes and arrays rely on: \<open>holds s B\<close> says that the blocks in use
  are \<open>B\<close> (start and capacity), \<open>room s n\<close> that \<open>n\<close> bytes can be asked for.
\<close>

locale block_store =
  fixes alloc :: "nat \<Rightarrow> ('s, nat) act"
    and free :: "nat \<Rightarrow> ('s, unit) act"
    and holds :: "'s \<Rightarrow> (nat \<times> nat) set \<Rightarrow> bool"
    and room :: "'s \<Rightarrow> nat \<Rightarrow> bool"
    and byte :: "'s \<Rightarrow> nat \<Rightarrow> nat"
  assumes alloc_gives: "holds s B \<Longrightarrow> room s n \<Longrightarrow>
      \<exists>s' p c. alloc n s = (Ok p, s') \<and> holds s' (insert (p, c) B) \<and> (p, c) \<notin> B \<and> n \<le> c
        \<and> unchanged B (byte s) (byte s')"
    and free_takes: "holds s B \<Longrightarrow> (p, c) \<in> B \<Longrightarrow>
      \<exists>s'. free p s = (Ok (), s') \<and> holds s' (B - {(p, c)})
        \<and> unchanged (B - {(p, c)}) (byte s) (byte s')"
    and blocks_apart: "holds s B \<Longrightarrow> (p, c) \<in> B \<Longrightarrow> (q, d) \<in> B \<Longrightarrow> (p, c) \<noteq> (q, d) \<Longrightarrow>
      p + c \<le> q \<or> q + d \<le> p"
begin

text \<open>A block that is allocated overlaps none of those in use before.\<close>

lemma alloc_fresh:
  assumes "holds s B" and "room s n"
  shows "\<exists>s' p c. alloc n s = (Ok p, s') \<and> n \<le> c \<and> holds s' (insert (p, c) B)
    \<and> (\<forall>(q, d) \<in> B. p + c \<le> q \<or> q + d \<le> p)"
proof -
  obtain s' p c where a: "alloc n s = (Ok p, s')" "holds s' (insert (p, c) B)" "(p, c) \<notin> B" "n \<le> c"
    using alloc_gives [OF assms] by blast
  have "p + c \<le> q \<or> q + d \<le> p" if "(q, d) \<in> B" for q d
    using blocks_apart [OF a(2), of p c q d] that a(3) by blast
  with a show ?thesis by blast
qed

text \<open>Freeing what was just allocated leaves the blocks and their bytes as they were.\<close>

lemma alloc_free:
  assumes "holds s B" and "room s n"
  shows "\<exists>s'. bnd (alloc n) free s = (Ok (), s') \<and> holds s' B
    \<and> unchanged B (byte s) (byte s')"
proof -
  obtain s1 p c where a: "alloc n s = (Ok p, s1)" "holds s1 (insert (p, c) B)" "(p, c) \<notin> B"
    "unchanged B (byte s) (byte s1)"
    using alloc_gives [OF assms] by blast
  obtain s2 where f: "free p s1 = (Ok (), s2)" "holds s2 (insert (p, c) B - {(p, c)})"
    "unchanged (insert (p, c) B - {(p, c)}) (byte s1) (byte s2)"
    using free_takes [OF a(2), of p c] by blast
  have "insert (p, c) B - {(p, c)} = B" using a(3) by blast
  with a f show ?thesis
    by (intro exI [of _ s2]) (auto simp: act_simps intro: unchanged_trans)
qed

text \<open>Replacing a block by a new one, as an array that grows does.\<close>

lemma replace_block:
  assumes "holds s B" and "room s n" and "(q, d) \<in> B"
  shows "\<exists>s' p c. bnd (alloc n) (\<lambda>p. bnd (free q) (\<lambda>_. ret p)) s = (Ok p, s') \<and> n \<le> c
    \<and> holds s' (insert (p, c) (B - {(q, d)})) \<and> (p, c) \<noteq> (q, d)
    \<and> unchanged (B - {(q, d)}) (byte s) (byte s')"
proof -
  obtain s1 p c where a: "alloc n s = (Ok p, s1)" "holds s1 (insert (p, c) B)" "(p, c) \<notin> B" "n \<le> c"
    "unchanged B (byte s) (byte s1)"
    using alloc_gives [OF assms(1,2)] by blast
  have ne: "(p, c) \<noteq> (q, d)" using a(3) assms(3) by blast
  obtain s2 where f: "free q s1 = (Ok (), s2)" "holds s2 (insert (p, c) B - {(q, d)})"
    "unchanged (insert (p, c) B - {(q, d)}) (byte s1) (byte s2)"
    using free_takes [OF a(2), of q d] assms(3) by blast
  have "insert (p, c) B - {(q, d)} = insert (p, c) (B - {(q, d)})" using ne by blast
  moreover have "unchanged (B - {(q, d)}) (byte s) (byte s2)"
    using unchanged_mono [OF a(5)] unchanged_mono [OF f(3), of "B - {(q, d)}"]
    by (blast intro: unchanged_trans)
  ultimately show ?thesis
    using a f ne by (intro exI [of _ s2] exI [of _ p] exI [of _ c]) (simp add: act_simps)
qed

end

text \<open>The container provides it.\<close>

definition nv_holds :: "nvc \<Rightarrow> (nat \<times> nat) set \<Rightarrow> bool" where
  "nv_holds s B \<longleftrightarrow> ready s \<and> length (locks s) + 2 \<le> LOCKSTACKSIZE \<and> fsize s < 2 ^ 31
     \<and> (\<exists>T. heap (fbytes s) (fsize s) T \<and> B = (\<lambda>t. (off t + 8, sz t - 8)) ` inuse T)"

definition nv_room :: "nvc \<Rightarrow> nat \<Rightarrow> bool" where
  "nv_room s n \<longleftrightarrow> fsize s + n + 0x10040 < 2 ^ 31"

lemma keeps_bytes:
  assumes "keeps T m m'" and "heap m n T" and "(q, d) \<in> (\<lambda>t. (off t + 8, sz t - 8)) ` inuse T"
    and "q \<le> x" and "x < q + d"
  shows "m' x = m x"
proof -
  obtain t where t: "t \<in> set T" "\<not> is_free t" "q = off t + 8" "d = sz t - 8"
    using assms(3) by (auto simp: inuse_def)
  then have "agree m m' (off t) (sz t)" using assms(1) by (simp only: keeps_def) blast
  then show ?thesis using t assms(4,5) by (simp add: agree_def)
qed

lemma inuse_inj:
  assumes "heap m n T"
  shows "inj_on (\<lambda>t. (off t + 8, sz t - 8)) (inuse T)"
proof (rule inj_onI)
  fix t u assume tu: "t \<in> inuse T" "u \<in> inuse T" "(off t + 8, sz t - 8) = (off u + 8, sz u - 8)"
  then have "16 \<le> sz t" "16 \<le> sz u" using heap_bounds(4) [OF assms] by (auto simp: inuse_def)
  with tu show "t = u" by (cases t; cases u) (auto simp: inuse_def)
qed

lemma nvalloc_holds:
  assumes h: "nv_holds s B" and r: "nv_room s n"
  shows "\<exists>s' p c. nvalloc n s = (Ok p, s') \<and> nv_holds s' (insert (p, c) B) \<and> (p, c) \<notin> B
      \<and> n \<le> c \<and> unchanged B (fbytes s) (fbytes s') \<and> locks s' = locks s
      \<and> agree (fbytes s) (fbytes s') H_userdata 8 \<and> same_env s s'
      \<and> fsize s \<le> fsize s'
      \<and> (vcls s = ClsArray \<and> coherent s \<and> top_lock (locks s) = ExclLock
         \<longrightarrow> (\<exists>m. unchanged B (fbytes s) m \<and> agree (fbytes s) m H_userdata 8 \<and> arrs s' = loaded m))"
proof -
  obtain T where T: "heap (fbytes s) (fsize s) T" "B = (\<lambda>t. (off t + 8, sz t - 8)) ` inuse T"
    and s: "ready s" "length (locks s) + 2 \<le> LOCKSTACKSIZE"
    using h by (auto simp: nv_holds_def)
  obtain s' p k T' where a: "nvalloc n s = (Ok (p + 8), s')" "ready s'" "locks s' = locks s"
    "heap (fbytes s') (fsize s') T'" "fsize s' < 2 ^ 31" "(p, k, False) \<notin> inuse T"
    "inuse T' = insert (p, k, False) (inuse T)" "n + 8 \<le> k" "keeps T (fbytes s) (fbytes s')"
    "same_env s s'" "fsize s \<le> fsize s'" "vcls s = ClsArray \<and> coherent s \<and> top_lock (locks s) = ExclLock
      \<longrightarrow> (\<exists>m. keeps T (fbytes s) m \<and> arrs s' = loaded m)"
    using nvalloc_ok [OF s(1) T(1) s(2) r [unfolded nv_room_def]] by blast
  have "nv_holds s' (insert (p + 8, k - 8) B)"
    unfolding nv_holds_def using a s T(2) by (intro conjI exI [of _ T']) auto
  moreover have "(p + 8, k - 8) \<notin> B"
  proof
    assume "(p + 8, k - 8) \<in> B"
    then obtain t where t: "t \<in> inuse T" "off t = p" "sz t - 8 = k - 8" using T(2) by auto
    then have "16 \<le> sz t" using heap_bounds(4) [OF T(1), of t] by (simp add: inuse_def)
    then have "t = (p, k, False)" using t a(8) by (cases t) (auto simp: inuse_def)
    with t a(6) show False by simp
  qed
  moreover have "unchanged B (fbytes s) (fbytes s')"
    by (rule unchangedI, rule keeps_bytes [OF a(9) T(1)]) (use T(2) in simp_all)
  moreover have "agree (fbytes s) (fbytes s') H_userdata 8" using a(9) by (simp add: keeps_def)
  moreover have "\<exists>m. unchanged B (fbytes s) m \<and> agree (fbytes s) m H_userdata 8 \<and> arrs s' = loaded m"
    if arr: "vcls s = ClsArray \<and> coherent s \<and> top_lock (locks s) = ExclLock"
  proof -
    obtain m where m: "keeps T (fbytes s) m" "arrs s' = loaded m" using a(12) arr by blast
    have "unchanged B (fbytes s) m"
      by (rule unchangedI, rule keeps_bytes [OF m(1) T(1)]) (use T(2) in simp_all)
    with m show ?thesis by (auto simp: keeps_def)
  qed
  ultimately show ?thesis
    using a(1,3,8,10,11) by (intro exI [of _ s'] exI [of _ "p + 8"] exI [of _ "k - 8"]) simp
qed

lemma nvfree_holds:
  assumes h: "nv_holds s B" and pc: "(p, c) \<in> B"
  shows "\<exists>s'. nvfree p s = (Ok (), s') \<and> nv_holds s' (B - {(p, c)})
      \<and> unchanged (B - {(p, c)}) (fbytes s) (fbytes s') \<and> locks s' = locks s
      \<and> agree (fbytes s) (fbytes s') H_userdata 8 \<and> same_env s s' \<and> fsize s' = fsize s
      \<and> (top_lock (locks s) = ExclLock \<longrightarrow> arrs s' = arrs s)"
proof -
  obtain T where T: "heap (fbytes s) (fsize s) T" "B = (\<lambda>t. (off t + 8, sz t - 8)) ` inuse T"
    and s: "ready s" "length (locks s) + 2 \<le> LOCKSTACKSIZE" "fsize s < 2 ^ 31"
    using h by (auto simp: nv_holds_def)
  obtain t where t: "t \<in> inuse T" "p = off t + 8" "c = sz t - 8" using pc T(2) by auto
  then obtain q k where q: "t = (q, k, False)" by (cases t) (auto simp: inuse_def)
  obtain s' T' where f: "nvfree (q + 8) s = (Ok (), s')" "ready s'" "locks s' = locks s"
    "fsize s' = fsize s" "heap (fbytes s') (fsize s') T'" "inuse T' = inuse T - {t}"
    "keeps T' (fbytes s) (fbytes s')" "same_env s s'" "top_lock (locks s) = ExclLock \<longrightarrow> arrs s' = arrs s"
    using nvfree_ok [OF s(1) T(1), of q k] t q s by auto
  have B: "B - {(p, c)} = (\<lambda>t. (off t + 8, sz t - 8)) ` inuse T'"
    using inj_on_image_set_diff [OF inuse_inj [OF T(1)], of "inuse T" "{t}"] t T(2) f(6) by auto
  have hold: "nv_holds s' (B - {(p, c)})"
    unfolding nv_holds_def using f s B by (intro conjI exI [of _ T']) auto
  have "fbytes s' x = fbytes s x" if "(q', d) \<in> B - {(p, c)}" "q' \<le> x" "x < q' + d" for q' d x
  proof -
    have "keeps T' (fbytes s') (fbytes s)"
      using f(7) by (auto simp: keeps_def intro: agree_sym)
    from keeps_bytes [OF this f(5)] that B show ?thesis by simp
  qed
  then have "unchanged (B - {(p, c)}) (fbytes s) (fbytes s')" by (rule unchangedI)
  moreover have "agree (fbytes s) (fbytes s') H_userdata 8" using f(7) by (simp add: keeps_def)
  ultimately show ?thesis
    using f(1,3,4,8,9) t(2) q hold by (intro exI [of _ s']) simp
qed

interpretation nv: block_store nvalloc nvfree nv_holds nv_room fbytes
proof
  fix s B n assume "nv_holds s B" and "nv_room s n"
  from nvalloc_holds [OF this]
  show "\<exists>s' p c. nvalloc n s = (Ok p, s') \<and> nv_holds s' (insert (p, c) B) \<and> (p, c) \<notin> B
      \<and> n \<le> c \<and> unchanged B (fbytes s) (fbytes s')" by blast
next
  fix s B p c assume "nv_holds s B" and "(p, c) \<in> B"
  from nvfree_holds [OF this]
  show "\<exists>s'. nvfree p s = (Ok (), s') \<and> nv_holds s' (B - {(p, c)})
      \<and> unchanged (B - {(p, c)}) (fbytes s) (fbytes s')" by blast
next
  fix s B p c q d assume h: "nv_holds s B" "(p, c) \<in> B" "(q, d) \<in> B" "(p, c) \<noteq> (q, d)"
  then obtain T where T1: "heap (fbytes s) (fsize s) T" "B = (\<lambda>t. (off t + 8, sz t - 8)) ` inuse T"
    by (auto simp: nv_holds_def)
  obtain t where t: "t \<in> set T" "p = off t + 8" "c = sz t - 8" using h(2) T1(2) by (auto simp: inuse_def)
  obtain u where u: "u \<in> set T" "q = off u + 8" "d = sz u - 8" using h(3) T1(2) by (auto simp: inuse_def)
  have "t \<noteq> u" using h(4) t u by auto
  note T = T1(1) t(1) u(1) this t(2,3) u(2,3)
  have "tiles 48 T (fsize s)" using T(1) by (simp add: heap_def)
  from tiles_disjoint [OF this T(2-4)] T heap_bounds(4) [OF T(1,2)] heap_bounds(4) [OF T(1,3)]
  show "p + c \<le> q \<or> q + d \<le> p" by auto
qed

section \<open>Opening a new file\<close>

definition init_mem :: mem where
  "init_mem =
     (let m1 = wrn (wrn (\<lambda>_. 0) H_hlen 4 SZ_HEADER) H_version 4 2;
          m2 = wl (wl m1 H_size 0x10000) H_mtime 0;
          m3 = wl (wl m2 H_freelist SZ_HEADER) H_bytes_free (0x10000 - SZ_HEADER);
          m4 = wl m3 H_userdata 0
      in wl (wl m4 (SZ_HEADER + FL_next) SZ_HEADER) (SZ_HEADER + FL_size) (0x10000 - SZ_HEADER))"

lemma init_mem_heap: "heap init_mem 0x10000 [(48, 65488, True)]" and init_mem_user: "rl init_mem 40 = 0"
proof -
  have r0: "rdn (wrn (wrn (\<lambda>_. 0) 0 4 48) 4 4 2) 0 4 = 48"
    using rdn_cong [OF agree_wrn, of 0 4 4 4 "wrn (\<lambda>_. 0) 0 4 48" 2] by (simp add: rdn_wrn_same)
  have r4: "rdn (wrn (wrn (\<lambda>_. 0) 0 4 48) 4 4 2) 4 4 = 2" by (simp add: rdn_wrn_same)
  have "hdr init_mem 0x10000"
    by (simp add: hdr_def init_mem_def Let_def r0 r4 rl_wl_aligned)
  moreover have "circ (rl init_mem) [(48, 65488)]"
    by (simp add: circ_def init_mem_def Let_def rl_wl_aligned)
  moreover have "rl init_mem 24 = 48" "rl init_mem 32 = 65488"
    by (simp_all add: init_mem_def Let_def rl_wl_aligned)
  ultimately show "heap init_mem 0x10000 [(48, 65488, True)]"
    by (simp add: heap_def coalesced_Cons)
  show "rl init_mem 40 = 0"
    by (simp add: init_mem_def Let_def rl_wl_aligned)
qed

text \<open>The object and the file just before \<open>make_current\<close> maps it.\<close>

definition opened :: "vclass \<Rightarrow> osenv \<Rightarrow> (string \<Rightarrow> (mem \<times> nat) option) \<Rightarrow> string \<Rightarrow> nvc" where
  "opened c e d f = (nvcontainer_new c e d)\<lparr>mem_fn := f, mem_fd := True, fname := Some f,
     fbytes := init_mem, fsize := 0x10000, disk := d(f := None)\<rparr>"

lemma opened_ready:
  assumes "os_grants e"
  shows "ready (opened c e d f)" and "heap (fbytes (opened c e d f)) (fsize (opened c e d f)) [(48, 65488, True)]"
    and "locks (opened c e d f) = []"
proof -
  have l: "locks (opened c e d f) = []"
    by (simp add: opened_def nvcontainer_new_def locks_def)
  show "heap (fbytes (opened c e d f)) (fsize (opened c e d f)) [(48, 65488, True)]"
    using init_mem_heap by (simp add: opened_def nvcontainer_new_def)
  then have "hdr (fbytes (opened c e d f)) (fsize (opened c e d f))" unfolding heap_def by blast
  then have "mappable (opened c e d f)"
    by (simp add: mappable_def opened_def nvcontainer_new_def)
  moreover have "lock_wf (opened c e d f)"
    using l by (simp add: lock_wf_def sticky_def) (simp add: opened_def nvcontainer_new_def)
  ultimately show "ready (opened c e d f)"
    using assms l by (simp add: ready_def) (simp add: opened_def nvcontainer_new_def)
  show "locks (opened c e d f) = []" by (rule l)
qed

lemma open_nv_new:
  assumes "os_grants e" and "os_open e f" and "os_write e" and "d f = None" and "f \<noteq> []"
  shows "\<exists>s. open_nv f (nvcontainer_new c e d) = (Ok (), s) \<and> ready s \<and> mapped s \<and> locks s = []
    \<and> heap (fbytes s) (fsize s) [(48, 65488, True)] \<and> fsize s = 0x10000 \<and> rl (fbytes s) 40 = 0"
proof -
  let ?s = "opened c e d f"
  have gr: "os_grants (os ?s)" using assms(1) by (simp add: opened_def nvcontainer_new_def)
  have mp: "mappable ?s" using opened_ready(1) [OF assms(1)] by (simp add: ready_def)
  obtain s' where s': "make_current ?s = (Ok (), s')" "same_db ?s s'" "same_locks ?s s'" "mapped s'"
    using make_current_ok [OF mp gr] by blast
  have "open_nv f (nvcontainer_new c e d) = make_current ?s"
    using assms
    by (simp add: open_nv_def nvcontainer_new_def act_simps nvflock_def os_grants_def init_file_def
        Let_def) (simp add: opened_def nvcontainer_new_def init_mem_def Let_def)
  moreover have "ready s'"
    using same_db_mapped_mappable [OF s'(2) mp s'(4)] same_locks_wf [OF s'(3)]
      opened_ready(1) [OF assms(1), of c d f] s'(2,4) by (simp add: ready_def same_db_def)
  moreover have "fbytes s' = init_mem" "fsize s' = 0x10000"
    using s'(2) by (simp_all add: same_db_def opened_def)
  ultimately show ?thesis
    using s' opened_ready(3) [OF assms(1), of c d f] same_locks_wf [OF s'(3)] init_mem_heap init_mem_user
    by (intro exI [of _ s']) simp
qed

text \<open>
  A file that cannot be opened: the exception leaves the name in place, and the same
  call again returns as if the container were open.
\<close>

lemma open_nv_fails:
  assumes "\<not> os_open e f" and "f \<noteq> []"
  shows "\<exists>s. open_nv f (nvcontainer_new c e d)
      = (Throw (SystemError ''NVConatiner::open(): cannot open''), s)
    \<and> \<not> is_open s \<and> open_nv f s = (Ok (), s)"
  using assms
  by (simp add: open_nv_def nvcontainer_new_def act_simps is_open_def)

section \<open>The modification time\<close>

lemma heap_mtime:
  assumes "heap m n T"
  shows "heap (wl m 16 v) n T" and "keeps T m (wl m 16 v)"
proof -
  have tl: "tiles 48 T n" using assms by (simp add: heap_def)
  show "keeps T m (wl m 16 v)" by (rule keeps_wl_header [OF tl]) simp
  have "circ (rl (wl m 16 v)) (frees T)"
    using circ_header [OF nodes_frees [OF tl], of 16] frees_ge [OF tl] assms
    by (auto simp: heap_def)
  moreover have "rl (wl m 16 v) (off t) = rl m (off t)" if "t \<in> set T" for t
    using heap_bounds [OF assms that] by (simp add: rl_wl_aligned)
  ultimately show "heap (wl m 16 v) n T"
    using assms by (auto simp: heap_def rl_wl_aligned)
qed

lemma setmtime_ok:
  assumes rdy: "ready s" and h: "heap (fbytes s) (fsize s) T"
    and ls: "length (locks s) < LOCKSTACKSIZE" and tm: "tm < 2 ^ 64"
  shows "\<exists>s'. setmtime tm force s = (Ok (), s') \<and> ready s' \<and> mapped s' \<and> locks s' = locks s
    \<and> same_env s s' \<and> fsize s' = fsize s \<and> heap (fbytes s') (fsize s') T
    \<and> rl (fbytes s') 16 = (if force then tm else max (rl (fbytes s) 16) tm)
    \<and> keeps T (fbytes s) (fbytes s')"
proof -
  obtain s1 where s1: "lock ExclLock Block s = (Ok 0, s1)" "same_db s s1"
    "locks s1 = push_lock ExclLock (locks s)" "ready s1"
    using lock_ok [OF rdy _ ls, of ExclLock Block] by auto
  have m1: "mapped s1" using s1(3,4) by (simp add: ready_def)
  have e1: "fsize s1 = fsize s" "fbytes s1 = fbytes s" using s1(2) by (simp_all add: same_db_def)
  let ?m = "if force \<or> rl (fbytes s1) 16 < tm then wl (fbytes s1) 16 tm else fbytes s1"
  have hm: "heap ?m (fsize s1) T" "keeps T (fbytes s1) ?m"
    using heap_mtime [of "fbytes s1" "fsize s1" T tm] h e1 by simp_all
  have n: "64 < fsize s1" using h e1 by (simp add: heap_def hdr_def)
  have hd: "hdr ?m (fsize s1)" using hm(1) by (simp add: heap_def)
  note s2 = ready_upd [OF s1(4) m1 hd]
  have "locks (s1\<lparr>fbytes := ?m\<rparr>) \<noteq> []" using s2(3) s1(3) by simp
  from unlock_ok [OF s2(1) this, of Block] obtain s3 where
    s3: "lock UnLock Block (s1\<lparr>fbytes := ?m\<rparr>) = (Ok 0, s3)" "same_db (s1\<lparr>fbytes := ?m\<rparr>) s3"
      "locks s3 = locks s" "ready s3" "mapped s3"
    using s2(3) s1(3) by auto
  have e3: "fbytes s3 = ?m" "fsize s3 = fsize s" using s3(2) e1 by (simp_all add: same_db_def)
  have same: "s1\<lparr>fbytes := fbytes s1\<rparr> = s1" by simp
  have "setmtime tm force s = (Ok (), s3)"
    using n s3(1)
    by (cases "force \<or> rl (fbytes s1) 16 < tm")
       (auto simp: setmtime_def act_simps s1(1) mapped_in_map [OF m1])
  moreover have "rl ?m 16 = (if force then tm else max (rl (fbytes s) 16) tm)"
    using tm e1 by (auto simp: rl_wl_same max_def)
  moreover have "same_env s s3" using s1(2) s3(2) by (simp add: same_db_def same_env_def)
  ultimately show ?thesis
    using s3 e3 hm e1 by (intro exI [of _ s3]) simp
qed

end
