(* ===== verification/NV_List.thy ===== *)
theory NV_List
  imports NV_Store
begin

text \<open>
  NVClasses-0.9.1/NVlist.{h,cc}, NVList.{h,cc} and NVHash.{h,cc}: circular lists of
  records inside the container, the list that is a whole database, the hash table of
  such lists, and their iterators. A root word holds the offset of the last record, 0
  when the list is empty; a record is \<open>next\<close>, \<open>szdata\<close>, data.
\<close>

abbreviation (input) "SZ_RECORD \<equiv> (16::nat)"
abbreviation (input) "R_next \<equiv> (0::nat)"
abbreviation (input) "R_szdata \<equiv> (8::nat)"

section \<open>NVlist\<close>

definition nvlist_sis_empty :: "nat \<Rightarrow> (nvc, bool) act" where
  "nvlist_sis_empty proot = bnd (rd proot) (\<lambda>t. ret (t = 0))"

definition nvlist_sprepend :: "nat \<Rightarrow> string \<Rightarrow> (nvc, unit) act" where
  "nvlist_sprepend proot data =
     bnd (nvalloc (u64 (length data + SZ_RECORD))) (\<lambda>nr.
     bnd (rd proot) (\<lambda>tail.
     bnd (wrf nr R_szdata (length data)) (\<lambda>_.
     bnd (memcpy_to (nr + SZ_RECORD) data) (\<lambda>_.
     if tail \<noteq> 0 then
       bnd (rdf tail R_next) (\<lambda>nxt.
       bnd (wrf nr R_next nxt) (\<lambda>_.
       wrf tail R_next nr))
     else
       bnd (wrf nr R_next nr) (\<lambda>_.
       wr proot nr)))))"

definition nvlist_sappend :: "nat \<Rightarrow> string \<Rightarrow> (nvc, unit) act" where
  "nvlist_sappend proot data =
     bnd (nvalloc (u64 (length data + SZ_RECORD))) (\<lambda>nr.
     bnd (rd proot) (\<lambda>tail.
     bnd (wrf nr R_szdata (length data)) (\<lambda>_.
     bnd (memcpy_to (nr + SZ_RECORD) data) (\<lambda>_.
     if tail \<noteq> 0 then
       bnd (rdf tail R_next) (\<lambda>nxt.
       bnd (wrf nr R_next nxt) (\<lambda>_.
       bnd (wrf tail R_next nr) (\<lambda>_.
       wr proot nr)))
     else
       bnd (wrf nr R_next nr) (\<lambda>_.
       wr proot nr)))))"

definition nvlist_sremove :: "nat \<Rightarrow> (nvc, unit) act" where
  "nvlist_sremove proot =
     bnd (rd proot) (\<lambda>tail.
     bnd (rdf tail R_next) (\<lambda>nr.
     bnd (if tail = nr then wr proot 0
          else bnd (rdf nr R_next) (\<lambda>nxt. wrf tail R_next nxt)) (\<lambda>_.
     nvfree nr)))"

text \<open>Removing until the root is null: on a damaged list this need not end.\<close>

partial_function (option) nvlist_sclear_from :: "nat \<Rightarrow> nvc \<Rightarrow> (unit outcome \<times> nvc) option" where
  "nvlist_sclear_from proot s =
     (case rd proot s of
        (Ok t, s1) \<Rightarrow>
          if t = 0 then Some (Ok (), s1)
          else (case nvlist_sremove proot s1 of
                  (Ok _, s2) \<Rightarrow> nvlist_sclear_from proot s2
                | (Throw e, s2) \<Rightarrow> Some (Throw e, s2)
                | (Crash, s2) \<Rightarrow> Some (Crash, s2)
                | (Diverge, s2) \<Rightarrow> Some (Diverge, s2))
      | (Throw e, s1) \<Rightarrow> Some (Throw e, s1)
      | (Crash, s1) \<Rightarrow> Some (Crash, s1)
      | (Diverge, s1) \<Rightarrow> Some (Diverge, s1))"

declare nvlist_sclear_from.simps [code]

definition nvlist_sclear :: "nat \<Rightarrow> (nvc, unit) act" where
  "nvlist_sclear proot s =
     (case nvlist_sclear_from proot s of None \<Rightarrow> (Diverge, s) | Some r \<Rightarrow> r)"

text \<open>The C string at an address, as \<open>operator<<\<close> reads it: up to the first zero.\<close>

function cstr_at :: "nvc \<Rightarrow> nat \<Rightarrow> string option" where
  "cstr_at s a =
     (if \<not> in_map s a 1 then None
      else if char_of (fbytes s a) = NUL then Some []
      else (case cstr_at s (Suc a) of
              None \<Rightarrow> None
            | Some cs \<Rightarrow> Some (char_of (fbytes s a) # cs)))"
  by pat_completeness auto
termination
  by (relation "measure (\<lambda>(s, a). mem_sz s - a)") (auto simp: in_map_def)

declare cstr_at.simps [simp del]

definition record_line :: "nvc \<Rightarrow> nat \<Rightarrow> nat \<Rightarrow> string option" where
  "record_line s i r =
     (case (peek s r R_szdata, cstr_at s (r + SZ_RECORD)) of
        (Some n, Some d) \<Rightarrow>
          Some (show_nat i @ '': '' @ show_nat r @ ''('' @ show_nat n @ ''): '' @ d @ [LF])
      | _ \<Rightarrow> None)"

partial_function (option) nvlist_sprint_from ::
  "nvc \<Rightarrow> nat \<Rightarrow> nat \<Rightarrow> nat \<Rightarrow> string \<Rightarrow> string outcome option" where
  "nvlist_sprint_from s head i r out =
     (case peek s r R_next of
        None \<Rightarrow> Some Crash
      | Some r' \<Rightarrow>
          (case record_line s i r' of
             None \<Rightarrow> Some Crash
           | Some l \<Rightarrow>
               if r' = head then Some (Ok (out @ l))
               else nvlist_sprint_from s head (i + 1) r' (out @ l)))"

declare nvlist_sprint_from.simps [code]

definition nvlist_sprint :: "nat \<Rightarrow> (nvc, string) act" where
  "nvlist_sprint proot =
     bnd (rd proot) (\<lambda>head.
     if head = 0 then ret []
     else (\<lambda>s. case nvlist_sprint_from s head 0 head [] of
                 None \<Rightarrow> (Diverge, s) | Some r \<Rightarrow> (r, s)))"

section \<open>NVList: the list that is the database\<close>

definition nvList_is_empty :: "(nvc, bool) act" where
  "nvList_is_empty =
     bnd (lock ShrdLock Block) (\<lambda>_. bnd (nvlist_sis_empty getdatap) (\<lambda>r.
     bnd (lock UnLock Block) (\<lambda>_. ret r)))"

definition nvList_prepend :: "string \<Rightarrow> (nvc, unit) act" where
  "nvList_prepend data =
     bnd (lock ExclLock Block) (\<lambda>_. bnd (nvlist_sprepend getdatap data) (\<lambda>_.
     bnd (lock UnLock Block) (\<lambda>_. ret ())))"

definition nvList_append :: "string \<Rightarrow> (nvc, unit) act" where
  "nvList_append data =
     bnd (lock ExclLock Block) (\<lambda>_. bnd (nvlist_sappend getdatap data) (\<lambda>_.
     bnd (lock UnLock Block) (\<lambda>_. ret ())))"

definition nvList_remove :: "(nvc, unit) act" where
  "nvList_remove =
     bnd getdata (\<lambda>d.
     if d \<noteq> 0 then
       bnd (lock ExclLock Block) (\<lambda>_. bnd (nvlist_sremove getdatap) (\<lambda>_.
       bnd (lock UnLock Block) (\<lambda>_. ret ())))
     else ret ())"

definition nvList_clear :: "(nvc, unit) act" where
  "nvList_clear =
     bnd (lock ExclLock Block) (\<lambda>_. bnd (nvlist_sclear getdatap) (\<lambda>_.
     bnd (lock UnLock Block) (\<lambda>_. ret ())))"

definition nvList_print :: "(nvc, string) act" where
  "nvList_print =
     bnd (lock ShrdLock Block) (\<lambda>_. bnd (nvlist_sprint getdatap) (\<lambda>out.
     bnd (lock UnLock Block) (\<lambda>_. ret out)))"

text \<open>NVListIter: whether it is attached, the record it stands on, the last record.\<close>

record list_iter =
  li_att :: bool
  li_pos :: nat
  li_tail :: nat

definition li_attach :: "list_iter \<Rightarrow> (nvc, list_iter) act" where
  "li_attach it =
     bnd (if li_att it then lock UnLock Block else ret 0) (\<lambda>_.
     bnd (lock ShrdLock Block) (\<lambda>_.
     bnd getdata (\<lambda>t. ret \<lparr>li_att = True, li_pos = 0, li_tail = t\<rparr>)))"

definition li_detach :: "list_iter \<Rightarrow> (nvc, list_iter) act" where
  "li_detach it =
     bnd (if li_att it then lock UnLock Block else ret 0) (\<lambda>_. ret (it\<lparr>li_att := False\<rparr>))"

definition li_first :: "list_iter \<Rightarrow> (nvc, list_iter) act" where
  "li_first it = (if li_att it then bnd (rdf (li_tail it) R_next) (\<lambda>p. ret (it\<lparr>li_pos := p\<rparr>))
                  else ret it)"

definition li_valid :: "list_iter \<Rightarrow> bool" where
  "li_valid it \<longleftrightarrow> li_pos it \<noteq> 0"

definition li_next :: "list_iter \<Rightarrow> (nvc, list_iter) act" where
  "li_next it =
     (if li_pos it = 0 then ret it
      else if li_pos it = li_tail it then ret (it\<lparr>li_pos := 0\<rparr>)
      else bnd (rdf (li_pos it) R_next) (\<lambda>p. ret (it\<lparr>li_pos := p\<rparr>)))"

definition li_data :: "list_iter \<Rightarrow> (nvc, nat \<times> nat) act" where
  "li_data it = bnd (rdf (li_pos it) R_szdata) (\<lambda>n. ret (li_pos it + SZ_RECORD, u32 n))"

section \<open>NVHash\<close>

definition nvhash_slot :: "nvc \<Rightarrow> nat \<Rightarrow> nat" where
  "nvhash_slot s h = hashtab s + 8 * h"

fun nvhash_sclear_slots :: "nat list \<Rightarrow> (nvc, unit) act" where
  "nvhash_sclear_slots [] = ret ()"
| "nvhash_sclear_slots (h # hs) =
     bnd (gets (\<lambda>s. nvhash_slot s h)) (\<lambda>p.
     bnd (nvlist_sclear p) (\<lambda>_. nvhash_sclear_slots hs))"

definition nvhash_sclear :: "(nvc, unit) act" where
  "nvhash_sclear = bnd (gets hashsz) (\<lambda>n. nvhash_sclear_slots [0..<n])"

fun nvhash_empty_slots :: "nat list \<Rightarrow> (nvc, bool) act" where
  "nvhash_empty_slots [] = ret True"
| "nvhash_empty_slots (h # hs) =
     bnd (gets (\<lambda>s. nvhash_slot s h)) (\<lambda>p.
     bnd (rd p) (\<lambda>t. if t \<noteq> 0 then ret False else nvhash_empty_slots hs))"

definition nvhash_sis_empty :: "(nvc, bool) act" where
  "nvhash_sis_empty = bnd (gets hashsz) (\<lambda>n. nvhash_empty_slots [0..<n])"

definition nvhash_sadd :: "nat \<Rightarrow> string \<Rightarrow> (nvc, unit) act" where
  "nvhash_sadd h data = bnd (gets (\<lambda>s. nvhash_slot s h)) (\<lambda>p. nvlist_sprepend p data)"

fun nvhash_sprint_slots :: "nat list \<Rightarrow> string \<Rightarrow> (nvc, string) act" where
  "nvhash_sprint_slots [] out = ret out"
| "nvhash_sprint_slots (h # hs) out =
     bnd (gets (\<lambda>s. nvhash_slot s h)) (\<lambda>p.
     bnd (nvlist_sprint p) (\<lambda>o1. nvhash_sprint_slots hs (out @ o1)))"

definition nvhash_sprint :: "(nvc, string) act" where
  "nvhash_sprint = bnd (gets hashsz) (\<lambda>n. nvhash_sprint_slots [0..<n] [])"

fun nvhash_zero_slots :: "nat list \<Rightarrow> (nvc, unit) act" where
  "nvhash_zero_slots [] = ret ()"
| "nvhash_zero_slots (h # hs) =
     bnd (gets (\<lambda>s. nvhash_slot s h)) (\<lambda>p. bnd (wr p 0) (\<lambda>_. nvhash_zero_slots hs))"

definition nvhash_open :: "string \<Rightarrow> nat \<Rightarrow> (nvc, unit) act" where
  "nvhash_open dbname nhashsz =
     bnd (open_nv dbname) (\<lambda>_.
     bnd (gets hashtab) (\<lambda>ht0.
     if ht0 \<noteq> 0 then ret ()
     else
       bnd (lock ExclLock Block) (\<lambda>_.
       bnd (gets hashtab) (\<lambda>ht1.
       bnd (if ht1 \<noteq> 0 then ret ()
            else
              bnd (nvalloc (u64 (SZ_ULONG + nhashsz * 8))) (\<lambda>ht.
              bnd (setdata ht) (\<lambda>_.
              bnd (wr ht nhashsz) (\<lambda>_.
              bnd (upd (\<lambda>s. s\<lparr>hashsz := nhashsz, hashtab := ht + SZ_ULONG\<rparr>)) (\<lambda>_.
              nvhash_zero_slots [0..<nhashsz]))))) (\<lambda>_.
       bnd (lock UnLock Block) (\<lambda>_. ret ()))))))"

definition nvhash_clear :: "(nvc, unit) act" where
  "nvhash_clear =
     bnd (lock ExclLock Block) (\<lambda>_. bnd nvhash_sclear (\<lambda>_.
     bnd (lock UnLock Block) (\<lambda>_. ret ())))"

definition nvhash_is_empty :: "(nvc, bool) act" where
  "nvhash_is_empty =
     bnd (lock ShrdLock Block) (\<lambda>_. bnd nvhash_sis_empty (\<lambda>r.
     bnd (lock UnLock Block) (\<lambda>_. ret r)))"

definition nvhash_add :: "nat \<Rightarrow> string \<Rightarrow> (nvc, unit) act" where
  "nvhash_add h data =
     bnd (lock ExclLock Block) (\<lambda>_. bnd (nvhash_sadd h data) (\<lambda>_.
     bnd (lock UnLock Block) (\<lambda>_. ret ())))"

definition nvhash_print :: "(nvc, string) act" where
  "nvhash_print =
     bnd (lock ShrdLock Block) (\<lambda>_. bnd nvhash_sprint (\<lambda>out.
     bnd (lock UnLock Block) (\<lambda>_. ret out)))"

text \<open>NVHashIter.\<close>

record hash_iter =
  hi_att :: bool
  hi_pos :: nat
  hi_tail :: nat
  hi_hash :: nat

text \<open>The first non-empty list from slot \<open>curhashval\<close> on.\<close>

fun hi_seek :: "nat list \<Rightarrow> hash_iter \<Rightarrow> (nvc, hash_iter) act" where
  "hi_seek [] it = ret it"
| "hi_seek (h # hs) it =
     bnd (gets (\<lambda>s. nvhash_slot s h)) (\<lambda>p.
     bnd (rd p) (\<lambda>t.
     if t \<noteq> 0 then bnd (rdf t R_next) (\<lambda>p'. ret (it\<lparr>hi_tail := t, hi_pos := p', hi_hash := h\<rparr>))
     else hi_seek hs (it\<lparr>hi_hash := h + 1\<rparr>)))"

definition hi_first :: "hash_iter \<Rightarrow> (nvc, hash_iter) act" where
  "hi_first it = bnd (gets hashsz) (\<lambda>n. hi_seek [0..<n] (it\<lparr>hi_pos := 0, hi_hash := 0\<rparr>))"

definition hi_next :: "hash_iter \<Rightarrow> (nvc, hash_iter) act" where
  "hi_next it =
     (if hi_pos it = 0 then ret it
      else if hi_pos it = hi_tail it
      then bnd (gets hashsz) (\<lambda>n.
             hi_seek [hi_hash it + 1..<n] (it\<lparr>hi_pos := 0, hi_hash := hi_hash it + 1\<rparr>))
      else bnd (rdf (hi_pos it) R_next) (\<lambda>p. ret (it\<lparr>hi_pos := p\<rparr>)))"

definition hi_attach :: "hash_iter \<Rightarrow> (nvc, hash_iter) act" where
  "hi_attach it =
     bnd (if hi_att it then lock UnLock Block else ret 0) (\<lambda>_.
     bnd (lock ShrdLock Block) (\<lambda>_. ret (it\<lparr>hi_att := True, hi_pos := 0\<rparr>)))"

definition hi_detach :: "hash_iter \<Rightarrow> (nvc, hash_iter) act" where
  "hi_detach it =
     bnd (if hi_att it then lock UnLock Block else ret 0) (\<lambda>_. ret (it\<lparr>hi_att := False\<rparr>))"

definition hi_data :: "hash_iter \<Rightarrow> (nvc, nat \<times> nat) act" where
  "hi_data it = bnd (rdf (hi_pos it) R_szdata) (\<lambda>n. ret (hi_pos it + SZ_RECORD, u32 n))"

end
