(* ===== verification/NV_List_Ok.thy ===== *)
theory NV_List_Ok
  imports NV_List "HOL-Library.Multiset"
begin

text \<open>
  The lists of NVlist.cc as sequences: what \<open>sappend\<close>, \<open>sprepend\<close>, \<open>sremove\<close> and \<open>sclear\<close> do
  to the sequence of records, and that they keep the heap they live in.
\<close>

section \<open>Writing inside a block\<close>

lemma heap_cong:
  assumes h: "heap m n T" and hd: "hdr m' n" and w: "rl m' 24 = rl m 24" "rl m' 32 = rl m 32"
    and a: "\<And>t. t \<in> set T \<Longrightarrow> agree m m' (off t) (if is_free t then 16 else 8)"
  shows "heap m' n T"
proof -
  have tl: "tiles 48 T n" using h by (simp add: heap_def)
  have "lseg (rl m') (frees T) e" if "lseg (rl m) (frees T) e" for e
  proof (rule lseg_cong [OF _ that])
    fix x assume "x \<in> set (frees T)"
    then have "(fst x, snd x, True) \<in> set T" by (auto simp: frees_def)
    from a [OF this] have "agree m m' (fst x) 8" "agree m m' (fst x + 8) 8"
      by (auto elim: agree_sub)
    then show "rl m' (fst x) = rl m (fst x) \<and> rl m' (fst x + 8) = rl m (fst x + 8)"
      by (simp add: rl_cong)
  qed
  moreover have "rl m' (off t) = sz t" if "t \<in> set T" "\<not> is_free t" for t
    using a [OF that(1)] that h rl_cong [of m m' "off t"] by (simp add: heap_def)
  ultimately show ?thesis using h hd w by (auto simp: heap_def circ_def)
qed

text \<open>A memory that differs only inside the payload of one block in use.\<close>

definition differs_in :: "mem \<Rightarrow> mem \<Rightarrow> nat \<Rightarrow> nat \<Rightarrow> bool" where
  "differs_in m m' p c \<longleftrightarrow> (\<forall>x. x < p \<or> p + c \<le> x \<longrightarrow> m' x = m x)"

lemma differs_wl: "p \<le> x \<Longrightarrow> x + 8 \<le> p + c \<Longrightarrow> differs_in m (wl m x v) p c"
  by (auto simp: differs_in_def wl_def wrn_def)

lemma differs_wbytes: "p \<le> x \<Longrightarrow> x + length d \<le> p + c \<Longrightarrow> differs_in m (wbytes m x d) p c"
  by (auto simp: differs_in_def wbytes_def)

lemma differs_agree: "differs_in m m' p c \<Longrightarrow> b + k \<le> p \<or> p + c \<le> b \<Longrightarrow> agree m m' b k"
  by (auto simp: differs_in_def agree_def)

lemma heap_payload:
  assumes h: "heap m n T" and t: "t \<in> inuse T" and d: "differs_in m m' (off t + 8) (sz t - 8)"
  shows "heap m' n T"
proof -
  have tt: "t \<in> set T" "\<not> is_free t" using t by (auto simp: inuse_def)
  note b = heap_bounds [OF h tt(1)]
  have ag: "agree m m' x k" if "x + k \<le> 48" for x k
    using differs_agree [OF d, of x k] b that by simp
  have low: "rl m' x = rl m x" if "x + 8 \<le> 48" for x
    using rl_cong [OF ag [OF that]] by simp
  have r4: "rdn m' 0 4 = rdn m 0 4" "rdn m' 4 4 = rdn m 4 4"
    using rdn_cong [OF ag, of 0 4] rdn_cong [OF ag, of 4 4] by simp_all
  show ?thesis
  proof (rule heap_cong [OF h])
    show "hdr m' n" using h by (simp add: heap_def hdr_def low r4)
    fix u assume u: "u \<in> set T"
    note bu = heap_bounds [OF h u]
    have tl: "tiles 48 T n" using h by (simp add: heap_def)
    show "agree m m' (off u) (if is_free u then 16 else 8)"
    proof (cases "u = t")
      case True
      then show ?thesis using tt(2) differs_agree [OF d, of "off t" 8] by simp
    next
      case False
      have "off u + 16 \<le> off t + 8 \<or> off t + 8 + (sz t - 8) \<le> off u"
        using tiles_disjoint [OF tl u tt(1) False] b bu by auto
      then show ?thesis using differs_agree [OF d, of "off u"] by auto
    qed
  qed (simp_all add: low)
qed

lemma holds_payload:
  assumes h: "nv_holds s B" and l: "locks s \<noteq> []" and b: "(p, c) \<in> B" and d: "differs_in (fbytes s) m p c"
  shows "nv_holds (s\<lparr>fbytes := m\<rparr>) B"
proof -
  obtain T where T: "heap (fbytes s) (fsize s) T" "B = (\<lambda>t. (off t + 8, sz t - 8)) ` inuse T"
    and s: "ready s" "length (locks s) + 2 \<le> LOCKSTACKSIZE" "fsize s < 2 ^ 31"
    using h by (auto simp: nv_holds_def)
  obtain t where t: "t \<in> inuse T" "p = off t + 8" "c = sz t - 8" using b T(2) by auto
  have hp: "heap m (fsize s) T" using heap_payload [OF T(1) t(1)] d t by simp
  have mp: "mapped s" using s(1) l by (simp add: ready_def)
  have hd: "hdr m (fsize s)" using hp by (simp add: heap_def)
  note r = ready_upd [OF s(1) mp hd]
  show ?thesis unfolding nv_holds_def using r s hp T(2) by auto
qed

text \<open>The user data word of the header.\<close>

lemma holds_userdata:
  assumes h: "nv_holds s B" and l: "locks s \<noteq> []" and v: "v = 0 \<or> v + 16 \<le> fsize s"
  shows "nv_holds (s\<lparr>fbytes := wl (fbytes s) 40 v\<rparr>) B"
proof -
  obtain T where T: "heap (fbytes s) (fsize s) T" "B = (\<lambda>t. (off t + 8, sz t - 8)) ` inuse T"
    and s: "ready s" "length (locks s) + 2 \<le> LOCKSTACKSIZE" "fsize s < 2 ^ 31"
    using h by (auto simp: nv_holds_def)
  let ?m = "wl (fbytes s) 40 v"
  have hd: "hdr ?m (fsize s)" using T(1) v s(3) by (auto simp: heap_def hdr_def rl_wl_aligned)
  have hp: "heap ?m (fsize s) T"
  proof (rule heap_cong [OF T(1) hd])
    fix t assume "t \<in> set T"
    then show "agree (fbytes s) ?m (off t) (if is_free t then 16 else 8)"
      using heap_bounds(1) [OF T(1)] by (intro agree_sym [OF agree_wl]) auto
  qed (simp_all add: rl_wl_aligned)
  have mp: "mapped s" using s(1) l by (simp add: ready_def)
  note r = ready_upd [OF s(1) mp hd]
  show ?thesis unfolding nv_holds_def using r s hp T(2) by auto
qed

lemma holds_block:
  assumes "nv_holds s B" and "(p, c) \<in> B"
  shows "56 \<le> p" and "p + c \<le> fsize s" and "8 dvd p" and "8 \<le> c" and "fsize s < 2 ^ 31"
proof -
  obtain T where T: "heap (fbytes s) (fsize s) T" "B = (\<lambda>t. (off t + 8, sz t - 8)) ` inuse T"
    and f: "fsize s < 2 ^ 31" using assms(1) by (auto simp: nv_holds_def)
  obtain t where t: "t \<in> set T" "p = off t + 8" "c = sz t - 8"
    using assms(2) T(2) by (auto simp: inuse_def)
  note b = heap_bounds [OF T(1) t(1)]
  show "56 \<le> p" "p + c \<le> fsize s" "8 dvd p" "8 \<le> c" using b t by auto
  show "fsize s < 2 ^ 31" by (rule f)
qed

lemma holds_mapped: "nv_holds s B \<Longrightarrow> locks s \<noteq> [] \<Longrightarrow> mapped s \<and> 64 < fsize s"
  by (auto simp: nv_holds_def ready_def heap_def hdr_def)

lemma locks_fbytes [simp]: "locks (s\<lparr>fbytes := m\<rparr>) = locks s"
  by (simp add: locks_def)

lemma unchanged_rl:
  assumes "unchanged B m m'" and "(p, c) \<in> B" and "p \<le> x" and "x + 8 \<le> p + c"
  shows "rl m' x = rl m x"
  using assms rl_cong [of m m' x] agree_sub [of m m' p c x 8] by (auto simp: unchanged_def)

lemma unchanged_rbytes:
  assumes "unchanged B m m'" and "(p, c) \<in> B" and "p \<le> x" and "x + k \<le> p + c"
  shows "rbytes m' x k = rbytes m x k"
  using assms rbytes_cong [of m m' x k] agree_sub [of m m' p c x k] by (auto simp: unchanged_def)

section \<open>Sequences of records\<close>

definition links :: "(nat \<times> string) list \<Rightarrow> (nat \<times> nat) list" where
  "links xs = map (\<lambda>(a, d). (a, length d)) xs"

lemma links_simps [simp]:
  "links [] = []" "links (x # xs) = (fst x, length (snd x)) # links xs"
  "links (xs @ ys) = links xs @ links ys"
  by (auto simp: links_def split: prod.split)

text \<open>The root word and the records in memory.\<close>

definition recs :: "mem \<Rightarrow> nat \<Rightarrow> (nat \<times> string) list \<Rightarrow> bool" where
  "recs m proot xs \<longleftrightarrow> rl m proot = (if xs = [] then 0 else fst (last xs)) \<and> circ (rl m) (links xs)
     \<and> (\<forall>(a, d) \<in> set xs. rbytes m (a + SZ_RECORD) (length d) = d)"

definition in_blocks :: "(nat \<times> nat) set \<Rightarrow> (nat \<times> string) list \<Rightarrow> bool" where
  "in_blocks B xs \<longleftrightarrow> distinct (map fst xs)
     \<and> (\<forall>(a, d) \<in> set xs. \<exists>c. (a, c) \<in> B \<and> SZ_RECORD + length d \<le> c)"

text \<open>The root is the user data word of the header, or lies in a block that is not a record.\<close>

definition root_ok :: "(nat \<times> nat) set \<Rightarrow> nat \<Rightarrow> (nat \<times> string) list \<Rightarrow> bool" where
  "root_ok B proot xs \<longleftrightarrow> proot = H_userdata
     \<or> (\<exists>q c. (q, c) \<in> B \<and> q \<le> proot \<and> proot + 8 \<le> q + c \<and> q \<notin> fst ` set xs)"

definition list_at :: "nvc \<Rightarrow> nat \<Rightarrow> (nat \<times> nat) set \<Rightarrow> (nat \<times> string) list \<Rightarrow> bool" where
  "list_at s proot B xs \<longleftrightarrow> nv_holds s B \<and> locks s \<noteq> [] \<and> recs (fbytes s) proot xs
     \<and> in_blocks B xs \<and> root_ok B proot xs"

lemma agree_wl_step [simp]:
  "agree m m1 b k \<Longrightarrow> b + k \<le> x \<or> x + 8 \<le> b \<Longrightarrow> agree m (wl m1 x v) b k"
  by (rule agree_trans, assumption, rule agree_sym [OF agree_wl])

lemma agree_wbytes_step [simp]:
  "agree m m1 b k \<Longrightarrow> b + k \<le> x \<or> x + length d \<le> b \<Longrightarrow> agree m (wbytes m1 x d) b k"
  by (rule agree_trans, assumption, rule agree_sym [OF agree_wbytes])

lemma rl_agree: "agree m m' a k \<Longrightarrow> a \<le> x \<Longrightarrow> x + 8 \<le> a + k \<Longrightarrow> rl m' x = rl m x"
  using rl_cong [of m m' x] agree_sub [of m m' a k x 8] by simp

lemma rbytes_agree: "agree m m' a k \<Longrightarrow> a \<le> x \<Longrightarrow> x + n \<le> a + k \<Longrightarrow> rbytes m' x n = rbytes m x n"
  using rbytes_cong [of m m' x n] agree_sub [of m m' a k x n] by simp

text \<open>Records whose bytes are untouched stay what they are.\<close>

definition intact :: "mem \<Rightarrow> mem \<Rightarrow> (nat \<times> string) list \<Rightarrow> bool" where
  "intact m m' xs \<longleftrightarrow> (\<forall>(a, d) \<in> set xs. agree m m' a (SZ_RECORD + length d))"

lemma intact_lseg:
  assumes "intact m m' xs" and "lseg (rl m) (links xs) e"
  shows "lseg (rl m') (links xs) e"
proof (rule lseg_cong [OF _ assms(2)])
  fix x assume "x \<in> set (links xs)"
  then obtain a d where x: "(a, d) \<in> set xs" "x = (a, length d)" by (auto simp: links_def)
  then have "agree m m' a (16 + length d)" using assms(1) by (auto simp: intact_def)
  then show "rl m' (fst x) = rl m (fst x) \<and> rl m' (fst x + 8) = rl m (fst x + 8)"
    using x(2) by (auto elim!: rl_agree)
qed

lemma intact_data:
  assumes "intact m m' xs" and "(a, d) \<in> set xs" and "rbytes m (a + 16) (length d) = d"
  shows "rbytes m' (a + 16) (length d) = d"
proof -
  have "agree m m' a (16 + length d)" using assms(1,2) by (auto simp: intact_def)
  from rbytes_agree [OF this, of "a + 16" "length d"] assms(3) show ?thesis by simp
qed

lemma circ_links:
  "xs \<noteq> [] \<Longrightarrow> circ r (links xs) \<longleftrightarrow> lseg r (links xs) (fst (hd xs))"
  by (cases xs) (auto simp: circ_def)

text \<open>Where the records and the root lie with respect to each other.\<close>

lemma list_apart:
  assumes l: "list_at s proot B xs" and x: "(a, d) \<in> set xs"
  shows "56 \<le> a" and "a + 16 + length d \<le> fsize s" and "a + 16 + length d \<le> proot \<or> proot + 8 \<le> a"
    and "(b, d') \<in> set xs \<Longrightarrow> b \<noteq> a \<Longrightarrow> a + 16 + length d \<le> b \<or> b + 16 + length d' \<le> a"
    and "8 dvd a"
proof -
  obtain c where c: "(a, c) \<in> B" "16 + length d \<le> c"
    using l x by (auto simp: list_at_def in_blocks_def)
  have h: "nv_holds s B" using l by (simp add: list_at_def)
  note bl = holds_block [OF h c(1)]
  show "56 \<le> a" "a + 16 + length d \<le> fsize s" "8 dvd a" using bl c by auto
  show "a + 16 + length d \<le> proot \<or> proot + 8 \<le> a"
  proof (cases "proot = 40")
    case True
    then show ?thesis using bl(1) by simp
  next
    case False
    then obtain q e where q: "(q, e) \<in> B" "q \<le> proot" "proot + 8 \<le> q + e" "q \<notin> fst ` set xs"
      using l by (auto simp: list_at_def root_ok_def)
    then have "(a, c) \<noteq> (q, e)" using x by force
    from nv.blocks_apart [OF h c(1) q(1) this] q c show ?thesis by auto
  qed
  assume y: "(b, d') \<in> set xs" "b \<noteq> a"
  then obtain c' where c': "(b, c') \<in> B" "16 + length d' \<le> c'"
    using l by (auto simp: list_at_def in_blocks_def)
  have "(a, c) \<noteq> (b, c')" using y by simp
  from nv.blocks_apart [OF h c(1) c'(1) this] c c'
  show "a + 16 + length d \<le> b \<or> b + 16 + length d' \<le> a" by auto
qed

text \<open>Writes that keep the heap: into a block in use, or into the root.\<close>

lemma holds_wl:
  assumes "nv_holds (s\<lparr>fbytes := m\<rparr>) B" and "locks s \<noteq> []" and "(p, c) \<in> B" and "p \<le> x" and "x + 8 \<le> p + c"
  shows "nv_holds (s\<lparr>fbytes := wl m x v\<rparr>) B"
  using holds_payload [OF assms(1) _ assms(3), of "wl m x v"] differs_wl [OF assms(4,5)] assms(2) by simp

lemma holds_wbytes:
  assumes "nv_holds (s\<lparr>fbytes := m\<rparr>) B" and "locks s \<noteq> []" and "(p, c) \<in> B" and "p \<le> x"
    and "x + length d \<le> p + c"
  shows "nv_holds (s\<lparr>fbytes := wbytes m x d\<rparr>) B"
  using holds_payload [OF assms(1) _ assms(3), of "wbytes m x d"] differs_wbytes [OF assms(4,5)] assms(2)
  by simp

lemma holds_root:
  assumes "nv_holds (s\<lparr>fbytes := m\<rparr>) B" and "locks s \<noteq> []" and "root_ok B proot xs"
    and "v = 0 \<or> v + 16 \<le> fsize s"
  shows "nv_holds (s\<lparr>fbytes := wl m proot v\<rparr>) B"
proof (cases "proot = H_userdata")
  case True
  then show ?thesis using holds_userdata [OF assms(1), of v] assms(2,4) by simp
next
  case False
  then obtain q c where "(q, c) \<in> B" "q \<le> proot" "proot + 8 \<le> q + c"
    using assms(3) by (auto simp: root_ok_def)
  from holds_wl [OF assms(1,2) this] show ?thesis .
qed

lemma root_in_map:
  assumes "nv_holds s B" and "locks s \<noteq> []" and "root_ok B proot xs"
  shows "in_map s proot 8" and "proot + 8 \<le> fsize s" and "0 < proot"
proof -
  note mp = holds_mapped [OF assms(1,2)]
  have "proot + 8 \<le> fsize s \<and> 0 < proot"
    using assms(3) mp holds_block(1,2) [OF assms(1)] by (fastforce simp: root_ok_def)
  then show "in_map s proot 8" "proot + 8 \<le> fsize s" "0 < proot"
    using mp by (simp_all add: mapped_in_map)
qed

lemma recs_same:
  assumes "recs m proot xs" and "intact m m' xs" and "rl m' proot = rl m proot"
  shows "recs m' proot xs"
  using assms intact_lseg [OF assms(2)] intact_data [OF assms(2)]
  by (fastforce simp: recs_def circ_def)

lemma blocks_intact:
  "in_blocks B xs \<Longrightarrow> unchanged B m m' \<Longrightarrow> intact m m' xs"
  by (fastforce simp: intact_def in_blocks_def unchanged_def intro: agree_sub)

lemma root_unchanged:
  "root_ok B proot xs \<Longrightarrow> unchanged B m m' \<Longrightarrow> agree m m' H_userdata 8 \<Longrightarrow> rl m' proot = rl m proot"
  using unchanged_rl [of B m m'] rl_cong by (fastforce simp: root_ok_def)

text \<open>What \<open>sappend\<close> and \<open>sprepend\<close> have after \<open>nvalloc\<close>: the old list, and a block apart from it.\<close>

definition fresh_block :: "nvc \<Rightarrow> nat \<Rightarrow> (nat \<times> nat) set \<Rightarrow> (nat \<times> string) list \<Rightarrow> nat \<Rightarrow> nat \<Rightarrow> bool" where
  "fresh_block s proot B xs p c \<longleftrightarrow> list_at s proot B xs \<and> (p, c) \<in> B \<and> p \<notin> fst ` set xs
     \<and> 56 \<le> p \<and> p + c \<le> fsize s \<and> fsize s < 2 ^ 31 \<and> 8 dvd p \<and> (p + c \<le> proot \<or> proot + 8 \<le> p)
     \<and> (\<forall>(a, d) \<in> set xs. p + c \<le> a \<or> a + SZ_RECORD + length d \<le> p)"

lemma new_block:
  assumes l: "list_at s proot B xs" and r: "nv_room s n"
  shows "\<exists>s' p c. nvalloc n s = (Ok p, s') \<and> fresh_block s' proot (insert (p, c) B) xs p c \<and> n \<le> c
     \<and> locks s' = locks s \<and> root_ok B proot xs \<and> (p, c) \<notin> B"
proof -
  have h: "nv_holds s B" and lk: "locks s \<noteq> []" and rc: "recs (fbytes s) proot xs"
    and ib: "in_blocks B xs" and ro: "root_ok B proot xs"
    using l by (simp_all add: list_at_def)
  obtain s' p c where a: "nvalloc n s = (Ok p, s')" "nv_holds s' (insert (p, c) B)" "(p, c) \<notin> B"
    "n \<le> c" "unchanged B (fbytes s) (fbytes s')" "locks s' = locks s"
    "agree (fbytes s) (fbytes s') H_userdata 8"
    using nvalloc_holds [OF h r] by blast
  have bl: "56 \<le> p" "p + c \<le> fsize s'" "8 dvd p" "fsize s' < 2 ^ 31"
    using holds_block [OF a(2), of p c] by simp_all
  have "8 \<le> c" using holds_block(4) [OF a(2), of p c] by simp
  have ap: "p + c \<le> q \<or> q + e \<le> p" if "(q, e) \<in> B" for q e
    using nv.blocks_apart [OF a(2), of p c q e] that a(3) by auto
  have pn: "p \<notin> fst ` set xs"
  proof
    assume "p \<in> fst ` set xs"
    then obtain e where "(p, e) \<in> B" "16 \<le> e" using ib by (fastforce simp: in_blocks_def)
    from ap [OF this(1)] this(2) \<open>8 \<le> c\<close> show False by auto
  qed
  have "recs (fbytes s') proot xs"
    by (rule recs_same [OF rc blocks_intact [OF ib a(5)] root_unchanged [OF ro a(5,7)]])
  moreover have "in_blocks (insert (p, c) B) xs" using ib by (fastforce simp: in_blocks_def)
  moreover have "root_ok (insert (p, c) B) proot xs" using ro by (auto simp: root_ok_def)
  ultimately have "list_at s' proot (insert (p, c) B) xs" using a(2,6) lk by (simp add: list_at_def)
  moreover have "p + c \<le> proot \<or> proot + 8 \<le> p"
    using ro ap bl(1) by (fastforce simp: root_ok_def)
  moreover have "\<forall>(a, d) \<in> set xs. p + c \<le> a \<or> a + SZ_RECORD + length d \<le> p"
    using ib ap by (fastforce simp: in_blocks_def)
  ultimately have "fresh_block s' proot (insert (p, c) B) xs p c"
    using bl pn by (simp add: fresh_block_def)
  then show ?thesis using a ro by blast
qed

text \<open>A new record with its data, not yet linked.\<close>

definition with_data :: "mem \<Rightarrow> nat \<Rightarrow> string \<Rightarrow> mem" where
  "with_data m p d = wbytes (wl m (p + R_szdata) (length d)) (p + SZ_RECORD) d"

lemma with_data_reads:
  assumes "length d < 2 ^ 31"
  shows "rl (with_data m p d) (p + 8) = length d"
    and "rbytes (with_data m p d) (p + 16) (length d) = d"
    and "b + k \<le> p \<or> p + 16 + length d \<le> b \<Longrightarrow> agree m (with_data m p d) b k"
  using assms by (auto simp: with_data_def rl_wbytes_other rl_wl_same rbytes_wbytes_same)

lemma with_data_holds:
  assumes "nv_holds s B" and "locks s \<noteq> []" and "(p, c) \<in> B" and "16 + length d \<le> c"
  shows "nv_holds (s\<lparr>fbytes := with_data (fbytes s) p d\<rparr>) B"
proof -
  have "nv_holds (s\<lparr>fbytes := wl (fbytes s) (p + 8) (length d)\<rparr>) B"
    by (rule holds_wl [OF _ assms(2,3)]) (use assms in auto)
  then show ?thesis
    unfolding with_data_def by (rule holds_wbytes [OF _ assms(2,3)]) (use assms(4) in auto)
qed

text \<open>
  Linking a record between the last and the first; the root is left alone, or becomes
  the new record.
\<close>

lemma link_record:
  assumes f: "fresh_block s proot B xs p c" and c: "16 + length d \<le> c" and ne: "xs \<noteq> []"
  defines "u \<equiv> wl (wl (with_data (fbytes s) p d) p (rl (fbytes s) (fst (last xs)))) (fst (last xs)) p"
  assumes v: "m = u \<and> v = fst (last xs) \<or> m = wl u proot p \<and> v = p"
  shows "nv_holds (s\<lparr>fbytes := m\<rparr>) B" and "lseg (rl m) (links xs @ [(p, length d)]) (fst (hd xs))"
    and "rl m proot = v" and "\<forall>(a, d) \<in> set (xs @ [(p, d)]). rbytes m (a + 16) (length d) = d"
proof -
  note fb = f [unfolded fresh_block_def]
  have l: "list_at s proot B xs" and pc: "(p, c) \<in> B" using fb by simp_all
  have h: "nv_holds s B" and lk: "locks s \<noteq> []" and rc: "recs (fbytes s) proot xs"
    and ib: "in_blocks B xs" and ro: "root_ok B proot xs"
    using l by (simp_all add: list_at_def)
  obtain ys t dt where xs: "xs = ys @ [(t, dt)]" using ne by (cases xs rule: rev_cases) auto
  have tin: "(t, dt) \<in> set xs" using xs by simp
  obtain ct where ct: "(t, ct) \<in> B" "16 + length dt \<le> ct" using ib tin by (auto simp: in_blocks_def)
  note la = list_apart [OF l]
  have len: "length d < 2 ^ 31" using fb c by auto
  let ?w = "with_data (fbytes s) p d"
  let ?w2 = "wl ?w p (rl (fbytes s) t)"
  have u: "u = wl ?w2 t p" using xs by (simp add: u_def)
  have tb: "p + c \<le> t \<or> t + 16 + length dt \<le> p" using fb tin by auto
  have hu: "nv_holds (s\<lparr>fbytes := u\<rparr>) B"
    unfolding u
    by (rule holds_wl [OF _ lk ct(1)], rule holds_wl [OF _ lk pc],
        rule with_data_holds [OF h lk pc c]) (use c ct in auto)
  have "p + 16 \<le> fsize s" using fb c by auto
  then show hm: "nv_holds (s\<lparr>fbytes := m\<rparr>) B"
    using v hu holds_root [OF hu lk ro, of p] by auto
  have um: "agree f m b k" if "agree f u b k" "b + k \<le> proot \<or> proot + 8 \<le> b" for f b k
    using v that by auto
  have agx: "agree (fbytes s) m a (16 + length da)" if x: "(a, da) \<in> set ys" for a da
  proof (rule um)
    have x': "(a, da) \<in> set xs" using x xs by simp
    have at: "a \<noteq> t" using ib x xs by (force simp: in_blocks_def)
    have "p + c \<le> a \<or> a + 16 + length da \<le> p" using fb x' by auto
    then show "agree (fbytes s) u a (16 + length da)"
      unfolding u using la(4) [OF x' tin] at c
      by (intro agree_wl_step with_data_reads(3) [OF len]) auto
    show "a + (16 + length da) \<le> proot \<or> proot + 8 \<le> a" using la(3) [OF x'] by linarith
  qed
  then have iy: "intact (fbytes s) m ys" by (auto simp: intact_def)
  have agt: "agree (fbytes s) m (t + 8) (8 + length dt)"
  proof (rule um)
    show "agree (fbytes s) u (t + 8) (8 + length dt)"
      unfolding u using tb c by (intro agree_wl_step with_data_reads(3) [OF len]) auto
  qed (use la(3) [OF tin] in auto)
  have agp: "agree ?w m (p + 8) (8 + length d)"
  proof (rule um)
    show "agree ?w u (p + 8) (8 + length d)"
      unfolding u using tb c by (intro agree_wl_step agree_refl) auto
  qed (use fb c in auto)
  have rlp: "rl m p = rl (fbytes s) t"
  proof -
    have "agree ?w2 m p 8"
      by (rule um) (use fb tb c in \<open>auto simp: u\<close>)
    from rl_agree [OF this, of p] show ?thesis by (simp add: rl_wl_same)
  qed
  have rlt: "rl m t = p"
  proof -
    have "agree u m t 8" by (rule um) (use la(3) [OF tin] in auto)
    from rl_agree [OF this, of t] fb show ?thesis by (simp add: u rl_wl_same)
  qed
  have cl: "lseg (rl (fbytes s)) (links xs) (fst (hd xs))"
    using rc ne circ_links by (auto simp: recs_def)
  then have cy: "lseg (rl (fbytes s)) (links ys) t" "rl (fbytes s) t = fst (hd xs)"
      "rl (fbytes s) (t + 8) = length dt"
    by (auto simp: xs)
  have "rl m (t + 8) = length dt" using rl_agree [OF agt, of "t + 8"] cy(3) by simp
  moreover have "rl m (p + 8) = length d"
    using rl_agree [OF agp, of "p + 8"] with_data_reads(1) [OF len] by simp
  ultimately show "lseg (rl m) (links xs @ [(p, length d)]) (fst (hd xs))"
    using intact_lseg [OF iy cy(1)] rlp rlt cy(2) by (simp add: xs)
  have rc': "rl (fbytes s) proot = t" using rc xs by (simp add: recs_def)
  have "agree (fbytes s) u proot 8"
    unfolding u using la(3) [OF tin] fb c by (intro agree_wl_step with_data_reads(3) [OF len]) auto
  from rl_agree [OF this, of proot] rc' have "rl u proot = t" by simp
  then show "rl m proot = v" using v xs fb by (elim disjE conjE) (simp_all add: rl_wl_same)
  have "rbytes m (a + 16) (length da) = da" if x: "(a, da) \<in> set xs" for a da
  proof -
    have o: "rbytes (fbytes s) (a + 16) (length da) = da" using rc x by (auto simp: recs_def)
    show ?thesis
    proof (cases "(a, da) \<in> set ys")
      case True
      from intact_data [OF iy this o] show ?thesis .
    next
      case False
      then have "a = t" "da = dt" using x xs by auto
      with o rbytes_agree [OF agt, of "t + 16" "length dt"] show ?thesis by simp
    qed
  qed
  moreover have "rbytes m (p + 16) (length d) = d"
    using rbytes_agree [OF agp, of "p + 16" "length d"] with_data_reads(2) [OF len] by simp
  ultimately show "\<forall>(a, d) \<in> set (xs @ [(p, d)]). rbytes m (a + 16) (length d) = d" by auto
qed

text \<open>The first record of an empty list.\<close>

lemma link_first:
  assumes f: "fresh_block s proot B [] p c" and c: "16 + length d \<le> c"
  defines "m \<equiv> wl (wl (with_data (fbytes s) p d) p p) proot p"
  shows "nv_holds (s\<lparr>fbytes := m\<rparr>) B" and "recs m proot [(p, d)]"
proof -
  note fb = f [unfolded fresh_block_def]
  have h: "nv_holds s B" and lk: "locks s \<noteq> []" and ro: "root_ok B proot []" and pc: "(p, c) \<in> B"
    using fb by (simp_all add: list_at_def)
  have len: "length d < 2 ^ 31" and p64: "p < 2 ^ 64" using fb c by auto
  show "nv_holds (s\<lparr>fbytes := m\<rparr>) B"
    unfolding m_def
    by (rule holds_root [OF _ lk ro], rule holds_wl [OF _ lk pc],
        rule with_data_holds [OF h lk pc c]) (use fb c in auto)
  let ?w = "with_data (fbytes s) p d"
  have ag: "agree ?w m (p + 8) (8 + length d)"
    unfolding m_def using fb c by (intro agree_wl_step agree_refl) auto
  have "rl m p = p"
  proof -
    have "rl m p = rl (wl ?w p p) p" unfolding m_def using fb c by (intro rl_wl_other) auto
    then show ?thesis using p64 by (simp add: rl_wl_same)
  qed
  moreover have "rl m (p + 8) = length d" "rbytes m (p + 16) (length d) = d"
    using rl_agree [OF ag, of "p + 8"] rbytes_agree [OF ag, of "p + 16" "length d"]
      with_data_reads(1,2) [OF len] by simp_all
  moreover have "rl m proot = p" using p64 by (simp add: m_def rl_wl_same)
  ultimately show "recs m proot [(p, d)]" by (simp add: recs_def circ_def)
qed

lemma fresh_snoc:
  assumes f: "fresh_block s proot B xs p c" and c: "16 + length d \<le> c"
    and h: "nv_holds (s\<lparr>fbytes := m\<rparr>) B" and ro: "root_ok B' proot xs" "B = insert (p, c) B'" "(p, c) \<notin> B'"
    and ys: "mset ys = mset ((p, d) # xs)" and r: "recs m proot ys"
  shows "list_at (s\<lparr>fbytes := m\<rparr>) proot B ys"
proof -
  note fb = f [unfolded fresh_block_def list_at_def in_blocks_def]
  have st: "set ys = insert (p, d) (set xs)" using mset_eq_setD [OF ys] by simp
  have "mset (map fst ys) = mset (map fst ((p, d) # xs))" using ys by simp
  from mset_eq_imp_distinct_iff [OF this] have "distinct (map fst ys)" using fb by simp
  moreover have "\<forall>(a, d) \<in> set ys. \<exists>c. (a, c) \<in> B \<and> 16 + length d \<le> c"
    using st fb c by auto
  moreover have "root_ok B proot ys"
  proof -
    have "q \<noteq> p" if "(q, e) \<in> B'" "q \<le> proot" "proot + 8 \<le> q + e" for q e
    proof
      assume "q = p"
      then have e: "(p, e) \<in> B" "(p, c) \<in> B" "(p, e) \<noteq> (p, c)" using that ro by auto
      have hs: "nv_holds s B" using fb by simp
      from nv.blocks_apart [OF hs e] holds_block(4) [OF hs e(1)] holds_block(4) [OF hs e(2)]
      show False by auto
    qed
    then show ?thesis using ro st by (auto simp: root_ok_def) blast
  qed
  ultimately show ?thesis using h r fb by (auto simp: list_at_def in_blocks_def)
qed

lemma eval_new_record:
  assumes f: "fresh_block s proot B xs p c" and c: "16 + length d \<le> c"
  shows "rd proot s = (Ok (if xs = [] then 0 else fst (last xs)), s)"
    and "wrf p 8 (length d) s = (Ok (), s\<lparr>fbytes := wl (fbytes s) (p + 8) (length d)\<rparr>)"
    and "memcpy_to (p + 16) d (s\<lparr>fbytes := wl (fbytes s) (p + 8) (length d)\<rparr>)
        = (Ok (), s\<lparr>fbytes := with_data (fbytes s) p d\<rparr>)"
    and "in_map s p 8" and "in_map s proot 8" and "0 < p" and "0 < proot"
    and "xs \<noteq> [] \<Longrightarrow> 0 < fst (last xs) \<and> in_map s (fst (last xs)) 8"
proof -
  note fb = f [unfolded fresh_block_def]
  have l: "list_at s proot B xs" using fb by simp
  then have h: "nv_holds s B" "locks s \<noteq> []" "root_ok B proot xs" and rc: "recs (fbytes s) proot xs"
    by (simp_all add: list_at_def)
  note mp = holds_mapped [OF h(1,2)]
  note rm = root_in_map [OF h]
  show "in_map s proot 8" "0 < proot" by (rule rm)+
  show "rd proot s = (Ok (if xs = [] then 0 else fst (last xs)), s)"
    using rm rc by (simp add: act_simps recs_def)
  show "in_map s p 8" "0 < p" using mp fb c by (simp_all add: mapped_in_map)
  then show "wrf p 8 (length d) s = (Ok (), s\<lparr>fbytes := wl (fbytes s) (p + 8) (length d)\<rparr>)"
    using mp fb c by (simp add: act_simps mapped_in_map)
  show "memcpy_to (p + 16) d (s\<lparr>fbytes := wl (fbytes s) (p + 8) (length d)\<rparr>)
        = (Ok (), s\<lparr>fbytes := with_data (fbytes s) p d\<rparr>)"
    using mp fb c by (simp add: act_simps mapped_in_map with_data_def)
  assume ne: "xs \<noteq> []"
  then have "(fst (last xs), snd (last xs)) \<in> set xs" by simp
  from list_apart(1,2) [OF l this] show "0 < fst (last xs) \<and> in_map s (fst (last xs)) 8"
    using mp by (simp add: mapped_in_map)
qed

lemma sappend_ok:
  assumes l: "list_at s proot B xs" and r: "nv_room s (length d + 16)"
  shows "\<exists>s' p c. nvlist_sappend proot d s = (Ok (), s') \<and> (p, c) \<notin> B
     \<and> list_at s' proot (insert (p, c) B) (xs @ [(p, d)]) \<and> locks s' = locks s"
proof -
  obtain s1 p c where a: "nvalloc (length d + 16) s = (Ok p, s1)"
    "fresh_block s1 proot (insert (p, c) B) xs p c" "length d + 16 \<le> c" "locks s1 = locks s"
    "root_ok B proot xs" "(p, c) \<notin> B"
    using new_block [OF l r] by blast
  have c: "16 + length d \<le> c" using a(3) by simp
  note ev = eval_new_record [OF a(2) c]
  have n64: "length d + 16 < 2 ^ 64" using r by (simp add: nv_room_def)
  show ?thesis
  proof (cases "xs = []")
    case True
    let ?m = "wl (wl (with_data (fbytes s1) p d) p p) proot p"
    note lf = link_first [OF a(2) [unfolded True] c]
    have "nvlist_sappend proot d s = (Ok (), s1\<lparr>fbytes := ?m\<rparr>)"
      using ev True n64 by (simp add: nvlist_sappend_def a(1) act_simps)
    moreover have "list_at (s1\<lparr>fbytes := ?m\<rparr>) proot (insert (p, c) B) (xs @ [(p, d)])"
      by (rule fresh_snoc [OF a(2) c lf(1) a(5) refl a(6)]) (use True lf(2) in simp_all)
    ultimately show ?thesis using a(4,6) by (intro exI [of _ "s1\<lparr>fbytes := ?m\<rparr>"]) auto
  next
    case False
    let ?t = "fst (last xs)"
    let ?m = "wl (wl (wl (with_data (fbytes s1) p d) p (rl (fbytes s1) ?t)) ?t p) proot p"
    note lr = link_record [OF a(2) c False disjI2 [OF conjI [OF refl refl]]]
    have tl: "list_at s1 proot (insert (p, c) B) xs" using a(2) by (simp add: fresh_block_def)
    have "(?t, snd (last xs)) \<in> set xs" using False by simp
    with a(2) have "p + c \<le> ?t \<or> ?t + 16 + length (snd (last xs)) \<le> p"
      by (fastforce simp: fresh_block_def)
    then have rt: "rl (with_data (fbytes s1) p d) ?t = rl (fbytes s1) ?t"
      using with_data_reads(3) [of d ?t 8 p "fbytes s1"] c a(2) rl_cong
      by (fastforce simp: fresh_block_def)
    have "nvlist_sappend proot d s = (Ok (), s1\<lparr>fbytes := ?m\<rparr>)"
      using ev(1-7) ev(8) [OF False] False n64 rt
      by (simp add: nvlist_sappend_def a(1) act_simps)
    moreover have "recs ?m proot (xs @ [(p, d)])"
      unfolding recs_def using lr(2-4) False by (simp add: circ_def hd_append) (cases xs; simp)
    then have "list_at (s1\<lparr>fbytes := ?m\<rparr>) proot (insert (p, c) B) (xs @ [(p, d)])"
      by (intro fresh_snoc [OF a(2) c lr(1) a(5) refl a(6)]) simp_all
    ultimately show ?thesis using a(4,6) by (intro exI [of _ "s1\<lparr>fbytes := ?m\<rparr>"]) auto
  qed
qed

lemma sprepend_ok:
  assumes l: "list_at s proot B xs" and r: "nv_room s (length d + 16)"
  shows "\<exists>s' p c. nvlist_sprepend proot d s = (Ok (), s') \<and> (p, c) \<notin> B
     \<and> list_at s' proot (insert (p, c) B) ((p, d) # xs) \<and> locks s' = locks s"
proof -
  obtain s1 p c where a: "nvalloc (length d + 16) s = (Ok p, s1)"
    "fresh_block s1 proot (insert (p, c) B) xs p c" "length d + 16 \<le> c" "locks s1 = locks s"
    "root_ok B proot xs" "(p, c) \<notin> B"
    using new_block [OF l r] by blast
  have c: "16 + length d \<le> c" using a(3) by simp
  note ev = eval_new_record [OF a(2) c]
  have n64: "length d + 16 < 2 ^ 64" using r by (simp add: nv_room_def)
  show ?thesis
  proof (cases "xs = []")
    case True
    let ?m = "wl (wl (with_data (fbytes s1) p d) p p) proot p"
    note lf = link_first [OF a(2) [unfolded True] c]
    have "nvlist_sprepend proot d s = (Ok (), s1\<lparr>fbytes := ?m\<rparr>)"
      using ev True n64 by (simp add: nvlist_sprepend_def a(1) act_simps)
    moreover have "list_at (s1\<lparr>fbytes := ?m\<rparr>) proot (insert (p, c) B) ((p, d) # xs)"
      by (rule fresh_snoc [OF a(2) c lf(1) a(5) refl a(6)]) (use True lf(2) in simp_all)
    ultimately show ?thesis using a(4,6) by (intro exI [of _ "s1\<lparr>fbytes := ?m\<rparr>"]) auto
  next
    case False
    let ?t = "fst (last xs)"
    let ?m = "wl (wl (with_data (fbytes s1) p d) p (rl (fbytes s1) ?t)) ?t p"
    note lr = link_record [OF a(2) c False disjI1 [OF conjI [OF refl refl]]]
    have tl: "list_at s1 proot (insert (p, c) B) xs" using a(2) by (simp add: fresh_block_def)
    have "(?t, snd (last xs)) \<in> set xs" using False by simp
    with a(2) have "p + c \<le> ?t \<or> ?t + 16 + length (snd (last xs)) \<le> p"
      by (fastforce simp: fresh_block_def)
    then have rt: "rl (with_data (fbytes s1) p d) ?t = rl (fbytes s1) ?t"
      using with_data_reads(3) [of d ?t 8 p "fbytes s1"] c a(2) rl_cong
      by (fastforce simp: fresh_block_def)
    have "nvlist_sprepend proot d s = (Ok (), s1\<lparr>fbytes := ?m\<rparr>)"
      using ev(1-7) ev(8) [OF False] False n64 rt
      by (simp add: nvlist_sprepend_def a(1) act_simps)
    moreover have "recs ?m proot ((p, d) # xs)"
    proof -
      have "circ (rl ?m) (links xs @ [(p, length d)])"
        using lr(2) False by (cases xs) (simp_all add: circ_def)
      from circ_rotate [OF this] show ?thesis using lr(3,4) False by (simp add: recs_def)
    qed
    then have "list_at (s1\<lparr>fbytes := ?m\<rparr>) proot (insert (p, c) B) ((p, d) # xs)"
      by (intro fresh_snoc [OF a(2) c lr(1) a(5) refl a(6)]) simp_all
    ultimately show ?thesis using a(4,6) by (intro exI [of _ "s1\<lparr>fbytes := ?m\<rparr>"]) auto
  qed
qed


text \<open>Giving back the block of a record that is no longer linked.\<close>

lemma free_record:
  assumes h: "nv_holds s B" and lk: "locks s \<noteq> []" and ac: "(a, c) \<in> B" and rc: "recs (fbytes s) proot ys"
    and ib: "in_blocks B ys" and ro: "root_ok B proot ((a, d) # ys)" and an: "a \<notin> fst ` set ys"
  shows "\<exists>s'. nvfree a s = (Ok (), s') \<and> list_at s' proot (B - {(a, c)}) ys \<and> locks s' = locks s"
proof -
  obtain s' where f: "nvfree a s = (Ok (), s')" "nv_holds s' (B - {(a, c)})"
    "unchanged (B - {(a, c)}) (fbytes s) (fbytes s')" "locks s' = locks s"
    "agree (fbytes s) (fbytes s') H_userdata 8"
    using nvfree_holds [OF h ac] by blast
  have "\<exists>c'. (x, c') \<in> B - {(a, c)} \<and> 16 + length dx \<le> c'" if x: "(x, dx) \<in> set ys" for x dx
  proof -
    have "x \<noteq> a" using x an by force
    with ib x show ?thesis by (fastforce simp: in_blocks_def)
  qed
  then have "\<forall>x \<in> set ys. \<exists>c'. (fst x, c') \<in> B - {(a, c)} \<and> 16 + length (snd x) \<le> c'"
    by (metis prod.collapse)
  then have ib': "in_blocks (B - {(a, c)}) ys" using ib by (simp add: in_blocks_def split_beta)
  have ro': "root_ok (B - {(a, c)}) proot ys" using ro by (auto simp: root_ok_def)
  have "recs (fbytes s') proot ys"
    by (rule recs_same [OF rc blocks_intact [OF ib' f(3)] root_unchanged [OF ro' f(3,5)]])
  then show ?thesis using f ib' ro' lk by (auto simp: list_at_def)
qed

lemma sremove_ok:
  assumes l: "list_at s proot B ((a, d) # ys)"
  shows "\<exists>s' c. nvlist_sremove proot s = (Ok (), s') \<and> (a, c) \<in> B
     \<and> list_at s' proot (B - {(a, c)}) ys \<and> locks s' = locks s"
proof -
  let ?xs = "(a, d) # ys"
  have h: "nv_holds s B" and lk: "locks s \<noteq> []" and rc: "recs (fbytes s) proot ?xs"
    and ib: "in_blocks B ?xs" and ro: "root_ok B proot ?xs"
    using l by (simp_all add: list_at_def)
  note mp = holds_mapped [OF h lk] and rm = root_in_map [OF h lk ro] and la = list_apart [OF l]
  obtain c where c: "(a, c) \<in> B" "16 + length d \<le> c" using ib by (auto simp: in_blocks_def)
  have an: "a \<notin> fst ` set ys" and ib': "in_blocks B ys" using ib by (auto simp: in_blocks_def)
  have ab: "0 < a" "in_map s a 8" using la(1,2) [of a d] mp by (simp_all add: mapped_in_map)
  have ci: "circ (rl (fbytes s)) (links ?xs)" and rp: "rl (fbytes s) proot = fst (last ?xs)"
    using rc by (simp_all add: recs_def)
  show ?thesis
  proof (cases "ys = []")
    case True
    let ?s = "s\<lparr>fbytes := wl (fbytes s) proot 0\<rparr>"
    have "nv_holds ?s B" using holds_root [of "fbytes s" s B proot ?xs 0] h lk ro by simp
    moreover have "recs (fbytes ?s) proot ys" using True by (simp add: recs_def rl_wl_same circ_def)
    ultimately obtain s' where "nvfree a ?s = (Ok (), s')" "list_at s' proot (B - {(a, c)}) ys"
      "locks s' = locks ?s"
      using free_record [of ?s B a c proot ys d] lk c(1) ib' ro an by auto
    moreover have "rl (fbytes s) a = a" using ci True by (simp add: circ_def)
    then have "nvlist_sremove proot s = nvfree a ?s"
      using rm ab rp True by (simp add: nvlist_sremove_def act_simps)
    ultimately show ?thesis using c(1) by auto
  next
    case False
    then obtain zs t dt where ys: "ys = zs @ [(t, dt)]" by (cases ys rule: rev_cases) auto
    have tin: "(t, dt) \<in> set ?xs" and ta: "t \<noteq> a" using ys an by auto
    obtain ct where ct: "(t, ct) \<in> B" "16 + length dt \<le> ct" using ib tin by (auto simp: in_blocks_def)
    have tb: "0 < t" "in_map s t 8" using la(1,2) [OF tin] mp by (simp_all add: mapped_in_map)
    have cy: "rl (fbytes s) t = a" "rl (fbytes s) a = fst (hd ys)" "lseg (rl (fbytes s)) (links zs) t"
      "rl (fbytes s) (t + 8) = length dt"
      using ci by (auto simp: circ_def ys hd_append split: if_splits) (cases zs; simp)
    let ?m = "wl (fbytes s) t (fst (hd ys))"
    let ?s = "s\<lparr>fbytes := ?m\<rparr>"
    have hold: "nv_holds ?s B" using holds_wl [of "fbytes s" s B t ct t "fst (hd ys)"] h lk ct by simp
    have agx: "agree (fbytes s) ?m x (16 + length dx)" if x: "(x, dx) \<in> set zs" for x dx
    proof -
      have "(x, dx) \<in> set ?xs" "x \<noteq> t" using x ys ib by (force simp: in_blocks_def)+
      from la(4) [OF this(1) tin] this(2) show ?thesis by (intro agree_wl_step agree_refl) auto
    qed
    then have iz: "intact (fbytes s) ?m zs" by (auto simp: intact_def)
    have agt: "agree (fbytes s) ?m (t + 8) (8 + length dt)" by (intro agree_wl_step agree_refl) auto
    have "fst (hd ys) < 2 ^ 64" using cy(2) rl_less [of "fbytes s" a] by simp
    then have "rl ?m t = fst (hd ys)" by (simp add: rl_wl_same)
    moreover have "rl ?m (t + 8) = length dt" using rl_agree [OF agt, of "t + 8"] cy(4) by simp
    ultimately have "circ (rl ?m) (links ys)"
      using intact_lseg [OF iz cy(3)] by (cases zs) (auto simp: ys circ_def)
    moreover have "rl ?m proot = t"
    proof -
      have "agree (fbytes s) ?m proot 8" using la(3) [OF tin] by (intro agree_wl_step agree_refl) auto
      from rl_agree [OF this, of proot] show ?thesis using rp ys by simp
    qed
    moreover have "\<forall>(x, dx) \<in> set ys. rbytes ?m (x + 16) (length dx) = dx"
      using rc intact_data [OF iz] rbytes_agree [OF agt, of "t + 16" "length dt"]
      by (auto simp: ys recs_def)
    ultimately have "recs (fbytes ?s) proot ys" using ys by (simp add: recs_def)
    then obtain s' where "nvfree a ?s = (Ok (), s')" "list_at s' proot (B - {(a, c)}) ys"
      "locks s' = locks ?s"
      using free_record [of ?s B a c proot ys d] hold lk c(1) ib' ro an by auto
    moreover have "nvlist_sremove proot s = nvfree a ?s"
      using rm(1) ab tb rp cy(1,2) ta ys by (simp add: nvlist_sremove_def act_simps)
    ultimately show ?thesis using c(1) by auto
  qed
qed

text \<open>Clearing ends: each turn removes a record.\<close>

lemma sclear_ok:
  assumes "list_at s proot B xs"
  shows "\<exists>s' B'. nvlist_sclear proot s = (Ok (), s') \<and> list_at s' proot B' [] \<and> B' \<subseteq> B
     \<and> fst ` B - fst ` B' \<subseteq> fst ` set xs \<and> locks s' = locks s"
proof -
  have "\<exists>s' B'. nvlist_sclear_from proot s = Some (Ok (), s') \<and> list_at s' proot B' [] \<and> B' \<subseteq> B
     \<and> fst ` B - fst ` B' \<subseteq> fst ` set xs \<and> locks s' = locks s"
    using assms
  proof (induction xs arbitrary: s B)
    case Nil
    then have l: "nv_holds s B" "locks s \<noteq> []" "root_ok B proot []" "rl (fbytes s) proot = 0"
      by (auto simp: list_at_def recs_def)
    from root_in_map(1) [OF l(1-3)] l(4) have "rd proot s = (Ok 0, s)" by (simp add: act_simps)
    then have "nvlist_sclear_from proot s = Some (Ok (), s)"
      by (simp add: nvlist_sclear_from.simps [of proot s])
    with Nil show ?case by (intro exI [of _ s] exI [of _ B]) simp
  next
    case (Cons x xs)
    obtain a d where x: "x = (a, d)" by (cases x)
    have l: "nv_holds s B" "locks s \<noteq> []" "root_ok B proot (x # xs)"
        "rl (fbytes s) proot = fst (last (x # xs))"
      using Cons.prems by (auto simp: list_at_def recs_def)
    have "(fst (last (x # xs)), snd (last (x # xs))) \<in> set (x # xs)"
      using last_in_set [of "x # xs"] by simp
    from list_apart(1) [OF Cons.prems this] l(4) have nz: "rl (fbytes s) proot \<noteq> 0" by simp
    have rd: "rd proot s = (Ok (rl (fbytes s) proot), s)"
      using root_in_map(1) [OF l(1-3)] by (simp add: act_simps)
    obtain s1 c where s1: "nvlist_sremove proot s = (Ok (), s1)" "(a, c) \<in> B"
      "list_at s1 proot (B - {(a, c)}) xs" "locks s1 = locks s"
      using sremove_ok Cons.prems x by blast
    obtain s' B' where s': "nvlist_sclear_from proot s1 = Some (Ok (), s')" "list_at s' proot B' []"
      "B' \<subseteq> B - {(a, c)}" "fst ` (B - {(a, c)}) - fst ` B' \<subseteq> fst ` set xs" "locks s' = locks s1"
      using Cons.IH [OF s1(3)] by blast
    have "nvlist_sclear_from proot s = Some (Ok (), s')"
      using rd nz s1(1) s'(1) by (subst nvlist_sclear_from.simps) simp
    moreover have "fst ` B - fst ` B' \<subseteq> fst ` set (x # xs)" using s'(4) x by force
    ultimately show ?case using s' s1(4) by (intro exI [of _ s'] exI [of _ B']) auto
  qed
  then show ?thesis by (auto simp: nvlist_sclear_def)
qed

section \<open>NVList as a sequence of byte strings\<close>

lemma holds_lock:
  assumes "nv_holds s B" and "length (locks s) + 3 \<le> LOCKSTACKSIZE" and "c \<noteq> UnLock"
  shows "\<exists>s'. lock c Block s = (Ok 0, s') \<and> nv_holds s' B \<and> same_db s s'
    \<and> locks s' = push_lock c (locks s)"
proof -
  have r: "ready s" and l: "length (locks s) < LOCKSTACKSIZE" using assms by (auto simp: nv_holds_def)
  obtain s' where s': "lock c Block s = (Ok 0, s')" "same_db s s'" "locks s' = push_lock c (locks s)" "ready s'"
    using lock_ok [OF r assms(3) l] by blast
  moreover have "nv_holds s' B"
    using assms(1,2) s' by (auto simp: nv_holds_def same_db_def push_lock_def)
  ultimately show ?thesis by blast
qed

lemma holds_unlock:
  assumes "nv_holds s B" and "locks s = push_lock c ls"
  shows "\<exists>s'. lock UnLock Block s = (Ok 0, s') \<and> nv_holds s' B \<and> same_db s s' \<and> locks s' = ls \<and> mem_p s' = Live"
proof -
  have r: "ready s" and l: "locks s \<noteq> []" using assms by (auto simp: nv_holds_def)
  obtain s' where s': "lock UnLock Block s = (Ok 0, s')" "same_db s s'" "locks s' = tl (locks s)" "ready s'"
    "mapped s'"
    using unlock_ok [OF r l] by blast
  moreover have "nv_holds s' B"
    using assms s' by (auto simp: nv_holds_def same_db_def push_lock_def)
  ultimately show ?thesis using assms(2) by (auto simp: mapped_def)
qed

definition list_db :: "nvc \<Rightarrow> string list \<Rightarrow> bool" where
  "list_db s ds \<longleftrightarrow> (\<exists>B xs. nv_holds s B \<and> recs (fbytes s) H_userdata xs \<and> in_blocks B xs \<and> ds = map snd xs)
     \<and> length (locks s) + 3 \<le> LOCKSTACKSIZE \<and> mem_p s = Live"

definition list_room :: "nvc \<Rightarrow> string \<Rightarrow> bool" where
  "list_room s d \<longleftrightarrow> nv_room s (length d + SZ_RECORD)"

text \<open>A list operation between \<open>lock\<close> and \<open>unlock\<close>.\<close>

lemma locked_list_op:
  assumes db: "list_db s ds"
    and op: "\<And>s1 B xs. list_at s1 H_userdata B xs \<Longrightarrow> ds = map snd xs \<Longrightarrow> fsize s1 = fsize s \<Longrightarrow>
      \<exists>s2 B' xs'. f s1 = (Ok (), s2) \<and> list_at s2 H_userdata B' xs' \<and> ds' = map snd xs' \<and> locks s2 = locks s1"
  shows "\<exists>s'. bnd (lock ExclLock Block) (\<lambda>_. bnd f (\<lambda>_. bnd (lock UnLock Block) (\<lambda>_. ret ()))) s = (Ok (), s')
    \<and> list_db s' ds' \<and> locks s' = locks s"
proof -
  obtain B xs where b: "nv_holds s B" "recs (fbytes s) H_userdata xs" "in_blocks B xs" "ds = map snd xs"
    "length (locks s) + 3 \<le> LOCKSTACKSIZE"
    using db by (auto simp: list_db_def)
  obtain s1 where s1: "lock ExclLock Block s = (Ok 0, s1)" "nv_holds s1 B" "same_db s s1"
    "locks s1 = push_lock ExclLock (locks s)"
    using holds_lock [OF b(1,5)] by blast
  have "list_at s1 H_userdata B xs"
    using s1 b by (simp add: list_at_def root_ok_def same_db_def)
  from op [OF this b(4)] s1(3) obtain s2 B' xs' where
    s2: "f s1 = (Ok (), s2)" "list_at s2 H_userdata B' xs'" "ds' = map snd xs'" "locks s2 = locks s1"
    by (auto simp: same_db_def)
  have h2: "nv_holds s2 B'" using s2(2) by (simp add: list_at_def)
  obtain s3 where s3: "lock UnLock Block s2 = (Ok 0, s3)" "nv_holds s3 B'" "same_db s2 s3" "locks s3 = locks s"
    "mem_p s3 = Live"
    using holds_unlock [OF h2] s2(4) s1(4) by metis
  have "list_db s3 ds'"
    using s2(2,3) s3 b(5) by (auto simp: list_db_def list_at_def same_db_def)
  then show ?thesis using s1(1) s2(1) s3(1,4) by (simp add: act_simps)
qed

lemma list_db_getdata:
  assumes "list_db s ds"
  shows "\<exists>d. getdata s = (Ok d, s) \<and> (d = 0 \<longleftrightarrow> ds = [])"
proof -
  obtain B xs where b: "nv_holds s B" "recs (fbytes s) H_userdata xs" "in_blocks B xs" "ds = map snd xs"
    using assms by (auto simp: list_db_def)
  have "mappable s" "mem_p s = Live" using assms by (auto simp: list_db_def nv_holds_def ready_def)
  then have "getdata s = (Ok (rl (fbytes s) 40), s)"
    by (auto simp: getdata_def act_simps in_map_def mappable_def)
  moreover have "rl (fbytes s) 40 = 0 \<longleftrightarrow> xs = []"
  proof (cases xs rule: rev_cases)
    case Nil
    then show ?thesis using b(2) by (simp add: recs_def)
  next
    case (snoc ys y)
    then obtain c where "(fst y, c) \<in> B" using b(3) by (auto simp: in_blocks_def)
    from holds_block(1) [OF b(1) this] show ?thesis using b(2) snoc by (simp add: recs_def)
  qed
  ultimately show ?thesis using b(4) by auto
qed

locale stored_sequence =
  fixes append :: "string \<Rightarrow> ('s, unit) act"
    and prepend :: "string \<Rightarrow> ('s, unit) act"
    and remove :: "('s, unit) act"
    and clear :: "('s, unit) act"
    and seq :: "'s \<Rightarrow> string list \<Rightarrow> bool"
    and room :: "'s \<Rightarrow> string \<Rightarrow> bool"
  assumes append_law: "seq s ds \<Longrightarrow> room s d \<Longrightarrow> \<exists>s'. append d s = (Ok (), s') \<and> seq s' (ds @ [d])"
    and prepend_law: "seq s ds \<Longrightarrow> room s d \<Longrightarrow> \<exists>s'. prepend d s = (Ok (), s') \<and> seq s' (d # ds)"
    and remove_law: "seq s ds \<Longrightarrow> \<exists>s'. remove s = (Ok (), s') \<and> seq s' (tl ds)"
    and clear_law: "seq s ds \<Longrightarrow> \<exists>s'. clear s = (Ok (), s') \<and> seq s' []"
begin

text \<open>A queue: what was appended first comes off first.\<close>

lemma append_remove:
  assumes "seq s (x # ds)" and "room s d"
  shows "\<exists>s'. bnd (append d) (\<lambda>_. remove) s = (Ok (), s') \<and> seq s' (ds @ [d])"
proof -
  obtain s1 where s1: "append d s = (Ok (), s1)" "seq s1 ((x # ds) @ [d])"
    using append_law [OF assms] by blast
  with remove_law [OF s1(2)] show ?thesis by (auto simp: act_simps)
qed

text \<open>A stack: what was prepended last comes off first.\<close>

lemma prepend_remove:
  assumes "seq s ds" and "room s d"
  shows "\<exists>s'. bnd (prepend d) (\<lambda>_. remove) s = (Ok (), s') \<and> seq s' ds"
proof -
  obtain s1 where s1: "prepend d s = (Ok (), s1)" "seq s1 (d # ds)"
    using prepend_law [OF assms] by blast
  with remove_law [OF s1(2)] show ?thesis by (auto simp: act_simps)
qed

end

interpretation nvl: stored_sequence nvList_append nvList_prepend nvList_remove nvList_clear list_db list_room
proof
  fix s ds d assume db: "list_db s ds" and rm: "list_room s d"
  have room: "nv_room s1 (length d + 16)" if "fsize s1 = fsize s" for s1
    using rm that by (simp add: list_room_def nv_room_def)
  have "\<exists>s'. nvList_append d s = (Ok (), s') \<and> list_db s' (ds @ [d]) \<and> locks s' = locks s"
    unfolding nvList_append_def getdatap_def
  proof (rule locked_list_op [OF db])
    fix s1 B xs assume "list_at s1 40 B xs" "ds = map snd xs" "fsize s1 = fsize s"
    with sappend_ok [OF this(1) room [OF this(3)]]
    show "\<exists>s2 B' xs'. nvlist_sappend 40 d s1 = (Ok (), s2) \<and> list_at s2 40 B' xs'
        \<and> ds @ [d] = map snd xs' \<and> locks s2 = locks s1" by fastforce
  qed
  then show "\<exists>s'. nvList_append d s = (Ok (), s') \<and> list_db s' (ds @ [d])" by blast
  have "\<exists>s'. nvList_prepend d s = (Ok (), s') \<and> list_db s' (d # ds) \<and> locks s' = locks s"
    unfolding nvList_prepend_def getdatap_def
  proof (rule locked_list_op [OF db])
    fix s1 B xs assume "list_at s1 40 B xs" "ds = map snd xs" "fsize s1 = fsize s"
    with sprepend_ok [OF this(1) room [OF this(3)]]
    show "\<exists>s2 B' xs'. nvlist_sprepend 40 d s1 = (Ok (), s2) \<and> list_at s2 40 B' xs'
        \<and> d # ds = map snd xs' \<and> locks s2 = locks s1" by fastforce
  qed
  then show "\<exists>s'. nvList_prepend d s = (Ok (), s') \<and> list_db s' (d # ds)" by blast
next
  fix s ds assume db: "list_db s ds"
  have "\<exists>s'. nvList_clear s = (Ok (), s') \<and> list_db s' [] \<and> locks s' = locks s"
    unfolding nvList_clear_def getdatap_def
  proof (rule locked_list_op [OF db])
    fix s1 B xs assume "list_at s1 40 B xs" "ds = map snd xs" "fsize s1 = fsize s"
    with sclear_ok [OF this(1)]
    show "\<exists>s2 B' xs'. nvlist_sclear 40 s1 = (Ok (), s2) \<and> list_at s2 40 B' xs'
        \<and> [] = map snd xs' \<and> locks s2 = locks s1" by fastforce
  qed
  then show "\<exists>s'. nvList_clear s = (Ok (), s') \<and> list_db s' []" by blast
  obtain d where d: "getdata s = (Ok d, s)" "d = 0 \<longleftrightarrow> ds = []"
    using list_db_getdata [OF db] by blast
  show "\<exists>s'. nvList_remove s = (Ok (), s') \<and> list_db s' (tl ds)"
  proof (cases "ds = []")
    case True
    then show ?thesis using d db by (simp add: nvList_remove_def act_simps)
  next
    case False
    have "\<exists>s'. bnd (lock ExclLock Block) (\<lambda>_. bnd (nvlist_sremove 40) (\<lambda>_.
        bnd (lock UnLock Block) (\<lambda>_. ret ()))) s = (Ok (), s') \<and> list_db s' (tl ds) \<and> locks s' = locks s"
    proof (rule locked_list_op [OF db])
      fix s1 B xs assume a: "list_at s1 40 B xs" "ds = map snd xs" "fsize s1 = fsize s"
      then obtain x e ys where "xs = (x, e) # ys" using False by (cases xs) auto
      with sremove_ok [of s1 40 B x e ys] a
      show "\<exists>s2 B' xs'. nvlist_sremove 40 s1 = (Ok (), s2) \<and> list_at s2 40 B' xs'
          \<and> tl ds = map snd xs' \<and> locks s2 = locks s1" by fastforce
    qed
    then show ?thesis using d False by (auto simp: nvList_remove_def act_simps getdatap_def)
  qed
qed

end
