(* ===== verification/NV_Array.thy ===== *)
theory NV_Array
  imports NV_Store
begin

text \<open>
  NVClasses-0.9.1/NVArray.{h,cc}: an array of byte strings with bounds
  \<open>arrfst\<close>..\<open>arrlst\<close>. The user data word points to a block with the two bounds and one
  word per index, the offset of the element's block or 0.
\<close>

section \<open>The checked allocator\<close>

text \<open>The offset \<open>arrtab + (arrlst - arrfst)\<close> of the last entry of the table.\<close>

definition arr_end :: "nvc \<Rightarrow> nat" where
  "arr_end s = u64 (arrtab s + 8 * sub64 (arrlst s) (arrfst s))"

definition arr_nvalloc :: "nat \<Rightarrow> (nvc, nat) act" where
  "arr_nvalloc rsz =
     bnd (nvalloc rsz) (\<lambda>r.
     bnd (gets (\<lambda>s. arrtab s = 0 \<or> arr_end s \<le> r \<or> r + rsz \<le> arrtab s)) (\<lambda>ok.
     if ok then ret r else crash))"

definition arr_nvfree :: "nat \<Rightarrow> (nvc, unit) act" where
  "arr_nvfree p =
     bnd (gets (\<lambda>s. arrtab s = 0 \<or> arr_end s \<le> p)) (\<lambda>ok.
     if ok then nvfree p
     else bnd (rd (sub64 p 8)) (\<lambda>sz.
          bnd (gets (\<lambda>s. int p + i32 (int sz) \<le> int (arrtab s))) (\<lambda>ok2.
          if ok2 then nvfree p else crash)))"

section \<open>Operations under the lock\<close>

text \<open>The entry \<open>i\<close> of the table.\<close>

definition arr_entry :: "nat \<Rightarrow> (nvc, nat) act" where
  "arr_entry i = bnd (gets arrtab) (\<lambda>t. rdf t (8 * i))"

definition arr_set_entry :: "nat \<Rightarrow> nat \<Rightarrow> (nvc, unit) act" where
  "arr_set_entry i v = bnd (gets arrtab) (\<lambda>t. wrf t (8 * i) v)"

fun arr_free_entries :: "nat list \<Rightarrow> (nvc, unit) act" where
  "arr_free_entries [] = ret ()"
| "arr_free_entries (i # is) =
     bnd (arr_entry i) (\<lambda>x.
     bnd (if x \<noteq> 0 then arr_nvfree x else ret ()) (\<lambda>_. arr_free_entries is))"

definition arr_sclear :: "(nvc, unit) act" where
  "arr_sclear =
     bnd (gets (\<lambda>s. (arrfst s, arrlst s))) (\<lambda>(f, l).
     if l < f then ret () else arr_free_entries [0..<u64 (l - f + 1)])"

definition arr_sset :: "nat \<Rightarrow> string \<Rightarrow> (nvc, unit) act" where
  "arr_sset i data =
     bnd (arr_entry i) (\<lambda>old.
     bnd (if old \<noteq> 0 then arr_nvfree old else ret ()) (\<lambda>_.
     bnd (arr_nvalloc (u64 (length data + SZ_ULONG))) (\<lambda>x.
     bnd (arr_set_entry i x) (\<lambda>_.
     bnd (wr x (length data)) (\<lambda>_.
     memcpy_to (x + SZ_ULONG) data)))))"

definition arr_sdel :: "nat \<Rightarrow> (nvc, unit) act" where
  "arr_sdel i =
     bnd (arr_entry i) (\<lambda>x.
     if x \<noteq> 0 then bnd (arr_nvfree x) (\<lambda>_. arr_set_entry i 0) else ret ())"

fun arr_all_zero :: "nat list \<Rightarrow> (nvc, bool) act" where
  "arr_all_zero [] = ret True"
| "arr_all_zero (i # is) =
     bnd (arr_entry i) (\<lambda>x. if x \<noteq> 0 then ret False else arr_all_zero is)"

definition arr_sis_empty :: "(nvc, bool) act" where
  "arr_sis_empty =
     bnd (gets (\<lambda>s. (arrfst s, arrlst s))) (\<lambda>(f, l).
     if l < f then ret True else arr_all_zero [0..<u64 (l - f + 1)])"

text \<open>The offset is returned as an \<open>int\<close>.\<close>

definition arr_shas_element :: "nat \<Rightarrow> (nvc, int) act" where
  "arr_shas_element i =
     bnd (gets (\<lambda>s. (arrfst s, arrlst s))) (\<lambda>(f, l).
     if i < f \<or> l < i then ret 0
     else bnd (arr_entry (i - f)) (\<lambda>x. ret (i32 (int x))))"

text \<open>The data and its size; \<open>None\<close> is the null pointer.\<close>

definition arr_sget :: "nat \<Rightarrow> (nvc, (nat \<times> nat) option) act" where
  "arr_sget i =
     bnd (gets (\<lambda>s. (arrfst s, arrlst s))) (\<lambda>(f, l).
     if f \<le> i \<and> i \<le> l
     then bnd (arr_entry (i - f)) (\<lambda>x.
          if x \<noteq> 0 then bnd (rd x) (\<lambda>n. ret (Some (x + SZ_ULONG, n))) else ret None)
     else ret None)"

section \<open>The bounds\<close>

fun arr_copy_entries :: "nat \<Rightarrow> nat \<Rightarrow> nat list \<Rightarrow> (nvc, unit) act" where
  "arr_copy_entries ndata fst0 [] = ret ()"
| "arr_copy_entries ndata fst0 (i # is) =
     bnd (gets (\<lambda>s. (arrfst s, arrlst s))) (\<lambda>(f, l).
     bnd (if f \<le> l \<and> f \<le> u64 (i + fst0) \<and> u64 (i + fst0) \<le> l
          then arr_entry (u64 (i + fst0) - f) else ret 0) (\<lambda>x.
     bnd (wr (ndata + 8 * (2 + i)) x) (\<lambda>_. arr_copy_entries ndata fst0 is)))"

definition arr_ssetsize :: "nat \<Rightarrow> nat \<Rightarrow> (nvc, unit) act" where
  "arr_ssetsize fst0 lst =
     bnd (arr_nvalloc (u64 ((sub64 lst fst0 + 1 + 2) * SZ_ULONG))) (\<lambda>p.
     bnd getdata (\<lambda>q.
     bnd (wr p fst0) (\<lambda>_.
     bnd (wr (p + 8) lst) (\<lambda>_.
     bnd (arr_copy_entries p fst0 [0..<u64 (sub64 lst fst0 + 1)]) (\<lambda>_.
     bnd (upd (\<lambda>s. s\<lparr>arrfst := fst0, arrlst := lst\<rparr>)) (\<lambda>_.
     bnd (setdata p) (\<lambda>_.
     bnd (upd (\<lambda>s. s\<lparr>arrtab := p + 2 * 8\<rparr>)) (\<lambda>_.
     if q \<noteq> 0 then arr_nvfree q else ret ()))))))))"

text \<open>
  The entries that fall out of the bounds: freed when \<open>force\<close> is given (\<open>zero\<close>: the entry
  is also cleared), otherwise an entry in use is an error.
\<close>

fun arr_drop_entries :: "bool \<Rightarrow> bool \<Rightarrow> nat list \<Rightarrow> bool \<Rightarrow> (nvc, bool) act" where
  "arr_drop_entries force zero [] ok = ret ok"
| "arr_drop_entries force zero (i # is) ok =
     bnd (arr_entry i) (\<lambda>x.
     if x = 0 then arr_drop_entries force zero is ok
     else if force
     then bnd (arr_nvfree x) (\<lambda>_.
          bnd (if zero then arr_set_entry i 0 else ret ()) (\<lambda>_.
          arr_drop_entries force zero is ok))
     else arr_drop_entries force zero is False)"

definition arr_setsize :: "nat \<Rightarrow> nat \<Rightarrow> bool \<Rightarrow> (nvc, int) act" where
  "arr_setsize fst0 lst force =
     bnd (lock ExclLock Block) (\<lambda>_.
     bnd (gets (\<lambda>s. (arrfst s, arrlst s))) (\<lambda>(f, l).
     bnd (if f \<le> l \<and> f < fst0 then arr_drop_entries force False [0..<u64 (fst0 - f + 1)] True
          else ret True) (\<lambda>ok1.
     bnd (if f \<le> l \<and> lst < l
          then arr_drop_entries force True [u64 (sub64 lst f + 1)..<u64 (l - f + 1)] ok1
          else ret ok1) (\<lambda>ok.
     bnd (if ok then arr_ssetsize fst0 lst else ret ()) (\<lambda>_.
     bnd (lock UnLock Block) (\<lambda>_.
     ret (if ok then 0 else - 1)))))))"

definition arr_getsize :: "nvc \<Rightarrow> nat \<times> nat" where
  "arr_getsize s = (arrfst s, arrlst s)"

definition arr_clear :: "(nvc, unit) act" where
  "arr_clear = bnd (lock ExclLock Block) (\<lambda>_. bnd arr_sclear (\<lambda>_.
     bnd (lock UnLock Block) (\<lambda>_. ret ())))"

definition arr_set :: "nat \<Rightarrow> string \<Rightarrow> (nvc, unit) act" where
  "arr_set i data = bnd (lock ExclLock Block) (\<lambda>_. bnd (arr_sset i data) (\<lambda>_.
     bnd (lock UnLock Block) (\<lambda>_. ret ())))"

definition arr_del :: "nat \<Rightarrow> (nvc, unit) act" where
  "arr_del i = bnd (lock ExclLock Block) (\<lambda>_. bnd (arr_sdel i) (\<lambda>_.
     bnd (lock UnLock Block) (\<lambda>_. ret ())))"

definition arr_is_empty :: "(nvc, bool) act" where
  "arr_is_empty = bnd (lock ShrdLock Block) (\<lambda>_. bnd arr_sis_empty (\<lambda>r.
     bnd (lock UnLock Block) (\<lambda>_. ret r)))"

definition arr_has_element :: "nat \<Rightarrow> (nvc, int) act" where
  "arr_has_element i = bnd (lock ShrdLock Block) (\<lambda>_. bnd (arr_shas_element i) (\<lambda>r.
     bnd (lock UnLock Block) (\<lambda>_. ret r)))"

definition arr_get :: "nat \<Rightarrow> (nvc, (nat \<times> nat) option) act" where
  "arr_get i = bnd (lock ShrdLock Block) (\<lambda>_. bnd (arr_sget i) (\<lambda>r.
     bnd (lock UnLock Block) (\<lambda>_. ret r)))"

end
