(* ===== verification/Group_Match.thy ===== *)
theory Group_Match
  imports NC_Prelude
begin

text \<open>
  NServer-0.9.1/util.cc (\<open>mkpdir\<close>, \<open>group2dir\<close>, \<open>matchgroup\<close>), NewsgroupFilter.h and the
  shell-style matcher wildmat.c: which newsgroups a list of rules accepts. Strings
  are C strings without the terminating zero.
\<close>

section \<open>util.cc\<close>

subsection \<open>Creating a directory and its parents\<close>

datatype fkind = FDir | FFile

record fsys =
  files :: "(string \<times> fkind) list"
  no_entry :: "string \<Rightarrow> bool"     \<comment> \<open>a failing \<open>stat\<close> sets \<open>errno\<close> to \<open>ENOENT\<close>\<close>
  mkdir_ok :: "string \<Rightarrow> bool"

definition fs_stat :: "fsys \<Rightarrow> string \<Rightarrow> fkind option" where
  "fs_stat fs f = map_of (files fs) f"

lemma mkpdir_shorter:
  assumes "q \<noteq> []"
  shows "length (dropWhile (\<lambda>c. c = CHR ''/'') (dropWhile (\<lambda>c. c \<noteq> CHR ''/'') q)) < length q"
proof (cases "dropWhile (\<lambda>c. c \<noteq> CHR ''/'') q")
  case Nil
  then show ?thesis using assms by (simp only: Nil) simp
next
  case (Cons c p)
  then have "c = CHR ''/''" using hd_dropWhile [of "\<lambda>c. c \<noteq> CHR ''/''" q] by simp
  moreover have "length (c # p) \<le> length q"
    using length_dropWhile_le [of "\<lambda>c. c \<noteq> CHR ''/''" q] by (simp only: Cons)
  moreover have "length (dropWhile (\<lambda>c. c = CHR ''/'') p) \<le> length p" by (rule length_dropWhile_le)
  ultimately show ?thesis using Cons by simp
qed

text \<open>
  \<open>st\<close> is the variable \<open>s\<close>: \<open>None\<close> while no \<open>stat\<close> has succeeded. The loop takes one
  path component per turn; \<open>buf\<close> is the path so far.
\<close>

function mkpdir_loop :: "string \<Rightarrow> string \<Rightarrow> fkind option \<Rightarrow> (fsys, int \<times> fkind option) act" where
  "mkpdir_loop buf q st fs =
     (if q = [] then (Ok (0, st), fs)
      else
        let buf1 = buf @ takeWhile (\<lambda>c. c \<noteq> CHR ''/'') q;
            q1 = dropWhile (\<lambda>c. c \<noteq> CHR ''/'') q;
            buf2 = buf1 @ takeWhile (\<lambda>c. c = CHR ''/'') q1;
            q2 = dropWhile (\<lambda>c. c = CHR ''/'') q1
        in case fs_stat fs buf1 of
             None \<Rightarrow>
               if \<not> no_entry fs buf1 then (Ok (- 1, st), fs)
               else if \<not> mkdir_ok fs buf1 then (Ok (- 1, st), fs)
               else mkpdir_loop buf2 q2 st (fs\<lparr>files := (buf1, FDir) # files fs\<rparr>)
           | Some FDir \<Rightarrow> mkpdir_loop buf2 q2 (Some FDir) fs
           | Some FFile \<Rightarrow> (Ok (- 1, Some FFile), fs))"
  by pat_completeness auto

termination
  by (relation "measure (\<lambda>(buf, q, st, fs). length q)") (use mkpdir_shorter in auto)

declare mkpdir_loop.simps [simp del]

definition mkpdir :: "string \<Rightarrow> (fsys, int) act" where
  "mkpdir dirname fs =
     (case fs_stat fs dirname of
        Some FDir \<Rightarrow> (Ok 0, fs)
      | Some FFile \<Rightarrow> (Ok (- 1), fs)
      | None \<Rightarrow>
          if \<not> no_entry fs dirname then (Ok (- 1), fs)
          else
            let buf = (if deref dirname = CHR ''/'' then ''/'' else []);
                q = (if deref dirname = CHR ''/'' then tl dirname else dirname)
            in case mkpdir_loop buf q None fs of
                 (Ok (r, st), fs') \<Rightarrow>
                   if r \<noteq> 0 then (Ok r, fs')
                   else (case st of
                           None \<Rightarrow> (Crash, fs')
                         | Some FDir \<Rightarrow> (Ok 0, fs')
                         | Some FFile \<Rightarrow> (Ok (- 1), fs'))
               | (Throw e, fs') \<Rightarrow> (Throw e, fs')
               | (Crash, fs') \<Rightarrow> (Crash, fs')
               | (Diverge, fs') \<Rightarrow> (Diverge, fs'))"

subsection \<open>Group names\<close>

fun group2dir :: "string \<Rightarrow> string" where
  "group2dir [] = []"
| "group2dir (c # q) = (if c \<noteq> CHR ''.'' then c else CHR ''/'') # group2dir q"

text \<open>The run of equal characters of the pattern and the group: its length, the rest of the pattern.\<close>

fun run_length :: "string \<Rightarrow> string \<Rightarrow> nat \<Rightarrow> nat \<times> string" where
  "run_length (c # p) (d # g) n = (if c = d then run_length p g (Suc n) else (n, c # p))"
| "run_length p g n = (n, p)"

lemma run_length_rest: "length (snd (run_length p g n)) \<le> length p"
  by (induction p g n rule: run_length.induct) auto

definition ends_here :: "char \<Rightarrow> bool" where
  "ends_here c \<longleftrightarrow> c = NUL \<or> isspace c"

text \<open>One turn of the \<open>do\<close> loop of \<open>matchgroup\<close> up to the \<open>switch\<close>: \<open>clen\<close>, \<open>rejrule\<close>, the rest.\<close>

definition mg_rule :: "string \<Rightarrow> string \<Rightarrow> int \<times> bool \<times> string" where
  "mg_rule pattern grp =
     (let rejrule = (deref pattern = CHR ''!'');
          p = (if rejrule then tl pattern else pattern);
          (n, p1) = run_length p grp 0;
          c = deref p1;
          clen = (if c = CHR '','' \<or> c = NUL
                  then (if \<not> ends_here (chr_at grp n) then - 1 else int n + 1)
                  else if c = CHR ''*'' then int n + 1
                  else - 1)
      in (clen, rejrule, dropWhile (\<lambda>c. c \<noteq> CHR '','') p1))"

lemma mg_rule_shorter: "length (snd (snd (mg_rule p g))) \<le> length p"
proof -
  let ?p = "if deref p = CHR ''!'' then tl p else p"
  have "length ?p \<le> length p" by (cases p) auto
  moreover obtain n p1 where r: "run_length ?p g 0 = (n, p1)" by fastforce
  moreover have "length p1 \<le> length ?p" using run_length_rest [of ?p g 0] r by simp
  moreover have "length (dropWhile (\<lambda>c. c \<noteq> CHR '','') p1) \<le> length p1"
    by (rule length_dropWhile_le)
  ultimately show ?thesis by (simp add: mg_rule_def Let_def)
qed

function mg_loop :: "string \<Rightarrow> string \<Rightarrow> int \<Rightarrow> bool \<Rightarrow> int \<times> bool" where
  "mg_loop pattern grp bmlen bmrej =
     (let (clen, rejrule, rest) = mg_rule pattern grp;
          bmlen' = (if bmlen < clen then clen else bmlen);
          bmrej' = (if bmlen < clen then rejrule else bmrej)
      in if rest = [] then (bmlen', bmrej') else mg_loop (tl rest) grp bmlen' bmrej')"
  by pat_completeness auto
termination
proof (relation "measure (\<lambda>(p, g, b, r). length p)", goal_cases)
  case (2 pattern grp bmlen bmrej x clen y rejrule rest bmlen' bmrej')
  then have "length rest \<le> length pattern" using mg_rule_shorter [of pattern grp] by (metis snd_eqD)
  with 2 show ?case by (cases rest) auto
qed simp

declare mg_loop.simps [simp del]

definition matchgroup :: "string \<Rightarrow> string \<Rightarrow> int" where
  "matchgroup pattern grp =
     (let (bmlen, bmrej) = mg_loop pattern grp 0 False in if bmrej then - bmlen else bmlen)"

section \<open>NewsgroupFilter.h\<close>

record nfilter =
  rulelist :: string
  Wildmat :: string
  WildmatSearch :: bool

definition filter_new :: "string \<Rightarrow> nfilter" where
  "filter_new rules = \<lparr>rulelist = rules, Wildmat = [], WildmatSearch = False\<rparr>"

text \<open>The copy constructor forgets the wildmat pattern, the assignment takes it over.\<close>

definition filter_copy :: "nfilter \<Rightarrow> nfilter" where
  "filter_copy f = filter_new (rulelist f)"

definition filter_assign :: "nfilter \<Rightarrow> nfilter \<Rightarrow> nfilter" where
  "filter_assign self f =
     (if WildmatSearch f
      then \<lparr>rulelist = rulelist f, Wildmat = Wildmat f, WildmatSearch = True\<rparr>
      else self\<lparr>rulelist := rulelist f, WildmatSearch := False\<rparr>)"

definition filter_assign_str :: "nfilter \<Rightarrow> string \<Rightarrow> nfilter" where
  "filter_assign_str self rules = self\<lparr>rulelist := rules\<rparr>"

definition filter_eq_str :: "nfilter \<Rightarrow> string \<Rightarrow> bool" where
  "filter_eq_str self rules \<longleftrightarrow> rulelist self = rules"

definition setWildmat :: "nfilter \<Rightarrow> string \<Rightarrow> nfilter" where
  "setWildmat self w = self\<lparr>Wildmat := w, WildmatSearch := True\<rparr>"

text \<open>The rules \<open>RuleIterator\<close> runs through; the last may be empty.\<close>

function rule_iter :: "string \<Rightarrow> string list" where
  "rule_iter p =
     (let r = takeWhile (\<lambda>c. c \<noteq> CHR '','') p;
          rest = dropWhile (\<lambda>c. c \<noteq> CHR '','') p
      in if rest = [] then [r] else r # rule_iter (tl rest))"
  by pat_completeness auto
termination
proof (relation "measure length", goal_cases)
  case (2 p x rest)
  then show ?case using tl_dropWhile_shorter [of "\<lambda>c. c \<noteq> CHR '',''" p]
    unfolding in_measure by blast
qed simp

declare rule_iter.simps [simp del]

definition MAXNEWSGROUPNAMELEN :: nat where "MAXNEWSGROUPNAMELEN = 512"

text \<open>Every rule fits the buffer of the iterator, the terminating zero included.\<close>

definition rules_fit :: "string \<Rightarrow> bool" where
  "rules_fit p \<longleftrightarrow> (\<forall>r \<in> set (rule_iter p). length r < 1 + MAXNEWSGROUPNAMELEN)"

text \<open>
  \<open>add_rule_to_rulelist\<close>: the comparison does not stop at a zero that both strings
  have; \<open>None\<close> is the read behind their ends.
\<close>

fun run_equal :: "string \<Rightarrow> string \<Rightarrow> (string \<times> string) option" where
  "run_equal [] [] = None"
| "run_equal (c # p) (d # q) = (if c = d then run_equal p q else Some (c # p, d # q))"
| "run_equal p q = Some (p, q)"

lemma run_equal_shorter: "run_equal p q = Some (p1, q1) \<Longrightarrow> length p1 \<le> length p"
  by (induction p q rule: run_equal.induct) (auto split: if_splits)

definition skip_rule :: "string \<Rightarrow> string" where
  "skip_rule p = tl (dropWhile (\<lambda>c. c \<noteq> CHR '','') p)"

lemma skip_rule_shorter: "skip_rule p = [] \<or> length (skip_rule p) < length p"
  using tl_dropWhile_shorter [of "\<lambda>c. c \<noteq> CHR '',''" p]
  unfolding skip_rule_def by (metis list.sel(2))

function rule_contained :: "string \<Rightarrow> string \<Rightarrow> bool option" where
  "rule_contained p rule =
     (case run_equal p rule of
        None \<Rightarrow> None
      | Some (p1, q1) \<Rightarrow>
          if q1 = [] \<and> (p1 = [] \<or> hd p1 = CHR '','') then Some True
          else if skip_rule p1 = [] then Some False
          else rule_contained (skip_rule p1) rule)"
  by pat_completeness auto
termination
proof (relation "measure (\<lambda>(p, r). length p)", goal_cases)
  case (2 p rule x p1 q1)
  then have "length p1 \<le> length p" by (auto dest: run_equal_shorter)
  with 2 skip_rule_shorter [of p1] show ?case by auto
qed simp

declare rule_contained.simps [simp del]

definition add_rule_to_rulelist :: "string \<Rightarrow> string \<Rightarrow> string option" where
  "add_rule_to_rulelist rules rule =
     (case rule_contained rules rule of
        None \<Rightarrow> None
      | Some True \<Rightarrow> Some rules
      | Some False \<Rightarrow> Some (rules @ rule @ '',''))"

text \<open>The loop over the rules of a filter; \<open>keep\<close> decides which of them are added.\<close>

fun add_rules :: "(string \<Rightarrow> bool option) \<Rightarrow> string list \<Rightarrow> string \<Rightarrow> string option" where
  "add_rules keep [] acc = Some acc"
| "add_rules keep (r # rs) acc =
     (case keep r of
        None \<Rightarrow> None
      | Some False \<Rightarrow> add_rules keep rs acc
      | Some True \<Rightarrow>
          (case add_rule_to_rulelist acc r of
             None \<Rightarrow> None
           | Some acc' \<Rightarrow> add_rules keep rs acc'))"

section \<open>wildmat.c\<close>

datatype wm = WTrue | WFalse | WAbort | WWild   \<comment> \<open>\<open>WWild\<close>: the pattern pointer ran past its end\<close>

text \<open>\<open>char\<close> is signed.\<close>

definition schar :: "char \<Rightarrow> int" where
  "schar c = (let n = (of_char c :: int) in if n < 128 then n else n - 256)"

text \<open>
  The members of a character class against the character \<open>t\<close>; \<open>prev\<close> is the character
  before \<open>p\<close>. The rest of the pattern begins with the closing bracket, or is empty.
\<close>

fun wm_class :: "char \<Rightarrow> char \<Rightarrow> string \<Rightarrow> bool \<Rightarrow> (bool \<times> string) option" where
  "wm_class t prev [] m = Some (m, [])"
| "wm_class t prev (c # p) m =
     (if c = CHR '']'' then Some (m, c # p)
      else if c = CHR ''-'' \<and> deref p \<noteq> CHR '']''
      then (case p of
              [] \<Rightarrow> None
            | d # p' \<Rightarrow> wm_class t d p' (m \<or> schar t \<le> schar d \<and> schar prev \<le> schar t))
      else wm_class t c p (m \<or> t = c))"

text \<open>
  The class that starts after \<open>[\<close>: whether \<open>t\<close> is accepted, and the pattern behind the
  closing bracket. Without one the loop of \<open>DoMatch\<close> steps over the terminating zero.
\<close>

definition wm_bracket :: "char \<Rightarrow> string \<Rightarrow> (bool \<times> string) option" where
  "wm_bracket t p =
     (let reverse = (deref p = CHR ''^'');
          q = (if reverse then tl p else p);
          here = (if reverse then CHR ''^'' else CHR ''['');
          special = (deref q = CHR '']'' \<or> deref q = CHR ''-'');
          matched = (special \<and> deref q = t);
          prev = (if special then deref q else here);
          q' = (if special then tl q else q)
      in case wm_class t prev q' matched of
           None \<Rightarrow> None
         | Some (m, rest) \<Rightarrow> Some (m \<noteq> reverse, rest))"

lemma wm_class_shorter: "wm_class t l p m = Some (b, r) \<Longrightarrow> length r \<le> length p"
proof (induction t l p m rule: wm_class.induct)
  case (2 t l c p m)
  show ?case
  proof (cases "c = CHR '']'' \<or> \<not> (c = CHR ''-'' \<and> deref p \<noteq> CHR '']'')")
    case True
    with 2 show ?thesis by (auto simp del: One_nat_def split: if_splits)
  next
    case False
    with 2 show ?thesis by (cases p) fastforce+
  qed
qed simp

lemma wm_bracket_shorter: "wm_bracket t p = Some (b, r) \<Longrightarrow> length r \<le> length p"
proof -
  assume w: "wm_bracket t p = Some (b, r)"
  let ?q = "if deref p = CHR ''^'' then tl p else p"
  let ?s = "deref ?q = CHR '']'' \<or> deref ?q = CHR ''-''"
  let ?q' = "if ?s then tl ?q else ?q"
  have "\<exists>l m m'. wm_class t l ?q' m = Some (m', r)"
    using w by (fastforce simp: wm_bracket_def Let_def split: option.splits)
  then have "length r \<le> length ?q'" using wm_class_shorter by blast
  also have "length ?q' \<le> length p" by simp
  finally show ?thesis .
qed

function (sequential) DoMatch :: "string \<Rightarrow> string \<Rightarrow> wm"
    and match_star :: "string \<Rightarrow> string \<Rightarrow> wm" where
  "DoMatch tx [] = (if tx = [] then WTrue else WFalse)"
| "DoMatch tx (c # p) =
     (if c = CHR ''*'' then
        (let p' = dropWhile (\<lambda>c. c = CHR ''*'') p
         in if p' = [] then WTrue else match_star tx p')
      else case tx of
        [] \<Rightarrow> WAbort
      | t # ts \<Rightarrow>
          if c = CHR 0x5C then
            (case p of
               [] \<Rightarrow> WFalse
             | d # p' \<Rightarrow> if t \<noteq> d then WFalse else DoMatch ts p')
          else if c = CHR ''?'' then DoMatch ts p
          else if c = CHR ''['' then
            (case wm_bracket t p of
               None \<Rightarrow> WWild
             | Some (ok, rest) \<Rightarrow>
                 if \<not> ok then WFalse
                 else case rest of [] \<Rightarrow> WWild | b # p' \<Rightarrow> DoMatch ts p')
          else if t \<noteq> c then WFalse
          else DoMatch ts p)"
| "match_star [] p = WAbort"
| "match_star (t # ts) p =
     (case DoMatch (t # ts) p of WFalse \<Rightarrow> match_star ts p | r \<Rightarrow> r)"
  by pat_completeness auto
termination
proof (relation "measures [\<lambda>x. case x of Inl (t, p) \<Rightarrow> length p | Inr (t, p) \<Rightarrow> length p,
    \<lambda>x. case x of Inl (t, p) \<Rightarrow> 0 | Inr (t, p) \<Rightarrow> length t + 1]", goal_cases)
  case (2 tx c p p')
  have "length p' \<le> length p" using length_dropWhile_le 2 by metis
  then show ?case by simp
qed (auto dest!: wm_bracket_shorter)

definition wildmat :: "string \<Rightarrow> string \<Rightarrow> bool option" where
  "wildmat tx p =
     (case DoMatch tx p of WWild \<Rightarrow> None | r \<Rightarrow> Some (r = WTrue))"

section \<open>NewsgroupFilter.h: matching and combining filters\<close>

text \<open>\<open>matches\<close> has its own copy of the loop of \<open>matchgroup\<close>.\<close>

definition matches :: "nfilter \<Rightarrow> string \<Rightarrow> int option" where
  "matches f newsgroup =
     (let (bmlen, bmrej) = mg_loop (rulelist f) newsgroup 0 False
      in if bmrej then Some (- bmlen)
         else if \<not> WildmatSearch f then Some bmlen
         else (case wildmat newsgroup (Wildmat f) of
                 None \<Rightarrow> None
               | Some b \<Rightarrow> Some (if b then 1 else 0)))"

text \<open>Whether a filter accepts (\<open>matches(...) > 0\<close>) a group.\<close>

definition accepts :: "nfilter \<Rightarrow> string \<Rightarrow> bool option" where
  "accepts f g = map_option (\<lambda>n. 0 < n) (matches f g)"

definition is_reject :: "string \<Rightarrow> bool" where
  "is_reject r \<longleftrightarrow> deref r = CHR ''!''"

definition or_keep_self :: "nfilter \<Rightarrow> string \<Rightarrow> bool option" where
  "or_keep_self filter2 grp =
     (if \<not> is_reject grp then Some True else map_option Not (accepts filter2 (tl grp)))"

definition or_keep_other :: "nfilter \<Rightarrow> string \<Rightarrow> bool option" where
  "or_keep_other self grp =
     map_option Not (accepts self (if is_reject grp then tl grp else grp))"

definition and_keep_self :: "nfilter \<Rightarrow> string \<Rightarrow> bool option" where
  "and_keep_self filter2 grp = (if is_reject grp then Some True else accepts filter2 grp)"

definition and_keep_other :: "nfilter \<Rightarrow> string \<Rightarrow> bool option" where
  "and_keep_other self grp = accepts self (if is_reject grp then tl grp else grp)"

definition combine :: "(string \<Rightarrow> bool option) \<Rightarrow> (string \<Rightarrow> bool option) \<Rightarrow> nfilter \<Rightarrow> nfilter \<Rightarrow> nfilter option" where
  "combine keep1 keep2 self filter2 =
     (if \<not> rules_fit (rulelist self) then None
      else case add_rules keep1 (rule_iter (rulelist self)) [] of
        None \<Rightarrow> None
      | Some l1 \<Rightarrow>
          if \<not> rules_fit (rulelist filter2) then None
          else case add_rules keep2 (rule_iter (rulelist filter2)) l1 of
            None \<Rightarrow> None
          | Some l2 \<Rightarrow> Some (self\<lparr>rulelist := butlast l2\<rparr>))"

definition filter_or :: "nfilter \<Rightarrow> nfilter \<Rightarrow> nfilter option" where
  "filter_or self filter2 = combine (or_keep_self filter2) (or_keep_other self) self filter2"

definition filter_and :: "nfilter \<Rightarrow> nfilter \<Rightarrow> nfilter option" where
  "filter_and self filter2 = combine (and_keep_self filter2) (and_keep_other self) self filter2"

definition getRulelist :: "nfilter \<Rightarrow> string" where
  "getRulelist f = rulelist f"

end
