(* ===== verification/Match_Ok.thy ===== *)
theory Match_Ok
  imports Group_Match "HOL-Library.Sublist"
begin

text \<open>
  What the rule lists of util.cc and NewsgroupFilter.h mean: the best of the matching
  rules decides; a list built by \<open>add_rule_to_rulelist\<close> holds every rule once.
\<close>

section \<open>The best rule decides\<close>

text \<open>
  How well a rule matches a group: 0, if it does not; otherwise the number of matching
  characters plus one. A star matches any rest.
\<close>

definition rule_body :: "string \<Rightarrow> string" where
  "rule_body r = (if is_reject r then tl r else r)"

definition rule_score :: "string \<Rightarrow> string \<Rightarrow> nat" where
  "rule_score r g =
     (let b = rule_body r; pre = takeWhile (\<lambda>c. c \<noteq> CHR ''*'') b
      in if pre = b
         then (if prefix b g \<and> ends_here (chr_at g (length b)) then length b + 1 else 0)
         else (if prefix pre g then length pre + 1 else 0))"

definition best_match :: "string list \<Rightarrow> string \<Rightarrow> int" where
  "best_match rs g =
     (let m = Max (insert 0 ((\<lambda>r. rule_score r g) ` set rs))
      in case find (\<lambda>r. rule_score r g = m) rs of
           None \<Rightarrow> 0
         | Some r \<Rightarrow> if is_reject r then - int m else int m)"

text \<open>A group name: no rule syntax in it.\<close>

definition plain_name :: "string \<Rightarrow> bool" where
  "plain_name g \<longleftrightarrow> CHR '','' \<notin> set g \<and> CHR ''*'' \<notin> set g"

lemma run_length_append:
  assumes "CHR '','' \<notin> set g" and "CHR '','' \<notin> set b" and "rest = [] \<or> hd rest = CHR '',''"
  shows "run_length (b @ rest) g m = (fst (run_length b g m), snd (run_length b g m) @ rest)"
  using assms
proof (induction b g m rule: run_length.induct, goal_cases)
  case (1 c p d g n)
  then show ?case by auto
next
  case (2 g n)
  then show ?case by (cases rest; cases g) auto
next
  case (3 p n)
  then show ?case by (cases "p @ rest") auto
qed

lemma run_length_prefix:
  "\<exists>pre. b = pre @ snd (run_length b g m) \<and> fst (run_length b g m) = m + length pre \<and> prefix pre g
     \<and> (snd (run_length b g m) = [] \<or> length g = length pre \<or> g ! length pre \<noteq> hd (snd (run_length b g m)))"
proof (induction b g m rule: run_length.induct)
  case (1 c p d g n)
  show ?case
  proof (cases "c = d")
    case True
    from 1 [OF True] obtain pre where pre: "p = pre @ snd (run_length p g (Suc n))"
      "fst (run_length p g (Suc n)) = Suc n + length pre" "prefix pre g"
      "snd (run_length p g (Suc n)) = [] \<or> length g = length pre \<or> g ! length pre \<noteq> hd (snd (run_length p g (Suc n)))"
      by blast
    with True show ?thesis by (intro exI [of _ "c # pre"]) auto
  qed auto
qed auto

lemma takeWhile_eq_iff: "takeWhile P xs = xs \<longleftrightarrow> (\<forall>x \<in> set xs. P x)"
  by (induction xs) auto

text \<open>One turn of the loop, on a rule \<open>r\<close> followed by a comma or by nothing.\<close>

lemma mg_rule_score:
  assumes g: "plain_name g" and r: "CHR '','' \<notin> set r" "NUL \<notin> set r" and rest: "rest = [] \<or> hd rest = CHR '',''"
  shows "mg_rule (r @ rest) g = (if rule_score r g = 0 then - 1 else int (rule_score r g), is_reject r, rest)"
proof -
  let ?b = "rule_body r"
  have rej: "(deref (r @ rest) = CHR ''!'') = is_reject r"
    using rest by (cases r; cases rest) (auto simp: is_reject_def)
  have body: "(if is_reject r then tl (r @ rest) else r @ rest) = ?b @ rest"
    by (cases r) (auto simp: is_reject_def rule_body_def)
  have b: "CHR '','' \<notin> set ?b" "NUL \<notin> set ?b" using r by (cases r; auto simp: rule_body_def)+
  obtain n b1 where n: "run_length ?b g 0 = (n, b1)" by fastforce
  have run: "run_length (?b @ rest) g 0 = (n, b1 @ rest)"
    using run_length_append [OF _ b(1) rest, of g 0] g n by (simp add: plain_name_def)
  obtain pre where pre: "?b = pre @ b1" "n = length pre" "prefix pre g"
    "b1 = [] \<or> length g = length pre \<or> g ! length pre \<noteq> hd b1"
    using run_length_prefix [of ?b g 0] n by auto
  have star: "CHR ''*'' \<notin> set pre"
    using pre(3) g set_mono_prefix by (fastforce simp: plain_name_def)
  have d: "dropWhile (\<lambda>c. c \<noteq> CHR '','') (b1 @ rest) = rest"
    using b pre(1) rest by (cases rest) (auto simp: dropWhile_append3)
  let ?t = "deref (b1 @ rest)"
  consider (whole) "b1 = []" | (star) x b2 where "b1 = x # b2" "x = CHR ''*''"
    | (other) x b2 where "b1 = x # b2" "x \<noteq> CHR ''*''" by (cases b1) auto
  then have "(if ?t = CHR '','' \<or> ?t = NUL
        then (if \<not> ends_here (chr_at g n) then - 1 else int n + 1)
        else if ?t = CHR ''*'' then int n + 1 else - 1)
      = (if rule_score r g = 0 then - 1 else int (rule_score r g))"
  proof cases
    case whole
    then have "rule_score r g = (if ends_here (chr_at g n) then n + 1 else 0)"
      using pre star by (auto simp: rule_score_def Let_def takeWhile_eq_iff)
    moreover have "?t = CHR '','' \<or> ?t = NUL" using whole rest by (cases rest) auto
    ultimately show ?thesis by simp
  next
    case star': star
    have tw: "takeWhile (\<lambda>c. c \<noteq> CHR ''*'') ?b = pre"
    proof -
      have "\<And>c. c \<in> set pre \<Longrightarrow> c \<noteq> CHR ''*''" using star by auto
      then show ?thesis unfolding pre(1) star'(1) by (simp add: takeWhile_append2 star'(2))
    qed
    have "pre \<noteq> ?b" using pre(1) star'(1) by simp
    then have "rule_score r g = n + 1"
      unfolding rule_score_def Let_def tw using pre(2,3) by simp
    then show ?thesis using star' by simp
  next
    case (other x b2)
    have "\<And>c. c \<in> set pre \<Longrightarrow> c \<noteq> CHR ''*''" using star by auto
    then have "takeWhile (\<lambda>c. c \<noteq> CHR ''*'') ?b = pre @ x # takeWhile (\<lambda>c. c \<noteq> CHR ''*'') b2"
      unfolding pre(1) other(1) by (simp add: takeWhile_append2 other(2))
    then obtain e where e: "takeWhile (\<lambda>c. c \<noteq> CHR ''*'') ?b = pre @ x # e" by blast
    have no: "\<not> prefix (pre @ x # us) g" for us
    proof
      assume "prefix (pre @ x # us) g"
      then obtain vs where "g = (pre @ x # us) @ vs" by (auto simp: prefix_def)
      with pre(4) other show False by auto
    qed
    have "rule_score r g = 0"
      using no [of e] no [of b2] unfolding rule_score_def Let_def e
      by (metis other(1) pre(1))
    moreover have "x \<noteq> CHR '',''" "x \<noteq> NUL" using b pre(1) other by auto
    ultimately show ?thesis using other by simp
  qed
  then show ?thesis
    unfolding mg_rule_def Let_def rej body run prod.case d by simp
qed

text \<open>The loop over all rules, and what its fold computes.\<close>

definition better :: "string \<Rightarrow> int \<times> bool \<Rightarrow> string \<Rightarrow> int \<times> bool" where
  "better g acc r = (if fst acc < int (rule_score r g) then (int (rule_score r g), is_reject r) else acc)"

lemma rule_iter_split:
  "rule_iter p = takeWhile (\<lambda>c. c \<noteq> CHR '','') p #
     (case dropWhile (\<lambda>c. c \<noteq> CHR '','') p of [] \<Rightarrow> [] | c # q \<Rightarrow> rule_iter q)"
proof (cases "dropWhile (\<lambda>c. c \<noteq> CHR '','') p")
  case Nil
  then show ?thesis by (subst rule_iter.simps) (simp only: Let_def Nil list.case if_True simp_thms)
next
  case (Cons c q)
  then show ?thesis
    by (subst rule_iter.simps) (simp only: Let_def Cons list.case list.distinct list.sel if_False simp_thms)
qed

lemma mg_loop_fold:
  assumes "plain_name g" and "NUL \<notin> set p" and "0 \<le> bl"
  shows "mg_loop p g bl br = foldl (better g) (bl, br) (rule_iter p)"
  using assms(2,3)
proof (induction p arbitrary: bl br rule: length_induct)
  case (1 p)
  let ?r = "takeWhile (\<lambda>c. c \<noteq> CHR '','') p" and ?rest = "dropWhile (\<lambda>c. c \<noteq> CHR '','') p"
  have r: "CHR '','' \<notin> set ?r" "NUL \<notin> set ?r" using 1(2) by (auto dest: set_takeWhileD)
  have rest: "?rest = [] \<or> hd ?rest = CHR '',''"
    using hd_dropWhile [of "\<lambda>c. c \<noteq> CHR '',''" p] by auto
  have mg: "mg_rule p g = (if rule_score ?r g = 0 then - 1 else int (rule_score ?r g), is_reject ?r, ?rest)"
    using mg_rule_score [OF assms(1) r rest] by simp
  let ?acc = "better g (bl, br) ?r"
  have acc: "(if bl < fst (mg_rule p g) then fst (mg_rule p g) else bl,
      if bl < fst (mg_rule p g) then fst (snd (mg_rule p g)) else br) = ?acc"
    using 1(3) by (simp add: mg better_def)
  have "mg_loop p g bl br
      = (if ?rest = [] then ?acc else mg_loop (tl ?rest) g (fst ?acc) (snd ?acc))"
    by (subst mg_loop.simps) (simp only: acc [symmetric] Let_def case_prod_beta fst_conv snd_conv mg)
  also have "\<dots> = foldl (better g) (bl, br) (rule_iter p)"
  proof (cases ?rest)
    case Nil
    then show ?thesis by (subst rule_iter_split) (simp only: Nil, simp)
  next
    case (Cons c q)
    have "length ?rest \<le> length p" by (rule length_dropWhile_le)
    then have len: "length q < length p" unfolding Cons by simp
    have nul: "NUL \<notin> set q"
    proof -
      have "set ?rest \<subseteq> set p" using set_dropWhileD by fast
      then show ?thesis using 1(2) unfolding Cons by auto
    qed
    have "0 \<le> fst ?acc" using 1(3) by (simp add: better_def)
    with 1(1) len nul have "mg_loop q g (fst ?acc) (snd ?acc) = foldl (better g) ?acc (rule_iter q)"
      by simp
    then show ?thesis by (subst rule_iter_split) (simp only: Cons, simp)
  qed
  finally show ?case .
qed

lemma best_fold:
  assumes "0 \<le> bl"
  shows "foldl (better g) (bl, br) rs =
    (let m = Max (insert 0 ((\<lambda>r. rule_score r g) ` set rs))
     in if bl < int m then (int m, is_reject (the (find (\<lambda>r. rule_score r g = m) rs))) else (bl, br))"
  using assms
proof (induction rs arbitrary: bl br)
  case Nil
  then show ?case by simp
next
  case (Cons r rs)
  let ?s = "rule_score r g" and ?m' = "Max (insert 0 ((\<lambda>r. rule_score r g) ` set rs))"
  have m: "Max (insert 0 ((\<lambda>r. rule_score r g) ` set (r # rs))) = max ?s ?m'"
  proof -
    have "insert 0 ((\<lambda>r. rule_score r g) ` set (r # rs)) = insert ?s (insert 0 ((\<lambda>r. rule_score r g) ` set rs))"
      by auto
    then show ?thesis by (simp only:) (rule Max_insert, auto)
  qed
  show ?case
  proof (cases "bl < int ?s")
    case True
    then have "foldl (better g) (bl, br) (r # rs) = foldl (better g) (int ?s, is_reject r) rs"
      by (simp add: better_def)
    also have "\<dots> = (if int ?s < int ?m'
        then (int ?m', is_reject (the (find (\<lambda>r. rule_score r g = ?m') rs))) else (int ?s, is_reject r))"
      using Cons.IH [of "int ?s" "is_reject r"] by (simp only: Let_def of_nat_0_le_iff)
    finally show ?thesis
      using True unfolding m by (auto simp: max_def Let_def)
  next
    case False
    then have "foldl (better g) (bl, br) (r # rs) = foldl (better g) (bl, br) rs"
      by (simp add: better_def)
    then show ?thesis
      using False Cons.IH [OF Cons.prems, of br] unfolding m by (auto simp: Let_def max_def)
  qed
qed

lemma matchgroup_best:
  assumes "plain_name g" and "NUL \<notin> set p"
  shows "matchgroup p g = best_match (rule_iter p) g"
proof -
  let ?m = "Max (insert 0 ((\<lambda>r. rule_score r g) ` set (rule_iter p)))"
  let ?f = "find (\<lambda>r. rule_score r g = ?m) (rule_iter p)"
  have loop: "mg_loop p g 0 False = (if 0 < int ?m then (int ?m, is_reject (the ?f)) else (0, False))"
    using mg_loop_fold [OF assms, of 0 False] best_fold [of 0 g False "rule_iter p"]
    by (simp only: Let_def)
  show ?thesis
  proof (cases "?m = 0")
    case True
    then show ?thesis
      unfolding matchgroup_def loop best_match_def Let_def by (auto split: option.split)
  next
    case False
    have "?m \<in> insert 0 ((\<lambda>r. rule_score r g) ` set (rule_iter p))" by (rule Max_in) auto
    with False have "\<exists>r \<in> set (rule_iter p). rule_score r g = ?m" by fastforce
    then have "?f \<noteq> None" unfolding find_None_iff by blast
    with False show ?thesis
      unfolding matchgroup_def loop best_match_def Let_def by auto
  qed
qed

section \<open>Rule lists without duplicates\<close>

definition join :: "string list \<Rightarrow> string" where
  "join rs = concat (map (\<lambda>r. r @ '','') rs)"

lemma join_simps [simp]: "join [] = []" "join (r # rs) = r @ CHR '','' # join rs"
  by (simp_all add: join_def)

lemma skip_comma:
  "c \<noteq> CHR '','' \<Longrightarrow> CHR '','' \<notin> set r \<Longrightarrow> skip_rule (c # r @ CHR '','' # rest) = rest"
proof -
  assume "c \<noteq> CHR '',''" "CHR '','' \<notin> set r"
  then have "dropWhile (\<lambda>c. c \<noteq> CHR '','') ((c # r) @ CHR '','' # rest) = CHR '','' # rest"
    by (subst dropWhile_append2) auto
  then show ?thesis by (simp add: skip_rule_def)
qed

lemma run_equal_rule:
  assumes "CHR '','' \<notin> set r" and "CHR '','' \<notin> set q"
  shows "\<exists>p1 q1. run_equal (r @ CHR '','' # rest) q = Some (p1, q1)
    \<and> (q1 = [] \<and> (p1 = [] \<or> hd p1 = CHR '','') \<longleftrightarrow> r = q) \<and> skip_rule p1 = rest"
  using assms
proof (induction r arbitrary: q)
  case Nil
  then show ?case by (cases q) (auto simp: skip_rule_def)
next
  case (Cons c r)
  show ?case
  proof (cases q)
    case Nil
    then show ?thesis using Cons.prems by (auto simp: skip_comma)
  next
    case q: (Cons d q')
    show ?thesis
    proof (cases "c = d")
      case True
      with Cons q show ?thesis by simp
    next
      case False
      with Cons.prems q show ?thesis by (auto simp: skip_comma)
    qed
  qed
qed

lemma rule_contained_join:
  assumes "\<forall>r \<in> set rs. CHR '','' \<notin> set r" and "CHR '','' \<notin> set q" and "rs \<noteq> []"
  shows "rule_contained (join rs) q = Some (q \<in> set rs)"
  using assms
proof (induction rs)
  case (Cons r rs)
  obtain p1 q1 where run: "run_equal (join (r # rs)) q = Some (p1, q1)"
    "q1 = [] \<and> (p1 = [] \<or> hd p1 = CHR '','') \<longleftrightarrow> r = q" "skip_rule p1 = join rs"
    using run_equal_rule [of r q "join rs"] Cons.prems by auto
  show ?case
  proof (cases "rs = []")
    case True
    with run show ?thesis by (subst rule_contained.simps) auto
  next
    case False
    then have "join rs \<noteq> []" by (cases rs) auto
    with run Cons.IH False Cons.prems show ?thesis by (subst rule_contained.simps) auto
  qed
qed simp

lemma rule_contained_Nil: "q \<noteq> [] \<Longrightarrow> rule_contained [] q = Some False"
  by (subst rule_contained.simps) (cases q, auto simp: skip_rule_def)

lemma add_rule_join:
  assumes "\<forall>r \<in> set rs. CHR '','' \<notin> set r" and "CHR '','' \<notin> set q" and "rs \<noteq> [] \<or> q \<noteq> []"
  shows "add_rule_to_rulelist (join rs) q = Some (join (if q \<in> set rs then rs else rs @ [q]))"
proof (cases "rs = []")
  case True
  then show ?thesis
    using assms(3) rule_contained_Nil [of q] by (simp add: add_rule_to_rulelist_def join_def)
next
  case False
  then show ?thesis
    using rule_contained_join [OF assms(1,2)] by (simp add: add_rule_to_rulelist_def join_def)
qed

text \<open>The empty rule added to the empty list: the comparison runs past both strings.\<close>

lemma add_empty_rule: "add_rule_to_rulelist [] [] = None"
  by (simp add: add_rule_to_rulelist_def rule_contained.simps [of "[]" "[]"])

section \<open>Union and intersection of filters\<close>

text \<open>The rules of a list; the empty string has none.\<close>

definition rules :: "string \<Rightarrow> string list" where
  "rules p = (if p = [] then [] else rule_iter p)"

definition add_new :: "string list \<Rightarrow> string \<Rightarrow> string list" where
  "add_new acc r = (if r \<in> set acc then acc else acc @ [r])"

lemma add_new_all:
  "set (foldl add_new acc rs) = set acc \<union> set rs"
  "distinct acc \<Longrightarrow> distinct (foldl add_new acc rs)"
  by (induction rs arbitrary: acc) (auto simp: add_new_def)

lemma rule_iter_no_comma: "r \<in> set (rule_iter p) \<Longrightarrow> CHR '','' \<notin> set r"
proof (induction p rule: length_induct)
  case (1 p)
  show ?case
  proof (cases "dropWhile (\<lambda>c. c \<noteq> CHR '','') p")
    case Nil
    with 1(2) show ?thesis by (subst (asm) rule_iter_split) (auto dest: set_takeWhileD)
  next
    case (Cons c q)
    have "length q < length p"
      using length_dropWhile_le [of "\<lambda>c. c \<noteq> CHR '',''" p] unfolding Cons by simp
    with 1 show ?thesis
      by (subst (asm) (2) rule_iter_split) (simp only: Cons, auto dest: set_takeWhileD)
  qed
qed

lemma comma_split:
  "CHR '','' \<notin> set r \<Longrightarrow> takeWhile (\<lambda>c. c \<noteq> CHR '','') (r @ CHR '','' # p) = r
     \<and> dropWhile (\<lambda>c. c \<noteq> CHR '','') (r @ CHR '','' # p) = CHR '','' # p"
  "CHR '','' \<notin> set r \<Longrightarrow> takeWhile (\<lambda>c. c \<noteq> CHR '','') r = r
     \<and> dropWhile (\<lambda>c. c \<noteq> CHR '','') r = []"
  by (induction r) auto

lemma rule_iter_comma: "CHR '','' \<notin> set r \<Longrightarrow> rule_iter (r @ CHR '','' # p) = r # rule_iter p"
  by (subst rule_iter_split) (simp add: comma_split)

lemma rule_iter_single: "CHR '','' \<notin> set r \<Longrightarrow> rule_iter r = [r]"
  by (subst rule_iter_split) (simp only: comma_split list.case not_False_eq_True)

text \<open>The list that \<open>add_rule_to_rulelist\<close> has built, without its last comma.\<close>

lemma rules_butlast_join:
  "\<forall>r \<in> set rs. CHR '','' \<notin> set r \<Longrightarrow> rs \<noteq> [] \<Longrightarrow> rule_iter (butlast (join rs)) = rs"
proof (induction rs)
  case (Cons r rs)
  show ?case
  proof (cases "rs = []")
    case True
    with Cons.prems show ?thesis by (simp add: rule_iter_single butlast_append)
  next
    case False
    then have "join rs \<noteq> []" by (cases rs) auto
    with Cons False show ?thesis by (simp add: butlast_append rule_iter_comma)
  qed
qed simp

lemma rules_join:
  assumes "\<forall>r \<in> set rs. CHR '','' \<notin> set r \<and> r \<noteq> []"
  shows "rules (butlast (join rs)) = rs"
proof (cases "rs = []")
  case False
  with assms obtain c r rs' where "rs = (c # r) # rs'" by (metis list.exhaust list.set_intros(1))
  then have "butlast (join rs) \<noteq> []" by (simp add: butlast_append)
  with False assms show ?thesis by (simp add: rules_def rules_butlast_join)
qed (simp add: rules_def)

lemma add_rules_join:
  assumes "\<forall>r \<in> set rs. CHR '','' \<notin> set r \<and> r \<noteq> []" and "\<forall>r \<in> set acc. CHR '','' \<notin> set r"
  shows "add_rules (\<lambda>r. Some (k r)) rs (join acc) = Some (join (foldl add_new acc (filter k rs)))"
  using assms
proof (induction rs arbitrary: acc)
  case (Cons r rs)
  have "add_rule_to_rulelist (join acc) r = Some (join (add_new acc r))"
    using add_rule_join [of acc r] Cons.prems by (simp add: add_new_def)
  moreover have "\<forall>x \<in> set (add_new acc r). CHR '','' \<notin> set x"
    using Cons.prems by (auto simp: add_new_def)
  ultimately show ?case using Cons by simp
qed simp

lemma combine_rules:
  assumes "rules_fit (rulelist f)" "rules_fit (rulelist g)"
    and "[] \<notin> set (rule_iter (rulelist f))" "[] \<notin> set (rule_iter (rulelist g))"
    and "keep1 = (\<lambda>r. Some (k1 r))" "keep2 = (\<lambda>r. Some (k2 r))"
  shows "\<exists>h. combine keep1 keep2 f g = Some h \<and> distinct (rules (rulelist h))
    \<and> set (rules (rulelist h)) = {r \<in> set (rule_iter (rulelist f)). k1 r} \<union> {r \<in> set (rule_iter (rulelist g)). k2 r}"
proof -
  let ?l1 = "foldl add_new [] (filter k1 (rule_iter (rulelist f)))"
  let ?l2 = "foldl add_new ?l1 (filter k2 (rule_iter (rulelist g)))"
  have cf: "\<forall>r \<in> set (rule_iter (rulelist f)). CHR '','' \<notin> set r \<and> r \<noteq> []"
    "\<forall>r \<in> set (rule_iter (rulelist g)). CHR '','' \<notin> set r \<and> r \<noteq> []"
    using rule_iter_no_comma assms(3,4) by blast+
  have 1: "add_rules keep1 (rule_iter (rulelist f)) [] = Some (join ?l1)"
    using add_rules_join [OF cf(1), of "[]" k1] assms(5) by simp
  have "\<forall>r \<in> set ?l1. CHR '','' \<notin> set r" using cf(1) by (auto simp: add_new_all(1))
  then have 2: "add_rules keep2 (rule_iter (rulelist g)) (join ?l1) = Some (join ?l2)"
    using add_rules_join [OF cf(2), of ?l1 k2] assms(6) by simp
  have "\<forall>r \<in> set ?l2. CHR '','' \<notin> set r \<and> r \<noteq> []" using cf by (auto simp: add_new_all(1))
  then have "rules (butlast (join ?l2)) = ?l2" by (rule rules_join)
  then show ?thesis
    using assms(1,2) by (simp add: combine_def 1 2 add_new_all)
qed

lemma accepts_plain: "\<not> WildmatSearch f \<Longrightarrow> accepts f g = Some (0 < matchgroup (rulelist f) g)"
  by (simp add: accepts_def matches_def matchgroup_def split: prod.split)

lemma filter_or_rules:
  assumes "rules_fit (rulelist f)" "rules_fit (rulelist g)"
    and "[] \<notin> set (rule_iter (rulelist f))" "[] \<notin> set (rule_iter (rulelist g))"
    and "\<not> WildmatSearch f" "\<not> WildmatSearch g"
  shows "\<exists>h. filter_or f g = Some h \<and> distinct (rules (rulelist h))
    \<and> set (rules (rulelist h)) =
        {r \<in> set (rule_iter (rulelist f)). \<not> is_reject r \<or> matchgroup (rulelist g) (tl r) \<le> 0}
      \<union> {r \<in> set (rule_iter (rulelist g)). matchgroup (rulelist f) (rule_body r) \<le> 0}"
proof -
  have k1: "or_keep_self g = (\<lambda>r. Some (\<not> is_reject r \<or> matchgroup (rulelist g) (tl r) \<le> 0))"
    by (rule ext) (auto simp: or_keep_self_def accepts_plain [OF assms(6)])
  have k2: "or_keep_other f = (\<lambda>r. Some (matchgroup (rulelist f) (rule_body r) \<le> 0))"
    by (rule ext) (auto simp: or_keep_other_def accepts_plain [OF assms(5)] rule_body_def)
  show ?thesis unfolding filter_or_def by (rule combine_rules [OF assms(1-4) k1 k2])
qed

lemma filter_and_rules:
  assumes "rules_fit (rulelist f)" "rules_fit (rulelist g)"
    and "[] \<notin> set (rule_iter (rulelist f))" "[] \<notin> set (rule_iter (rulelist g))"
    and "\<not> WildmatSearch f" "\<not> WildmatSearch g"
  shows "\<exists>h. filter_and f g = Some h \<and> distinct (rules (rulelist h))
    \<and> set (rules (rulelist h)) =
        {r \<in> set (rule_iter (rulelist f)). is_reject r \<or> 0 < matchgroup (rulelist g) r}
      \<union> {r \<in> set (rule_iter (rulelist g)). 0 < matchgroup (rulelist f) (rule_body r)}"
proof -
  have k1: "and_keep_self g = (\<lambda>r. Some (is_reject r \<or> 0 < matchgroup (rulelist g) r))"
    by (rule ext) (auto simp: and_keep_self_def accepts_plain [OF assms(6)])
  have k2: "and_keep_other f = (\<lambda>r. Some (0 < matchgroup (rulelist f) (rule_body r)))"
    by (rule ext) (auto simp: and_keep_other_def accepts_plain [OF assms(5)] rule_body_def)
  show ?thesis unfolding filter_and_def by (rule combine_rules [OF assms(1-4) k1 k2])
qed

end
