(* ===== verification/Glob_Ref.thy ===== *)
theory Glob_Ref
  imports Group_Match
begin

text \<open>
  The shell-style matcher of wildmat.c against a reference: a pattern is parsed into
  tokens, and a token list matches by trying every split of the text. The code gives
  the same answer without trying them all.
\<close>

section \<open>Shell patterns as token lists\<close>

datatype gtok = GStar | GOne "char \<Rightarrow> bool"

fun gmatch :: "gtok list \<Rightarrow> string \<Rightarrow> bool" where
  "gmatch [] t = (t = [])"
| "gmatch (GStar # ps) t = (\<exists>k \<le> length t. gmatch ps (drop k t))"
| "gmatch (GOne P # ps) t = (case t of [] \<Rightarrow> False | c # t' \<Rightarrow> P c \<and> gmatch ps t')"

text \<open>The ranges of a character class and what follows its bracket.\<close>

fun class_items :: "char \<Rightarrow> string \<Rightarrow> ((char \<times> char) list \<times> string) option" where
  "class_items prev [] = None"
| "class_items prev (c # p) =
     (if c = CHR '']'' then Some ([], p)
      else if c = CHR ''-'' \<and> deref p \<noteq> CHR '']''
      then (case p of
              [] \<Rightarrow> None
            | d # p' \<Rightarrow> map_option (\<lambda>(xs, r). ((prev, d) # xs, r)) (class_items d p'))
      else map_option (\<lambda>(xs, r). ((c, c) # xs, r)) (class_items c p))"

definition in_items :: "(char \<times> char) list \<Rightarrow> char \<Rightarrow> bool" where
  "in_items xs t \<longleftrightarrow> (\<exists>(lo, hi) \<in> set xs. schar lo \<le> schar t \<and> schar t \<le> schar hi)"

definition class_spec :: "string \<Rightarrow> ((char \<Rightarrow> bool) \<times> string) option" where
  "class_spec p =
     (let neg = (deref p = CHR ''^'');
          q = (if neg then tl p else p);
          lit = (deref q = CHR '']'' \<or> deref q = CHR ''-'')
      in map_option (\<lambda>(xs, r). ((\<lambda>t. (lit \<and> t = deref q \<or> in_items xs t) \<noteq> neg), r))
           (class_items (deref q) (if lit then tl q else q)))"

lemma class_items_shorter: "class_items l p = Some (xs, r) \<Longrightarrow> length r \<le> length p"
proof (induction l p arbitrary: xs r rule: class_items.induct)
  case (2 l c p)
  show ?case
  proof (cases "c = CHR '']'' \<or> \<not> (c = CHR ''-'' \<and> deref p \<noteq> CHR '']'')")
    case True
    with 2 show ?thesis by (fastforce split: if_splits)
  next
    case False
    with 2 show ?thesis by (cases p) fastforce+
  qed
qed simp

lemma class_spec_shorter:
  assumes "class_spec p = Some (P, r)"
  shows "length r \<le> length p"
proof -
  let ?q = "if deref p = CHR ''^'' then tl p else p"
  let ?q' = "if deref ?q = CHR '']'' \<or> deref ?q = CHR ''-'' then tl ?q else ?q"
  obtain xs where "class_items (deref ?q) ?q' = Some (xs, r)"
    using assms by (fastforce simp: class_spec_def Let_def split: if_splits)
  then have "length r \<le> length ?q'" by (rule class_items_shorter)
  also have "length ?q' \<le> length p" by simp
  finally show ?thesis .
qed

function gparse :: "string \<Rightarrow> gtok list option" where
  "gparse p =
     (case p of
        [] \<Rightarrow> Some []
      | c # q \<Rightarrow>
          if c = CHR ''*'' then map_option (Cons GStar) (gparse q)
          else if c = CHR 0x5C then
            (case q of
               [] \<Rightarrow> Some [GOne (\<lambda>_. False)]
             | d # q' \<Rightarrow> map_option (Cons (GOne (\<lambda>t. t = d))) (gparse q'))
          else if c = CHR ''?'' then map_option (Cons (GOne (\<lambda>_. True))) (gparse q)
          else if c = CHR ''['' then
            (case class_spec q of
               None \<Rightarrow> None
             | Some (P, r) \<Rightarrow> map_option (Cons (GOne P)) (gparse r))
          else map_option (Cons (GOne (\<lambda>t. t = c))) (gparse q))"
  by pat_completeness auto
termination
  by (relation "measure length") (auto dest: class_spec_shorter)

declare gparse.simps [simp del]

lemma schar_inj: "schar a \<le> schar t \<and> schar t \<le> schar a \<longleftrightarrow> t = a"
proof
  assume h: "schar a \<le> schar t \<and> schar t \<le> schar a"
  have m: "schar c mod 256 = of_char c" for c
  proof -
    have "(of_char c - 256 :: int) mod 256 = of_char c mod 256" by (simp add: mod_diff_eq)
    then show ?thesis by (simp add: schar_def Let_def)
  qed
  have "schar a = schar t" using h by simp
  then have "(of_char a :: int) = of_char t" by (metis m)
  then show "t = a" by simp
qed simp

text \<open>The loop over a class decides membership in its ranges.\<close>

lemma wm_class_items:
  "class_items l p = Some (xs, r) \<Longrightarrow>
     wm_class t l p m = Some (m \<or> in_items xs t, CHR '']'' # r)"
proof (induction l p arbitrary: xs r m rule: class_items.induct)
  case (2 l c p)
  consider "c = CHR '']''" | "c = CHR ''-''" "deref p \<noteq> CHR '']''"
    | "c \<noteq> CHR '']''" "\<not> (c = CHR ''-'' \<and> deref p \<noteq> CHR '']'')" by blast
  then show ?case
  proof cases
    case 1
    with 2 show ?thesis by (simp add: in_items_def)
  next
    case 2
    then obtain d p' where p: "p = d # p'" using "2.prems" by (cases p) auto
    then obtain ys where ys: "class_items d p' = Some (ys, r)" "xs = (l, d) # ys"
      using 2 "2.prems" by auto
    have "\<And>m. wm_class t d p' m = Some (m \<or> in_items ys t, CHR '']'' # r)"
      using "2.IH"(1) [OF _ _ p ys(1)] 2 by simp
    then show ?thesis using 2 p ys(2) by (auto simp: in_items_def)
  next
    case 3
    then obtain ys where ys: "class_items c p = Some (ys, r)" "xs = (c, c) # ys"
      using "2.prems" by auto
    have "\<And>m. wm_class t c p m = Some (m \<or> in_items ys t, CHR '']'' # r)"
      using "2.IH"(2) [OF _ _ ys(1)] 3 by blast
    then show ?thesis using 3 ys(2) schar_inj [of c t] by (auto simp: in_items_def)
  qed
qed simp

lemma class_items_prev:
  "deref p \<noteq> CHR ''-'' \<Longrightarrow> class_items l p = class_items l' p"
  by (cases p) auto

lemma wm_bracket_spec:
  assumes "class_spec p = Some (P, r)"
  shows "wm_bracket t p = Some (P t, CHR '']'' # r)"
proof -
  define neg where "neg \<longleftrightarrow> deref p = CHR ''^''"
  define q where "q = (if neg then tl p else p)"
  define lit where "lit \<longleftrightarrow> deref q = CHR '']'' \<or> deref q = CHR ''-''"
  define q' where "q' = (if lit then tl q else q)"
  obtain xs where xs: "class_items (deref q) q' = Some (xs, r)"
    and P: "P = (\<lambda>t. (lit \<and> t = deref q \<or> in_items xs t) \<noteq> neg)"
    using assms unfolding class_spec_def Let_def neg_def [symmetric] q_def [symmetric]
      lit_def [symmetric] q'_def [symmetric] by auto
  let ?prev = "if lit then deref q else if neg then CHR ''^'' else CHR ''[''"
  have "class_items ?prev q' = Some (xs, r)"
  proof (cases lit)
    case False
    then have "deref q' \<noteq> CHR ''-''" by (simp add: q'_def lit_def)
    with xs class_items_prev show ?thesis by metis
  qed (use xs in simp)
  then have "wm_class t ?prev q' (lit \<and> deref q = t) = Some (lit \<and> deref q = t \<or> in_items xs t, CHR '']'' # r)"
    by (rule wm_class_items)
  then show ?thesis
    unfolding wm_bracket_def Let_def neg_def [symmetric] q_def [symmetric]
      lit_def [symmetric] q'_def [symmetric] P by (auto simp: eq_commute)
qed

text \<open>Some suffix of the text matches.\<close>

definition some_suffix :: "gtok list \<Rightarrow> string \<Rightarrow> bool" where
  "some_suffix ps t \<longleftrightarrow> (\<exists>k \<le> length t. gmatch ps (drop k t))"

lemma some_suffix_Nil: "some_suffix ps [] = gmatch ps []"
  by (simp add: some_suffix_def)

lemma some_suffix_Cons: "some_suffix ps (c # t) \<longleftrightarrow> gmatch ps (c # t) \<or> some_suffix ps t"
proof
  assume "some_suffix ps (c # t)"
  then obtain k where k: "k \<le> length (c # t)" "gmatch ps (drop k (c # t))"
    by (auto simp: some_suffix_def)
  then show "gmatch ps (c # t) \<or> some_suffix ps t"
    by (cases k) (auto simp: some_suffix_def)
next
  assume "gmatch ps (c # t) \<or> some_suffix ps t"
  then show "some_suffix ps (c # t)"
  proof
    assume "gmatch ps (c # t)"
    then show ?thesis by (auto simp: some_suffix_def intro!: exI [of _ 0])
  next
    assume "some_suffix ps t"
    then obtain k where "k \<le> length t" "gmatch ps (drop k t)" by (auto simp: some_suffix_def)
    then show ?thesis by (auto simp: some_suffix_def intro!: exI [of _ "Suc k"])
  qed
qed

lemma some_suffix_One: "some_suffix (GOne P # ps) t \<Longrightarrow> t \<noteq> [] \<and> some_suffix ps (tl t)"
proof (induction t)
  case Nil
  then show ?case by (simp add: some_suffix_Nil)
next
  case (Cons c t)
  then consider "gmatch ps t" | "some_suffix (GOne P # ps) t"
    by (auto simp: some_suffix_Cons)
  then show ?case
  proof cases
    case 1
    then show ?thesis by (auto simp: some_suffix_def intro!: exI [of _ 0])
  next
    case 2
    with Cons.IH have "t \<noteq> []" "some_suffix ps (tl t)" by simp_all
    then show ?thesis by (cases t) (auto simp: some_suffix_Cons)
  qed
qed

lemma some_suffix_Star: "some_suffix (GStar # ps) t = some_suffix ps t"
proof (induction t)
  case Nil
  show ?case by (simp add: some_suffix_def)
next
  case (Cons c t)
  have "gmatch (GStar # ps) (c # t) = some_suffix ps (c # t)" by (simp add: some_suffix_def)
  with Cons show ?case by (auto simp: some_suffix_Cons)
qed

lemma gparse_stars:
  "gparse (CHR ''*'' # p) = Some qs \<Longrightarrow>
     \<exists>ps. gparse (dropWhile (\<lambda>c. c = CHR ''*'') p) = Some ps \<and> (\<forall>t. gmatch qs t = some_suffix ps t)"
proof (induction p arbitrary: qs)
  case Nil
  then show ?case by (auto simp: gparse.simps [of "[CHR ''*'']"] gparse.simps [of "[]"] some_suffix_def)
next
  case (Cons c p)
  obtain rs where rs: "gparse (c # p) = Some rs" "qs = GStar # rs"
    using Cons.prems by (auto simp: gparse.simps [of "CHR ''*'' # c # p"])
  have q: "gmatch qs t = some_suffix rs t" for t by (simp add: rs(2) some_suffix_def)
  show ?case
  proof (cases "c = CHR ''*''")
    case True
    obtain ps where ps: "gparse (dropWhile (\<lambda>c. c = CHR ''*'') p) = Some ps"
      "\<forall>t. gmatch rs t = some_suffix ps t"
      using Cons.IH [of rs] rs(1) True by auto
    have "some_suffix rs t = some_suffix ps t" for t
    proof -
      have "some_suffix rs t = some_suffix (GStar # ps) t"
        unfolding some_suffix_def [of rs] some_suffix_def [of "GStar # ps"]
        using ps(2) by (simp add: some_suffix_def)
      then show ?thesis by (simp add: some_suffix_Star)
    qed
    with ps(1) q True show ?thesis by simp
  next
    case False
    with rs q show ?thesis by simp
  qed
qed

text \<open>A pattern that does not begin with a star takes one character and goes on.\<close>

lemma DoMatch_one:
  assumes "gparse (c # p) = Some ps" and "c \<noteq> CHR ''*''"
  shows "\<exists>P qs p'. ps = GOne P # qs \<and> gparse p' = Some qs \<and> length p' \<le> length p
    \<and> (\<forall>t ts. DoMatch (t # ts) (c # p) = (if P t then DoMatch ts p' else WFalse))"
proof -
  note g = assms(1) [unfolded gparse.simps [of "c # p"]]
  consider (esc) "c = CHR 0x5C" "p = []" | (lit) d q where "c = CHR 0x5C" "p = d # q"
    | (any) "c = CHR ''?''" | (set) "c = CHR ''[''"
    | (chr) "c \<noteq> CHR 0x5C" "c \<noteq> CHR ''?''" "c \<noteq> CHR ''[''"
    using list.exhaust by blast
  then show ?thesis
  proof cases
    case esc
    with g assms(2) show ?thesis
      by (intro exI [of _ "\<lambda>_. False"] exI [of _ "[]"] exI [of _ "[]"])
         (simp add: gparse.simps [of "[]"])
  next
    case (lit d q)
    with g assms(2) obtain qs where "gparse q = Some qs" "ps = GOne (\<lambda>t. t = d) # qs" by auto
    with lit show ?thesis by (intro exI [of _ "\<lambda>t. t = d"] exI [of _ qs] exI [of _ q]) auto
  next
    case any
    with g obtain qs where "gparse p = Some qs" "ps = GOne (\<lambda>_. True) # qs" by auto
    with any show ?thesis by (intro exI [of _ "\<lambda>_. True"] exI [of _ qs] exI [of _ p]) auto
  next
    case set
    with g obtain P r where b: "class_spec p = Some (P, r)" by (auto split: option.splits)
    with set g obtain qs where "gparse r = Some qs" "ps = GOne P # qs" by auto
    with set b show ?thesis
      using class_spec_shorter [OF b] wm_bracket_spec [OF b]
      by (intro exI [of _ P] exI [of _ qs] exI [of _ r]) auto
  next
    case chr
    with g assms(2) obtain qs where "gparse p = Some qs" "ps = GOne (\<lambda>t. t = c) # qs" by auto
    with chr assms(2) show ?thesis by (intro exI [of _ "\<lambda>t. t = c"] exI [of _ qs] exI [of _ p]) auto
  qed
qed

text \<open>What the three answers mean; \<open>WAbort\<close> promises that no suffix of the text matches either.\<close>

definition answers :: "gtok list \<Rightarrow> string \<Rightarrow> wm \<Rightarrow> bool" where
  "answers ps t r \<longleftrightarrow> r \<noteq> WWild \<and> (r = WTrue \<longleftrightarrow> gmatch ps t) \<and> (r = WAbort \<longrightarrow> \<not> some_suffix ps t)"

lemma match_star_ok:
  assumes "\<And>t. answers (GOne P # qs) t (DoMatch t p)"
  shows "match_star t p = (if some_suffix (GOne P # qs) t then WTrue else WAbort)"
proof (induction t)
  case Nil
  show ?case by (simp add: some_suffix_Nil)
next
  case (Cons c t)
  from assms [of "c # t"] show ?case
    by (cases "DoMatch (c # t) p") (simp_all add: answers_def some_suffix_Cons Cons del: gmatch.simps)
qed

lemma DoMatch_ok: "gparse p = Some ps \<Longrightarrow> answers ps t (DoMatch t p)"
proof (induction "length p" arbitrary: p ps t rule: less_induct)
  case less
  show ?case
  proof (cases p)
    case Nil
    with less.prems show ?thesis by (auto simp: answers_def gparse.simps [of "[]"])
  next
    case (Cons c q)
    show ?thesis
    proof (cases "c = CHR ''*''")
      case True
      let ?q = "dropWhile (\<lambda>c. c = CHR ''*'') q"
      obtain rs where rs: "gparse ?q = Some rs" "\<And>t. gmatch ps t = some_suffix rs t"
        using gparse_stars [of q ps] less.prems Cons True by blast
      show ?thesis
      proof (cases ?q)
        case Nil
        from rs(1) have "rs = []" unfolding Nil by (simp add: gparse.simps [of "[]"])
        then have "gmatch ps t" using rs(2) by (auto simp: some_suffix_def)
        then show ?thesis using Cons True Nil by (simp add: answers_def)
      next
        case q: (Cons d r)
        have d: "d \<noteq> CHR ''*''" using hd_dropWhile [of "\<lambda>c. c = CHR ''*''" q] q by simp
        obtain P us where P: "rs = GOne P # us" using DoMatch_one [OF rs(1) [unfolded q] d] by blast
        have len: "length ?q < length p"
          using length_dropWhile_le [of "\<lambda>c. c = CHR ''*''" q] Cons by simp
        have "match_star t (d # r) = (if some_suffix rs t then WTrue else WAbort)"
          unfolding P using less.hyps [OF len rs(1)] by (intro match_star_ok) (simp only: P q)
        moreover have "some_suffix ps t = some_suffix rs t" for t
          unfolding some_suffix_def [of ps] rs(2)
          using some_suffix_Star [of rs t] by (simp add: some_suffix_def)
        ultimately show ?thesis
          using Cons True q rs(2) by (simp add: answers_def)
      qed
    next
      case False
      obtain P qs p' where P: "ps = GOne P # qs" "gparse p' = Some qs" "length p' \<le> length q"
        "\<And>t ts. DoMatch (t # ts) p = (if P t then DoMatch ts p' else WFalse)"
        using DoMatch_one [OF less.prems [unfolded Cons] False] Cons by auto
      show ?thesis
      proof (cases t)
        case Nil
        then show ?thesis using False Cons P(1) by (simp add: answers_def some_suffix_Nil)
      next
        case t: (Cons x ts)
        have "answers qs ts (DoMatch ts p')" using less.hyps [OF _ P(2)] P(3) Cons by simp
        then show ?thesis
          using P(1,4) t some_suffix_One [of P qs t] by (auto simp: answers_def)
      qed
    qed
  qed
qed

lemma wildmat_ok: "gparse p = Some ps \<Longrightarrow> wildmat t p = Some (gmatch ps t)"
  using DoMatch_ok [of p ps t] by (auto simp: answers_def wildmat_def split: wm.split)

end
