(* ===== verification/Article_Text.thy ===== *)
theory Article_Text
  imports NC_Prelude
begin

text \<open>
  NServer-0.9.1/readline.cc and Article.{h,cc}: reading lines and dot-terminated texts
  from a stream, and an article as one string whose header is searched, read and changed
  in place. A pointer into the text is the suffix it points to.
\<close>

section \<open>readline.cc\<close>

text \<open>An \<open>istream\<close>: what is left of the input, \<open>eofbit\<close>, \<open>failbit\<close>.\<close>

record istream =
  inp :: string
  is_eof :: bool
  is_fail :: bool

definition good :: "istream \<Rightarrow> bool" where
  "good is \<longleftrightarrow> \<not> is_eof is \<and> \<not> is_fail is"

text \<open>\<open>std::getline\<close>; the string keeps its value when the stream is not good.\<close>

definition getline :: "istream \<Rightarrow> string \<Rightarrow> string \<times> istream" where
  "getline is old =
     (if \<not> good is then (old, is\<lparr>is_fail := True\<rparr>)
      else
        let l = takeWhile (\<lambda>c. c \<noteq> LF) (inp is)
        in case dropWhile (\<lambda>c. c \<noteq> LF) (inp is) of
             [] \<Rightarrow> (l, is\<lparr>inp := [], is_eof := True, is_fail := (l = [])\<rparr>)
           | _ # r \<Rightarrow> (l, is\<lparr>inp := r\<rparr>))"

definition is_eol :: "char \<Rightarrow> bool" where
  "is_eol c \<longleftrightarrow> c = CR \<or> c = LF"

text \<open>All line ends at the end of the line are cut off; \<open>keepnl\<close> puts one CRLF there.\<close>

definition strip_eol :: "string \<Rightarrow> string" where
  "strip_eol l = rev (dropWhile is_eol (rev l))"

definition nlreadline :: "istream \<Rightarrow> string \<Rightarrow> bool \<Rightarrow> string \<times> istream" where
  "nlreadline is strg keepnl =
     (let (l, is') = getline is strg
      in (strip_eol l @ (if keepnl then CRLF else []), is'))"

lemma getline_shorter:
  assumes "good is" and "getline is old = (l, is')" and "good is'"
  shows "length (inp is') < length (inp is)"
proof (cases "dropWhile (\<lambda>c. c \<noteq> LF) (inp is)")
  case Nil
  from assms(1,2) have "is_eof is'" unfolding getline_def Let_def Nil by auto
  with assms(3) show ?thesis by (simp add: good_def)
next
  case (Cons c r)
  have "length (dropWhile (\<lambda>c. c \<noteq> LF) (inp is)) \<le> length (inp is)" by (rule length_dropWhile_le)
  then have "length r < length (inp is)" unfolding Cons by simp
  moreover from assms(1,2) have "inp is' = r" unfolding getline_def Let_def Cons by auto
  ultimately show ?thesis by simp
qed

function readtext_loop ::
  "istream \<Rightarrow> string \<Rightarrow> bool \<Rightarrow> string \<Rightarrow> string \<Rightarrow> nat \<Rightarrow> string \<times> nat \<times> istream" where
  "readtext_loop is line keepnl eot strg lines =
     (let (line', is') = nlreadline is line keepnl
      in if line' = eot then (strg, lines, is')
         else if \<not> good is' then (strg, lines, is')
         else readtext_loop is' line' keepnl eot (strg @ line') (lines + 1))"
  by pat_completeness auto
termination
proof (relation "measure (\<lambda>(is, l, k, e, s, n). length (inp is))", goal_cases)
  case (2 i line keepnl eot strg lines x line' i')
  then obtain l where g: "getline i line = (l, i')"
    by (auto simp: nlreadline_def split: prod.splits)
  have "good i'" using 2 by simp
  moreover from this have "good i" using g by (auto simp: getline_def good_def split: if_splits)
  ultimately show ?case using getline_shorter [OF _ g] by simp
qed simp

declare readtext_loop.simps [simp del]

definition readtext :: "istream \<Rightarrow> string \<Rightarrow> bool \<Rightarrow> string \<Rightarrow> string \<times> nat \<times> istream" where
  "readtext is strg keepnl eot = readtext_loop is [] keepnl eot strg 0"

text \<open>A line without line ends in it.\<close>

definition plain_line :: "string \<Rightarrow> bool" where
  "plain_line l \<longleftrightarrow> (\<forall>c \<in> set l. \<not> is_eol c)"

lemma strip_eol_plain: "plain_line l \<Longrightarrow> strip_eol (l @ [CR]) = l"
proof -
  assume "plain_line l"
  then have "\<forall>c \<in> set (rev l). \<not> is_eol c" by (simp add: plain_line_def)
  then have "dropWhile is_eol (rev l) = rev l" by (cases "rev l") auto
  then show ?thesis by (simp add: strip_eol_def is_eol_def)
qed

section \<open>Article.h, Article.cc\<close>

record article =
  art_nbr :: int
  art_text :: string

definition article_new :: article where
  "article_new = \<lparr>art_nbr = 0, art_text = []\<rparr>"

definition article_nbr :: "int \<Rightarrow> article" where
  "article_nbr n = \<lparr>art_nbr = n, art_text = []\<rparr>"

definition article_of :: "int \<Rightarrow> string \<Rightarrow> nat \<Rightarrow> article" where
  "article_of n t len = \<lparr>art_nbr = n, art_text = take len t\<rparr>"

definition article_copy :: "article \<Rightarrow> article" where
  "article_copy a = \<lparr>art_nbr = art_nbr a, art_text = art_text a\<rparr>"

definition read_article :: "article \<Rightarrow> istream \<Rightarrow> article \<times> istream" where
  "read_article a is =
     (let (t, _, is') = readtext is [] True (''.'' @ CRLF) in (a\<lparr>art_text := t\<rparr>, is'))"

definition setnbr :: "article \<Rightarrow> int \<Rightarrow> article" where
  "setnbr a n = a\<lparr>art_nbr := n\<rparr>"

definition clear_article :: "article \<Rightarrow> article" where
  "clear_article a = a\<lparr>art_nbr := 0, art_text := []\<rparr>"

definition settext :: "article \<Rightarrow> string \<Rightarrow> article" where
  "settext a t = a\<lparr>art_text := t\<rparr>"

definition getnbr :: "article \<Rightarrow> int" where
  "getnbr a = art_nbr a"

definition GetText :: "article \<Rightarrow> string" where
  "GetText a = art_text a"

definition article_length :: "article \<Rightarrow> int" where
  "article_length a = i32 (int (length (art_text a)))"

definition ctext :: "article \<Rightarrow> string" where
  "ctext a = c_str (art_text a)"

subsection \<open>Searching the header\<close>

text \<open>\<open>hdrbuf\<close>: the name in lower case; of a name of 512 characters or more, 511.\<close>

definition hdrbuf :: "string \<Rightarrow> string" where
  "hdrbuf ifld = (if length ifld < 512 then map tolower ifld else take 511 (map tolower ifld))"

text \<open>The comparison at the start of a line: the rest of the name and of the text.\<close>

fun match_name :: "string \<Rightarrow> string \<Rightarrow> string \<times> string" where
  "match_name (c # p) (d # q) = (if c = tolower d then match_name p q else (c # p, d # q))"
| "match_name p q = (p, q)"

definition to_eol :: "string \<Rightarrow> string" where
  "to_eol q = dropWhile (\<lambda>c. \<not> is_eol c) q"

lemma match_name_shorter: "length (snd (match_name p q)) \<le> length q"
  by (induction p q rule: match_name.induct) auto

lemma to_eol_shorter: "length (to_eol q) \<le> length q"
  by (simp add: to_eol_def length_dropWhile_le)

function find_from :: "string \<Rightarrow> string \<Rightarrow> string outcome" where
  "find_from name q =
     (let (p, q1) = match_name name q
      in if p = [] then Ok q
         else
           let q2 = to_eol q1
           in if q2 = [] then Throw (InvalidArticleError ''unterminated header, no body'')
              else if deref q2 = LF \<or> deref q2 = CR \<and> chr_at q2 1 = LF then
                (let q3 = (if deref q2 = CR then drop 2 q2 else tl q2)
                 in if is_eol (deref q3) then Ok q3 else find_from name q3)
              else Throw (InvalidArticleError ''line not terminated with CRLF/LF''))"
  by pat_completeness auto
termination
proof (relation "measure (\<lambda>(name, q). length q)", goal_cases)
  case (2 name q x p q1 q2 q3)
  have "length q1 \<le> length q" using match_name_shorter [of name q] 2 by (metis snd_conv)
  moreover have "length q2 \<le> length q1" using to_eol_shorter 2 by metis
  moreover have "length q3 < length q2" using 2 by (cases q2) auto
  ultimately show ?case by simp
qed simp

declare find_from.simps [simp del]

definition find_field :: "article \<Rightarrow> string \<Rightarrow> string outcome" where
  "find_field a ifld = find_from (hdrbuf ifld) (ctext a)"

definition has_field :: "article \<Rightarrow> string \<Rightarrow> bool outcome" where
  "has_field a ifld =
     (case find_field a ifld of
        Ok q \<Rightarrow> Ok (deref q \<noteq> NUL \<and> \<not> is_eol (deref q))
      | Throw e \<Rightarrow> Throw e | Crash \<Rightarrow> Crash | Diverge \<Rightarrow> Diverge)"

subsection \<open>Reading a field\<close>

definition is_blank :: "char \<Rightarrow> bool" where
  "is_blank c \<longleftrightarrow> c = CHR '' '' \<or> c = TAB"

text \<open>The end of a line of the field; after it the article must go on.\<close>

definition next_line :: "string \<Rightarrow> string outcome" where
  "next_line p =
     (if deref p = CR \<and> chr_at p 1 \<noteq> LF
      then Throw (InvalidArticleError ''illegaly terminated line, neither <lf> nor <cr><lf>'')
      else
        let p' = (if deref p = LF then tl p else if deref p = CR then drop 2 p else p)
        in if p' = [] then Throw (InvalidArticleError ''article without body'') else Ok p')"

lemma next_line_shorter: "next_line p = Ok p' \<Longrightarrow> length p' \<le> length p"
  by (auto simp: next_line_def Let_def split: if_splits)

lemma deref_blank_shorter:
  "is_blank (deref p) \<Longrightarrow> length (to_eol (dropWhile is_blank p)) < length p"
  using to_eol_shorter [of "dropWhile is_blank p"] length_dropWhile_le [of is_blank "tl p"]
  by (cases p) (auto simp: is_blank_def)

function more_lines :: "string \<Rightarrow> string \<Rightarrow> string outcome" where
  "more_lines p rfld =
     (if is_blank (deref p) then
        (let p1 = dropWhile is_blank p;
             l = takeWhile (\<lambda>c. \<not> is_eol c) p1
         in case next_line (to_eol p1) of
              Ok p' \<Rightarrow> more_lines p' (rfld @ l)
            | Throw e \<Rightarrow> Throw e | Crash \<Rightarrow> Crash | Diverge \<Rightarrow> Diverge)
      else Ok rfld)"
  by pat_completeness auto
termination
proof (relation "measure (\<lambda>(p, r). length p)", goal_cases)
  case (2 p rfld x l p')
  have "length p' \<le> length (to_eol x)" using next_line_shorter 2 by metis
  also have "\<dots> < length p" using deref_blank_shorter 2 by metis
  finally show ?case by simp
qed simp

declare more_lines.simps [simp del]

definition getfield :: "article \<Rightarrow> string \<Rightarrow> bool \<Rightarrow> string outcome" where
  "getfield a ifld full =
     (if strcaseeq ifld ''bytes:'' then Ok (show_nat (length (art_text a)))
      else case find_field a ifld of
        Ok fld \<Rightarrow>
          if is_eol (deref fld) then Throw (NoSuchFieldError ifld)
          else if length fld < length ifld then Crash
          else
            let p = dropWhile is_blank (drop (length ifld) fld);
                fld' = (if full then fld else p);
                q = to_eol p;
                rfld = take (length fld' - length q) fld'
            in (case next_line q of
                  Ok p' \<Rightarrow> more_lines p' rfld
                | Throw e \<Rightarrow> Throw e | Crash \<Rightarrow> Crash | Diverge \<Rightarrow> Diverge)
      | Throw e \<Rightarrow> Throw e | Crash \<Rightarrow> Crash | Diverge \<Rightarrow> Diverge)"

subsection \<open>Changing a field\<close>

definition skip_eol :: "string \<Rightarrow> string" where
  "skip_eol p =
     (let p1 = (if deref p = LF then tl p else p)
      in if deref p1 = CR \<and> chr_at p1 1 = LF then drop 2 p1 else p1)"

lemma skip_eol_shorter: "length (skip_eol p) \<le> length p"
  by (auto simp: skip_eol_def Let_def)

text \<open>The continuation lines; \<open>None\<close>: no line end to stop at.\<close>

function skip_more :: "string \<Rightarrow> string option" where
  "skip_more p =
     (if isspace (deref p) \<and> \<not> is_eol (deref p) then
        (let p1 = dropWhile isspace p
         in if to_eol p1 = [] then None else skip_more (skip_eol (to_eol p1)))
      else Some p)"
  by pat_completeness auto
termination
proof (relation "measure length", goal_cases)
  case (2 p p1)
  have "length (to_eol p1) \<le> length p1" by (rule to_eol_shorter)
  moreover have "length p1 < length p"
    using 2 length_dropWhile_le [of isspace "tl p"] by (cases p) (auto simp: deref_def)
  moreover have "length (skip_eol (to_eol p1)) \<le> length (to_eol p1)" by (rule skip_eol_shorter)
  ultimately show ?case by simp
qed simp

declare skip_more.simps [simp del]

definition setfield :: "article \<Rightarrow> string \<Rightarrow> string \<Rightarrow> article outcome" where
  "setfield a ifld field_data =
     (case find_field a ifld of
        Ok fld \<Rightarrow>
          let k = length (ctext a) - length fld
          in if is_eol (deref fld)
             then Ok (a\<lparr>art_text := take k (art_text a) @ field_data @ drop k (art_text a)\<rparr>)
             else if length fld < length ifld then Crash
             else
               let p = skip_eol (to_eol (dropWhile isspace (drop (length ifld) fld)))
               in (case skip_more p of
                     None \<Rightarrow> Crash
                   | Some p' \<Rightarrow>
                       let n = length (ctext a) - length p'
                       in Ok (a\<lparr>art_text := take k (art_text a) @ field_data @ drop n (art_text a)\<rparr>))
      | Throw e \<Rightarrow> Throw e | Crash \<Rightarrow> Crash | Diverge \<Rightarrow> Diverge)"

subsection \<open>Writing\<close>

text \<open>The end of the header: the last line end before the empty line.\<close>

function header_end :: "string \<Rightarrow> string" where
  "header_end q0 =
     (let q = to_eol q0
      in if q = [] then []
         else if deref q = CR \<and> chr_at q 1 = LF \<and> chr_at q 2 = CR \<and> chr_at q 3 = LF then drop 2 q
         else if deref q = LF \<and> chr_at q 1 = LF then tl q
         else header_end (dropWhile is_eol q))"
  by pat_completeness auto
termination
proof (relation "measure length", goal_cases)
  case (2 q0 q)
  have "length q \<le> length q0" using to_eol_shorter 2 by metis
  moreover have "q \<noteq> []" "is_eol (hd q)"
    using 2 hd_dropWhile [of "\<lambda>c. \<not> is_eol c" q0] by (auto simp: to_eol_def)
  then have "length (dropWhile is_eol q) < length q"
    using length_dropWhile_le [of is_eol "tl q"] by (cases q) auto
  ultimately show ?case by simp
qed simp

declare header_end.simps [simp del]

text \<open>
  For a body that begins with a single LF the code moves \<open>p\<close> instead of \<open>q\<close>: the LF stays,
  and one byte too many is written, the terminating zero.
\<close>

definition write_article :: "article \<Rightarrow> bool \<Rightarrow> bool \<Rightarrow> string" where
  "write_article a head body =
     (if head \<and> body then art_text a
      else
        let q = header_end (ctext a);
            k = length (ctext a) - length q
        in if head then take k (art_text a)
           else if body then
             (if deref q = LF then drop k (art_text a) @ [NUL]
              else if deref q = CR \<and> chr_at q 1 = LF then drop (k + 2) (art_text a)
              else drop k (art_text a))
           else [])"

end
