(* ===== verification/Article_Ok.thy ===== *)
theory Article_Ok
  imports Article_Text
begin

text \<open>
  The article text as a list of header fields and a body: \<open>getfield\<close>, \<open>setfield\<close> and \<open>write\<close>
  act on that list; a dot-terminated text is read back as it was sent.
\<close>

section \<open>Reading lines\<close>

lemma nlreadline_line:
  assumes "plain_line l" and "good is" and "inp is = l @ CRLF @ r"
  shows "nlreadline is old True = (l @ CRLF, is\<lparr>inp := r\<rparr>)"
proof -
  have "\<forall>c \<in> set (l @ [CR]). c \<noteq> LF" using assms(1) by (auto simp: plain_line_def is_eol_def)
  from takeWhile_stop [OF this, of LF r] assms(3)
  have "takeWhile (\<lambda>c. c \<noteq> LF) (inp is) = l @ [CR]" "dropWhile (\<lambda>c. c \<noteq> LF) (inp is) = LF # r"
    by (simp_all add: CRLF_def)
  then show ?thesis
    using assms(2) unfolding nlreadline_def getline_def Let_def
    by (simp add: strip_eol_plain [OF assms(1)])
qed

lemma readtext_ok:
  assumes "\<forall>l \<in> set ls. plain_line l \<and> l \<noteq> ''.''" and "good is"
    and "inp is = concat (map (\<lambda>l. l @ CRLF) ls) @ ''.'' @ CRLF @ rest"
  shows "readtext_loop is old True (''.'' @ CRLF) acc n
    = (acc @ concat (map (\<lambda>l. l @ CRLF) ls), n + length ls, is\<lparr>inp := rest\<rparr>)"
  using assms
proof (induction ls arbitrary: "is" old acc n)
  case Nil
  have "nlreadline is old True = (''.'' @ CRLF, is\<lparr>inp := rest\<rparr>)"
    by (rule nlreadline_line) (use Nil in \<open>auto simp: plain_line_def is_eol_def\<close>)
  then show ?case by (subst readtext_loop.simps) (simp add: Let_def)
next
  case (Cons l ls)
  let ?r = "concat (map (\<lambda>l. l @ CRLF) ls) @ ''.'' @ CRLF @ rest"
  have "nlreadline is old True = (l @ CRLF, is\<lparr>inp := ?r\<rparr>)"
    by (rule nlreadline_line) (use Cons.prems in auto)
  moreover have "l @ CRLF \<noteq> ''.'' @ CRLF" using Cons.prems by simp
  moreover have "good (is\<lparr>inp := ?r\<rparr>)" using Cons.prems by (simp add: good_def)
  ultimately show ?case
    using Cons.IH [of "is\<lparr>inp := ?r\<rparr>"] Cons.prems
    by (subst readtext_loop.simps) (simp add: Let_def)
qed

section \<open>Header fields\<close>

type_synonym field = "string \<times> string"

definition field_line :: "field \<Rightarrow> string" where
  "field_line f = fst f @ '': '' @ snd f @ CRLF"

definition compose :: "field list \<Rightarrow> string \<Rightarrow> string" where
  "compose fs body = concat (map field_line fs) @ CRLF @ body"

definition ok_name :: "string \<Rightarrow> bool" where
  "ok_name n \<longleftrightarrow> n \<noteq> [] \<and> (\<forall>c \<in> set n. \<not> isspace c \<and> c \<noteq> CHR '':'' \<and> c \<noteq> NUL)"

definition ok_value :: "string \<Rightarrow> bool" where
  "ok_value v \<longleftrightarrow> plain_line v \<and> NUL \<notin> set v \<and> (v = [] \<or> \<not> isspace (hd v))"

definition ok_fields :: "field list \<Rightarrow> bool" where
  "ok_fields fs \<longleftrightarrow> (\<forall>(n, v) \<in> set fs. ok_name n \<and> ok_value v)"

definition same_name :: "string \<Rightarrow> field \<Rightarrow> bool" where
  "same_name n f \<longleftrightarrow> map tolower (fst f) = map tolower n"

lemma compose_simps [simp]:
  "compose [] body = CR # LF # body"
  "compose (f # fs) body = fst f @ CHR '':'' # CHR '' '' # snd f @ CR # LF # compose fs body"
  by (simp_all add: compose_def field_line_def CRLF_def)

lemma compose_nonempty [simp]: "compose fs body \<noteq> []"
  by (cases fs) auto

lemma eol_space: "is_eol c \<Longrightarrow> isspace c"
  by (auto simp: is_eol_def isspace_def)

lemma blank_space: "is_blank c \<Longrightarrow> isspace c"
  by (auto simp: is_blank_def isspace_def)

lemma ok_name_chars:
  assumes "ok_name n"
  shows "CHR '':'' \<notin> set n" "NUL \<notin> set n" "\<forall>c \<in> set n. \<not> is_eol c" "\<forall>c \<in> set n. \<not> is_blank c"
proof -
  have n: "\<And>c. c \<in> set n \<Longrightarrow> \<not> isspace c \<and> c \<noteq> CHR '':'' \<and> c \<noteq> NUL" using assms by (simp add: ok_name_def)
  show "CHR '':'' \<notin> set n" using n [of "CHR '':''"] by blast
  show "NUL \<notin> set n" using n [of NUL] by blast
  show "\<forall>c \<in> set n. \<not> is_eol c" using n eol_space by blast
  show "\<forall>c \<in> set n. \<not> is_blank c" using n blank_space by blast
qed

lemma char_kinds [simp]:
  "is_eol CR" "is_eol LF" "\<not> is_blank CR" "\<not> is_blank LF" "\<not> is_eol CHR '' ''" "\<not> is_eol CHR '':''"
  "isspace CR" "isspace LF" "isspace CHR '' ''" "is_blank CHR '' ''"
  by (simp_all add: is_eol_def is_blank_def isspace_def)

lemma deref_compose:
  assumes "ok_fields fs" and "fs \<noteq> []"
  shows "\<not> isspace (deref (compose fs body)) \<and> deref (compose fs body) \<noteq> NUL"
proof -
  obtain n v fs' where fs: "fs = (n, v) # fs'" using assms(2) by (metis list.exhaust prod.exhaust)
  then have "ok_name n" using assms(1) by (simp add: ok_fields_def)
  moreover from this obtain c n' where "n = c # n'" by (cases n) (auto simp: ok_name_def)
  ultimately show ?thesis by (simp add: fs ok_name_def)
qed

lemma deref_compose_blank: "ok_fields fs \<Longrightarrow> \<not> is_blank (deref (compose fs body))"
  using deref_compose [of fs body] blank_space by (cases "fs = []") auto

lemma tolower_char: "tolower c = d \<Longrightarrow> \<not> (97 \<le> (of_char d :: nat) \<and> (of_char d :: nat) \<le> 122) \<Longrightarrow> c = d"
  by (auto simp: tolower_def split: if_splits)

lemma tolower_colon [simp]: "tolower c = CHR '':'' \<longleftrightarrow> c = CHR '':''"
proof
  assume "tolower c = CHR '':''"
  then show "c = CHR '':''" by (rule tolower_char) simp
qed (simp add: tolower_def)

lemma tolower_colon_eq [simp]: "tolower CHR '':'' = CHR '':''"
  by simp

lemma tolower_eol [simp]: "is_eol (tolower c) \<longleftrightarrow> is_eol c"
proof
  assume "is_eol (tolower c)"
  then have "tolower c = CR \<or> tolower c = LF" by (simp add: is_eol_def)
  then have "c = CR \<or> c = LF" using tolower_char [of c CR] tolower_char [of c LF] by auto
  then show "is_eol c" by (simp add: is_eol_def)
qed (auto simp: is_eol_def tolower_def)

lemma match_name_eol:
  "\<forall>c \<in> set p. \<not> is_eol c \<Longrightarrow> to_eol (snd (match_name p q)) = to_eol q"
proof (induction p q rule: match_name.induct)
  case (1 c p d q)
  show ?case
  proof (cases "c = tolower d")
    case True
    with 1 have "\<not> is_eol d" by auto
    with 1 True show ?thesis by (simp add: to_eol_def)
  qed simp
qed auto

lemma match_name_full:
  "fst (match_name p q) = [] \<longleftrightarrow> take (length p) (map tolower q) = p"
  by (induction p q rule: match_name.induct) auto

lemma colon_prefix:
  assumes "CHR '':'' \<notin> set a" and "CHR '':'' \<notin> set b"
  shows "take (length a + 1) (b @ CHR '':'' # r) = a @ '':'' \<longleftrightarrow> a = b"
  using assms
proof (induction a arbitrary: b)
  case Nil
  then show ?case by (cases b) auto
next
  case (Cons x a)
  then show ?case by (cases b) auto
qed

text \<open>The search stops at the first field of the name, or at the empty line.\<close>

lemma to_eol_line: "plain_line l \<Longrightarrow> to_eol (l @ CR # r) = CR # r"
  using takeWhile_stop [of l "\<lambda>c. \<not> is_eol c" CR r] by (simp add: to_eol_def plain_line_def is_eol_def)

lemma name_no_colon:
  assumes "ok_name n"
  shows "CHR '':'' \<notin> set (map tolower n)"
proof
  assume "CHR '':'' \<in> set (map tolower n)"
  then obtain c where "c \<in> set n" "CHR '':'' = tolower c" unfolding set_map by blast
  then have "CHR '':'' \<in> set n" using tolower_colon [of c] by simp
  with ok_name_chars(1) [OF assms] show False by blast
qed

lemma plain_field:
  assumes "ok_name n" and "ok_value v"
  shows "plain_line (n @ CHR '':'' # CHR '' '' # v)"
proof -
  have "\<forall>c \<in> set v. \<not> is_eol c" using assms(2) unfolding ok_value_def plain_line_def by blast
  with ok_name_chars(3) [OF assms(1)] show ?thesis unfolding plain_line_def by (simp add: ball_Un)
qed

lemma find_from_hit: "fst (match_name p t) = [] \<Longrightarrow> find_from p t = Ok t"
  by (subst find_from.simps) (simp add: case_prod_beta Let_def)

lemma find_from_next:
  assumes "fst (match_name p t) \<noteq> []" and "to_eol (snd (match_name p t)) = CR # LF # r"
  shows "find_from p t = (if is_eol (deref r) then Ok r else find_from p r)"
  using assms by (subst find_from.simps) (simp add: case_prod_beta Let_def chr_at_def)

text \<open>The first field that the name fits, whatever fitting is.\<close>

lemma find_from_first:
  assumes "\<forall>c \<in> set p. \<not> is_eol c" and "ok_fields fs" and "fs \<noteq> []"
    and full: "\<And>f fs. ok_fields (f # fs) \<Longrightarrow> fst (match_name p (compose (f # fs) body)) = [] \<longleftrightarrow> P f"
  shows "find_from p (compose fs body) = Ok (compose (dropWhile (\<lambda>f. \<not> P f) fs) body)"
  using assms(2,3)
proof (induction fs)
  case (Cons f fs)
  obtain m v where f: "f = (m, v)" by (cases f)
  have m: "ok_name m" "ok_value v" "ok_fields fs" using Cons.prems f by (auto simp: ok_fields_def)
  let ?t = "compose (f # fs) body"
  note full = full [OF Cons.prems(1)]
  show ?case
  proof (cases "P f")
    case True
    with full have "find_from p ?t = Ok ?t" by (intro find_from_hit) blast
    with True show ?thesis by simp
  next
    case False
    have "to_eol (snd (match_name p ?t)) = to_eol ?t" by (rule match_name_eol [OF assms(1)])
    also have "\<dots> = CR # LF # compose fs body"
      using to_eol_line [OF plain_field [OF m(1,2)], of "LF # compose fs body"] f by simp
    finally have q: "to_eol (snd (match_name p ?t)) = CR # LF # compose fs body" .
    have step: "find_from p ?t = (if is_eol (deref (compose fs body)) then Ok (compose fs body)
        else find_from p (compose fs body))"
      using full False q by (intro find_from_next) blast+
    show ?thesis
    proof (cases "fs = []")
      case True
      with step False show ?thesis by (simp add: is_eol_def)
    next
      case ne: False
      have "\<not> is_eol (deref (compose fs body))" using deref_compose [OF m(3) ne] eol_space by blast
      with step False Cons.IH [OF m(3) ne] show ?thesis by simp
    qed
  qed
qed simp

lemma lower_line:
  "map tolower (compose ((m, v) # fs) body)
     = map tolower m @ CHR '':'' # map tolower (CHR '' '' # v @ CR # LF # compose fs body)"
  by simp

lemma find_from_ok:
  assumes "ok_name n" and "ok_fields fs" and "fs \<noteq> []"
  shows "find_from (map tolower n @ '':'') (compose fs body)
    = Ok (compose (dropWhile (\<lambda>f. \<not> same_name n f) fs) body)"
proof (rule find_from_first [OF _ assms(2,3)])
  show "\<forall>c \<in> set (map tolower n @ '':''). \<not> is_eol c" using ok_name_chars(3) [OF assms(1)] by auto
  fix f fs assume "ok_fields (f # fs)"
  then obtain m v where f: "f = (m, v)" "ok_name m" by (cases f) (auto simp: ok_fields_def)
  then show "fst (match_name (map tolower n @ '':'') (compose (f # fs) body)) = [] \<longleftrightarrow> same_name n f"
    using colon_prefix [OF name_no_colon [OF assms(1)] name_no_colon [OF f(2)]]
    by (auto simp: match_name_full same_name_def lower_line simp del: compose_simps)
qed

text \<open>Without the colon also a longer name fits.\<close>

definition name_starts :: "string \<Rightarrow> field \<Rightarrow> bool" where
  "name_starts n f \<longleftrightarrow> take (length n) (map tolower (fst f)) = map tolower n"

lemma short_prefix:
  assumes "c \<notin> set a"
  shows "take (length a) (b @ c # r) = a \<longleftrightarrow> take (length a) b = a"
proof (cases "length a \<le> length b")
  case False
  then have "c \<in> set (take (length a) (b @ c # r))" by (cases "length a - length b") simp_all
  with assms False show ?thesis by (metis length_take min.cobounded1 order_refl)
qed simp

lemma find_from_starts:
  assumes "ok_name n" and "ok_fields fs" and "fs \<noteq> []"
  shows "find_from (map tolower n) (compose fs body)
    = Ok (compose (dropWhile (\<lambda>f. \<not> name_starts n f) fs) body)"
proof (rule find_from_first [OF _ assms(2,3)])
  show "\<forall>c \<in> set (map tolower n). \<not> is_eol c" using ok_name_chars(3) [OF assms(1)] by auto
  fix f fs assume "ok_fields (f # fs)"
  obtain m v where f: "f = (m, v)" by (cases f)
  show "fst (match_name (map tolower n) (compose (f # fs) body)) = [] \<longleftrightarrow> name_starts n f"
    using short_prefix [OF name_no_colon [OF assms(1)], of "map tolower m"]
    by (simp add: match_name_full name_starts_def lower_line f del: compose_simps)
qed

lemma ctext_compose:
  assumes "ok_fields fs" and "NUL \<notin> set body"
  shows "c_str (compose fs body) = compose fs body"
proof -
  have "NUL \<notin> set (compose fs body)"
    using assms(1)
  proof (induction fs)
    case (Cons f fs)
    then show ?case by (cases f) (auto simp: ok_fields_def ok_name_def ok_value_def)
  qed (use assms(2) in simp)
  then show ?thesis by (rule c_str_id)
qed

definition art :: "field list \<Rightarrow> string \<Rightarrow> article" where
  "art fs body = \<lparr>art_nbr = 0, art_text = compose fs body\<rparr>"

lemma find_field_ok:
  assumes "ok_name n" and "ok_fields fs" and "fs \<noteq> []" and "NUL \<notin> set body" and "length n < 511"
  shows "find_field (art fs body) (n @ '':'')
    = Ok (compose (dropWhile (\<lambda>f. \<not> same_name n f) fs) body)"
  using find_from_ok [OF assms(1-3), of body] ctext_compose [OF assms(2,4)] assms(5)
  by (simp add: find_field_def hdrbuf_def ctext_def art_def del: compose_simps)

section \<open>Reading, replacing and writing fields\<close>

lemma value_to_eol:
  assumes "ok_value v"
  shows "to_eol (v @ CR # r) = CR # r" and "takeWhile (\<lambda>c. \<not> is_eol c) (v @ CR # r) = v"
    and "dropWhile is_blank (CHR '' '' # v @ CR # r) = v @ CR # r"
proof -
  have "plain_line v" using assms by (simp add: ok_value_def)
  then show "to_eol (v @ CR # r) = CR # r" by (rule to_eol_line)
  show "takeWhile (\<lambda>c. \<not> is_eol c) (v @ CR # r) = v"
    using takeWhile_stop [of v "\<lambda>c. \<not> is_eol c" CR r] \<open>plain_line v\<close> by (simp add: plain_line_def)
  show "dropWhile is_blank (CHR '' '' # v @ CR # r) = v @ CR # r"
    using assms blank_space by (cases v) (auto simp: ok_value_def)
qed

lemma ok_fields_suffix: "ok_fields fs \<Longrightarrow> ok_fields (dropWhile P fs)"
  by (auto simp: ok_fields_def dest: set_dropWhileD)

lemma ok_fields_Cons: "ok_fields ((m, v) # fs) \<longleftrightarrow> ok_name m \<and> ok_value v \<and> ok_fields fs"
  by (auto simp: ok_fields_def)

lemma drop_name: "drop (Suc (length m)) (m @ CHR '':'' # r) = r"
  by simp

lemma more_lines_done: "\<not> is_blank (deref p) \<Longrightarrow> more_lines p r = Ok r"
  by (subst more_lines.simps) simp

lemma find_dropWhile:
  "find P xs = (case dropWhile (\<lambda>x. \<not> P x) xs of [] \<Rightarrow> None | x # _ \<Rightarrow> Some x)"
  by (induction xs) auto

lemma getfield_ok:
  assumes "ok_name n" and "ok_fields fs" and "fs \<noteq> []" and "NUL \<notin> set body" and "length n < 511"
    and "\<not> strcaseeq (n @ '':'') ''bytes:''"
  shows "getfield (art fs body) (n @ '':'') False =
    (case find (same_name n) fs of
       None \<Rightarrow> Throw (NoSuchFieldError (n @ '':''))
     | Some f \<Rightarrow> Ok (snd f))"
proof (cases "dropWhile (\<lambda>f. \<not> same_name n f) fs")
  case Nil
  then have "find_field (art fs body) (n @ '':'') = Ok (CR # LF # body)"
    using find_field_ok [OF assms(1-5)] by (simp only: compose_simps)
  moreover have "find (same_name n) fs = None" by (simp only: find_dropWhile Nil list.case)
  ultimately show ?thesis using assms(6) by (simp add: getfield_def)
next
  case (Cons f fs')
  obtain m v where f: "f = (m, v)" by (cases f)
  have "ok_fields (f # fs')" using ok_fields_suffix [OF assms(2)] Cons by metis
  then have ok: "ok_name m" "ok_value v" "ok_fields fs'" by (simp_all add: f ok_fields_Cons)
  have "same_name n f" using Cons hd_dropWhile [of "\<lambda>f. \<not> same_name n f" fs] by simp
  then have len: "length m = length n" by (auto simp: same_name_def f dest: map_eq_imp_length_eq)
  let ?r = "LF # compose fs' body"
  let ?t = "m @ CHR '':'' # CHR '' '' # v @ CR # ?r"
  have ff: "find_field (art fs body) (n @ '':'') = Ok ?t"
    using find_field_ok [OF assms(1-5)] unfolding Cons by (simp add: f)
  have d0: "\<not> is_eol (deref ?t)" using ok(1) ok_name_chars(3) [OF ok(1)] by (cases m) (auto simp: ok_name_def)
  have dr: "drop (length (n @ '':'')) ?t = CHR '' '' # v @ CR # ?r" using len by simp
  have nl: "next_line (CR # ?r) = Ok (compose fs' body)"
    by (simp add: next_line_def chr_at_def)
  have find: "find (same_name n) fs = Some f" by (simp only: find_dropWhile Cons list.case)
  have "getfield (art fs body) (n @ '':'') False
      = more_lines (compose fs' body) (take (length (v @ CR # ?r) - length (CR # ?r)) (v @ CR # ?r))"
    using assms(6) d0 len unfolding getfield_def ff outcome.case Let_def dr value_to_eol [OF ok(2)] nl
    by simp
  also have "\<dots> = Ok v"
    using more_lines_done [OF deref_compose_blank [OF ok(3)]] by simp
  finally show ?thesis by (simp add: find f)
qed

lemma getfield_starts:
  assumes "ok_name n" and "ok_fields fs" and "NUL \<notin> set body" and "length n < 512"
    and "\<not> strcaseeq n ''bytes:''" and ex: "\<exists>f \<in> set fs. name_starts n f"
  shows "\<exists>v. getfield (art fs body) n False = Ok v"
proof -
  have ne: "fs \<noteq> []" using ex by auto
  obtain f fs' where Cons: "dropWhile (\<lambda>f. \<not> name_starts n f) fs = f # fs'" "name_starts n f"
    using ex hd_dropWhile [of "\<lambda>f. \<not> name_starts n f" fs] dropWhile_eq_Nil_conv [of "\<lambda>f. \<not> name_starts n f" fs]
    by (metis list.exhaust list.sel(1))
  obtain m v where f: "f = (m, v)" by (cases f)
  have "ok_fields (f # fs')" using ok_fields_suffix [OF assms(2)] Cons(1) by metis
  then have ok: "ok_name m" "ok_value v" "ok_fields fs'" by (simp_all add: f ok_fields_Cons)
  have len: "length n \<le> length m"
    using Cons(2) by (metis f fst_conv length_map length_take min.absorb_iff2 min.commute name_starts_def)
  let ?r = "LF # compose fs' body" and ?l = "drop (length n) (m @ CHR '':'' # CHR '' '' # v)"
  let ?t = "m @ CHR '':'' # CHR '' '' # v @ CR # ?r" and ?p = "dropWhile is_blank ?l"
  have "c_str (compose fs body) = compose fs body" by (rule ctext_compose [OF assms(2,3)])
  then have ff: "find_field (art fs body) n = Ok ?t"
    using find_from_starts [OF assms(1,2) ne, of body] assms(4) Cons(1)
    by (simp add: find_field_def hdrbuf_def ctext_def art_def f)
  have d0: "\<not> is_eol (deref ?t)" using ok(1) ok_name_chars(3) [OF ok(1)] by (cases m) (auto simp: ok_name_def)
  have dr: "drop (length n) ?t = ?l @ CR # ?r" using len by simp
  have "dropWhile is_blank (?l @ CR # ?r) = ?p @ CR # ?r"
    by (cases "\<forall>c \<in> set ?l. is_blank c") (auto simp: dropWhile_append)
  moreover have "plain_line ?p"
  proof -
    have "plain_line (m @ CHR '':'' # CHR '' '' # v)" by (rule plain_field [OF ok(1,2)])
    then show ?thesis unfolding plain_line_def by (meson in_set_dropD set_dropWhileD)
  qed
  then have "to_eol (?p @ CR # ?r) = CR # ?r" by (rule to_eol_line)
  moreover have nl: "next_line (CR # ?r) = Ok (compose fs' body)" by (simp add: next_line_def chr_at_def)
  ultimately show ?thesis
    using assms(5) d0 len more_lines_done [OF deref_compose_blank [OF ok(3)]]
    unfolding getfield_def ff outcome.case Let_def dr by simp
qed

text \<open>The first field of the name replaced, or the field put at the end of the header.\<close>

fun update_field :: "string \<Rightarrow> field \<Rightarrow> field list \<Rightarrow> field list" where
  "update_field n g [] = [g]"
| "update_field n g (f # fs) = (if same_name n f then g # fs else f # update_field n g fs)"

lemma update_field_split:
  "update_field n g fs = takeWhile (\<lambda>f. \<not> same_name n f) fs @ g # tl (dropWhile (\<lambda>f. \<not> same_name n f) fs)"
  by (induction fs) auto

lemma compose_append: "compose (fs @ gs) body = concat (map field_line fs) @ compose gs body"
  by (simp add: compose_def)

lemma take_drop_compose:
  assumes "fs = fs1 @ fs2"
  shows "take (length (compose fs body) - length (compose fs2 body)) (compose fs body) = concat (map field_line fs1)"
  using assms by (simp add: compose_append)

lemma skip_value:
  assumes "ok_value v" and "v \<noteq> []"
  shows "skip_eol (to_eol (dropWhile isspace (CHR '' '' # v @ CR # LF # r))) = r"
proof -
  have "dropWhile isspace (CHR '' '' # v @ CR # LF # r) = v @ CR # LF # r"
    using assms by (cases v) (auto simp: ok_value_def)
  then show ?thesis using value_to_eol(1) [OF assms(1)] by (simp add: skip_eol_def chr_at_def)
qed

lemma skip_more_compose: "ok_fields fs \<Longrightarrow> skip_more (compose fs body) = Some (compose fs body)"
  using deref_compose [of fs body] by (cases "fs = []") (subst skip_more.simps, simp)+

lemma setfield_found:
  assumes ff: "find_field (art (fs1 @ (m, v) # fs2) body) (n @ '':'') = Ok (compose ((m, v) # fs2) body)"
    and "ok_fields (fs1 @ (m, v) # fs2)" and "NUL \<notin> set body" and "length m = length n"
    and skip: "skip_more (skip_eol (to_eol (dropWhile isspace (CHR '' '' # v @ CR # LF # compose fs2 body))))
      = Some (compose gs body)" and "fs2 = hs @ gs"
  shows "setfield (art (fs1 @ (m, v) # fs2) body) (n @ '':'') line
    = Ok \<lparr>art_nbr = 0, art_text = concat (map field_line fs1) @ line @ compose gs body\<rparr>"
proof -
  let ?fs = "fs1 @ (m, v) # fs2"
  have mv: "ok_name m" "ok_value v" using assms(2) by (simp_all add: ok_fields_def)
  have ct: "ctext (art ?fs body) = compose ?fs body"
    using ctext_compose [OF assms(2,3)] by (simp add: ctext_def art_def)
  have d0: "\<not> is_eol (deref (compose ((m, v) # fs2) body))"
    using mv(1) ok_name_chars(3) [OF mv(1)] by (cases m) (auto simp: ok_name_def)
  have dr: "drop (length (n @ '':'')) (compose ((m, v) # fs2) body) = CHR '' '' # v @ CR # LF # compose fs2 body"
    using assms(4) by simp
  have len: "\<not> length (compose ((m, v) # fs2) body) < length (n @ '':'')" using assms(4) by simp
  have k: "take (length (compose ?fs body) - length (compose ((m, v) # fs2) body)) (compose ?fs body)
      = concat (map field_line fs1)" by (rule take_drop_compose) simp
  have "drop (length (compose ?fs body) - length (compose gs body)) (compose ?fs body) = compose gs body"
    using assms(6) compose_append [of "fs1 @ (m, v) # hs" gs body] by simp
  then show ?thesis
    using len d0 unfolding setfield_def ff outcome.case Let_def ct dr skip option.case
    by (simp only: if_False) (simp only: art_def article.select_convs article.update_convs k)
qed

lemma setfield_ok:
  assumes "ok_name n" and "ok_fields fs" and "fs \<noteq> []" and "NUL \<notin> set body" and "length n < 511"
    and "\<forall>f \<in> set fs. same_name n f \<longrightarrow> snd f \<noteq> []"
  shows "setfield (art fs body) (n @ '':'') (field_line (n, w)) = Ok (art (update_field n (n, w) fs) body)"
proof -
  let ?fs1 = "takeWhile (\<lambda>f. \<not> same_name n f) fs" and ?rest = "dropWhile (\<lambda>f. \<not> same_name n f) fs"
  have fs: "?fs1 @ ?rest = fs" by simp
  note ff = find_field_ok [OF assms(1-5)]
  show ?thesis
  proof (cases ?rest)
    case Nil
    have ct: "ctext (art fs body) = compose fs body"
      using ctext_compose [OF assms(2,4)] by (simp add: ctext_def art_def)
    have f1: "?fs1 = fs" using fs unfolding Nil by simp
    have up: "update_field n (n, w) fs = fs @ [(n, w)]" unfolding update_field_split Nil f1 by simp
    have c: "compose fs body = concat (map field_line fs) @ CRLF @ body" by (simp add: compose_def)
    show ?thesis
      unfolding setfield_def ff Nil outcome.case Let_def ct up
      by (simp add: art_def c compose_append) (simp add: field_line_def CRLF_def)
  next
    case (Cons f fs2)
    obtain m v where f: "f = (m, v)" by (cases f)
    have sp: "fs = ?fs1 @ (m, v) # fs2" using fs unfolding Cons f by simp
    have sn: "same_name n f" using Cons hd_dropWhile [of "\<lambda>f. \<not> same_name n f" fs] by simp
    have len: "length m = length n" using sn by (auto simp: same_name_def f dest: map_eq_imp_length_eq)
    have "f \<in> set fs" using sp f by (metis in_set_conv_decomp)
    then have v: "v \<noteq> []" "ok_value v" using assms(2,6) sn f by (auto simp: ok_fields_def)
    have ok2: "ok_fields fs2" using ok_fields_suffix [OF assms(2), of "\<lambda>f. \<not> same_name n f"]
      unfolding Cons by (simp add: ok_fields_def)
    have sk: "skip_more (skip_eol (to_eol (dropWhile isspace (CHR '' '' # v @ CR # LF # compose fs2 body))))
        = Some (compose fs2 body)"
      unfolding skip_value [OF v(2,1)] by (rule skip_more_compose [OF ok2])
    have ff': "find_field (art (?fs1 @ (m, v) # fs2) body) (n @ '':'') = Ok (compose ((m, v) # fs2) body)"
      using ff unfolding Cons f by (simp only: sp [symmetric])
    have ok': "ok_fields (?fs1 @ (m, v) # fs2)" using assms(2) by (simp only: sp [symmetric])
    have "setfield (art (?fs1 @ (m, v) # fs2) body) (n @ '':'') (field_line (n, w))
      = Ok \<lparr>art_nbr = 0, art_text = concat (map field_line ?fs1) @ field_line (n, w) @ compose fs2 body\<rparr>"
      by (rule setfield_found [OF ff' ok' assms(4) len sk, of "[]"]) simp
    then have "setfield (art fs body) (n @ '':'') (field_line (n, w))
      = Ok \<lparr>art_nbr = 0, art_text = concat (map field_line ?fs1) @ field_line (n, w) @ compose fs2 body\<rparr>"
      by (simp only: sp [symmetric])
    also have "concat (map field_line ?fs1) @ field_line (n, w) @ compose fs2 body
        = compose (update_field n (n, w) fs) body"
      unfolding update_field_split Cons by (simp add: compose_append) (simp add: field_line_def CRLF_def)
    finally show ?thesis by (simp add: art_def)
  qed
qed

text \<open>
  A field without a value: \<open>isspace\<close> also skips its line end, so the line after it is
  taken for the value and replaced with it.
\<close>

lemma setfield_empty:
  assumes "ok_name n" and "ok_fields ((n, []) # (m, v) # fs)" and "NUL \<notin> set body" and "length n < 511"
  shows "setfield (art ((n, []) # (m, v) # fs) body) (n @ '':'') (field_line (n, w)) = Ok (art ((n, w) # fs) body)"
proof -
  let ?fs = "(n, []) # (m, v) # fs"
  have ok: "ok_name m" "ok_value v" "ok_fields fs" using assms(2) by (auto simp: ok_fields_def)
  have same: "same_name n (n, [])" by (simp add: same_name_def)
  have ff: "find_field (art ?fs body) (n @ '':'') = Ok (compose ?fs body)"
    using find_field_ok [OF assms(1,2) _ assms(3,4)] same by simp
  have "dropWhile isspace (CHR '' '' # [] @ CR # LF # compose ((m, v) # fs) body) = compose ((m, v) # fs) body"
    using ok(1) by (cases m) (auto simp: ok_name_def)
  moreover have "to_eol (compose ((m, v) # fs) body) = CR # LF # compose fs body"
    using to_eol_line [OF plain_field [OF ok(1,2)], of "LF # compose fs body"] by simp
  ultimately have "skip_more (skip_eol (to_eol (dropWhile isspace
      (CHR '' '' # [] @ CR # LF # compose ((m, v) # fs) body)))) = Some (compose fs body)"
    using skip_more_compose [OF ok(3), of body] by (simp add: skip_eol_def chr_at_def)
  then have "setfield (art ([] @ (n, []) # (m, v) # fs) body) (n @ '':'') (field_line (n, w))
      = Ok \<lparr>art_nbr = 0, art_text = concat (map field_line []) @ field_line (n, w) @ compose fs body\<rparr>"
    using ff assms(2) by (intro setfield_found [of _ _ _ _ _ _ _ "[(m, v)]"] assms(3)) (simp_all only: append_Nil append_Cons)
  also have "concat (map field_line []) @ field_line (n, w) @ compose fs body = compose ((n, w) # fs) body"
    by (simp add: field_line_def CRLF_def)
  finally show ?thesis by (simp only: art_def append_Nil)
qed

text \<open>The header ends where \<open>write\<close> looks for it.\<close>

lemma header_end_step:
  assumes "to_eol t = CR # LF # r"
  shows "header_end t = (if deref r = CR \<and> chr_at r 1 = LF then r else header_end (dropWhile is_eol r))"
proof -
  have "chr_at (CR # LF # r) 2 = deref r" "chr_at (CR # LF # r) 3 = chr_at r 1"
    by (cases r, auto simp: chr_at_def)
  moreover have "chr_at (CR # LF # r) 1 = LF" by (simp add: chr_at_def)
  ultimately show ?thesis by (subst header_end.simps) (simp add: assms Let_def)
qed

lemma header_end_ok:
  assumes "ok_fields fs" and "fs \<noteq> []"
  shows "header_end (compose fs body) = CR # LF # body"
  using assms
proof (induction fs)
  case (Cons f fs)
  obtain m v where f: "f = (m, v)" by (cases f)
  have ok: "ok_name m" "ok_value v" "ok_fields fs" using Cons.prems f by (simp_all add: ok_fields_Cons)
  have eol: "to_eol (compose (f # fs) body) = CR # LF # compose fs body"
    using to_eol_line [OF plain_field [OF ok(1,2)], of "LF # compose fs body"] f by simp
  show ?case
  proof (cases "fs = []")
    case True
    then show ?thesis using header_end_step [OF eol] by (simp add: chr_at_def)
  next
    case False
    have d: "\<not> isspace (deref (compose fs body))" using deref_compose [OF ok(3) False] by blast
    then obtain c t where t: "compose fs body = c # t" "\<not> is_eol c"
      using eol_space by (cases "compose fs body") auto
    then have "header_end (compose (f # fs) body) = header_end (compose fs body)"
      unfolding header_end_step [OF eol] t(1) by auto
    with Cons.IH [OF ok(3) False] show ?thesis by simp
  qed
qed simp

lemma write_ok:
  assumes "ok_fields fs" and "fs \<noteq> []" and "NUL \<notin> set body"
  shows "write_article (art fs body) True False = concat (map field_line fs)"
    and "write_article (art fs body) False True = body"
    and "write_article (art fs body) True True = concat (map field_line fs) @ CRLF @ body"
proof -
  have ct: "ctext (art fs body) = compose fs body"
    using ctext_compose [OF assms(1,3)] by (simp add: ctext_def art_def)
  have k: "length (compose fs body) - length (CR # LF # body) = length (concat (map field_line fs))"
    by (simp add: compose_def CRLF_def)
  note w = write_article_def Let_def ct header_end_ok [OF assms(1,2)] k
  have c: "compose fs body = concat (map field_line fs) @ CRLF @ body" by (simp add: compose_def)
  show "write_article (art fs body) True False = concat (map field_line fs)"
    unfolding w by (simp add: art_def c)
  show "write_article (art fs body) False True = body"
    unfolding w by (simp add: art_def c chr_at_def CRLF_def)
  show "write_article (art fs body) True True = concat (map field_line fs) @ CRLF @ body"
    by (simp add: write_article_def art_def c)
qed

text \<open>An article with bare line feeds: its body is written with a line feed before and a zero after it.\<close>

lemma write_body_lf:
  assumes "plain_line h" and "NUL \<notin> set h" and "NUL \<notin> set body"
  shows "write_article \<lparr>art_nbr = k, art_text = h @ [LF, LF] @ body\<rparr> False True = LF # body @ [NUL]"
proof -
  have "NUL \<notin> set (h @ [LF, LF] @ body)" using assms(2,3) by simp
  then have ct: "c_str (h @ [LF, LF] @ body) = h @ [LF, LF] @ body"
    by (rule c_str_id)
  have "to_eol (h @ [LF, LF] @ body) = LF # LF # body"
    using takeWhile_stop [of h "\<lambda>c. \<not> is_eol c" LF "LF # body"] assms(1)
    by (simp add: to_eol_def plain_line_def)
  then have "header_end (h @ [LF, LF] @ body) = LF # body"
    by (subst header_end.simps) (simp only: Let_def, simp add: chr_at_def)
  then show ?thesis
    unfolding write_article_def ctext_def article.select_convs ct Let_def by simp
qed

end
