(* ===== verification/Overview_Fmt.thy ===== *)
theory Overview_Fmt
  imports Article_Text
begin

text \<open>
  NServer-0.9.1/OverviewFmt.{h,cc}: the format of the overview database, records of fields
  separated by tabs, and the translation of a server's records into the own format.
\<close>

text \<open>
  A field descriptor is its name, the colon included, and whether the name is part of the
  record; \<open>trans\<close> gives for every own field its position in the incoming record (\<open>-1\<close>: not
  there) and whether the name comes with it.
\<close>

record overfmt =
  over :: "(string \<times> bool) list"
  trans :: "(int \<times> bool) list"
  dotrans :: bool

definition CONF_OverviewFmt :: "string list" where
  "CONF_OverviewFmt = [''Subject:'', ''From:'', ''Date:'', ''Message-ID:'', ''References:'',
     ''Bytes:'', ''Lines:'', ''Xref:full'']"

definition overdesc :: "string \<Rightarrow> string \<times> bool" where
  "overdesc q =
     (takeWhile (\<lambda>c. c \<noteq> CHR '':'') q @ '':'', deref (tl (dropWhile (\<lambda>c. c \<noteq> CHR '':'') q)) = CHR ''f'')"

definition overfmt_new :: overfmt where
  "overfmt_new = \<lparr>over = map overdesc CONF_OverviewFmt, trans = [], dotrans = False\<rparr>"

section \<open>Reading one field of a record\<close>

text \<open>The record behind its first \<open>j\<close> tabs.\<close>

fun skip_tabs :: "string \<Rightarrow> nat \<Rightarrow> string" where
  "skip_tabs p 0 = p"
| "skip_tabs [] (Suc j) = []"
| "skip_tabs (c # p) (Suc j) = skip_tabs p (if c = TAB then j else Suc j)"

text \<open>The first field descriptor of that name, with its position.\<close>

fun find_over :: "(string \<times> bool) list \<Rightarrow> string \<Rightarrow> nat \<Rightarrow> (nat \<times> string \<times> bool) option" where
  "find_over [] fld i = None"
| "find_over ((n, f) # os) fld i = (if strcaseeq fld n then Some (i, n, f) else find_over os fld (i + 1))"

text \<open>
  \<open>full\<close> is \<open>-1\<close> (as stored), \<open>0\<close> (without the name) or \<open>1\<close> (with it). Without a colon in
  the field the stripping runs into the fields behind it; the length of the result is
  then negative, and \<open>assign\<close> throws.
\<close>

definition over_getfield :: "overfmt \<Rightarrow> string \<Rightarrow> string \<Rightarrow> int \<Rightarrow> string outcome" where
  "over_getfield fmt ov fld full =
     (case find_over (over fmt) fld 0 of
        None \<Rightarrow> Throw (NoSuchFieldError fld)
      | Some (i, n, f) \<Rightarrow>
          let p = skip_tabs ov (i + 1);
              v = takeWhile (\<lambda>c. c \<noteq> TAB) p;
              ofull = (if f then 1 else 0 :: int)
          in if full = - 1 \<or> full = ofull then Ok v
             else if full < ofull then
               (let p' = dropWhile (\<lambda>c. c \<noteq> CHR '':'') p;
                    p'' = (if p' = [] then p' else dropWhile isspace p');
                    skipped = length p - length p''
                in if length v < skipped then Crash else Ok (drop skipped v))
             else Ok (n @ '' '' @ v))"

section \<open>Reading a server's format\<close>

text \<open>One line of the format against all own fields.\<close>

fun match_over :: "(string \<times> bool) list \<Rightarrow> string \<Rightarrow> nat \<Rightarrow> (int \<times> bool) list \<Rightarrow> (int \<times> bool) list" where
  "match_over ((n, _) # os) field fn (t # ts) =
     (if length n \<le> length field \<and> strncaseeq field n (length n)
      then (int fn, length field = length n + 4 \<and> strncaseeq ''full'' (drop (length n) field) 4)
      else t) # match_over os field fn ts"
| "match_over os field fn ts = ts"

lemma nlreadline_shorter:
  assumes "\<not> (is_fail is \<and> \<not> is_eof is)" and "nlreadline is l k = (l', is')" and "\<not> is_eof is'"
  shows "length (inp is') < length (inp is)"
proof -
  obtain l0 where g: "getline is l = (l0, is')" using assms(2) by (auto simp: nlreadline_def split: prod.splits)
  have gd: "good is" using assms(1,3) g by (auto simp: getline_def good_def split: if_splits)
  have "good is'"
  proof (cases "dropWhile (\<lambda>c. c \<noteq> LF) (inp is)")
    case Nil
    from g gd have "is_eof is'" unfolding getline_def Let_def Nil by auto
    with assms(3) show ?thesis by simp
  next
    case (Cons c r)
    from g gd have "is' = is\<lparr>inp := r\<rparr>" unfolding getline_def Let_def Cons by auto
    with gd show ?thesis by (simp add: good_def)
  qed
  with gd g show ?thesis by (rule getline_shorter)
qed

text \<open>
  The lines up to a single dot or the end of the input; a stream that has failed before its
  end would be read for ever.
\<close>

function readxoin_lines ::
  "(string \<times> bool) list \<Rightarrow> istream \<Rightarrow> string \<Rightarrow> nat \<Rightarrow> (int \<times> bool) list
    \<Rightarrow> ((int \<times> bool) list \<times> nat \<times> istream) option" where
  "readxoin_lines os is field fn ts =
     (if is_fail is \<and> \<not> is_eof is then None
      else
        let (field', is') = nlreadline is field False
        in if field' = ''.'' \<or> is_eof is' then Some (ts, fn, is')
           else readxoin_lines os is' field' (fn + 1) (match_over os field' fn ts))"
  by pat_completeness auto

termination
proof (relation "measure (\<lambda>(os, is, l, f, t). length (inp is))", goal_cases)
  case (2 os i field fn ts x field' i')
  then show ?case using nlreadline_shorter [of i field False field' i'] by simp
qed simp

declare readxoin_lines.simps [simp del]

text \<open>Whether the incoming records are the own ones.\<close>

fun same_format :: "(string \<times> bool) list \<Rightarrow> (int \<times> bool) list \<Rightarrow> int \<Rightarrow> bool" where
  "same_format ((_, f) # os) ((t, tf) # ts) i \<longleftrightarrow> t = i \<and> tf = f \<and> same_format os ts (i + 1)"
| "same_format os ts i \<longleftrightarrow> True"

definition readxoin :: "overfmt \<Rightarrow> istream \<Rightarrow> (overfmt \<times> istream) option" where
  "readxoin fmt is =
     (case readxoin_lines (over fmt) is [] 0 (map (\<lambda>_. (- 1, False)) (over fmt)) of
        None \<Rightarrow> None
      | Some (ts, fn, is') \<Rightarrow>
          Some (fmt\<lparr>trans := ts,
                    dotrans := (length (over fmt) \<noteq> fn \<or> \<not> same_format (over fmt) ts 0)\<rparr>, is'))"

section \<open>Converting records\<close>

text \<open>The parts between the tabs.\<close>

function split_tabs :: "string \<Rightarrow> string list" where
  "split_tabs p =
     (case dropWhile (\<lambda>c. c \<noteq> TAB) p of
        [] \<Rightarrow> [p]
      | _ # q \<Rightarrow> takeWhile (\<lambda>c. c \<noteq> TAB) p # split_tabs q)"
  by pat_completeness auto
termination
proof (relation "measure length", goal_cases)
  case (2 p x q)
  from length_dropWhile_le [of "\<lambda>c. c \<noteq> TAB" p] show ?case by (simp add: 2)
qed simp

declare split_tabs.simps [simp del]

text \<open>
  One own field out of the incoming \<open>fs\<close>. Where the name is to be stripped, the search
  for white space starts at the colon itself and finds none: the colon stays.
\<close>

definition convert_field :: "string list \<Rightarrow> string \<times> bool \<Rightarrow> int \<times> bool \<Rightarrow> string" where
  "convert_field fs d t =
     (if int (length fs) \<le> fst t \<or> fst t < 0 then [TAB]
      else
        let v = fs ! nat (fst t)
        in if snd t = snd d then TAB # v
           else if snd t then
             TAB # (if CHR '':'' \<in> set v
                    then dropWhile isspace (dropWhile (\<lambda>c. c \<noteq> CHR '':'') v) else v)
           else TAB # fst d @ '' '' @ v)"

text \<open>\<open>tabs\<close> has 256 entries, one of them for the end of the record.\<close>

definition convert_record :: "overfmt \<Rightarrow> string \<Rightarrow> string outcome" where
  "convert_record fmt recin =
     (if \<not> dotrans fmt then Ok recin
      else
        let fs = split_tabs recin
        in if 256 < length fs then Crash
           else Ok (hd fs @ concat (map2 (convert_field (tl fs)) (over fmt) (trans fmt))))"

text \<open>The record of an article: a field that is missing is empty, except its length.\<close>

fun convert_art :: "article \<Rightarrow> (string \<times> bool) list \<Rightarrow> string \<Rightarrow> string outcome" where
  "convert_art a [] recout = Ok recout"
| "convert_art a ((n, f) # os) recout =
     (case getfield a n f of
        Ok v \<Rightarrow> convert_art a os (recout @ TAB # v)
      | Throw (NoSuchFieldError e) \<Rightarrow>
          convert_art a os (recout @ TAB #
            (if strcaseeq n ''bytes:'' then show_int (article_length a) else []))
      | Throw e \<Rightarrow> Throw e
      | Crash \<Rightarrow> Crash
      | Diverge \<Rightarrow> Diverge)"

definition convert_article :: "overfmt \<Rightarrow> article \<Rightarrow> string outcome" where
  "convert_article fmt a = convert_art a (over fmt) (show_int (getnbr a))"

definition print_overfmt :: "overfmt \<Rightarrow> string" where
  "print_overfmt fmt = concat (map (\<lambda>(n, f). n @ (if f then ''full'' else []) @ CRLF) (over fmt))"

section \<open>What holds\<close>

text \<open>A server that prints the own format is recognised: nothing is translated.\<close>

fun match_lines :: "(string \<times> bool) list \<Rightarrow> nat \<Rightarrow> (int \<times> bool) list \<Rightarrow> string list \<Rightarrow> (int \<times> bool) list" where
  "match_lines os fn ts [] = ts"
| "match_lines os fn ts (f # fs) = match_lines os (fn + 1) (match_over os f fn ts) fs"

lemma nlreadline_plain:
  assumes "good is" and "inp is = l @ CRLF @ r" and "plain_line l"
  shows "nlreadline is old False = (l, is\<lparr>inp := r\<rparr>)"
proof -
  have "\<forall>c \<in> set (l @ [CR]). c \<noteq> LF" using assms(3) by (auto simp: plain_line_def is_eol_def)
  from takeWhile_stop [OF this, of LF r] assms(2)
  have "takeWhile (\<lambda>c. c \<noteq> LF) (inp is) = l @ [CR]" "dropWhile (\<lambda>c. c \<noteq> LF) (inp is) = LF # r"
    by (simp_all add: CRLF_def)
  then show ?thesis
    using assms(1) unfolding nlreadline_def getline_def Let_def
    by (simp add: strip_eol_plain [OF assms(3)])
qed

lemma readxoin_lines_plain:
  assumes "good is" and "inp is = concat (map (\<lambda>l. l @ CRLF) fs) @ ''.'' @ CRLF @ r"
    and "\<forall>l \<in> set fs. l \<noteq> ''.'' \<and> plain_line l"
  shows "readxoin_lines os is l fn ts = Some (match_lines os fn ts fs, fn + length fs, is\<lparr>inp := r\<rparr>)"
  using assms
proof (induction fs arbitrary: "is" l fn ts)
  case Nil
  have "nlreadline is l False = (''.'', is\<lparr>inp := r\<rparr>)"
    by (rule nlreadline_plain) (use Nil in \<open>auto simp: plain_line_def is_eol_def\<close>)
  then show ?case using Nil(1) by (subst readxoin_lines.simps) (simp add: good_def)
next
  case (Cons f fs)
  let ?r = "concat (map (\<lambda>l. l @ CRLF) fs) @ ''.'' @ CRLF @ r"
  have l: "nlreadline is l False = (f, is\<lparr>inp := ?r\<rparr>)"
    by (rule nlreadline_plain) (use Cons.prems in auto)
  have g: "good (is\<lparr>inp := ?r\<rparr>)" using Cons.prems(1) by (simp add: good_def)
  show ?case
    using Cons.IH [OF g] Cons.prems l g
    by (subst readxoin_lines.simps) (simp add: good_def)
qed

lemma readxoin_own:
  assumes "good is" and "inp is = print_overfmt overfmt_new @ ''.'' @ CRLF @ r"
  shows "\<exists>fmt. readxoin overfmt_new is = Some (fmt, is\<lparr>inp := r\<rparr>) \<and> \<not> dotrans fmt
    \<and> map fst (trans fmt) = [0, 1, 2, 3, 4, 5, 6, 7]"
proof -
  let ?fs = "map (\<lambda>(n, f). n @ (if f then ''full'' else [])) (over overfmt_new)"
  have o: "over overfmt_new = [(''Subject:'', False), (''From:'', False), (''Date:'', False),
      (''Message-ID:'', False), (''References:'', False), (''Bytes:'', False), (''Lines:'', False), (''Xref:'', True)]"
    by (simp add: overfmt_new_def CONF_OverviewFmt_def overdesc_def)
  have i: "inp is = concat (map (\<lambda>l. l @ CRLF) ?fs) @ ''.'' @ CRLF @ r"
    using assms(2) unfolding print_overfmt_def o by simp
  have p: "\<forall>l \<in> set ?fs. l \<noteq> ''.'' \<and> plain_line l"
    by (simp add: o plain_line_def is_eol_def)
  let ?ts = "map (\<lambda>_. (- 1, False)) (over overfmt_new)"
  have m: "match_lines (over overfmt_new) 0 ?ts ?fs
      = [(0, False), (1, False), (2, False), (3, False), (4, False), (5, False), (6, False), (7, True)]"
    unfolding o by (simp add: strncaseeq_def tolower_def)
  have "readxoin_lines (over overfmt_new) is [] 0 ?ts
      = Some (match_lines (over overfmt_new) 0 ?ts ?fs, length ?fs, is\<lparr>inp := r\<rparr>)"
    using readxoin_lines_plain [OF assms(1) i p] by simp
  then show ?thesis
    unfolding readxoin_def m by (simp add: o)
qed

end
