(* ===== verification/Lexer_MP.thy ===== *)
theory Lexer_MP
  imports Overview_Fmt Group_Match "HOL-Library.Word"
begin

unbundle bit_operations_syntax

text \<open>
  NServer-0.9.1/Lexer.h and MPList.{h,cc}: the tokens of the configuration file, and the list
  of news servers, which is read from it, printed, and asked for the server of a group.
\<close>

section \<open>Lexer.h\<close>

text \<open>
  \<open>lx_cur\<close> is what \<open>_cbufp\<close> points to, \<open>None\<close> once the line it points into has been given up
  (at the end of the file); \<open>lx_off\<close> is \<open>_cbufp - _cbuf\<close>.
\<close>

record lexer =
  lx_fn :: string
  lx_is :: istream
  lx_tok :: string
  lx_buf :: string
  lx_line :: int
  lx_cur :: "string option"
  lx_off :: nat

definition lexer_open :: "string \<Rightarrow> string \<Rightarrow> lexer" where
  "lexer_open fn content =
     \<lparr>lx_fn = fn, lx_is = \<lparr>inp = content, is_eof = False, is_fail = False\<rparr>, lx_tok = [],
      lx_buf = [], lx_line = 0, lx_cur = Some [], lx_off = 0\<rparr>"

definition lexer_eof :: "lexer \<Rightarrow> bool" where
  "lexer_eof lx = is_eof (lx_is lx)"

definition curToken :: "lexer \<Rightarrow> string" where
  "curToken lx = lx_tok lx"

text \<open>The next line: blanks at its start and comments are skipped.\<close>

definition next_buf :: "string \<Rightarrow> lexer \<Rightarrow> lexer" where
  "next_buf b lx =
     (let p = dropWhile isspace (c_str b)
      in if deref p = CHR ''#'' then lx\<lparr>lx_cur := Some [], lx_off := length b\<rparr>
         else lx\<lparr>lx_cur := Some p, lx_off := length (c_str b) - length p\<rparr>)"

text \<open>Lines are read until there is a token; \<open>False\<close> is the end of the file.\<close>

function fill_buf :: "(lexer, bool) act" where
  "fill_buf lx =
     (case lx_cur lx of
        None \<Rightarrow> (Crash, lx)
      | Some (c # p) \<Rightarrow> (Ok True, lx)
      | Some [] \<Rightarrow>
          if \<not> good (lx_is lx) then (Throw (IOError ''Stream bad''), lx)
          else
            let (b, is') = nlreadline (lx_is lx) (lx_buf lx) False;
                lx1 = lx\<lparr>lx_line := lx_line lx + 1, lx_buf := b, lx_is := is'\<rparr>
            in if is_eof is' then (Ok False, lx1\<lparr>lx_cur := None\<rparr>)
               else if \<not> good is' then (Throw (IOError ''Stream bad''), lx1)
               else fill_buf (next_buf b lx1))"
  by pat_completeness auto
termination
proof (relation "measure (\<lambda>lx. length (inp (lx_is lx)))", goal_cases)
  case (2 lx x y b i' lx1)
  then have "length (inp i') < length (inp (lx_is lx))"
    using nlreadline_shorter [of "lx_is lx" "lx_buf lx" False b i'] by (auto simp: good_def)
  moreover have "lx_is (next_buf b lx1) = i'" using 2 by (simp add: next_buf_def Let_def)
  ultimately show ?case by simp
qed simp

declare fill_buf.simps [simp del]

definition getToken :: "(lexer, string) act" where
  "getToken =
     bnd fill_buf (\<lambda>more.
     if \<not> more then ret []
     else
       bnd (gets (\<lambda>lx. the (lx_cur lx))) (\<lambda>p.
       let tok = takeWhile (\<lambda>c. \<not> isspace c) p;
           rest = dropWhile isspace (dropWhile (\<lambda>c. \<not> isspace c) p)
       in bnd (upd (\<lambda>lx. lx\<lparr>lx_tok := tok, lx_cur := Some rest,
                            lx_off := lx_off lx + (length p - length rest)\<rparr>)) (\<lambda>_.
          ret tok)))"

definition putbackToken :: "string \<Rightarrow> (lexer, unit) act" where
  "putbackToken tok =
     upd (\<lambda>lx. let b = tok @ '' '' @ drop (lx_off lx) (lx_buf lx)
               in lx\<lparr>lx_buf := b, lx_cur := Some (c_str b), lx_off := 0\<rparr>)"

text \<open>\<open>flag\<close> or \<open>not-flag\<close>.\<close>

definition isFlag :: "string \<Rightarrow> string \<Rightarrow> bool option" where
  "isFlag token strg =
     (let ctok = c_str token
      in if ctok = strg then Some True
         else if take 4 ctok = ''not-'' \<and> drop 4 ctok = strg then Some False
         else None)"

definition syntax_error :: "string \<Rightarrow> (lexer, 'a) act" where
  "syntax_error txt = bnd (gets id) (\<lambda>lx.
     throw (SyntaxError (lx_fn lx @ '':'' @ show_int (lx_line lx) @ '': '' @ txt)))"

definition expect_brace :: "(lexer, unit) act" where
  "expect_brace = bnd getToken (\<lambda>tok.
     if tok \<noteq> ''{'' then syntax_error ''expected '' else ret ())"

text \<open>\<open>strcpy\<close> into an array of \<open>n\<close> bytes.\<close>

definition strcpy_to :: "nat \<Rightarrow> string \<Rightarrow> ('s, string) act" where
  "strcpy_to n s = (if n \<le> length (c_str s) then crash else ret (c_str s))"

section \<open>MPList.h\<close>

definition MAXHOSTNAMELEN :: nat where "MAXHOSTNAMELEN = 64"

definition F_SETPOSTFLAG :: "32 word" where "F_SETPOSTFLAG = 0x01"
definition F_CACHED :: "32 word" where "F_CACHED = 0x02"
definition F_OFFLINE :: "32 word" where "F_OFFLINE = 0x04"
definition F_SEMIOFFLINE :: "32 word" where "F_SEMIOFFLINE = 0x08"

definition F_LIST_ACTIVE_WILDMAT :: "32 word" where "F_LIST_ACTIVE_WILDMAT = 0x01"
definition F_LIST_OVERVIEW_FMT :: "32 word" where "F_LIST_OVERVIEW_FMT = 0x02"
definition F_LISTGROUP :: "32 word" where "F_LISTGROUP = 0x04"
definition F_MODE_READER :: "32 word" where "F_MODE_READER = 0x08"
definition F_OVER :: "32 word" where "F_OVER = 0x10"
definition F_XOVER :: "32 word" where "F_XOVER = 0x20"
definition F_POST :: "32 word" where "F_POST = 0x40"

record mpentry =
  hostname :: string
  servicename :: string
  user :: string
  passwd :: string
  overview :: overfmt
  rd_groups :: string
  post_groups :: string
  bindFrom :: string
  groupTimeout :: int
  flags :: "32 word"
  nntpflags :: "32 word"
  retries :: int

definition mpentry_init :: mpentry where
  "mpentry_init = \<lparr>hostname = [], servicename = [], user = [], passwd = [], overview = overfmt_new,
     rd_groups = [], post_groups = [], bindFrom = [], groupTimeout = 600,
     flags = F_SETPOSTFLAG OR F_CACHED, nntpflags = 0xffffffff, retries = 3\<rparr>"

definition set_bit_of :: "32 word \<Rightarrow> bool \<Rightarrow> 32 word \<Rightarrow> 32 word" where
  "set_bit_of f b w = (if b then w OR f else w AND NOT f)"

definition has_bit :: "32 word \<Rightarrow> 32 word \<Rightarrow> bool" where
  "has_bit w f \<longleftrightarrow> w AND f \<noteq> 0"

subsection \<open>The server of a group\<close>

text \<open>The entry with the best match; of equal ones the first.\<close>

fun best_entry :: "(mpentry \<Rightarrow> string) \<Rightarrow> string \<Rightarrow> mpentry list \<Rightarrow> mpentry option \<Rightarrow> int \<Rightarrow> mpentry option" where
  "best_entry sel grp [] bm bmlen = bm"
| "best_entry sel grp (e # es) bm bmlen =
     (let clen = matchgroup (sel e) grp
      in if bmlen < clen then best_entry sel grp es (Some e) clen
         else best_entry sel grp es bm bmlen)"

definition real_server :: "mpentry option \<Rightarrow> mpentry option" where
  "real_server bm = (case bm of None \<Rightarrow> None | Some e \<Rightarrow> if hostname e \<noteq> [] then Some e else None)"

definition postserver :: "mpentry list \<Rightarrow> string \<Rightarrow> mpentry option" where
  "postserver entries grp = real_server (best_entry post_groups grp entries None 0)"

definition server :: "mpentry list \<Rightarrow> string \<Rightarrow> mpentry option" where
  "server entries grp = real_server (best_entry rd_groups grp entries None 0)"

subsection \<open>The filter for LIST\<close>

text \<open>The rules of a server as reject rules.\<close>

definition reject_all :: "string \<Rightarrow> string" where
  "reject_all rules = concat (map (\<lambda>r. '',!'' @ r) (rule_iter rules))"

text \<open>
  The loop for an argument other than a single star: \<open>q\<close> and \<open>p\<close> point into the rules of
  server \<open>i\<close>, \<open>listp\<close> into the argument, which is not set back for the next rule; \<open>fresh\<close>
  is \<open>!c\<close>, the start of the next server's rules.
\<close>

definition to_comma :: "string \<Rightarrow> string" where
  "to_comma p = dropWhile (\<lambda>c. c \<noteq> CHR '','') p"

function filter_loop ::
  "mpentry list \<Rightarrow> nat \<Rightarrow> string \<Rightarrow> nat \<Rightarrow> bool \<Rightarrow> string \<Rightarrow> string \<Rightarrow> string \<Rightarrow> string" where
  "filter_loop entries servernbr listp i fresh q p filt =
     (if length entries \<le> i then filt
      else
        let q0 = (if fresh then rd_groups (entries ! i) else q);
            p0 = (if fresh then rd_groups (entries ! i) else p);
            n = fst (run_length listp p0 0);
            listp' = drop n listp;
            p1 = to_comma (drop n p0);
            filt' = (if deref listp' = CHR ''*'' then filt @ '',!'' @ take (length q0 - length p1) q0 else filt)
        in if p1 = []
           then filter_loop entries servernbr listp' (if servernbr = i + 1 then i + 2 else i + 1) True q0 p1 filt'
           else filter_loop entries servernbr listp' i False (tl p1) (tl p1) filt')"
  by pat_completeness auto
termination
proof (relation "measures [\<lambda>(es, s, l, i, fr, q, p, f). length es - i, \<lambda>(es, s, l, i, fr, q, p, f). of_bool fr,
    \<lambda>(es, s, l, i, fr, q, p, f). length p]", goal_cases)
  case (3 es s l i fr q p f q0 p0 n l' p1 f')
  have "length (dropWhile (\<lambda>c. c \<noteq> CHR '','') (drop n p0)) \<le> length (drop n p0)" by (rule length_dropWhile_le)
  then have "length p1 \<le> length p0" using 3 by (simp add: to_comma_def)
  moreover have "p1 \<noteq> []" using 3 by simp
  ultimately have "length (tl p1) < length p0" by (cases p1) auto
  moreover have "\<not> fr \<Longrightarrow> p0 = p" using 3 by simp
  ultimately show ?case by (cases fr) simp_all
qed auto

declare filter_loop.simps [simp del]

definition makeFilter :: "mpentry list \<Rightarrow> nat \<Rightarrow> string \<Rightarrow> string option" where
  "makeFilter entries servernbr listarg =
     (if listarg = ''*'' then
        (if length entries \<le> servernbr then None
         else Some (rd_groups (entries ! servernbr)
           @ concat (map (\<lambda>i. if i \<noteq> servernbr then reject_all (rd_groups (entries ! i)) else [])
                [0..<length entries])))
      else Some (filter_loop entries servernbr listarg (if servernbr = 0 then 1 else 0) True [] [] ''*''))"

section \<open>MPList.cc: reading and printing\<close>

subsection \<open>Options and commands\<close>

text \<open>What a token of the \<open>Options\<close> changes; \<open>None\<close>: it is not one of them.\<close>

definition option_token :: "string \<Rightarrow> mpentry \<Rightarrow> mpentry option" where
  "option_token a1 cur =
     (case isFlag a1 ''setpostflag'' of
        Some b \<Rightarrow> Some (cur\<lparr>flags := set_bit_of F_SETPOSTFLAG b (flags cur)\<rparr>)
      | None \<Rightarrow>
          (case isFlag a1 ''cached'' of
             Some b \<Rightarrow> Some (cur\<lparr>flags := set_bit_of F_CACHED b (flags cur)\<rparr>)
           | None \<Rightarrow>
               (case isFlag a1 ''offline'' of
                  Some b \<Rightarrow> Some (cur\<lparr>flags := set_bit_of F_OFFLINE b (flags cur)\<rparr>)
                | None \<Rightarrow>
                    if a1 = ''semioffline''
                    then Some (cur\<lparr>flags := set_bit_of F_SEMIOFFLINE True (flags cur)\<rparr>)
                    else None)))"

definition command_token :: "string \<Rightarrow> mpentry \<Rightarrow> mpentry option" where
  "command_token a1 cur =
     (case isFlag a1 ''listgroup'' of
        Some b \<Rightarrow> Some (cur\<lparr>nntpflags := set_bit_of F_LISTGROUP b (nntpflags cur)\<rparr>)
      | None \<Rightarrow>
          (case isFlag a1 ''over'' of
             Some b \<Rightarrow> Some (cur\<lparr>nntpflags := set_bit_of F_OVER b (nntpflags cur)\<rparr>)
           | None \<Rightarrow> None))"

text \<open>Tokens are taken as long as they are known; the first other one is put back.\<close>

partial_function (option) flags_loop ::
  "(string \<Rightarrow> mpentry \<Rightarrow> mpentry option) \<Rightarrow> mpentry \<Rightarrow> lexer \<Rightarrow> (mpentry outcome \<times> lexer) option" where
  "flags_loop tok_fun cur lx =
     obnd (Some (getToken lx)) (\<lambda>a1 lx1.
       case tok_fun a1 cur of
         Some cur' \<Rightarrow> flags_loop tok_fun cur' lx1
       | None \<Rightarrow> obnd (Some (putbackToken a1 lx1)) (\<lambda>_ lx2. Some (Ok cur, lx2)))"

declare flags_loop.simps [code]

subsection \<open>One server\<close>

text \<open>A declaration with one argument that is checked against its array's size.\<close>

definition sized_arg :: "nat \<Rightarrow> string \<Rightarrow> (lexer, string) act" where
  "sized_arg n msg =
     bnd getToken (\<lambda>a1. if n \<le> length a1 then syntax_error msg else ret (c_str a1))"

definition set_read :: "mpentry \<Rightarrow> (lexer, mpentry) act" where
  "set_read cur =
     bnd (sized_arg 2048 ''group description too long'') (\<lambda>a1.
     ret (cur\<lparr>rd_groups := a1, post_groups := a1\<rparr>))"

text \<open>
  \<open>readServer\<close> after the opening brace. \<open>havePostTo\<close> is never set, so every \<open>Read\<close> also
  sets \<open>postTo\<close>.
\<close>

partial_function (option) server_loop :: "mpentry \<Rightarrow> lexer \<Rightarrow> (mpentry outcome \<times> lexer) option" where
  "server_loop cur lx =
     obnd (Some (getToken lx)) (\<lambda>tok lx1.
       if tok = ''Read'' then
         obnd (Some (set_read cur lx1)) (\<lambda>cur' lx2. server_loop cur' lx2)
       else if tok = ''BindFrom'' then
         obnd (Some (sized_arg 2048 ''BindFrom field is too long'' lx1)) (\<lambda>a1 lx2.
           server_loop (cur\<lparr>bindFrom := a1\<rparr>) lx2)
       else if tok = ''PostTo'' then
         obnd (Some (sized_arg 2048 ''group description too long'' lx1)) (\<lambda>a1 lx2.
           server_loop (cur\<lparr>post_groups := a1\<rparr>) lx2)
       else if tok = ''GroupTimeout'' then
         obnd (Some (getToken lx1)) (\<lambda>a1 lx2. server_loop (cur\<lparr>groupTimeout := atoi (c_str a1)\<rparr>) lx2)
       else if tok = ''Retries'' then
         obnd (Some (getToken lx1)) (\<lambda>a1 lx2. server_loop (cur\<lparr>retries := atoi (c_str a1)\<rparr>) lx2)
       else if tok = ''User'' then
         obnd (Some (getToken lx1)) (\<lambda>a1 lx2. server_loop (cur\<lparr>user := take 64 (c_str a1)\<rparr>) lx2)
       else if tok = ''Password'' then
         obnd (Some (getToken lx1)) (\<lambda>a1 lx2. server_loop (cur\<lparr>passwd := take 64 (c_str a1)\<rparr>) lx2)
       else if tok = ''Options'' then
         obnd (flags_loop option_token cur lx1) (\<lambda>cur' lx2. server_loop cur' lx2)
       else if tok = ''Commands'' then
         obnd (flags_loop command_token cur lx1) (\<lambda>cur' lx2. server_loop cur' lx2)
       else if tok = ''}'' then Some (Ok cur, lx1)
       else Some (syntax_error ''expected declaration or '' lx1))"

declare server_loop.simps [code]

definition readServer :: "(string \<times> string) option \<Rightarrow> (lexer, mpentry) act" where
  "readServer hp =
     bnd (case hp of
            None \<Rightarrow> ret mpentry_init
          | Some (host, port) \<Rightarrow>
              bnd (strcpy_to MAXHOSTNAMELEN host) (\<lambda>h.
              bnd (strcpy_to 256 port) (\<lambda>p.
              ret (mpentry_init\<lparr>hostname := h, servicename := p\<rparr>)))) (\<lambda>cur.
     bnd expect_brace (\<lambda>_. loop (server_loop cur)))"

partial_function (option) mplist_loop ::
  "mpentry list \<Rightarrow> lexer \<Rightarrow> (mpentry list outcome \<times> lexer) option" where
  "mplist_loop entries lx =
     obnd (Some (getToken lx)) (\<lambda>tok lx1.
       if tok = ''Server'' then
         obnd (Some (getToken lx1)) (\<lambda>host lx2.
         obnd (Some (getToken lx2)) (\<lambda>port lx3.
         obnd (Some (readServer (Some (host, port)) lx3)) (\<lambda>e lx4.
           mplist_loop (entries @ [e]) lx4)))
       else if tok = ''NoServer'' then
         obnd (Some (readServer None lx1)) (\<lambda>e lx2. mplist_loop (entries @ [e]) lx2)
       else if tok = ''}'' then Some (Ok entries, lx1)
       else Some (syntax_error ''expected declaration or '' lx1))"

declare mplist_loop.simps [code]

definition mplist_read :: "mpentry list \<Rightarrow> (lexer, mpentry list) act" where
  "mplist_read entries = bnd expect_brace (\<lambda>_. loop (mplist_loop entries))"

subsection \<open>Printing\<close>

definition line_if :: "bool \<Rightarrow> string \<Rightarrow> string \<Rightarrow> string" where
  "line_if b k v = (if b then k @ v @ [LF] else [])"

text \<open>
  \<open>user\<close> and \<open>passwd\<close> have no terminating zero when \<open>strncpy\<close> has filled them: printing
  them reads on behind the array.
\<close>

definition print_nntpflags :: "mpentry \<Rightarrow> string" where
  "print_nntpflags e =
     (let off = (\<lambda>f. has_bit (NOT (nntpflags e)) f)
      in if NOT (nntpflags e) = 0 then []
         else [TAB, TAB] @ ''Commands''
           @ (if off F_LIST_ACTIVE_WILDMAT then '' list_active_wildmat'' else [])
           @ (if off F_LIST_OVERVIEW_FMT then '' list_overview_fmt'' else [])
           @ (if off F_LISTGROUP then '' not-listgroup'' else [])
           @ (if off F_MODE_READER then '' not-mode_reader'' else [])
           @ (if off F_OVER then '' not-over'' else [])
           @ (if off F_XOVER then '' not-xover'' else [])
           @ (if off F_POST then '' not-post'' else []) @ [LF])"

definition print_entry :: "mpentry \<Rightarrow> string option" where
  "print_entry e =
     (if 64 \<le> length (user e) \<or> 64 \<le> length (passwd e) then None
      else Some (
        (if hostname e \<noteq> [] then [TAB] @ ''Server '' @ hostname e @ '' '' @ servicename e @ '' {'' @ [LF]
         else [TAB] @ ''NoServer  {'' @ [LF])
        @ line_if (user e \<noteq> []) ([TAB, TAB] @ ''User '') (user e)
        @ line_if (passwd e \<noteq> []) ([TAB, TAB] @ ''Password '') (passwd e)
        @ line_if (rd_groups e \<noteq> []) ([TAB, TAB] @ ''Read '') (rd_groups e)
        @ line_if (post_groups e \<noteq> []) ([TAB, TAB] @ ''PostTo '') (post_groups e)
        @ line_if (bindFrom e \<noteq> []) ([TAB, TAB] @ ''BindFrom '') (bindFrom e)
        @ [TAB, TAB] @ ''GroupTimeout '' @ show_int (groupTimeout e) @ [LF]
        @ [TAB, TAB] @ ''Options''
        @ (if has_bit (flags e) F_SETPOSTFLAG then '' setpostflag'' else [])
        @ (if has_bit (flags e) F_CACHED then '' cached'' else [])
        @ (if has_bit (flags e) F_OFFLINE then '' offline'' else [])
        @ (if has_bit (flags e) F_SEMIOFFLINE then '' semioffline'' else []) @ [LF]
        @ print_nntpflags e
        @ [TAB, TAB] @ ''Retries '' @ show_int (retries e) @ [LF]
        @ [TAB] @ ''}'' @ [LF]))"

fun print_entries :: "mpentry list \<Rightarrow> string option" where
  "print_entries [] = Some []"
| "print_entries (e # es) =
     (case (print_entry e, print_entries es) of
        (Some a, Some b) \<Rightarrow> Some (a @ b)
      | _ \<Rightarrow> None)"

definition print_mplist :: "mpentry list \<Rightarrow> string option" where
  "print_mplist es =
     map_option (\<lambda>b. ''NewsServerList {'' @ [LF] @ b @ ''}'' @ [LF]) (print_entries es)"

end
