(* ===== verification/Config_Read.thy ===== *)
theory Config_Read
  imports Lexer_MP
begin

text \<open>
  src/AccessList.{h,cc} and Config.{h,cc}: who may connect and what each client may do, and the
  configuration file as a whole. \<open>inet_aton\<close> and the host's name are parameters.
\<close>

section \<open>Authentication\<close>

text \<open>The parts of the authentication string between its colons.\<close>

function colon_fields :: "string \<Rightarrow> string list" where
  "colon_fields p =
     (case dropWhile (\<lambda>c. c \<noteq> CHR '':'') p of
        [] \<Rightarrow> [p]
      | _ # q \<Rightarrow> takeWhile (\<lambda>c. c \<noteq> CHR '':'') p # colon_fields q)"
  by pat_completeness auto
termination
proof (relation "measure length", goal_cases)
  case (2 p x q)
  from length_dropWhile_le [of "\<lambda>c. c \<noteq> CHR '':''" p] show ?case by (simp add: 2)
qed simp

declare colon_fields.simps [simp del]

definition auth_set :: "string \<Rightarrow> string list" where
  "auth_set s = (if s = [] then [] else colon_fields s)"

definition auth_getType :: "string list \<Rightarrow> string" where
  "auth_getType fs = (case fs of [] \<Rightarrow> ''none'' | f # _ \<Rightarrow> f)"

definition auth_getField :: "string list \<Rightarrow> nat \<Rightarrow> string option" where
  "auth_getField fs i = (if i < length fs then Some (fs ! i) else None)"

definition auth_getNrOfFields :: "string list \<Rightarrow> int" where
  "auth_getNrOfFields fs = i32 (int (length fs))"

text \<open>\<open>None\<close> is the exception \<open>bounding error\<close>.\<close>

definition auth_modifyField :: "string list \<Rightarrow> nat \<Rightarrow> string \<Rightarrow> string list option" where
  "auth_modifyField fs nr v = (if length fs \<le> nr then None else Some (fs[nr := fs ! nr @ v]))"

definition auth_appendField :: "string list \<Rightarrow> string \<Rightarrow> string list" where
  "auth_appendField fs v = fs @ [v]"

text \<open>
  \<open>modify\<close> stops with the shorter list: its branches for a list that has ended are never
  reached.
\<close>

fun auth_modify :: "nat \<Rightarrow> nat \<Rightarrow> string list \<Rightarrow> string list \<Rightarrow> string list" where
  "auth_modify i start (d # ds) (s # ss) =
     (if start \<le> i then d @ s else d) # auth_modify (i + 1) start ds ss"
| "auth_modify i start ds ss = ds"

definition auth_print :: "string list \<Rightarrow> string" where
  "auth_print fs =
     (case fs of
        [] \<Rightarrow> []
      | f # r \<Rightarrow> [TAB, TAB] @ ''Authentication '' @ f @ concat (map (\<lambda>x. '':'' @ x) r) @ [LF])"

text \<open>0 if the first field is all of \<open>v\<close> up to a colon; \<open>None\<close>: there is no first field.\<close>

definition auth_typeEqual :: "string list \<Rightarrow> string \<Rightarrow> int option" where
  "auth_typeEqual fs v =
     (case fs of
        [] \<Rightarrow> None
      | f # _ \<Rightarrow>
          let s = c_str f; p = c_str v
          in if take (length s) p \<noteq> s then Some (- 1)
             else if deref (drop (length s) p) \<in> {NUL, CHR '':''} then Some 0 else Some (- 1))"

section \<open>AccessEntry\<close>

definition af_read :: "32 word" where "af_read = 0x1"
definition af_post :: "32 word" where "af_post = 0x2"
definition af_debug :: "32 word" where "af_debug = 0x4"
definition af_authentication :: "32 word" where "af_authentication = 0x8"

record access_entry =
  ae_hostname :: string
  access_flags :: "32 word"
  ae_list :: nfilter
  ae_read :: nfilter
  ae_postTo :: nfilter
  authentication :: "string list"
  PAMServicename :: string

definition access_new :: access_entry where
  "access_new = \<lparr>ae_hostname = [], access_flags = 0, ae_list = filter_new [], ae_read = filter_new [],
     ae_postTo = filter_new [], authentication = [], PAMServicename = ''newscache''\<rparr>"

definition access_clear :: "access_entry \<Rightarrow> access_entry" where
  "access_clear e = e\<lparr>ae_hostname := [], access_flags := 0, PAMServicename := ''newscache''\<rparr>"

definition print_access_flags :: "32 word \<Rightarrow> string" where
  "print_access_flags w =
     (if w = 0 then '' none'' else [])
     @ (if has_bit w af_read then '' read'' else [])
     @ (if has_bit w af_post then '' post'' else [])
     @ (if has_bit w af_debug then '' debug'' else [])"

text \<open>
  One word of the flags of an authentication entry. A word with an exclamation mark sets
  all the other flags instead of clearing its own.
\<close>

definition modify_flag :: "32 word \<Rightarrow> string \<Rightarrow> 32 word" where
  "modify_flag w t =
     (if t = ''read'' then w OR af_read
      else if t = ''!read'' then w OR NOT af_read
      else if t = ''post'' then w OR af_post
      else if t = ''!post'' then w OR NOT af_post
      else if t = ''debug'' then w OR af_debug
      else if t = ''!debug'' then w OR NOT af_debug
      else w)"

definition modifyAccessFlags :: "access_entry \<Rightarrow> string \<Rightarrow> access_entry" where
  "modifyAccessFlags e fl =
     (if fl = [] then e
      else e\<lparr>access_flags := foldl modify_flag (access_flags e) (rule_iter fl)\<rparr>)"

text \<open>Printing for the log, and as configuration.\<close>

definition show_access :: "access_entry \<Rightarrow> string" where
  "show_access e =
     ae_hostname e @ ''{'' @ [LF]
     @ ''  access_flags='' @ show_nat (unat (access_flags e)) @ '' ('' @ print_access_flags (access_flags e) @ '')'' @ [LF]
     @ ''  list='' @ rulelist (ae_list e) @ [LF]
     @ ''  read='' @ rulelist (ae_read e) @ [LF]
     @ ''  postto='' @ rulelist (ae_postTo e) @ [LF]
     @ ''  PAMServicename '' @ PAMServicename e @ [LF]
     @ ''  authentication='' @ drop 17 (auth_print (authentication e)) @ [LF] @ ''}''"

definition print_access :: "access_entry \<Rightarrow> string" where
  "print_access e =
     (if ae_hostname e \<noteq> [] then [TAB] @ ''Client '' @ ae_hostname e @ '' {'' @ [LF]
      else [TAB] @ ''Default {'' @ [LF])
     @ [TAB, TAB] @ ''allow'' @ print_access_flags (access_flags e) @ [LF]
     @ line_if (rulelist (ae_list e) \<noteq> []) ([TAB, TAB] @ ''List '') (rulelist (ae_list e))
     @ line_if (rulelist (ae_read e) \<noteq> []) ([TAB, TAB] @ ''Read '') (rulelist (ae_read e))
     @ line_if (rulelist (ae_postTo e) \<noteq> []) ([TAB, TAB] @ ''PostTo '') (rulelist (ae_postTo e))
     @ auth_print (authentication e)
     @ [TAB, TAB] @ ''PAMServicename '' @ PAMServicename e @ [LF] @ [TAB] @ ''}'' @ [LF]"

definition print_access_list :: "access_entry list \<Rightarrow> string" where
  "print_access_list es = ''AccessList {'' @ [LF] @ concat (map print_access es) @ ''}'' @ [LF]"

section \<open>AccessList\<close>

subsection \<open>Which entry is a client's\<close>

text \<open>
  \<open>before\<close> is the byte in front of the pattern: the code looks at it when the pattern is
  empty.
\<close>

definition in_domain :: "char \<Rightarrow> string \<Rightarrow> string \<Rightarrow> bool" where
  "in_domain before name domain \<longleftrightarrow>
     (let lastc = (if domain = [] then before else last domain)
      in if lastc = CHR ''.'' then strncaseeq name domain (length domain)
         else if deref domain = CHR ''.'' then
           length domain < length name \<and> strcaseeq (drop (length name - length domain) name) domain
         else strcaseeq name domain)"

definition NOT_INADDR :: "string \<Rightarrow> bool" where
  "NOT_INADDR s \<longleftrightarrow> dropWhile (\<lambda>c. c \<in> set ''01234567890./'') s \<noteq> []"

definition matchaddress ::
  "(string \<Rightarrow> 32 word option) \<Rightarrow> char \<Rightarrow> string \<Rightarrow> string \<Rightarrow> 32 word \<Rightarrow> bool" where
  "matchaddress aton before pattern name addr =
     (case dropWhile (\<lambda>c. c \<noteq> CHR ''/'') pattern of
        _ # msk \<Rightarrow>
          (case (aton (takeWhile (\<lambda>c. c \<noteq> CHR ''/'') pattern), aton msk) of
             (Some net, Some m) \<Rightarrow> addr AND m = net
           | _ \<Rightarrow> False)
      | [] \<Rightarrow> NOT_INADDR name \<and> in_domain before name pattern)"

fun client :: "(string \<Rightarrow> 32 word option) \<Rightarrow> char \<Rightarrow> access_entry list \<Rightarrow> string \<Rightarrow> 32 word \<Rightarrow> access_entry option" where
  "client aton before [] name addr = None"
| "client aton before (e # es) name addr =
     (if matchaddress aton before (ae_hostname e) name addr \<or> ae_hostname e = []
      then Some e else client aton before es name addr)"

subsection \<open>Reading\<close>

definition allow_token :: "string \<Rightarrow> access_entry \<Rightarrow> access_entry option" where
  "allow_token a1 cur =
     (if a1 = ''read'' then Some (cur\<lparr>access_flags := access_flags cur OR af_read\<rparr>)
      else if a1 = ''post'' then Some (cur\<lparr>access_flags := access_flags cur OR af_post\<rparr>)
      else if a1 = ''debug'' then Some (cur\<lparr>access_flags := access_flags cur OR af_debug\<rparr>)
      else if a1 = ''authentication'' then Some (cur\<lparr>access_flags := access_flags cur OR af_authentication\<rparr>)
      else if a1 = ''none'' then Some (cur\<lparr>access_flags := 0\<rparr>)
      else None)"

partial_function (option) allow_loop :: "access_entry \<Rightarrow> lexer \<Rightarrow> (access_entry outcome \<times> lexer) option" where
  "allow_loop cur lx =
     obnd (Some (getToken lx)) (\<lambda>a1 lx1.
       case allow_token a1 cur of
         Some cur' \<Rightarrow> allow_loop cur' lx1
       | None \<Rightarrow> obnd (Some (putbackToken a1 lx1)) (\<lambda>_ lx2. Some (Ok cur, lx2)))"

declare allow_loop.simps [code]

text \<open>\<open>ACCESSLIST_SET_FILTERS\<close>: the filters that have not been given take the value too.\<close>

definition set_filters :: "bool \<Rightarrow> bool \<Rightarrow> bool \<Rightarrow> string \<Rightarrow> access_entry \<Rightarrow> access_entry" where
  "set_filters l r p a1 cur =
     (let c1 = (if \<not> l then cur\<lparr>ae_list := filter_assign_str (ae_list cur) a1\<rparr> else cur);
          c2 = (if \<not> r then c1\<lparr>ae_read := filter_assign_str (ae_read c1) a1\<rparr> else c1)
      in if \<not> p then c2\<lparr>ae_postTo := filter_assign_str (ae_postTo c2) a1\<rparr> else c2)"

partial_function (option) client_loop ::
  "bool \<Rightarrow> bool \<Rightarrow> bool \<Rightarrow> access_entry \<Rightarrow> lexer \<Rightarrow> (access_entry outcome \<times> lexer) option" where
  "client_loop l r p cur lx =
     obnd (Some (getToken lx)) (\<lambda>tok lx1.
       if tok = ''allow'' then
         obnd (allow_loop cur lx1) (\<lambda>cur' lx2. client_loop l r p cur' lx2)
       else if tok = ''List'' then
         obnd (Some (getToken lx1)) (\<lambda>a1 lx2.
           client_loop True r p (set_filters True r p a1 (cur\<lparr>ae_list := filter_assign_str (ae_list cur) a1\<rparr>)) lx2)
       else if tok = ''Read'' then
         obnd (Some (getToken lx1)) (\<lambda>a1 lx2.
           client_loop l True p (set_filters l True p a1 (cur\<lparr>ae_read := filter_assign_str (ae_read cur) a1\<rparr>)) lx2)
       else if tok = ''PostTo'' then
         obnd (Some (getToken lx1)) (\<lambda>a1 lx2.
           client_loop l r True (set_filters l r True a1 (cur\<lparr>ae_postTo := filter_assign_str (ae_postTo cur) a1\<rparr>)) lx2)
       else if tok = ''Authentication'' then
         obnd (Some (getToken lx1)) (\<lambda>t lx2. client_loop l r p (cur\<lparr>authentication := auth_set t\<rparr>) lx2)
       else if tok = ''PAMServicename'' then
         obnd (Some (getToken lx1)) (\<lambda>t lx2. client_loop l r p (cur\<lparr>PAMServicename := t\<rparr>) lx2)
       else if tok = ''}'' then Some (Ok cur, lx1)
       else Some (syntax_error ''expected declaration or '' lx1))"

declare client_loop.simps [code]

definition readClient :: "string \<Rightarrow> (lexer, access_entry) act" where
  "readClient address =
     bnd (strcpy_to MAXHOSTNAMELEN address) (\<lambda>h.
     bnd expect_brace (\<lambda>_. loop (client_loop False False False (access_new\<lparr>ae_hostname := h\<rparr>))))"

partial_function (option) access_loop ::
  "access_entry list \<Rightarrow> bool \<Rightarrow> lexer \<Rightarrow> (access_entry list outcome \<times> lexer) option" where
  "access_loop es default_found lx =
     obnd (Some (getToken lx)) (\<lambda>tok lx1.
       if tok = ''Client'' then
         obnd (Some (getToken lx1)) (\<lambda>host lx2.
         obnd (Some (readClient host lx2)) (\<lambda>e lx3. access_loop (es @ [e]) default_found lx3))
       else if tok = ''Default'' then
         obnd (Some (readClient [] lx1)) (\<lambda>e lx2. access_loop (es @ [e]) True lx2)
       else if tok = ''}'' then
         (if default_found then Some (Ok es, lx1)
          else Some (syntax_error ''entry not found in NewsClientList'' lx1))
       else Some (syntax_error ''expected declaration or '' lx1))"

declare access_loop.simps [code]

definition access_read :: "access_entry list \<Rightarrow> (lexer, access_entry list) act" where
  "access_read es = bnd expect_brace (\<lambda>_. loop (access_loop es False))"

section \<open>Config\<close>

datatype server_type = inetd | standalone

definition LogINN :: "32 word" where "LogINN = 0x1"
definition LogName :: "32 word" where "LogName = 0x2"
definition LogAddr :: "32 word" where "LogAddr = 0x4"

record config =
  Username :: string
  Groupname :: string
  Admin :: string
  ServerType :: server_type
  Hostname :: string
  CachePort :: string
  ListenTo :: string
  LogDirectory :: string
  LogStyle :: "32 word"
  SpoolDirectory :: string
  SpoolSize :: int
  PrefetchFile :: string
  PidFile :: string
  ClientTimeout :: int
  MaxConnections :: int
  ttl_list :: int
  ttl_desc :: int
  NiceServer :: int
  NiceClient :: int
  NiceClean :: int
  clnts :: "access_entry list"
  srvrs :: "mpentry list"

definition config_init :: "string \<Rightarrow> config" where
  "config_init fqdn =
     \<lparr>Username = [], Groupname = [], Admin = ''notset'', ServerType = standalone, Hostname = fqdn,
      CachePort = [], ListenTo = ''DEFAULT'', LogDirectory = [], LogStyle = LogName + LogAddr,
      SpoolDirectory = ''/var/cache/newscache'', SpoolSize = 1024 * 1024, PrefetchFile = [],
      PidFile = [], ClientTimeout = 1200, MaxConnections = 32, ttl_list = 3600, ttl_desc = 3600,
      NiceServer = 0, NiceClient = 10, NiceClean = 3, clnts = [], srvrs = []\<rparr>"

definition config_server :: "config \<Rightarrow> string \<Rightarrow> mpentry option" where
  "config_server c grp = server (srvrs c) grp"

definition config_client ::
  "(string \<Rightarrow> 32 word option) \<Rightarrow> char \<Rightarrow> config \<Rightarrow> string \<Rightarrow> 32 word \<Rightarrow> access_entry option" where
  "config_client aton before c name addr = client aton before (clnts c) name addr"

subsection \<open>Reading the file\<close>

definition MAXPATHLEN :: nat where "MAXPATHLEN = 4096"

text \<open>\<open>HANDLESTRGARG\<close>: the size of the array and where the argument goes.\<close>

definition str_arg :: "string \<Rightarrow> (nat \<times> (string \<Rightarrow> config \<Rightarrow> config)) option" where
  "str_arg tok =
     (if tok = ''SpoolDirectory'' then Some (MAXPATHLEN, \<lambda>a c. c\<lparr>SpoolDirectory := a\<rparr>)
      else if tok = ''LogDirectory'' then Some (MAXPATHLEN, \<lambda>a c. c\<lparr>LogDirectory := a\<rparr>)
      else if tok = ''PrefetchFile'' then Some (MAXPATHLEN, \<lambda>a c. c\<lparr>PrefetchFile := a\<rparr>)
      else if tok = ''Username'' then Some (256, \<lambda>a c. c\<lparr>Username := a\<rparr>)
      else if tok = ''Groupname'' then Some (256, \<lambda>a c. c\<lparr>Groupname := a\<rparr>)
      else if tok = ''CachePort'' then Some (256, \<lambda>a c. c\<lparr>CachePort := a\<rparr>)
      else if tok = ''ListenTo'' then Some (MAXHOSTNAMELEN, \<lambda>a c. c\<lparr>ListenTo := a\<rparr>)
      else if tok = ''Admin'' then Some (512, \<lambda>a c. c\<lparr>Admin := a\<rparr>)
      else if tok = ''PidFile'' then Some (MAXPATHLEN, \<lambda>a c. c\<lparr>PidFile := a\<rparr>)
      else if tok = ''Hostname'' then Some (MAXHOSTNAMELEN, \<lambda>a c. c\<lparr>Hostname := a\<rparr>)
      else None)"

text \<open>\<open>HANDLEINTARG\<close>.\<close>

definition int_arg :: "string \<Rightarrow> (int \<Rightarrow> config \<Rightarrow> config) option" where
  "int_arg tok =
     (if tok = ''SpoolSize'' then Some (\<lambda>a c. c\<lparr>SpoolSize := a\<rparr>)
      else if tok = ''ClientTimeout'' then Some (\<lambda>a c. c\<lparr>ClientTimeout := a\<rparr>)
      else if tok = ''MaxConnections'' then Some (\<lambda>a c. c\<lparr>MaxConnections := a\<rparr>)
      else if tok = ''NiceServer'' then Some (\<lambda>a c. c\<lparr>NiceServer := a\<rparr>)
      else if tok = ''NiceClient'' then Some (\<lambda>a c. c\<lparr>NiceClient := a\<rparr>)
      else if tok = ''NiceClean'' then Some (\<lambda>a c. c\<lparr>NiceClean := a\<rparr>)
      else None)"

definition logstyle_token :: "string \<Rightarrow> config \<Rightarrow> config option" where
  "logstyle_token a1 c =
     (if a1 = ''strict-inn'' then Some (c\<lparr>LogStyle := LogStyle c OR LogINN\<rparr>)
      else if a1 = ''hostname'' then Some (c\<lparr>LogStyle := LogStyle c OR LogName\<rparr>)
      else if a1 = ''ip-address'' then Some (c\<lparr>LogStyle := LogStyle c OR LogAddr\<rparr>)
      else None)"

partial_function (option) logstyle_loop :: "config \<Rightarrow> lexer \<Rightarrow> (config outcome \<times> lexer) option" where
  "logstyle_loop c lx =
     obnd (Some (getToken lx)) (\<lambda>a1 lx1.
       case logstyle_token a1 c of
         Some c' \<Rightarrow> logstyle_loop c' lx1
       | None \<Rightarrow> obnd (Some (putbackToken a1 lx1)) (\<lambda>_ lx2. Some (Ok c, lx2)))"

declare logstyle_loop.simps [code]

text \<open>The declarations other than the plain arguments and \<open>LogStyle\<close>.\<close>

definition other_decl :: "string \<Rightarrow> config \<Rightarrow> (lexer, config) act" where
  "other_decl tok c =
     (if tok = ''ServerType'' then
        bnd getToken (\<lambda>a1.
        if a1 = ''inetd'' then ret (c\<lparr>ServerType := inetd\<rparr>)
        else if a1 = ''standalone'' then ret (c\<lparr>ServerType := standalone\<rparr>)
        else syntax_error ''illegal ServerType'')
      else if tok = ''ConfigVersion'' then
        bnd getToken (\<lambda>a1.
        if atoi (c_str a1) \<noteq> 5 then syntax_error ''expecting ConfigVersion 5'' else ret c)
      else if tok = ''NewsServerList'' then
        bnd (mplist_read (srvrs c)) (\<lambda>es. ret (c\<lparr>srvrs := es\<rparr>))
      else if tok = ''AccessList'' then
        bnd (access_read (clnts c)) (\<lambda>es. ret (c\<lparr>clnts := es\<rparr>))
      else if tok = ''Timeouts'' then
        bnd getToken (\<lambda>a1. bnd getToken (\<lambda>a2.
        ret (c\<lparr>ttl_list := atoi (c_str a1), ttl_desc := atoi (c_str a2)\<rparr>)))
      else syntax_error ''unknown keyword'')"

partial_function (option) config_loop :: "config \<Rightarrow> lexer \<Rightarrow> (config outcome \<times> lexer) option" where
  "config_loop c lx =
     obnd (Some (getToken lx)) (\<lambda>tok lx1.
       if lexer_eof lx1 then Some (Ok c, lx1)
       else case str_arg tok of
         Some (n, put) \<Rightarrow>
           obnd (Some (sized_arg n ''argument too long'' lx1)) (\<lambda>a1 lx2. config_loop (put a1 c) lx2)
       | None \<Rightarrow>
           (case int_arg tok of
              Some put \<Rightarrow>
                obnd (Some (getToken lx1)) (\<lambda>a1 lx2. config_loop (put (atoi (c_str a1)) c) lx2)
            | None \<Rightarrow>
                if tok = ''LogStyle'' then
                  obnd (logstyle_loop (c\<lparr>LogStyle := 0\<rparr>) lx1) (\<lambda>c' lx2. config_loop c' lx2)
                else obnd (Some (other_decl tok c lx1)) (\<lambda>c' lx2. config_loop c' lx2)))"

declare config_loop.simps [code]

definition config_read :: "config \<Rightarrow> (lexer, config) act" where
  "config_read c = loop (config_loop c)"

definition config_print :: "config \<Rightarrow> string option" where
  "config_print c =
     map_option (\<lambda>servers.
       line_if (Username c \<noteq> []) ''Username '' (Username c)
       @ line_if (Groupname c \<noteq> []) ''Groupname '' (Groupname c)
       @ line_if True ''Admin '' (Admin c)
       @ line_if True ''ServerType '' (case ServerType c of inetd \<Rightarrow> ''inetd'' | standalone \<Rightarrow> ''standalone'')
       @ line_if (CachePort c \<noteq> []) ''CachePort '' (CachePort c)
       @ line_if True ''ListenTo '' (ListenTo c)
       @ line_if (LogDirectory c \<noteq> []) ''LogDirectory '' (LogDirectory c)
       @ line_if True ''SpoolDirectory '' (SpoolDirectory c)
       @ line_if True ''LogStyle''
           ((if has_bit (LogStyle c) LogINN then '' strict-inn'' else [])
            @ (if has_bit (LogStyle c) LogName then '' hostname'' else [])
            @ (if has_bit (LogStyle c) LogAddr then '' ip-address'' else []))
       @ line_if True ''SpoolSize '' (show_int (SpoolSize c))
       @ line_if (PrefetchFile c \<noteq> []) ''PrefetchFile '' (PrefetchFile c)
       @ line_if (PidFile c \<noteq> []) ''PidFile '' (PidFile c)
       @ line_if True ''ClientTimeout '' (show_int (ClientTimeout c))
       @ line_if True ''MaxConnections '' (show_int (MaxConnections c))
       @ line_if True ''Timeouts '' (show_int (ttl_list c) @ '' '' @ show_int (ttl_desc c))
       @ line_if True ''NiceServer '' (show_int (NiceServer c))
       @ line_if True ''NiceClient '' (show_int (NiceClient c))
       @ line_if True ''NiceClean '' (show_int (NiceClean c))
       @ print_access_list (clnts c) @ servers)
     (print_mplist (srvrs c))"

end
