(* ===== verification/Lexer_Ok.thy ===== *)
theory Lexer_Ok
  imports Lexer_MP
begin

text \<open>
  The lexer as a stream of tokens: what is still to be read, and what \<open>getToken\<close> and
  \<open>putbackToken\<close> do to it.
\<close>

section \<open>The tokens of a text\<close>

function words :: "string \<Rightarrow> string list" where
  "words p =
     (case dropWhile isspace p of
        [] \<Rightarrow> []
      | c # q \<Rightarrow> takeWhile (\<lambda>d. \<not> isspace d) (c # q) # words (dropWhile (\<lambda>d. \<not> isspace d) (c # q)))"
  by pat_completeness auto
termination
proof (relation "measure length", goal_cases)
  case (2 p c q)
  have "\<not> isspace c" using 2 by (auto simp: dropWhile_eq_Cons_conv)
  then have "length (dropWhile (\<lambda>d. \<not> isspace d) (c # q)) < length (c # q)"
    using length_dropWhile_le [of "\<lambda>d. \<not> isspace d" q] by simp
  also have "\<dots> \<le> length p" using length_dropWhile_le [of isspace p] 2 by simp
  finally show ?case by simp
qed simp

declare words.simps [simp del]

definition line_tokens :: "string \<Rightarrow> string list" where
  "line_tokens l = (if deref (dropWhile isspace l) = CHR ''#'' then [] else words l)"

definition text_line :: "string \<Rightarrow> bool" where
  "text_line l \<longleftrightarrow> plain_line l \<and> NUL \<notin> set l"

definition token_ok :: "string \<Rightarrow> bool" where
  "token_ok t \<longleftrightarrow> t \<noteq> [] \<and> (\<forall>c \<in> set t. \<not> isspace c \<and> c \<noteq> NUL)"

lemma words_skip: "words (dropWhile isspace p) = words p"
  by (subst (1 2) words.simps) simp

lemma words_Nil [simp]: "words [] = []"
  by (subst words.simps) simp

lemma words_space [simp]: "isspace c \<Longrightarrow> words (c # p) = words p"
  by (subst (1 2) words.simps) simp

lemma words_step:
  assumes "p = c # q" and "\<not> isspace c"
  shows "words p = takeWhile (\<lambda>d. \<not> isspace d) p # words (dropWhile (\<lambda>d. \<not> isspace d) p)"
  by (subst words.simps) (simp add: assms)

lemma words_token [simp]:
  assumes "token_ok t"
  shows "words t = [t]"
proof -
  obtain c r where t: "t = c # r" "\<not> isspace c" using assms by (cases t) (auto simp: token_ok_def)
  have "takeWhile (\<lambda>d. \<not> isspace d) t = t" "dropWhile (\<lambda>d. \<not> isspace d) t = []"
    using assms by (auto simp: token_ok_def takeWhile_eq_all_conv dropWhile_eq_Nil_conv)
  then show ?thesis by (simp only: words_step [OF t] words_Nil)
qed

lemma words_append [simp]:
  assumes "token_ok t" and "isspace c"
  shows "words (t @ c # p) = t # words p"
proof -
  obtain d r where t: "t = d # r" "\<not> isspace d" using assms by (cases t) (auto simp: token_ok_def)
  have "takeWhile (\<lambda>d. \<not> isspace d) (t @ c # p) = t" "dropWhile (\<lambda>d. \<not> isspace d) (t @ c # p) = c # p"
    using assms takeWhile_stop [of t "\<lambda>d. \<not> isspace d" c p] by (auto simp: token_ok_def)
  moreover have "t @ c # p = d # (r @ c # p)" using t by simp
  ultimately show ?thesis using t(2) words_step [of "t @ c # p" d "r @ c # p"] assms(2) by simp
qed

lemma words_Cons:
  assumes "p = c # q" and "\<not> isspace c"
  shows "words p = takeWhile (\<lambda>d. \<not> isspace d) p # words (dropWhile isspace (dropWhile (\<lambda>d. \<not> isspace d) p))"
  by (simp add: words_step [OF assms] words_skip)

section \<open>The stream of tokens\<close>

text \<open>
  The lexer stands in a text of whole lines, behind the blanks, and \<open>ts\<close> are the tokens
  that are left.
\<close>

definition tokens_at :: "lexer \<Rightarrow> string list \<Rightarrow> bool" where
  "tokens_at lx ts \<longleftrightarrow>
     (\<exists>p ls. lx_cur lx = Some p \<and> (p = [] \<or> \<not> isspace (hd p)) \<and> NUL \<notin> set p
        \<and> drop (lx_off lx) (lx_buf lx) = p
        \<and> good (lx_is lx) \<and> inp (lx_is lx) = concat (map (\<lambda>l. l @ [LF]) ls)
        \<and> (\<forall>l \<in> set ls. text_line l) \<and> ts = words p @ concat (map line_tokens ls))"

lemma tokens_at_open:
  assumes "content = concat (map (\<lambda>l. l @ [LF]) ls)" and "\<forall>l \<in> set ls. text_line l"
  shows "tokens_at (lexer_open fn content) (concat (map line_tokens ls))"
  using assms by (auto simp: tokens_at_def lexer_open_def good_def)

lemma nlreadline_text:
  assumes "good is" and "inp is = l @ LF # r" and "text_line l"
  shows "nlreadline is old False = (l, is\<lparr>inp := r\<rparr>)"
proof -
  have "\<forall>c \<in> set l. c \<noteq> LF" using assms(3) by (auto simp: text_line_def plain_line_def is_eol_def)
  from takeWhile_stop [OF this, of LF r] assms(2)
  have "takeWhile (\<lambda>c. c \<noteq> LF) (inp is) = l" "dropWhile (\<lambda>c. c \<noteq> LF) (inp is) = LF # r"
    by simp_all
  moreover have "strip_eol l = l"
    using assms(3) unfolding strip_eol_def text_line_def plain_line_def
    by (cases l rule: rev_cases) auto
  ultimately show ?thesis
    using assms(1) unfolding nlreadline_def getline_def Let_def by simp
qed

declare c_str_id [simp]

lemma next_buf_at:
  assumes "text_line b" and "good (lx_is lx)" and "lx_buf lx = b"
    and "inp (lx_is lx) = concat (map (\<lambda>l. l @ [LF]) ls)" and "\<forall>l \<in> set ls. text_line l"
  shows "tokens_at (next_buf b lx) (line_tokens b @ concat (map line_tokens ls))"
proof -
  define p where "p = dropWhile isspace b"
  have c: "c_str b = b" using assms(1) by (simp add: text_line_def)
  have p: "p = [] \<or> \<not> isspace (hd p)" unfolding p_def using hd_dropWhile by blast
  have n: "NUL \<notin> set p" using assms(1) set_dropWhileD unfolding p_def text_line_def by fastforce
  have d: "drop (length b - length p) b = p"
    by (metis p_def append_eq_conv_conj diff_diff_cancel length_append length_drop
        length_dropWhile_le takeWhile_dropWhile_id add_diff_cancel_right' )
  show ?thesis
  proof (cases "deref p = CHR ''#''")
    case True
    with assms c show ?thesis
      by (auto simp: tokens_at_def next_buf_def Let_def line_tokens_def p_def [symmetric])
  next
    case False
    with assms c p n d show ?thesis
      by (auto simp: tokens_at_def next_buf_def Let_def line_tokens_def p_def [symmetric]
          words_skip [of b, folded p_def])
  qed
qed

lemma fill_buf_at:
  assumes "tokens_at lx ts"
  shows "(ts = [] \<longrightarrow> (\<exists>lx'. fill_buf lx = (Ok False, lx') \<and> lexer_eof lx'))
    \<and> (ts \<noteq> [] \<longrightarrow> (\<exists>lx'. fill_buf lx = (Ok True, lx') \<and> tokens_at lx' ts \<and> lx_cur lx' \<noteq> Some []))"
  using assms
proof (induction lx rule: fill_buf.induct)
  case (1 lx)
  obtain p ls where a: "lx_cur lx = Some p" "p = [] \<or> \<not> isspace (hd p)" "good (lx_is lx)"
    "inp (lx_is lx) = concat (map (\<lambda>l. l @ [LF]) ls)" "\<forall>l \<in> set ls. text_line l"
    "ts = words p @ concat (map line_tokens ls)"
    using 1(2) unfolding tokens_at_def by blast
  show ?case
  proof (cases p)
    case (Cons c q)
    then have "ts \<noteq> []" using a words_Cons [of p c q] by simp
    then show ?thesis using a(1) Cons 1(2) by (subst fill_buf.simps) simp
  next
    case Nil
    show ?thesis
    proof (cases ls)
      case lN: Nil
      have "nlreadline (lx_is lx) (lx_buf lx) False = ([], (lx_is lx)\<lparr>inp := [], is_eof := True, is_fail := True\<rparr>)"
        using a(3,4) lN by (simp add: nlreadline_def getline_def strip_eol_def)
      with a(1,3,6) Nil lN show ?thesis by (subst fill_buf.simps) (simp add: lexer_eof_def Let_def)
    next
      case (Cons l ls')
      let ?i = "(lx_is lx)\<lparr>inp := concat (map (\<lambda>l. l @ [LF]) ls')\<rparr>"
      let ?lx1 = "lx\<lparr>lx_line := lx_line lx + 1, lx_buf := l, lx_is := ?i\<rparr>"
      have r: "nlreadline (lx_is lx) (lx_buf lx) False = (l, ?i)"
        by (rule nlreadline_text) (use a Cons in auto)
      have g: "good ?i" "\<not> is_eof ?i" using a(3) by (simp_all add: good_def)
      have t: "tokens_at (next_buf l ?lx1) ts"
        using next_buf_at [of l ?lx1 ls'] a Nil Cons g by simp
      have f: "fill_buf lx = fill_buf (next_buf l ?lx1)"
        using a(1,3) Nil r g by (subst fill_buf.simps) (simp add: Let_def)
      have "p = [] \<Longrightarrow> tokens_at (next_buf l ?lx1) ts \<Longrightarrow>
         (ts = [] \<longrightarrow> (\<exists>lx'. fill_buf (next_buf l ?lx1) = (Ok False, lx') \<and> lexer_eof lx'))
       \<and> (ts \<noteq> [] \<longrightarrow> (\<exists>lx'. fill_buf (next_buf l ?lx1) = (Ok True, lx') \<and> tokens_at lx' ts \<and> lx_cur lx' \<noteq> Some []))"
        using 1(1) [of "[]" "(l, ?i)" l ?i ?lx1] a(1,3) r g by simp
      with t Nil f show ?thesis by simp
    qed
  qed
qed

text \<open>Every token is one: not empty, no blank, no zero in it.\<close>

lemma words_ok:
  assumes "NUL \<notin> set p"
  shows "\<forall>t \<in> set (words p). token_ok t"
  using assms
proof (induction p rule: words.induct)
  case (1 p)
  show ?case
  proof (cases "dropWhile isspace p")
    case Nil
    show ?thesis unfolding words.simps [of p] Nil by simp
  next
    case (Cons c q)
    let ?t = "takeWhile (\<lambda>d. \<not> isspace d) (c # q)"
    let ?r = "dropWhile (\<lambda>d. \<not> isspace d) (c # q)"
    have c: "\<not> isspace c" using Cons by (auto simp: dropWhile_eq_Cons_conv)
    have sub: "set (c # q) \<subseteq> set p" using Cons by (metis set_dropWhileD subsetI)
    have "set ?r \<subseteq> set p" using sub set_dropWhileD by fast
    then have "\<forall>t \<in> set (words ?r). token_ok t" using 1(1) [OF Cons] 1(2) by blast
    moreover have "token_ok ?t"
      unfolding token_ok_def using c sub 1(2) by (auto dest: set_takeWhileD)
    ultimately show ?thesis unfolding words.simps [of p] Cons list.case by (simp only: list.set ball_simps)
  qed
qed

lemma line_tokens_ok: "text_line l \<Longrightarrow> t \<in> set (line_tokens l) \<Longrightarrow> token_ok t"
  using words_ok [of l] by (auto simp: line_tokens_def text_line_def split: if_splits)

lemma tokens_at_ok:
  assumes "tokens_at lx ts" and "t \<in> set ts"
  shows "token_ok t"
proof -
  obtain p ls where "NUL \<notin> set p" "\<forall>l \<in> set ls. text_line l" "ts = words p @ concat (map line_tokens ls)"
    using assms(1) unfolding tokens_at_def by blast
  with assms(2) words_ok [of p] line_tokens_ok show ?thesis by auto
qed

lemma getToken_next:
  assumes "tokens_at lx (t # ts)"
  shows "\<exists>lx'. getToken lx = (Ok t, lx') \<and> tokens_at lx' ts \<and> \<not> lexer_eof lx' \<and> curToken lx' = t"
proof -
  obtain lx1 where f: "fill_buf lx = (Ok True, lx1)" "tokens_at lx1 (t # ts)" "lx_cur lx1 \<noteq> Some []"
    using fill_buf_at [OF assms] by auto
  obtain p ls where a: "lx_cur lx1 = Some p" "p = [] \<or> \<not> isspace (hd p)" "good (lx_is lx1)"
    "inp (lx_is lx1) = concat (map (\<lambda>l. l @ [LF]) ls)" "\<forall>l \<in> set ls. text_line l"
    "t # ts = words p @ concat (map line_tokens ls)" "NUL \<notin> set p" "drop (lx_off lx1) (lx_buf lx1) = p"
    using f(2) unfolding tokens_at_def by blast
  obtain c q where p: "p = c # q" "\<not> isspace c" using a(1,2) f(3) by (cases p) auto
  define r where "r = dropWhile isspace (dropWhile (\<lambda>d. \<not> isspace d) p)"
  have w: "words p = takeWhile (\<lambda>d. \<not> isspace d) p # words r" unfolding r_def by (rule words_Cons [OF p])
  have suf: "\<exists>pre. p = pre @ r" unfolding r_def by (metis append.assoc takeWhile_dropWhile_id)
  then have d: "drop (length p - length r) p = r" by auto
  have rs: "r = [] \<or> \<not> isspace (hd r)" unfolding r_def using hd_dropWhile by blast
  have rn: "NUL \<notin> set r" using suf a(7) by auto
  let ?lx' = "lx1\<lparr>lx_tok := t, lx_cur := Some r, lx_off := lx_off lx1 + (length p - length r)\<rparr>"
  have t: "takeWhile (\<lambda>d. \<not> isspace d) p = t" "ts = words r @ concat (map line_tokens ls)" using a(6) w by auto
  have "getToken lx = (Ok t, ?lx')"
    unfolding getToken_def using f(1) a(1) t(1)
    by (simp add: act_simps Let_def r_def del: takeWhile.simps dropWhile.simps)
  moreover have "tokens_at ?lx' ts"
    unfolding tokens_at_def
    by (rule exI [of _ r], rule exI [of _ ls])
       (use a(3-5) a(8) t(2) d rs rn in \<open>simp add: add.commute [of "lx_off lx1"] flip: drop_drop\<close>)
  ultimately show ?thesis using a(3) by (auto simp: lexer_eof_def good_def curToken_def)
qed

lemma getToken_end:
  assumes "tokens_at lx []"
  shows "\<exists>lx'. getToken lx = (Ok [], lx') \<and> lexer_eof lx'"
proof -
  obtain lx' where "fill_buf lx = (Ok False, lx')" "lexer_eof lx'" using fill_buf_at [OF assms] by auto
  moreover from this have "getToken lx = (Ok [], lx')"
    unfolding getToken_def by (subst bnd_Ok [where f = fill_buf and a = False and s' = lx']) (simp_all add: ret_def)
  ultimately show ?thesis by blast
qed

lemma putbackToken_next:
  assumes "tokens_at lx ts" and "token_ok t"
  shows "\<exists>lx'. putbackToken t lx = (Ok (), lx') \<and> tokens_at lx' (t # ts)"
proof -
  obtain p ls where a: "lx_cur lx = Some p" "good (lx_is lx)"
    "inp (lx_is lx) = concat (map (\<lambda>l. l @ [LF]) ls)" "\<forall>l \<in> set ls. text_line l"
    "ts = words p @ concat (map line_tokens ls)" "NUL \<notin> set p" "drop (lx_off lx) (lx_buf lx) = p"
    using assms(1) unfolding tokens_at_def by blast
  let ?b = "t @ '' '' @ p"
  have n: "NUL \<notin> set ?b" using assms(2) a(6) by (auto simp: token_ok_def)
  have h: "\<not> isspace (hd ?b)" using assms(2) by (cases t) (auto simp: token_ok_def)
  have w: "words ?b = t # words p" using words_append [OF assms(2), of "CHR '' ''" p] by (simp add: isspace_def)
  have "tokens_at (lx\<lparr>lx_buf := ?b, lx_cur := Some ?b, lx_off := 0\<rparr>) (t # ts)"
    unfolding tokens_at_def
    by (rule exI [of _ ?b], rule exI [of _ ls]) (use a n h w in simp)
  with a(7) n show ?thesis by (simp add: putbackToken_def act_simps Let_def)
qed

section \<open>The interface of the readers\<close>

text \<open>What the readers of the configuration rely on.\<close>

locale token_stream =
  fixes get :: "('s, string) act" and put :: "string \<Rightarrow> ('s, unit) act"
    and left :: "'s \<Rightarrow> string list \<Rightarrow> bool"
  assumes get_next: "left s (t # ts) \<Longrightarrow> \<exists>s'. get s = (Ok t, s') \<and> left s' ts"
    and put_next: "left s ts \<Longrightarrow> token_ok t \<Longrightarrow> \<exists>s'. put t s = (Ok (), s') \<and> left s' (t # ts)"
    and left_ok: "left s ts \<Longrightarrow> t \<in> set ts \<Longrightarrow> token_ok t"
begin

lemma peek:
  assumes "left s (t # ts)"
  shows "\<exists>s'. bnd get (\<lambda>a. bnd (put a) (\<lambda>_. ret a)) s = (Ok t, s') \<and> left s' (t # ts)"
proof -
  obtain s1 where 1: "get s = (Ok t, s1)" "left s1 ts" using get_next [OF assms] by blast
  have "token_ok t" using left_ok [OF assms] by simp
  from put_next [OF 1(2) this] obtain s2 where "put t s1 = (Ok (), s2)" "left s2 (t # ts)" by blast
  with 1 show ?thesis by (simp add: act_simps)
qed

lemma get_bnd:
  assumes "left s (t # ts)" and "\<And>s'. left s' ts \<Longrightarrow> \<exists>s''. f t s' = (r, s'') \<and> P s''"
  shows "\<exists>s''. bnd get f s = (r, s'') \<and> P s''"
  using get_next [OF assms(1)] assms(2) by (auto simp: act_simps)

end

interpretation lex: token_stream getToken putbackToken tokens_at
  by unfold_locales (use getToken_next putbackToken_next tokens_at_ok in blast)+

end
