(* ===== verification/Config_Ok.thy ===== *)
theory Config_Ok
  imports Config_Read Lexer_Ok
begin

text \<open>
  Reading the list of news servers that was printed, and which entry of the lists is chosen.
\<close>

section \<open>Runs of the readers\<close>

text \<open>From a lexer with the tokens \<open>ts\<close> left, the value \<open>v\<close> and a lexer with \<open>ts'\<close> left.\<close>

definition runs :: "(lexer \<Rightarrow> ('a outcome \<times> lexer) option) \<Rightarrow> string list \<Rightarrow> 'a \<Rightarrow> string list \<Rightarrow> bool" where
  "runs f ts v ts' \<longleftrightarrow> (\<forall>lx. tokens_at lx ts \<longrightarrow> (\<exists>lx'. f lx = Some (Ok v, lx') \<and> tokens_at lx' ts'))"

definition acts :: "(lexer, 'a) act \<Rightarrow> string list \<Rightarrow> 'a \<Rightarrow> string list \<Rightarrow> bool" where
  "acts f ts v ts' \<longleftrightarrow> (\<forall>lx. tokens_at lx ts \<longrightarrow> (\<exists>lx'. f lx = (Ok v, lx') \<and> tokens_at lx' ts'))"

named_theorems run_intros

lemma acts_get [run_intros]: "acts getToken (t # ts) t ts"
  unfolding acts_def using lex.get_next by blast

lemma acts_put: "token_ok t \<Longrightarrow> acts (putbackToken t) ts () (t # ts)"
  unfolding acts_def using lex.put_next by blast

lemma acts_ret [run_intros]: "acts (ret v) ts v ts"
  by (simp add: acts_def act_simps)

lemma acts_bnd: "acts f ts a ts1 \<Longrightarrow> acts (g a) ts1 b ts2 \<Longrightarrow> acts (bnd f g) ts b ts2"
  unfolding acts_def bnd_def by fastforce

lemma runs_act: "acts f ts a ts' \<Longrightarrow> runs (\<lambda>lx. Some (f lx)) ts a ts'"
  unfolding acts_def runs_def by simp

lemma runs_obnd: "runs f ts a ts1 \<Longrightarrow> runs (g a) ts1 b ts2 \<Longrightarrow> runs (\<lambda>lx. obnd (f lx) g) ts b ts2"
  unfolding runs_def obnd_def by fastforce

lemma runs_ok [run_intros]: "runs (\<lambda>lx. Some (Ok v, lx)) ts v ts"
  by (simp add: runs_def)

lemma acts_loop: "runs f ts a ts' \<Longrightarrow> acts (loop f) ts a ts'"
  unfolding acts_def runs_def loop_def by fastforce

text \<open>A loop that starts with a token.\<close>

lemma runs_next:
  assumes "\<And>lx. f lx = obnd (Some (getToken lx)) g" and "runs (g t) ts v ts'"
  shows "runs f (t # ts) v ts'"
proof -
  have f: "f = (\<lambda>lx. obnd (Some (getToken lx)) g)" using assms(1) by blast
  show ?thesis unfolding f by (rule runs_obnd [OF runs_act [OF acts_get]]) (rule assms(2))
qed

lemma token_c_str: "token_ok a \<Longrightarrow> c_str a = a"
  by (rule c_str_id) (auto simp: token_ok_def)

lemma acts_tok:
  assumes "token_ok t \<Longrightarrow> acts f (t # ts) v ts'"
  shows "acts f (t # ts) v ts'"
  using assms tokens_at_ok unfolding acts_def by (meson list.set_intros(1))

lemma runs_tok:
  assumes "token_ok t \<Longrightarrow> runs f (t # ts) v ts'"
  shows "runs f (t # ts) v ts'"
  using assms tokens_at_ok unfolding runs_def by (meson list.set_intros(1))

lemma acts_sized: "length a < n \<Longrightarrow> acts (sized_arg n msg) (a # ts) a ts"
  unfolding sized_arg_def
  by (rule acts_tok, rule acts_bnd [OF acts_get]) (simp add: token_c_str acts_ret)

lemma acts_brace: "acts expect_brace (''{'' # ts) () ts"
  unfolding expect_brace_def by (rule acts_bnd [OF acts_get]) (simp add: acts_ret)

lemma acts_strcpy: "token_ok a \<Longrightarrow> length a < n \<Longrightarrow> acts (strcpy_to n a) ts a ts"
  by (simp add: strcpy_to_def token_c_str acts_ret)

section \<open>One server\<close>

text \<open>Known words are taken until the first other one.\<close>

lemma flags_loop_runs:
  assumes "\<And>o' c. o' \<in> set os \<Longrightarrow> tok_fun o' c = Some (eff o' c)" and "\<And>c. tok_fun t c = None"
  shows "runs (flags_loop tok_fun cur) (os @ t # ts) (foldl (\<lambda>c o'. eff o' c) cur os) (t # ts)"
  using assms(1)
proof (induction os arbitrary: cur)
  case Nil
  show ?case
  proof (simp, rule runs_tok, rule runs_next [OF flags_loop.simps])
    assume t: "token_ok t"
    show "runs (\<lambda>lx1. case tok_fun t cur of Some cur' \<Rightarrow> flags_loop tok_fun cur' lx1
        | None \<Rightarrow> obnd (Some (putbackToken t lx1)) (\<lambda>_ lx2. Some (Ok cur, lx2))) ts cur (t # ts)"
      using runs_obnd [OF runs_act [OF acts_put [OF t]] runs_ok] by (simp add: assms(2))
  qed
next
  case (Cons o' os)
  have "runs (flags_loop tok_fun (eff o' cur)) (os @ t # ts) (foldl (\<lambda>c o'. eff o' c) (eff o' cur) os) (t # ts)"
    using Cons by simp
  then show ?case
    using Cons.prems by (simp, intro runs_next [OF flags_loop.simps]) simp
qed

text \<open>The declarations of a server.\<close>

lemma server_Read:
  assumes "runs (server_loop (cur\<lparr>rd_groups := a, post_groups := a\<rparr>)) ts v ts'" and "length a < 2048"
  shows "runs (server_loop cur) (''Read'' # a # ts) v ts'"
proof (rule runs_next [OF server_loop.simps], simp)
  have "acts (set_read cur) (a # ts) (cur\<lparr>rd_groups := a, post_groups := a\<rparr>) ts"
    unfolding set_read_def by (rule acts_bnd [OF acts_sized [OF assms(2)] acts_ret])
  then show "runs (\<lambda>lx1. obnd (Some (set_read cur lx1)) server_loop) (a # ts) v ts'"
    by (rule runs_obnd [OF runs_act]) (rule assms(1))
qed

lemma server_PostTo:
  assumes "runs (server_loop (cur\<lparr>post_groups := a\<rparr>)) ts v ts'" and "length a < 2048"
  shows "runs (server_loop cur) (''PostTo'' # a # ts) v ts'"
  by (rule runs_next [OF server_loop.simps], simp,
      rule runs_obnd [OF runs_act [OF acts_sized [OF assms(2)]]], rule assms(1))

lemma server_BindFrom:
  assumes "runs (server_loop (cur\<lparr>bindFrom := a\<rparr>)) ts v ts'" and "length a < 2048"
  shows "runs (server_loop cur) (''BindFrom'' # a # ts) v ts'"
  by (rule runs_next [OF server_loop.simps], simp,
      rule runs_obnd [OF runs_act [OF acts_sized [OF assms(2)]]], rule assms(1))

lemma server_User:
  assumes "runs (server_loop (cur\<lparr>user := a\<rparr>)) ts v ts'" and "length a < 64" and "token_ok a"
  shows "runs (server_loop cur) (''User'' # a # ts) v ts'"
  by (rule runs_next [OF server_loop.simps], simp, rule runs_obnd [OF runs_act [OF acts_get]])
     (use assms in \<open>simp add: token_c_str\<close>)

lemma server_Password:
  assumes "runs (server_loop (cur\<lparr>passwd := a\<rparr>)) ts v ts'" and "length a < 64" and "token_ok a"
  shows "runs (server_loop cur) (''Password'' # a # ts) v ts'"
  by (rule runs_next [OF server_loop.simps], simp, rule runs_obnd [OF runs_act [OF acts_get]])
     (use assms in \<open>simp add: token_c_str\<close>)

lemma server_GroupTimeout:
  assumes "runs (server_loop (cur\<lparr>groupTimeout := atoi a\<rparr>)) ts v ts'" and "token_ok a"
  shows "runs (server_loop cur) (''GroupTimeout'' # a # ts) v ts'"
  by (rule runs_next [OF server_loop.simps], simp, rule runs_obnd [OF runs_act [OF acts_get]])
     (use assms in \<open>simp add: token_c_str\<close>)

lemma server_Retries:
  assumes "runs (server_loop (cur\<lparr>retries := atoi a\<rparr>)) ts v ts'" and "token_ok a"
  shows "runs (server_loop cur) (''Retries'' # a # ts) v ts'"
  by (rule runs_next [OF server_loop.simps], simp, rule runs_obnd [OF runs_act [OF acts_get]])
     (use assms in \<open>simp add: token_c_str\<close>)

lemma server_Options:
  assumes "runs (flags_loop option_token cur) ts cur' ts1" and "runs (server_loop cur') ts1 v ts'"
  shows "runs (server_loop cur) (''Options'' # ts) v ts'"
  by (rule runs_next [OF server_loop.simps], simp, rule runs_obnd [OF assms(1)], rule assms(2))

lemma server_Commands:
  assumes "runs (flags_loop command_token cur) ts cur' ts1" and "runs (server_loop cur') ts1 v ts'"
  shows "runs (server_loop cur) (''Commands'' # ts) v ts'"
  by (rule runs_next [OF server_loop.simps], simp, rule runs_obnd [OF assms(1)], rule assms(2))

lemma server_end: "runs (server_loop cur) (''}'' # ts) cur ts"
  by (rule runs_next [OF server_loop.simps], simp, rule runs_ok)

section \<open>What is printed of a server\<close>

definition opt_words :: "32 word \<Rightarrow> string list" where
  "opt_words w = (if has_bit w F_SETPOSTFLAG then [''setpostflag''] else [])
     @ (if has_bit w F_CACHED then [''cached''] else [])
     @ (if has_bit w F_OFFLINE then [''offline''] else [])
     @ (if has_bit w F_SEMIOFFLINE then [''semioffline''] else [])"

definition cmd_words :: "32 word \<Rightarrow> string list" where
  "cmd_words w = (if has_bit (NOT w) F_LISTGROUP then [''not-listgroup''] else [])
     @ (if has_bit (NOT w) F_OVER then [''not-over''] else [])"

definition blanks :: "string list \<Rightarrow> string" where
  "blanks ws = concat (map (\<lambda>w. '' '' @ w) ws)"

definition decl_line :: "string \<Rightarrow> string list \<Rightarrow> string" where
  "decl_line k ws = [TAB, TAB] @ k @ blanks ws"

definition opt_line :: "string \<Rightarrow> string \<Rightarrow> string list" where
  "opt_line k v = (if v \<noteq> [] then [decl_line k [v]] else [])"

definition opt_decl :: "string \<Rightarrow> string \<Rightarrow> string list" where
  "opt_decl k v = (if v \<noteq> [] then [k, v] else [])"

definition head_line :: "mpentry \<Rightarrow> string" where
  "head_line e =
     (if hostname e \<noteq> [] then [TAB] @ ''Server'' @ blanks [hostname e, servicename e, ''{'']
      else [TAB] @ ''NoServer'' @ blanks [[], ''{''])"

definition head_tokens :: "mpentry \<Rightarrow> string list" where
  "head_tokens e =
     (if hostname e \<noteq> [] then [''Server'', hostname e, servicename e, ''{''] else [''NoServer'', ''{''])"

definition entry_lines :: "mpentry \<Rightarrow> string list" where
  "entry_lines e =
     [head_line e] @ opt_line ''User'' (user e) @ opt_line ''Password'' (passwd e) @ opt_line ''Read'' (rd_groups e)
     @ opt_line ''PostTo'' (post_groups e) @ opt_line ''BindFrom'' (bindFrom e)
     @ [decl_line ''GroupTimeout'' [show_int (groupTimeout e)], decl_line ''Options'' (opt_words (flags e))]
     @ (if NOT (nntpflags e) = 0 then [] else [decl_line ''Commands'' (cmd_words (nntpflags e))])
     @ [decl_line ''Retries'' [show_int (retries e)], [TAB] @ ''}'']"

definition entry_decls :: "mpentry \<Rightarrow> string list" where
  "entry_decls e =
     opt_decl ''User'' (user e) @ opt_decl ''Password'' (passwd e) @ opt_decl ''Read'' (rd_groups e)
     @ opt_decl ''PostTo'' (post_groups e) @ opt_decl ''BindFrom'' (bindFrom e)
     @ [''GroupTimeout'', show_int (groupTimeout e), ''Options''] @ opt_words (flags e)
     @ (if NOT (nntpflags e) = 0 then [] else ''Commands'' # cmd_words (nntpflags e))
     @ [''Retries'', show_int (retries e), ''}'']"

definition entry_tokens :: "mpentry \<Rightarrow> string list" where
  "entry_tokens e = head_tokens e @ entry_decls e"

text \<open>
  The servers that can be written to the configuration file at all: names without blanks
  that fit their arrays, and of the commands only those that the reader knows turned off.
\<close>

definition arg_ok :: "nat \<Rightarrow> string \<Rightarrow> bool" where
  "arg_ok n v \<longleftrightarrow> (v \<noteq> [] \<longrightarrow> token_ok v \<and> length v < n)"

definition entry_ok :: "mpentry \<Rightarrow> bool" where
  "entry_ok e \<longleftrightarrow>
     (if hostname e = [] then servicename e = [] else servicename e \<noteq> [])
     \<and> arg_ok 64 (hostname e) \<and> arg_ok 256 (servicename e) \<and> arg_ok 64 (user e) \<and> arg_ok 64 (passwd e)
     \<and> arg_ok 2048 (rd_groups e) \<and> arg_ok 2048 (post_groups e) \<and> arg_ok 2048 (bindFrom e)
     \<and> (post_groups e = [] \<longrightarrow> rd_groups e = [])
     \<and> 0 \<le> groupTimeout e \<and> groupTimeout e < 2 ^ 31 \<and> 0 \<le> retries e \<and> retries e < 2 ^ 31
     \<and> overview e = overfmt_new \<and> flags e < 16
     \<and> (\<exists>a b. nntpflags e = set_bit_of F_OVER b (set_bit_of F_LISTGROUP a 0xffffffff))"

lemma entry_okD:
  assumes "entry_ok e"
  shows "if hostname e = [] then servicename e = [] else servicename e \<noteq> []"
    and "arg_ok 64 (hostname e)" and "arg_ok 256 (servicename e)" and "arg_ok 64 (user e)"
    and "arg_ok 64 (passwd e)" and "arg_ok 2048 (rd_groups e)" and "arg_ok 2048 (post_groups e)"
    and "arg_ok 2048 (bindFrom e)" and "post_groups e = [] \<longrightarrow> rd_groups e = []"
    and "0 \<le> groupTimeout e \<and> groupTimeout e < 2 ^ 31" and "0 \<le> retries e \<and> retries e < 2 ^ 31"
    and "overview e = overfmt_new" and "flags e < 16"
    and "\<exists>a b. nntpflags e = set_bit_of F_OVER b (set_bit_of F_LISTGROUP a 0xffffffff)"
  using assms unfolding entry_ok_def by blast+

lemma cmd_bits:
  fixes a b :: bool
  assumes "w = set_bit_of F_OVER b (set_bit_of F_LISTGROUP a 0xffffffff)"
  shows "\<not> has_bit (NOT w) F_LIST_ACTIVE_WILDMAT" "\<not> has_bit (NOT w) F_LIST_OVERVIEW_FMT"
    "\<not> has_bit (NOT w) F_MODE_READER" "\<not> has_bit (NOT w) F_XOVER" "\<not> has_bit (NOT w) F_POST"
    "has_bit (NOT w) F_LISTGROUP = (\<not> a)" "has_bit (NOT w) F_OVER = (\<not> b)" "NOT w = 0 \<longleftrightarrow> a \<and> b"
  by (cases a; cases b; simp add: assms set_bit_of_def has_bit_def F_OVER_def F_LISTGROUP_def
      F_LIST_ACTIVE_WILDMAT_def F_LIST_OVERVIEW_FMT_def F_MODE_READER_def F_XOVER_def F_POST_def)+

lemma blanks_simps [simp]: "blanks [] = []" "blanks (w # ws) = CHR '' '' # w @ blanks ws"
  by (simp_all add: blanks_def)

lemma blanks_append: "blanks (xs @ ys) = blanks xs @ blanks ys"
  by (simp add: blanks_def)

lemma opt_words_print:
  "(if has_bit w F_SETPOSTFLAG then '' setpostflag'' else [])
    @ (if has_bit w F_CACHED then '' cached'' else [])
    @ (if has_bit w F_OFFLINE then '' offline'' else [])
    @ (if has_bit w F_SEMIOFFLINE then '' semioffline'' else []) = blanks (opt_words w)"
  by (simp add: opt_words_def blanks_append if_distrib [of blanks])

lemma opt_line_print:
  "p = [TAB, TAB] @ k @ '' '' \<Longrightarrow> line_if (v \<noteq> []) p v = concat (map (\<lambda>l. l @ [LF]) (opt_line k v))"
  by (simp add: line_if_def opt_line_def decl_line_def)

lemma print_entry_lines:
  assumes "entry_ok e"
  shows "print_entry e = Some (concat (map (\<lambda>l. l @ [LF]) (entry_lines e)))"
proof -
  obtain a b where w: "nntpflags e = set_bit_of F_OVER b (set_bit_of F_LISTGROUP a 0xffffffff)"
    using entry_okD(14) [OF assms] by blast
  have u: "(64 \<le> length (user e) \<or> 64 \<le> length (passwd e)) = False"
    using entry_okD(4,5) [OF assms] by (auto simp: arg_ok_def)
  have n: "print_nntpflags e = concat (map (\<lambda>l. l @ [LF])
      (if NOT (nntpflags e) = 0 then [] else [decl_line ''Commands'' (cmd_words (nntpflags e))]))"
    unfolding print_nntpflags_def cmd_words_def decl_line_def
    by (simp add: cmd_bits [OF w])
  note o1 = opt_line_print [of _ "''User''"] and o2 = opt_line_print [of _ "''Password''"]
    and o3 = opt_line_print [of _ "''Read''"] and o4 = opt_line_print [of _ "''PostTo''"]
    and o5 = opt_line_print [of _ "''BindFrom''"]
  have h: "(if hostname e \<noteq> [] then [TAB] @ ''Server '' @ hostname e @ '' '' @ servicename e @ '' {'' @ [LF]
         else [TAB] @ ''NoServer  {'' @ [LF])
      = head_line e @ [LF]"
    by (simp add: head_line_def)
  have p: "[TAB, TAB] @ ''Options'' @
        (if has_bit (flags e) F_SETPOSTFLAG then '' setpostflag'' else [])
        @ (if has_bit (flags e) F_CACHED then '' cached'' else [])
        @ (if has_bit (flags e) F_OFFLINE then '' offline'' else [])
        @ (if has_bit (flags e) F_SEMIOFFLINE then '' semioffline'' else []) @ [LF] @ r
      = decl_line ''Options'' (opt_words (flags e)) @ LF # r" for r
    unfolding decl_line_def opt_words_print [symmetric] by simp
  show ?thesis
    unfolding print_entry_def entry_lines_def n u if_False h p
    by (simp add: o1 o2 o3 o4 o5 decl_line_def split del: if_split)
qed

section \<open>The tokens of what is printed\<close>

lemma words_blanks: "token_ok k \<Longrightarrow> \<forall>w \<in> set ws. token_ok w \<Longrightarrow> words (k @ blanks ws) = k # ws"
proof (induction ws arbitrary: k)
  case (Cons w ws)
  have "words (k @ CHR '' '' # w @ blanks ws) = k # words (w @ blanks ws)"
    by (rule words_append) (use Cons.prems in \<open>simp_all add: isspace_def\<close>)
  with Cons show ?case by simp
qed simp

lemma decl_line_tokens:
  assumes "token_ok k" and "hd k \<noteq> CHR ''#''" and "\<forall>w \<in> set ws. token_ok w"
  shows "line_tokens (decl_line k ws) = k # ws" and "line_tokens (TAB # k @ blanks ws) = k # ws"
    and "text_line (decl_line k ws)" and "text_line (TAB # k @ blanks ws)"
proof -
  have T: "isspace TAB" by (simp add: isspace_def)
  have d: "dropWhile isspace (k @ blanks ws) = k @ blanks ws" "deref (k @ blanks ws) \<noteq> CHR ''#''"
    using assms(1,2) by (cases k; simp add: token_ok_def)+
  have b: "\<forall>c \<in> set (blanks ws). c \<noteq> NUL \<and> c \<noteq> CR \<and> c \<noteq> LF"
    using assms(3) by (auto simp: blanks_def token_ok_def isspace_def)
  show "line_tokens (decl_line k ws) = k # ws" "line_tokens (TAB # k @ blanks ws) = k # ws"
    using words_blanks [OF assms(1,3)] d T by (simp_all add: line_tokens_def decl_line_def)
  show "text_line (decl_line k ws)" "text_line (TAB # k @ blanks ws)"
    using assms(1) b by (auto simp: text_line_def plain_line_def is_eol_def decl_line_def token_ok_def isspace_def)
qed

lemma show_int_ok:
  assumes "0 \<le> n" and "n < 2 ^ 31"
  shows "token_ok (show_int n)" and "atoi (show_int n) = n"
proof -
  show "token_ok (show_int n)"
    using assms show_nat_digits [of _ "nat n"] isdigit_not_space
    by (fastforce simp: token_ok_def show_int_def isdigit_def)
  show "atoi (show_int n) = n"
    using atoi_show_nat [of "nat n" "[]"] assms by (simp add: show_int_def isdigit_def)
qed

lemma opt_words_ok: "\<forall>w \<in> set (opt_words w'). token_ok w" "\<forall>w \<in> set (cmd_words w'). token_ok w"
  by (auto simp: opt_words_def cmd_words_def token_ok_def isspace_def)

lemma opt_line_tokens:
  assumes "arg_ok n v" and "token_ok k" and "hd k \<noteq> CHR ''#''"
  shows "concat (map line_tokens (opt_line k v)) = opt_decl k v" and "\<forall>l \<in> set (opt_line k v). text_line l"
  using assms decl_line_tokens [of k "[v]"] by (auto simp: opt_line_def opt_decl_def arg_ok_def)

lemma head_line_tokens:
  assumes "entry_ok e"
  shows "line_tokens (head_line e) = head_tokens e" and "text_line (head_line e)"
proof -
  have S: "token_ok ''Server''" "token_ok ''NoServer''" "token_ok ''{''" by (simp_all add: token_ok_def isspace_def)
  have "line_tokens (head_line e) = head_tokens e \<and> text_line (head_line e)"
  proof (cases "hostname e = []")
    case True
    have "words (''NoServer'' @ CHR '' '' # '' {'') = [''NoServer'', ''{'']"
      by (subst words_append [OF S(2)]) (simp_all add: isspace_def words_token S)
    with True show ?thesis
      by (simp add: head_line_def head_tokens_def line_tokens_def text_line_def plain_line_def is_eol_def isspace_def)
  next
    case False
    then have "token_ok (hostname e)" "token_ok (servicename e)"
      using entry_okD(1-3) [OF assms] by (simp_all add: arg_ok_def)
    with False show ?thesis
      using decl_line_tokens(2,4) [OF S(1), of "[hostname e, servicename e, ''{'']"] S(3)
      by (simp add: head_line_def head_tokens_def)
  qed
  then show "line_tokens (head_line e) = head_tokens e" "text_line (head_line e)" by blast+
qed

lemma entry_lines_tokens:
  assumes "entry_ok e"
  shows "concat (map line_tokens (entry_lines e)) = entry_tokens e" and "\<forall>l \<in> set (entry_lines e). text_line l"
proof -
  note ok = entry_okD [OF assms]
  have lit: "token_ok ''User''" "token_ok ''Password''" "token_ok ''Read''" "token_ok ''PostTo''"
    "token_ok ''BindFrom''" "token_ok ''GroupTimeout''" "token_ok ''Options''" "token_ok ''Commands''"
    "token_ok ''Retries''" "token_ok ''}''"
    by (simp_all add: token_ok_def isspace_def)
  note t = opt_line_tokens [OF ok(4) lit(1)] opt_line_tokens [OF ok(5) lit(2)]
    opt_line_tokens [OF ok(6) lit(3)] opt_line_tokens [OF ok(7) lit(4)] opt_line_tokens [OF ok(8) lit(5)]
    decl_line_tokens(1,3) [OF lit(6)] decl_line_tokens(1,3) [OF lit(7)]
    decl_line_tokens(1,3) [OF lit(8)] decl_line_tokens(1,3) [OF lit(9)]
    decl_line_tokens(2,4) [OF lit(10), where ws = "[]"]
  have c: "concat (map line_tokens (if b then [] else [decl_line ''Commands'' (cmd_words w)]))
      = (if b then [] else ''Commands'' # cmd_words w)"
    "\<forall>l \<in> set (if b then [] else [decl_line ''Commands'' (cmd_words w)]). text_line l" for b w
    using t opt_words_ok by auto
  show "concat (map line_tokens (entry_lines e)) = entry_tokens e"
    unfolding entry_lines_def entry_tokens_def entry_decls_def map_append concat_append c
    using t opt_words_ok show_int_ok(1) ok(10,11) head_line_tokens(1) [OF assms] by simp
  show "\<forall>l \<in> set (entry_lines e). text_line l"
    unfolding entry_lines_def set_append ball_Un
    using c(2) head_line_tokens(2) [OF assms] t opt_words_ok show_int_ok(1) ok(10,11) by simp
qed

section \<open>Reading it back\<close>

text \<open>What a reader that starts from the default flags makes of a printed server.\<close>

definition readback :: "mpentry \<Rightarrow> mpentry" where
  "readback e = e\<lparr>flags := flags e OR (F_SETPOSTFLAG OR F_CACHED)\<rparr>"

lemma opt_User:
  assumes "runs (server_loop (cur\<lparr>user := a\<rparr>)) ts v ts'" and "arg_ok 64 a" and "user cur = []"
  shows "runs (server_loop cur) (opt_decl ''User'' a @ ts) v ts'"
  using assms server_User [OF assms(1)] by (cases cur) (auto simp: opt_decl_def arg_ok_def)

lemma opt_Password:
  assumes "runs (server_loop (cur\<lparr>passwd := a\<rparr>)) ts v ts'" and "arg_ok 64 a" and "passwd cur = []"
  shows "runs (server_loop cur) (opt_decl ''Password'' a @ ts) v ts'"
  using assms server_Password [OF assms(1)] by (cases cur) (auto simp: opt_decl_def arg_ok_def)

lemma opt_Read:
  assumes "runs (server_loop (cur\<lparr>rd_groups := a, post_groups := a\<rparr>)) ts v ts'" and "arg_ok 2048 a"
    and "rd_groups cur = []" and "post_groups cur = []"
  shows "runs (server_loop cur) (opt_decl ''Read'' a @ ts) v ts'"
  using assms server_Read [OF assms(1)] by (cases cur) (auto simp: opt_decl_def arg_ok_def)

lemma opt_PostTo:
  assumes "runs (server_loop (cur\<lparr>post_groups := a\<rparr>)) ts v ts'" and "arg_ok 2048 a"
    and "a = [] \<longrightarrow> post_groups cur = []"
  shows "runs (server_loop cur) (opt_decl ''PostTo'' a @ ts) v ts'"
  using assms server_PostTo [OF assms(1)] by (cases cur) (auto simp: opt_decl_def arg_ok_def)

lemma opt_BindFrom:
  assumes "runs (server_loop (cur\<lparr>bindFrom := a\<rparr>)) ts v ts'" and "arg_ok 2048 a" and "bindFrom cur = []"
  shows "runs (server_loop cur) (opt_decl ''BindFrom'' a @ ts) v ts'"
  using assms server_BindFrom [OF assms(1)] by (cases cur) (auto simp: opt_decl_def arg_ok_def)

lemma small_flags:
  fixes w :: "32 word"
  assumes "w < 16"
  shows "(if has_bit w F_SETPOSTFLAG then F_SETPOSTFLAG else 0) OR (if has_bit w F_CACHED then F_CACHED else 0)
    OR (if has_bit w F_OFFLINE then F_OFFLINE else 0) OR (if has_bit w F_SEMIOFFLINE then F_SEMIOFFLINE else 0) = w"
proof -
  have "unat w < 16" using assms by (simp add: word_less_nat_alt)
  then have "unat w \<in> set [0..<16]" by simp
  then have "w \<in> word_of_nat ` set [0..<16]" using image_eqI [of w word_of_nat "unat w"] by simp
  then show ?thesis
    by (auto simp: upt_rec has_bit_def F_SETPOSTFLAG_def F_CACHED_def F_OFFLINE_def F_SEMIOFFLINE_def)
qed

lemma option_token_simps [simp]:
  "option_token ''setpostflag'' c = Some (c\<lparr>flags := flags c OR F_SETPOSTFLAG\<rparr>)"
  "option_token ''cached'' c = Some (c\<lparr>flags := flags c OR F_CACHED\<rparr>)"
  "option_token ''offline'' c = Some (c\<lparr>flags := flags c OR F_OFFLINE\<rparr>)"
  "option_token ''semioffline'' c = Some (c\<lparr>flags := flags c OR F_SEMIOFFLINE\<rparr>)"
  "option_token ''Commands'' c = None" "option_token ''Retries'' c = None"
  by (simp_all add: option_token_def isFlag_def c_str_def set_bit_of_def)

lemma command_token_simps [simp]:
  "command_token ''not-listgroup'' c = Some (c\<lparr>nntpflags := nntpflags c AND NOT F_LISTGROUP\<rparr>)"
  "command_token ''not-over'' c = Some (c\<lparr>nntpflags := nntpflags c AND NOT F_OVER\<rparr>)"
  "command_token ''Retries'' c = None"
  by (simp_all add: command_token_def isFlag_def c_str_def set_bit_of_def)

lemma options_runs:
  assumes "flags e < 16" and "t \<in> {''Commands'', ''Retries''}"
  shows "runs (flags_loop option_token cur) (opt_words (flags e) @ t # ts)
    (cur\<lparr>flags := flags cur OR flags e\<rparr>) (t # ts)"
proof -
  define eff where "eff = (\<lambda>o' c. the (option_token o' c))"
  have "runs (flags_loop option_token cur) (opt_words (flags e) @ t # ts)
      (foldl (\<lambda>c o'. eff o' c) cur (opt_words (flags e))) (t # ts)"
    by (rule flags_loop_runs)
       (use assms(2) in \<open>auto simp: eff_def opt_words_def split: if_splits\<close>)
  moreover have "foldl (\<lambda>c o'. eff o' c) cur (opt_words (flags e))
      = cur\<lparr>flags := flags cur OR
          ((if has_bit (flags e) F_SETPOSTFLAG then F_SETPOSTFLAG else 0)
           OR (if has_bit (flags e) F_CACHED then F_CACHED else 0)
           OR (if has_bit (flags e) F_OFFLINE then F_OFFLINE else 0)
           OR (if has_bit (flags e) F_SEMIOFFLINE then F_SEMIOFFLINE else 0))\<rparr>"
    by (simp add: eff_def opt_words_def or.assoc)
  ultimately show ?thesis using small_flags [OF assms(1)] by simp
qed

lemma commands_runs:
  fixes a b :: bool
  assumes "w = set_bit_of F_OVER b (set_bit_of F_LISTGROUP a 0xffffffff)" and "nntpflags cur = 0xffffffff"
  shows "runs (flags_loop command_token cur) (cmd_words w @ ''Retries'' # ts)
    (cur\<lparr>nntpflags := w\<rparr>) (''Retries'' # ts)"
proof -
  define eff where "eff = (\<lambda>o' c. the (command_token o' c))"
  have c: "cmd_words w = (if a then [] else [''not-listgroup'']) @ (if b then [] else [''not-over''])"
    by (simp add: cmd_words_def cmd_bits [OF assms(1)])
  have "runs (flags_loop command_token cur) (cmd_words w @ ''Retries'' # ts)
      (foldl (\<lambda>c o'. eff o' c) cur (cmd_words w)) (''Retries'' # ts)"
    by (rule flags_loop_runs)
       (auto simp: eff_def c split: if_splits)
  moreover have "foldl (\<lambda>c o'. eff o' c) cur (cmd_words w) = cur\<lparr>nntpflags := w\<rparr>"
    unfolding c
    by (cases cur)
      (use assms in \<open>simp add: eff_def set_bit_of_def F_OVER_def F_LISTGROUP_def\<close>)
  ultimately show ?thesis by simp
qed

lemma server_runs:
  assumes "entry_ok e"
  shows "runs (server_loop (mpentry_init\<lparr>hostname := hostname e, servicename := servicename e\<rparr>))
    (entry_decls e @ ts) (readback e) ts"
proof -
  note ok = entry_okD [OF assms]
  obtain a b where w: "nntpflags e = set_bit_of F_OVER b (set_bit_of F_LISTGROUP a 0xffffffff)"
    using ok(14) by blast
  define c where "c = mpentry_init\<lparr>hostname := hostname e, servicename := servicename e, user := user e,
    passwd := passwd e, rd_groups := rd_groups e, post_groups := post_groups e, bindFrom := bindFrom e,
    groupTimeout := groupTimeout e, flags := F_SETPOSTFLAG OR F_CACHED OR flags e\<rparr>"
  have r: "c\<lparr>nntpflags := nntpflags e, retries := retries e\<rparr> = readback e"
    using ok(12) by (cases e) (simp add: c_def mpentry_init_def readback_def or.commute or.left_commute)
  have R: "runs (server_loop (c\<lparr>nntpflags := nntpflags e\<rparr>)) (''Retries'' # show_int (retries e) # ''}'' # ts) (readback e) ts"
    using server_end [of "readback e" ts] r ok(11) by (intro server_Retries) (simp_all add: show_int_ok)
  define tail where "tail = (if NOT (nntpflags e) = 0 then [] else ''Commands'' # cmd_words (nntpflags e))
    @ ''Retries'' # show_int (retries e) # ''}'' # ts"
  have C: "runs (server_loop c) tail (readback e) ts"
  proof (cases "NOT (nntpflags e) = 0")
    case True
    then have "nntpflags e = 0xffffffff"
      using cmd_bits(8) [OF w] w by (simp add: set_bit_of_def F_OVER_def F_LISTGROUP_def)
    then have "c\<lparr>nntpflags := nntpflags e\<rparr> = c" by (simp add: c_def mpentry_init_def)
    with R True show ?thesis by (simp add: tail_def)
  next
    case False
    have "nntpflags c = 0xffffffff" by (simp add: c_def mpentry_init_def)
    from server_Commands [OF commands_runs [OF w this] R] False show ?thesis by (simp add: tail_def)
  qed
  obtain t tl' where t: "tail = t # tl'" "t \<in> {''Commands'', ''Retries''}"
    by (cases "NOT (nntpflags e) = 0") (auto simp: tail_def)
  have O: "runs (server_loop (c\<lparr>flags := F_SETPOSTFLAG OR F_CACHED\<rparr>)) (''Options'' # opt_words (flags e) @ tail) (readback e) ts"
    unfolding t(1)
    by (rule server_Options [OF options_runs [OF ok(13) t(2)]]) (use C in \<open>simp add: t(1) c_def mpentry_init_def or.assoc\<close>)
  have G: "runs (server_loop (c\<lparr>flags := F_SETPOSTFLAG OR F_CACHED, groupTimeout := 600\<rparr>))
      (''GroupTimeout'' # show_int (groupTimeout e) # ''Options'' # opt_words (flags e) @ tail) (readback e) ts"
    using O ok(10) by (intro server_GroupTimeout) (simp_all add: show_int_ok c_def mpentry_init_def)
  show ?thesis
    unfolding entry_decls_def append_assoc
    by (intro opt_User opt_Password opt_Read opt_PostTo opt_BindFrom)
       (use G ok in \<open>simp_all add: tail_def c_def mpentry_init_def\<close>)
qed

lemma readServer_runs:
  assumes "entry_ok e"
  shows "acts (readServer (if hostname e = [] then None else Some (hostname e, servicename e)))
    (''{'' # entry_decls e @ ts) (readback e) ts"
proof -
  note ok = entry_okD(1-3) [OF assms]
  note body = acts_bnd [OF acts_brace acts_loop [OF server_runs [OF assms]]]
  show ?thesis
  proof (cases "hostname e = []")
    case True
    then have i: "mpentry_init\<lparr>hostname := hostname e, servicename := servicename e\<rparr> = mpentry_init"
      using ok(1) by (simp add: mpentry_init_def)
    show ?thesis unfolding readServer_def using body [of ts, unfolded i] True by simp
  next
    case False
    with ok have t: "token_ok (hostname e)" "length (hostname e) < MAXHOSTNAMELEN"
      "token_ok (servicename e)" "length (servicename e) < 256" by (auto simp: arg_ok_def MAXHOSTNAMELEN_def)
    have "acts (bnd (strcpy_to MAXHOSTNAMELEN (hostname e)) (\<lambda>h. bnd (strcpy_to 256 (servicename e))
          (\<lambda>p. ret (mpentry_init\<lparr>hostname := h, servicename := p\<rparr>))))
        (''{'' # entry_decls e @ ts) (mpentry_init\<lparr>hostname := hostname e, servicename := servicename e\<rparr>)
        (''{'' # entry_decls e @ ts)"
      by (rule acts_bnd [OF acts_strcpy [OF t(1,2)]], rule acts_bnd [OF acts_strcpy [OF t(3,4)]], rule acts_ret)
    from acts_bnd [OF this, where g = "\<lambda>cur. bnd expect_brace (\<lambda>_. loop (server_loop cur))", OF body [of ts]] False
    show ?thesis by (simp add: readServer_def)
  qed
qed

lemma mplist_runs:
  assumes "\<forall>e \<in> set es. entry_ok e"
  shows "runs (mplist_loop acc) (concat (map entry_tokens es) @ ''}'' # ts) (acc @ map readback es) ts"
  using assms
proof (induction es arbitrary: acc)
  case Nil
  show ?case by (simp, rule runs_next [OF mplist_loop.simps], simp, rule runs_ok)
next
  case (Cons e es)
  let ?ts = "concat (map entry_tokens es) @ ''}'' # ts"
  have ih: "runs (mplist_loop (acc @ [readback e])) ?ts (acc @ map readback (e # es)) ts"
    using Cons.IH [of "acc @ [readback e]"] Cons.prems by simp
  have rd: "acts (readServer (if hostname e = [] then None else Some (hostname e, servicename e)))
    (''{'' # entry_decls e @ ?ts) (readback e) ?ts" using readServer_runs Cons.prems by simp
  show ?case
  proof (cases "hostname e = []")
    case True
    have "runs (mplist_loop acc) (''NoServer'' # ''{'' # entry_decls e @ ?ts) (acc @ map readback (e # es)) ts"
      by (rule runs_next [OF mplist_loop.simps], simp,
          rule runs_obnd [OF runs_act [OF rd [unfolded True, simplified]]]) (use ih in simp)
    moreover have "entry_tokens e = [''NoServer'', ''{''] @ entry_decls e"
      using True by (simp add: entry_tokens_def head_tokens_def)
    ultimately show ?thesis by simp
  next
    case False
    have "runs (mplist_loop acc) (''Server'' # hostname e # servicename e # ''{'' # entry_decls e @ ?ts)
        (acc @ map readback (e # es)) ts"
      by (rule runs_next [OF mplist_loop.simps], simp, rule runs_obnd [OF runs_act [OF acts_get]],
          rule runs_obnd [OF runs_act [OF acts_get]], rule runs_obnd [OF runs_act])
         (use rd False ih in simp_all)
    moreover have "entry_tokens e = [''Server'', hostname e, servicename e, ''{''] @ entry_decls e"
      using False by (simp add: entry_tokens_def head_tokens_def)
    ultimately show ?thesis by simp
  qed
qed

lemma print_entries_lines:
  assumes "\<forall>e \<in> set es. entry_ok e"
  shows "print_entries es = Some (concat (map (\<lambda>l. l @ [LF]) (concat (map entry_lines es))))"
  using assms by (induction es) (simp_all add: print_entry_lines)

lemma servers_readback_run:
  assumes ok: "\<forall>e \<in> set es. entry_ok e" and "print_mplist es = Some file"
  shows "\<exists>lx. config_read c (lexer_open fn file) = (Ok (c\<lparr>srvrs := srvrs c @ map readback es\<rparr>), lx)"
proof -
  let ?ls = "''NewsServerList {'' # concat (map entry_lines es) @ [''}'']"
  have content: "file = concat (map (\<lambda>l. l @ [LF]) ?ls)"
    using assms(2) by (simp add: print_mplist_def print_entries_lines [OF ok])
  have t: "token_ok ''NewsServerList''" "token_ok ''{''" "token_ok ''}''" by (simp_all add: token_ok_def isspace_def)
  have l: "line_tokens ''NewsServerList {'' = [''NewsServerList'', ''{'']"
    using words_append [OF t(1), of "CHR '' ''" "''{''"] t(2) by (simp add: line_tokens_def isspace_def)
  have e: "line_tokens ''}'' = [''}'']" using t(3) by (simp add: line_tokens_def isspace_def)
  have toks: "concat (map line_tokens (concat (map entry_lines es))) = concat (map entry_tokens es)"
    using ok by (induction es) (simp_all add: entry_lines_tokens)
  have lines: "\<forall>l \<in> set ?ls. text_line l"
    using ok entry_lines_tokens(2) by (auto simp: text_line_def plain_line_def is_eol_def)
  have start: "tokens_at (lexer_open fn file) (''NewsServerList'' # ''{'' # concat (map entry_tokens es) @ [''}''])"
    using tokens_at_open [OF content lines, of fn] l e toks by simp
  obtain lx1 where 1: "getToken (lexer_open fn file) = (Ok ''NewsServerList'', lx1)"
    "tokens_at lx1 (''{'' # concat (map entry_tokens es) @ [''}''])" "\<not> lexer_eof lx1"
    using getToken_next [OF start] by blast
  have "acts (other_decl ''NewsServerList'' c) (''{'' # concat (map entry_tokens es) @ [''}''])
      (c\<lparr>srvrs := srvrs c @ map readback es\<rparr>) []"
    unfolding other_decl_def mplist_read_def
    by (simp, rule acts_bnd [OF acts_bnd [OF acts_brace acts_loop [OF mplist_runs [OF ok]]] acts_ret])
  with 1(2) obtain lx2 where 2: "other_decl ''NewsServerList'' c lx1 = (Ok (c\<lparr>srvrs := srvrs c @ map readback es\<rparr>), lx2)"
    "tokens_at lx2 []" unfolding acts_def by blast
  obtain lx3 where 3: "getToken lx2 = (Ok [], lx3)" "lexer_eof lx3" using getToken_end [OF 2(2)] by blast
  have "config_loop c (lexer_open fn file) = Some (Ok (c\<lparr>srvrs := srvrs c @ map readback es\<rparr>), lx3)"
    by (subst config_loop.simps)
       (simp add: 1 2 str_arg_def int_arg_def, subst config_loop.simps, simp add: 3)
  then show ?thesis by (simp add: config_read_def loop_def)
qed

end
