(* ===== verification/Choice_Ok.thy ===== *)
theory Choice_Ok
  imports Config_Read Match_Ok "HOL-Library.Sublist"
begin

text \<open>
  Which server serves a group, which entry of the access list is a client's, what the flags of
  an authentication entry do, and how a server's overview record is turned into the own one.
\<close>

section \<open>The server of a group\<close>

text \<open>The first of the entries with the highest positive score.\<close>

definition best_at :: "(mpentry \<Rightarrow> int) \<Rightarrow> mpentry list \<Rightarrow> nat \<Rightarrow> bool" where
  "best_at score es i \<longleftrightarrow> i < length es \<and> 0 < score (es ! i)
     \<and> (\<forall>j < i. score (es ! j) < score (es ! i)) \<and> (\<forall>j < length es. score (es ! j) \<le> score (es ! i))"

lemma best_entry_fold:
  "best_entry sel grp es bm b =
     (if \<exists>e \<in> set es. b < matchgroup (sel e) grp
      then Some (hd (filter (\<lambda>e. \<forall>e' \<in> set es. matchgroup (sel e') grp \<le> matchgroup (sel e) grp) es))
      else bm)"
proof (induction es arbitrary: bm b)
  case Nil
  then show ?case by simp
next
  case (Cons e es)
  let ?s = "\<lambda>e. matchgroup (sel e) grp"
  consider (worse) "?s e \<le> b" | (top) "b < ?s e" "\<forall>e' \<in> set es. ?s e' \<le> ?s e"
    | (later) "b < ?s e" "\<exists>e' \<in> set es. ?s e < ?s e'" by force
  then show ?case
  proof cases
    case worse
    have "\<exists>e'' \<in> set es. b < ?s e'' \<Longrightarrow>
        \<not> (\<forall>e' \<in> set (e # es). ?s e' \<le> ?s e)
      \<and> (\<forall>a \<in> set es. (\<forall>e' \<in> set es. ?s e' \<le> ?s a) = (\<forall>e' \<in> set (e # es). ?s e' \<le> ?s a))"
      using worse by (auto intro: order_trans) (metis order_trans not_le)+
    then have "\<exists>e'' \<in> set es. b < ?s e'' \<Longrightarrow>
        filter (\<lambda>a. \<forall>e' \<in> set (e # es). ?s e' \<le> ?s a) (e # es) = filter (\<lambda>a. \<forall>e' \<in> set es. ?s e' \<le> ?s a) es"
      by (auto intro!: filter_cong)
    with worse Cons.IH [of bm b] show ?thesis by (auto simp: not_less)
  next
    case top
    with Cons.IH [of "Some e" "?s e"] show ?thesis by (auto simp: not_less)
  next
    case later
    then have f: "filter (\<lambda>a. \<forall>e' \<in> set (e # es). ?s e' \<le> ?s a) (e # es) = filter (\<lambda>a. \<forall>e' \<in> set es. ?s e' \<le> ?s a) es"
      by (auto simp: not_le intro!: filter_cong)
    from later Cons.IH [of "Some e" "?s e"] show ?thesis unfolding f by auto
  qed
qed

lemma best_entry_best:
  "best_entry sel grp es None 0 = Some e \<longleftrightarrow> (\<exists>i. best_at (\<lambda>e. matchgroup (sel e) grp) es i \<and> e = es ! i)"
  (is "?l \<longleftrightarrow> ?r")
proof -
  let ?s = "\<lambda>e. matchgroup (sel e) grp"
  let ?M = "\<lambda>a. \<forall>e' \<in> set es. ?s e' \<le> ?s a"
  have unique: "hd (filter ?M es) = es ! i \<and> (\<exists>e \<in> set es. 0 < ?s e)" if b: "best_at ?s es i" for i
  proof -
    have i: "i < length es" "?M (es ! i)" "\<forall>j < i. \<not> ?M (es ! j)" "0 < ?s (es ! i)"
      using b unfolding best_at_def by (auto simp: all_set_conv_all_nth not_le intro: nth_mem)
    have "es = take i es @ es ! i # drop (Suc i) es" using i(1) by (simp add: id_take_nth_drop)
    then have "filter ?M es = filter ?M (take i es) @ filter ?M (es ! i # drop (Suc i) es)"
      by (metis filter_append)
    moreover have "filter ?M (take i es) = []"
      using i(1,3) by (auto simp: filter_empty_conv in_set_conv_nth)
    ultimately show ?thesis using i by (auto intro: nth_mem)
  qed
  have exists: "\<exists>i. best_at ?s es i" if ne: "\<exists>e \<in> set es. 0 < ?s e"
  proof -
    obtain e where e: "e \<in> set es" "0 < ?s e" using ne by blast
    define m where "m = Max (?s ` set es)"
    have "?s ` set es \<noteq> {}" using e(1) by auto
    then have m: "m \<in> ?s ` set es" "\<forall>e \<in> set es. ?s e \<le> m"
      unfolding m_def by (rule Max_in [OF finite_imageI [OF finite_set]]) simp
    obtain a where "a \<in> set es" "?s a = m" using m(1) by blast
    then have ex: "\<exists>i. i < length es \<and> ?s (es ! i) = m" unfolding in_set_conv_nth by blast
    define i where "i = (LEAST i. i < length es \<and> ?s (es ! i) = m)"
    have i: "i < length es" "?s (es ! i) = m" using LeastI_ex [OF ex] by (simp_all add: i_def)
    have "\<forall>j < i. ?s (es ! j) < m"
    proof (intro allI impI)
      fix j assume j: "j < i"
      then have "?s (es ! j) \<noteq> m" using not_less_Least [of j "\<lambda>i. i < length es \<and> ?s (es ! i) = m"] i(1)
        by (auto simp: i_def)
      moreover have "?s (es ! j) \<le> m" using m(2) j i(1) by simp
      ultimately show "?s (es ! j) < m" by simp
    qed
    with i m e show ?thesis by (auto simp: best_at_def intro!: exI [of _ i])
  qed
  show ?thesis
  proof
    assume ?l
    then have "\<exists>e \<in> set es. 0 < ?s e" "e = hd (filter ?M es)"
      by (auto simp: best_entry_fold split: if_splits)
    with exists unique show ?r by metis
  next
    assume ?r
    with unique show ?l by (auto simp: best_entry_fold)
  qed
qed

lemma real_server_Some: "real_server bm = Some e \<longleftrightarrow> bm = Some e \<and> hostname e \<noteq> []"
  by (auto simp: real_server_def split: option.splits)

lemma real_server_best:
  "real_server (best_entry sel grp es None 0) = Some e
    \<longleftrightarrow> (\<exists>i. best_at (\<lambda>e. matchgroup (sel e) grp) es i \<and> e = es ! i \<and> hostname e \<noteq> [])"
  unfolding real_server_Some best_entry_best by blast

section \<open>The entry of a client\<close>

text \<open>The kinds of host patterns the access list knows.\<close>

datatype host_pattern =
    Anyone
  | Network string string
  | Below string
  | Domain string
  | Named string

definition host_pattern :: "string \<Rightarrow> host_pattern" where
  "host_pattern p =
     (if p = [] then Anyone
      else if CHR ''/'' \<in> set p
        then Network (takeWhile (\<lambda>c. c \<noteq> CHR ''/'') p) (tl (dropWhile (\<lambda>c. c \<noteq> CHR ''/'') p))
      else if last p = CHR ''.'' then Below p
      else if hd p = CHR ''.'' then Domain p
      else Named p)"

fun pattern_fits :: "(string \<Rightarrow> 32 word option) \<Rightarrow> host_pattern \<Rightarrow> string \<Rightarrow> 32 word \<Rightarrow> bool" where
  "pattern_fits aton Anyone name addr \<longleftrightarrow> True"
| "pattern_fits aton (Network n m) name addr \<longleftrightarrow>
     (\<exists>net mask. aton n = Some net \<and> aton m = Some mask \<and> addr AND mask = net)"
| "pattern_fits aton (Below p) name addr \<longleftrightarrow>
     NOT_INADDR name \<and> prefix (map tolower p) (map tolower name)"
| "pattern_fits aton (Domain p) name addr \<longleftrightarrow>
     NOT_INADDR name \<and> strict_suffix (map tolower p) (map tolower name)"
| "pattern_fits aton (Named p) name addr \<longleftrightarrow>
     NOT_INADDR name \<and> map tolower p = map tolower name"

lemma strncaseeq_prefix: "strncaseeq a b (length b) \<longleftrightarrow> prefix (map tolower b) (map tolower a)"
proof
  assume "strncaseeq a b (length b)"
  then have "map tolower b = map tolower (take (length b) a)" by (simp add: strncaseeq_def)
  then show "prefix (map tolower b) (map tolower a)" by (metis take_is_prefix take_map)
next
  assume "prefix (map tolower b) (map tolower a)"
  then obtain r where "map tolower a = map tolower b @ r" by (auto simp: prefix_def)
  then have "take (length b) (map tolower a) = map tolower b" by simp
  then show "strncaseeq a b (length b)" by (simp add: strncaseeq_def take_map)
qed

lemma drop_suffix:
  "length b < length a \<and> strcaseeq (drop (length a - length b) a) b
    \<longleftrightarrow> strict_suffix (map tolower b) (map tolower a)"
proof
  assume "length b < length a \<and> strcaseeq (drop (length a - length b) a) b"
  then have "map tolower a = map tolower (take (length a - length b) a) @ map tolower b" and "length b < length a"
    by (metis append_take_drop_id map_append strcaseeq_def, blast)
  then show "strict_suffix (map tolower b) (map tolower a)"
    by (metis length_map less_irrefl strict_suffix_def suffix_def)
next
  assume s: "strict_suffix (map tolower b) (map tolower a)"
  then obtain r where r: "map tolower a = r @ map tolower b" "r \<noteq> []" by (auto simp: strict_suffix_def suffix_def)
  have l: "length a = length r + length b" using arg_cong [OF r(1), of length] by simp
  have "map tolower (drop (length r) a) = drop (length r) (map tolower a)" by (simp add: drop_map)
  also have "\<dots> = map tolower b" by (simp add: r)
  finally have "map tolower (drop (length r) a) = map tolower b" .
  with l r show "length b < length a \<and> strcaseeq (drop (length a - length b) a) b"
    by (simp add: strcaseeq_def)
qed

lemma matchaddress_fits:
  assumes "p \<noteq> []"
  shows "matchaddress aton before p name addr = pattern_fits aton (host_pattern p) name addr"
proof (cases "CHR ''/'' \<in> set p")
  case True
  then obtain c r where "dropWhile (\<lambda>c. c \<noteq> CHR ''/'') p = c # r" by (cases "dropWhile (\<lambda>c. c \<noteq> CHR ''/'') p") auto
  with True assms show ?thesis
    by (auto simp: matchaddress_def host_pattern_def split: option.splits)
next
  case False
  then have d: "dropWhile (\<lambda>c. c \<noteq> CHR ''/'') p = []" by (auto simp: dropWhile_eq_Nil_conv)
  have h: "deref p = hd p" using assms by (cases p) auto
  have "matchaddress aton before p name addr = (NOT_INADDR name \<and>
      (if last p = CHR ''.'' then prefix (map tolower p) (map tolower name)
       else if hd p = CHR ''.'' then strict_suffix (map tolower p) (map tolower name)
       else strcaseeq name p))"
    unfolding matchaddress_def d using assms by (simp add: in_domain_def strncaseeq_prefix drop_suffix h)
  moreover have "strcaseeq name p \<longleftrightarrow> map tolower p = map tolower name"
    unfolding strcaseeq_def by (rule eq_commute)
  ultimately show ?thesis using assms False by (simp add: host_pattern_def)
qed

lemma client_find:
  "client aton before es name addr
    = find (\<lambda>e. pattern_fits aton (host_pattern (ae_hostname e)) name addr) es"
proof (induction es)
  case (Cons e es)
  then show ?case
    by (cases "ae_hostname e = []") (simp_all add: matchaddress_fits host_pattern_def [of "[]"])
qed simp

section \<open>Flags of an authentication entry\<close>

lemma and_or_absorb: "(w :: 32 word) AND (w OR x) = w"
  by (auto simp: bit_eq_iff bit_simps)

lemma modify_flag_keeps: "w AND modify_flag w t = w"
  by (simp add: modify_flag_def and_or_absorb)

lemma modify_flags_keep: "w AND foldl modify_flag w ts = w"
proof (induction ts rule: rev_induct)
  case (snoc t ts)
  then show ?case using modify_flag_keeps [of "foldl modify_flag w ts" t] by simp (metis and.assoc)
qed simp

section \<open>The fields of an authentication string\<close>

definition join_colon :: "string list \<Rightarrow> string" where
  "join_colon fs = (case fs of [] \<Rightarrow> [] | f # r \<Rightarrow> f @ concat (map (\<lambda>x. '':'' @ x) r))"

lemma colon_fields_join:
  assumes "\<forall>f \<in> set (f # fs). CHR '':'' \<notin> set f"
  shows "colon_fields (join_colon (f # fs)) = f # fs"
  using assms
proof (induction fs arbitrary: f)
  case Nil
  then have "dropWhile (\<lambda>c. c \<noteq> CHR '':'') (join_colon [f]) = []"
    by (auto simp: dropWhile_eq_Nil_conv join_colon_def)
  then show ?case unfolding colon_fields.simps [of "join_colon [f]"] by (simp only: list.case) (simp add: join_colon_def)
next
  case (Cons g fs)
  have j: "join_colon (f # g # fs) = f @ CHR '':'' # join_colon (g # fs)" by (simp add: join_colon_def)
  have "\<forall>c \<in> set f. c \<noteq> CHR '':''" using Cons.prems by auto
  from takeWhile_stop [OF this, of "CHR '':''" "join_colon (g # fs)"]
  have "takeWhile (\<lambda>c. c \<noteq> CHR '':'') (f @ CHR '':'' # join_colon (g # fs)) = f"
    "dropWhile (\<lambda>c. c \<noteq> CHR '':'') (f @ CHR '':'' # join_colon (g # fs)) = CHR '':'' # join_colon (g # fs)"
    by simp_all
  with Cons show ?case by (subst colon_fields.simps) (simp add: j)
qed

lemma auth_set_join:
  assumes "fs \<noteq> []" and "fs \<noteq> [[]]" and "\<forall>f \<in> set fs. CHR '':'' \<notin> set f"
  shows "auth_set (join_colon fs) = fs"
proof -
  obtain f r where fs: "fs = f # r" using assms(1) by (cases fs) auto
  have "join_colon fs \<noteq> []" using assms(2) by (cases r) (auto simp: fs join_colon_def)
  then show ?thesis using colon_fields_join [of f r] assms(3) by (simp add: auth_set_def fs)
qed

end
