(* ===== verification/Overview_Ok.thy ===== *)
theory Overview_Ok
  imports Overview_Fmt
begin

text \<open>
  Overview records taken apart and put together, and what the translation of a server's record
  makes of each field.
\<close>

text \<open>The fields of a record, one after the other behind their tabs.\<close>

definition record_of :: "string \<Rightarrow> string list \<Rightarrow> string" where
  "record_of nr vs = nr @ concat (map (\<lambda>v. TAB # v) vs)"

lemma split_tabs_plain: "f \<in> set (split_tabs p) \<Longrightarrow> TAB \<notin> set f"
proof (induction p rule: split_tabs.induct)
  case (1 p)
  show ?case
  proof (cases "dropWhile (\<lambda>c. c \<noteq> TAB) p")
    case Nil
    then have "TAB \<notin> set p" by (auto simp: dropWhile_eq_Nil_conv)
    with 1(2) show ?thesis unfolding split_tabs.simps [of p] Nil by simp
  next
    case (Cons c q)
    with 1 show ?thesis unfolding split_tabs.simps [of p] Cons by (auto dest: set_takeWhileD)
  qed
qed

lemma split_tabs_nonempty [simp]: "split_tabs p \<noteq> []"
  by (subst split_tabs.simps) (simp split: list.split)

lemma skip_tabs_plain: "TAB \<notin> set nr \<Longrightarrow> skip_tabs (nr @ TAB # p) (Suc j) = skip_tabs p j"
  by (induction nr) auto

lemma skip_tabs_field:
  assumes "i < length vs" and "TAB \<notin> set nr" and "\<forall>v \<in> set vs. TAB \<notin> set v"
  shows "takeWhile (\<lambda>c. c \<noteq> TAB) (skip_tabs (record_of nr vs) (Suc i)) = vs ! i"
  using assms
proof (induction vs arbitrary: nr i)
  case (Cons v vs)
  have r: "record_of nr (v # vs) = nr @ TAB # record_of v vs" by (simp add: record_of_def)
  show ?case
  proof (cases i)
    case 0
    have v: "\<forall>c \<in> set v. c \<noteq> TAB" using Cons.prems by auto
    have "takeWhile (\<lambda>c. c \<noteq> TAB) (record_of v vs) = v"
    proof (cases vs)
      case Nil
      with v show ?thesis by (simp add: record_of_def takeWhile_eq_all_conv)
    next
      case (Cons w ws)
      with takeWhile_stop [OF v, of TAB] show ?thesis by (simp add: record_of_def)
    qed
    with 0 Cons.prems show ?thesis unfolding r by (simp add: skip_tabs_plain)
  next
    case (Suc k)
    with Cons show ?thesis unfolding r by (simp add: skip_tabs_plain)
  qed
qed simp

text \<open>What one own field becomes.\<close>

definition converted :: "string list \<Rightarrow> string \<times> bool \<Rightarrow> int \<times> bool \<Rightarrow> string" where
  "converted fs d t =
     (if int (length fs) \<le> fst t \<or> fst t < 0 then []
      else if snd t = snd d then fs ! nat (fst t)
      else if snd t then
        (if CHR '':'' \<in> set (fs ! nat (fst t)) then dropWhile (\<lambda>c. c \<noteq> CHR '':'') (fs ! nat (fst t))
         else fs ! nat (fst t))
      else fst d @ '' '' @ fs ! nat (fst t))"

lemma convert_field_eq: "convert_field fs d t = TAB # converted fs d t"
proof -
  have "dropWhile isspace (dropWhile (\<lambda>c. c \<noteq> CHR '':'') v) = dropWhile (\<lambda>c. c \<noteq> CHR '':'') v" for v
  proof (cases "dropWhile (\<lambda>c. c \<noteq> CHR '':'') v")
    case (Cons c r)
    then have "c = CHR '':''" by (auto simp: dropWhile_eq_Cons_conv)
    then have "dropWhile isspace (c # r) = c # r" by (simp add: isspace_def)
    then show ?thesis unfolding Cons .
  next
    case Nil
    show ?thesis unfolding Nil by simp
  qed
  then show ?thesis by (simp add: convert_field_def converted_def Let_def)
qed

lemma converted_plain:
  assumes "\<forall>f \<in> set fs. TAB \<notin> set f" and "TAB \<notin> set (fst d)"
  shows "TAB \<notin> set (converted fs d t)"
proof -
  have "int (length fs) \<le> fst t \<or> fst t < 0 \<or> TAB \<notin> set (fs ! nat (fst t))"
    using assms(1) by (metis nth_mem nat_less_iff not_le)
  with assms(2) show ?thesis by (auto simp: converted_def dest: set_dropWhileD)
qed

lemma own_over:
  "over overfmt_new = [(''Subject:'', False), (''From:'', False), (''Date:'', False),
      (''Message-ID:'', False), (''References:'', False), (''Bytes:'', False), (''Lines:'', False), (''Xref:'', True)]"
  by (simp add: overfmt_new_def CONF_OverviewFmt_def overdesc_def)

lemma strcaseeq_refl: "strcaseeq a a"
  by (simp add: strcaseeq_def)

lemma strcaseeq_Cons:
  "strcaseeq (c # a) (d # b) = (if c = d then strcaseeq a b else if tolower c = tolower d then strcaseeq a b else False)"
  by (simp add: strcaseeq_def)

lemma find_over_own:
  assumes "i < 8"
  shows "find_over (over overfmt_new) (fst (over overfmt_new ! i)) 0 = Some (i, over overfmt_new ! i)"
proof -
  consider "i = 0" | "i = 1" | "i = 2" | "i = 3" | "i = 4" | "i = 5" | "i = 6" | "i = 7"
    using assms by linarith
  then show ?thesis unfolding own_over by cases (simp_all add: strcaseeq_refl strcaseeq_Cons tolower_def)
qed

text \<open>A translated record, asked for an own field, gives the server's field.\<close>

lemma convert_record_field:
  assumes "over fmt = over overfmt_new" and "dotrans fmt" and "length (trans fmt) = 8"
    and "length (split_tabs recin) \<le> 256" and "i < 8"
  shows "\<exists>r. convert_record fmt recin = Ok r
    \<and> over_getfield fmt r (fst (over fmt ! i)) (- 1)
      = Ok (converted (tl (split_tabs recin)) (over fmt ! i) (trans fmt ! i))"
proof -
  let ?fs = "tl (split_tabs recin)"
  let ?vs = "map2 (converted ?fs) (over fmt) (trans fmt)"
  have l: "length (over fmt) = 8" by (simp add: assms(1) own_over)
  have p: "\<forall>f \<in> set ?fs. TAB \<notin> set f" using split_tabs_plain by (metis list.set_sel(2) split_tabs_nonempty)
  have n: "\<forall>d \<in> set (over fmt). TAB \<notin> set (fst d)" by (simp add: assms(1) own_over)
  have vs: "\<forall>v \<in> set ?vs. TAB \<notin> set v"
    using converted_plain [OF p] n by (auto dest!: set_zip_leftD)
  have nr: "TAB \<notin> set (hd (split_tabs recin))" by (rule split_tabs_plain [of _ recin]) simp
  have "concat (map2 (convert_field ?fs) (over fmt) (trans fmt)) = concat (map (\<lambda>v. TAB # v) ?vs)"
    by (rule arg_cong [of _ _ concat]) (auto simp: convert_field_eq)
  then have c: "convert_record fmt recin = Ok (record_of (hd (split_tabs recin)) ?vs)"
    using assms(2,4) by (simp add: convert_record_def record_of_def Let_def)
  have "takeWhile (\<lambda>c. c \<noteq> TAB) (skip_tabs (record_of (hd (split_tabs recin)) ?vs) (Suc i)) = ?vs ! i"
    by (rule skip_tabs_field [OF _ nr vs]) (use assms(3,5) l in simp)
  moreover have "?vs ! i = converted ?fs (over fmt ! i) (trans fmt ! i)"
    using assms(3,5) l by simp
  ultimately have "over_getfield fmt (record_of (hd (split_tabs recin)) ?vs) (fst (over fmt ! i)) (- 1)
      = Ok (converted ?fs (over fmt ! i) (trans fmt ! i))"
    using find_over_own [OF assms(5)] assms(1)
    by (simp add: over_getfield_def Let_def split: prod.split)
  with c show ?thesis by blast
qed

end

