(* ===== verification/Group_Info.thy ===== *)
theory Group_Info
  imports NV_List Group_Match Overview_Fmt
begin

text \<open>
  NServer-0.9.1/GroupInfo.h: what is known of a newsgroup, as a line of an active file, as the
  bytes of a record of the database, and as the object itself.
\<close>

section \<open>The object\<close>

text \<open>
  \<open>gi_arr\<close> is the array \<open>_name\<close>, all 512 bytes of it; its bytes behind the first zero are
  never looked at. The numbers are \<open>unsigned int\<close>, the times \<open>unsigned long\<close>.
\<close>

record group_info =
  gi_ctime :: nat
  gi_mtime :: nat
  gi_fst :: nat
  gi_lst :: nat
  gi_n :: nat
  gi_flag :: char
  gi_arr :: string

definition GI_NAMELEN :: nat where "GI_NAMELEN = 512"

definition gi_name :: "group_info \<Rightarrow> string" where
  "gi_name gi = c_str (gi_arr gi)"

text \<open>\<open>init\<close> leaves the three numbers as they are; a new object has arbitrary ones, here 0.\<close>

definition gi_init :: "group_info \<Rightarrow> group_info" where
  "gi_init gi = gi\<lparr>gi_ctime := 0, gi_mtime := 0, gi_flag := CHR ''y'',
     gi_arr := (gi_arr gi)[0 := NUL, GI_NAMELEN - 1 := NUL]\<rparr>"

definition gi_new :: group_info where
  "gi_new = \<lparr>gi_ctime = 0, gi_mtime = 0, gi_fst = 0, gi_lst = 0, gi_n = 0, gi_flag = CHR ''y'',
     gi_arr = replicate GI_NAMELEN NUL\<rparr>"

text \<open>Copying a name over the start of the array.\<close>

definition put_name :: "string \<Rightarrow> group_info \<Rightarrow> group_info" where
  "put_name nm gi = gi\<lparr>gi_arr := nm @ NUL # drop (length nm + 1) (gi_arr gi)\<rparr>"

section \<open>A line of an active file\<close>

text \<open>
  The name is copied up to white space, without a look at the end of the line: a line
  without white space that is too short to fill the array is read past its end.
\<close>

definition gi_set_line :: "nat \<Rightarrow> group_info \<Rightarrow> string \<Rightarrow> group_info outcome" where
  "gi_set_line now gi gd =
     (let nm = takeWhile (\<lambda>c. \<not> isspace c) gd;
          p = dropWhile (\<lambda>c. \<not> isspace c) gd
      in if GI_NAMELEN \<le> length nm + (if p = [] then 1 else 0) then Throw (Error ''Name of newsgroup too long'')
         else if p = [] then Crash
         else
           let (l, e) = strtol p;
               (f, p') = strtol e;
               gi1 = put_name nm gi;
               lst = u32_of_int l; fst = u32_of_int f;
               q = dropWhile isspace p'
           in if e = p' then Throw (NSError ''gd not in form name int int flag'')
              else Ok (gi1\<lparr>gi_lst := lst, gi_fst := fst,
                     gi_n := (if lst < fst then 0 else u32 (lst - fst + 1)),
                     gi_flag := (if deref q \<noteq> NUL then deref q else CHR ''y''),
                     gi_mtime := now\<rparr>))"

definition gi_setfln :: "nat \<Rightarrow> group_info \<Rightarrow> int \<Rightarrow> int \<Rightarrow> int \<Rightarrow> char \<Rightarrow> group_info" where
  "gi_setfln now gi first' last' n fl =
     gi\<lparr>gi_fst := u32_of_int first', gi_lst := u32_of_int last', gi_n := u32_of_int n,
        gi_flag := (if fl \<noteq> NUL then fl else gi_flag gi), gi_mtime := now\<rparr>"

text \<open>\<open>strncpy\<close> fills the rest of the array with zeros.\<close>

definition gi_set ::
  "nat \<Rightarrow> group_info \<Rightarrow> string \<Rightarrow> int \<Rightarrow> int \<Rightarrow> int \<Rightarrow> char \<Rightarrow> group_info outcome" where
  "gi_set now gi grp first' last' n fl =
     (if GI_NAMELEN \<le> length grp then Throw (Error ''Name of newsgroup too long'')
      else Ok (gi_setfln now (gi\<lparr>gi_arr := grp @ replicate (GI_NAMELEN - length grp) NUL\<rparr>) first' last' n fl))"

definition gi_setflag :: "group_info \<Rightarrow> char \<Rightarrow> group_info" where
  "gi_setflag gi fl = gi\<lparr>gi_flag := fl\<rparr>"

definition gi_setctime :: "group_info \<Rightarrow> nat \<Rightarrow> group_info" where
  "gi_setctime gi t = gi\<lparr>gi_ctime := t\<rparr>"

definition print_group :: "group_info \<Rightarrow> string" where
  "print_group gi = gi_name gi @ '' '' @ show_nat (gi_lst gi) @ '' '' @ show_nat (gi_fst gi) @ '' '' @ [gi_flag gi]"

section \<open>The bytes\<close>

text \<open>The layout of the object in memory; the name starts at byte 29.\<close>

abbreviation (input) "GI_FIXED \<equiv> (29::nat)"

fun le_bytes :: "nat \<Rightarrow> nat \<Rightarrow> string" where
  "le_bytes 0 v = []"
| "le_bytes (Suc n) v = char_of (v mod 256) # le_bytes n (v div 256)"

fun le_value :: "string \<Rightarrow> nat" where
  "le_value [] = 0"
| "le_value (c # cs) = of_char c + 256 * le_value cs"

definition gi_bytes :: "group_info \<Rightarrow> string" where
  "gi_bytes gi = le_bytes 8 (gi_ctime gi) @ le_bytes 8 (gi_mtime gi) @ le_bytes 4 (gi_fst gi)
     @ le_bytes 4 (gi_lst gi) @ le_bytes 4 (gi_n gi) @ [gi_flag gi] @ gi_arr gi"

definition gi_of_bytes :: "string \<Rightarrow> group_info" where
  "gi_of_bytes b =
     \<lparr>gi_ctime = le_value (take 8 b), gi_mtime = le_value (take 8 (drop 8 b)),
      gi_fst = le_value (take 4 (drop 16 b)), gi_lst = le_value (take 4 (drop 20 b)),
      gi_n = le_value (take 4 (drop 24 b)), gi_flag = chr_at b 28, gi_arr = drop GI_FIXED b\<rparr>"

definition gi_getraw :: "group_info \<Rightarrow> string" where
  "gi_getraw gi = take (GI_FIXED + length (gi_name gi) + 1) (gi_bytes gi)"

definition gi_setraw :: "group_info \<Rightarrow> string \<Rightarrow> group_info outcome" where
  "gi_setraw gi buf =
     (if GI_FIXED + GI_NAMELEN < length buf then Throw (Error ''GroupInfo(24230): setraw buf too big'')
      else Ok (gi_of_bytes (buf @ drop (length buf) (gi_bytes gi))))"

section \<open>What holds\<close>

text \<open>An object whose array holds a terminated name and whose numbers fit their types.\<close>

definition gi_ok :: "group_info \<Rightarrow> bool" where
  "gi_ok gi \<longleftrightarrow> length (gi_arr gi) = GI_NAMELEN \<and> NUL \<in> set (gi_arr gi)
     \<and> gi_ctime gi < 2 ^ 64 \<and> gi_mtime gi < 2 ^ 64
     \<and> gi_fst gi < 2 ^ 32 \<and> gi_lst gi < 2 ^ 32 \<and> gi_n gi < 2 ^ 32"

text \<open>Two objects that no reader can tell apart: the bytes behind the name may differ.\<close>

definition same_info :: "group_info \<Rightarrow> group_info \<Rightarrow> bool" where
  "same_info a b \<longleftrightarrow> gi_name a = gi_name b \<and> gi_ctime a = gi_ctime b \<and> gi_mtime a = gi_mtime b
     \<and> gi_fst a = gi_fst b \<and> gi_lst a = gi_lst b \<and> gi_n a = gi_n b \<and> gi_flag a = gi_flag b"

lemma le_bytes_length [simp]: "length (le_bytes n v) = n"
  by (induction n arbitrary: v) auto

lemma le_value_bytes [simp]: "v < 256 ^ n \<Longrightarrow> le_value (le_bytes n v) = v"
proof (induction n arbitrary: v)
  case (Suc n)
  then have "v div 256 < 256 ^ n" by (simp add: less_mult_imp_div_less mult.commute)
  with Suc.IH show ?case by simp
qed simp

lemma c_str_split:
  assumes "NUL \<in> set a"
  shows "\<exists>r. a = c_str a @ NUL # r"
proof -
  have "dropWhile (\<lambda>c. c \<noteq> NUL) a \<noteq> []" using assms by (auto simp: dropWhile_eq_Nil_conv)
  then obtain c r where d: "dropWhile (\<lambda>c. c \<noteq> NUL) a = c # r" by (cases "dropWhile (\<lambda>c. c \<noteq> NUL) a") auto
  then have "c = NUL" by (auto simp: dropWhile_eq_Cons_conv)
  with d show ?thesis unfolding c_str_def by (metis takeWhile_dropWhile_id)
qed

lemma c_str_append: "NUL \<notin> set n \<Longrightarrow> c_str (n @ NUL # r) = n"
proof -
  assume "NUL \<notin> set n"
  then have "\<forall>c \<in> set n. c \<noteq> NUL" by auto
  from takeWhile_stop [OF this, of NUL r] show ?thesis by (simp add: c_str_def)
qed

lemma c_str_plain: "NUL \<notin> set (c_str a)"
  unfolding c_str_def by (auto dest: set_takeWhileD)

lemma gi_getraw_eq:
  assumes "gi_ok gi"
  shows "gi_getraw gi = le_bytes 8 (gi_ctime gi) @ le_bytes 8 (gi_mtime gi) @ le_bytes 4 (gi_fst gi)
     @ le_bytes 4 (gi_lst gi) @ le_bytes 4 (gi_n gi) @ [gi_flag gi] @ gi_name gi @ [NUL]"
proof -
  obtain r where r: "gi_arr gi = gi_name gi @ NUL # r"
    using c_str_split assms unfolding gi_ok_def gi_name_def by blast
  then have "take (length (gi_name gi) + 1) (gi_arr gi) = gi_name gi @ [NUL]" by simp
  then show ?thesis by (simp add: gi_getraw_def gi_bytes_def)
qed

lemma gi_name_length:
  assumes "gi_ok gi"
  shows "length (gi_name gi) < GI_NAMELEN"
proof -
  obtain r where "gi_arr gi = gi_name gi @ NUL # r"
    using c_str_split assms unfolding gi_ok_def gi_name_def by blast
  then have "length (gi_arr gi) = length (gi_name gi) + 1 + length r" by simp
  with assms show ?thesis by (simp add: gi_ok_def)
qed

lemma setraw_getraw:
  assumes "gi_ok gi" and "gi_ok old"
  shows "\<exists>new. gi_setraw old (gi_getraw gi) = Ok new \<and> gi_ok new \<and> same_info new gi"
proof -
  let ?raw = "gi_getraw gi"
  let ?n = "length (gi_name gi)"
  have l: "length ?raw = GI_FIXED + ?n + 1" by (simp add: gi_getraw_eq [OF assms(1)])
  have small: "\<not> GI_FIXED + GI_NAMELEN < length ?raw" using gi_name_length [OF assms(1)] l by simp
  have old: "length (gi_bytes old) = GI_FIXED + GI_NAMELEN" using assms(2) by (simp add: gi_bytes_def gi_ok_def)
  define rest where "rest = drop (length ?raw) (gi_bytes old)"
  have rl: "length rest = GI_NAMELEN - (?n + 1)" using old l by (simp add: rest_def)
  let ?new = "gi_of_bytes (?raw @ rest)"
  have new: "?new = \<lparr>gi_ctime = gi_ctime gi, gi_mtime = gi_mtime gi, gi_fst = gi_fst gi, gi_lst = gi_lst gi,
      gi_n = gi_n gi, gi_flag = gi_flag gi, gi_arr = gi_name gi @ NUL # rest\<rparr>"
    using assms(1) unfolding gi_of_bytes_def gi_getraw_eq [OF assms(1)]
    by (simp add: gi_ok_def chr_at_def nth_append)
  have "gi_name ?new = gi_name gi"
    unfolding new gi_name_def using c_str_append [OF c_str_plain] by simp
  moreover have "gi_ok ?new"
    using assms(1) gi_name_length [OF assms(1)] rl unfolding new by (simp add: gi_ok_def)
  moreover have "gi_setraw old ?raw = Ok ?new" using small by (simp add: gi_setraw_def rest_def)
  ultimately show ?thesis by (auto simp: same_info_def new)
qed

lemma set_line_print:
  assumes "gi_ok gi" and "gi_ok old" and "\<forall>c \<in> set (gi_name gi). \<not> isspace c"
    and "\<not> isspace (gi_flag gi)" and "gi_flag gi \<noteq> NUL" and "now < 2 ^ 64"
  shows "\<exists>new. gi_set_line now old (print_group gi) = Ok new \<and> gi_ok new
    \<and> gi_name new = gi_name gi \<and> gi_fst new = gi_fst gi \<and> gi_lst new = gi_lst gi \<and> gi_flag new = gi_flag gi
    \<and> gi_mtime new = now \<and> gi_ctime new = gi_ctime old
    \<and> gi_n new = (if gi_lst gi < gi_fst gi then 0 else u32 (gi_lst gi - gi_fst gi + 1))"
proof -
  define r where "r = '' '' @ show_nat (gi_fst gi) @ '' '' @ [gi_flag gi]"
  define p where "p = '' '' @ show_nat (gi_lst gi) @ r"
  have gd: "print_group gi = gi_name gi @ p" by (simp add: print_group_def p_def r_def)
  have sp: "isspace (CHR '' '')" by (simp add: isspace_def)
  have nm: "takeWhile (\<lambda>c. \<not> isspace c) (print_group gi) = gi_name gi"
    "dropWhile (\<lambda>c. \<not> isspace c) (print_group gi) = p"
    using takeWhile_stop [of "gi_name gi" "\<lambda>c. \<not> isspace c" "CHR '' ''" "show_nat (gi_lst gi) @ r"] assms(3) sp
    by (auto simp: gd p_def)
  have len: "length (gi_name gi) < GI_NAMELEN" by (rule gi_name_length [OF assms(1)])
  have big: "gi_lst gi < 2 ^ 63" "gi_fst gi < 2 ^ 63" using assms(1) by (simp_all add: gi_ok_def)
  have blank: "strtol (CHR '' '' # q) = strtol q" if "isdigit (deref q)" for q
  proof -
    have "deref q \<noteq> CHR ''-''" "deref q \<noteq> CHR ''+''" using that by (auto simp: isdigit_def)
    moreover have "\<not> isspace (deref q)" using that by (rule isdigit_not_space)
    moreover from this have "dropWhile isspace q = q" by (cases q) auto
    ultimately show ?thesis using that sp by (simp add: strtol_def)
  qed
  have nd: "\<not> isdigit (deref r)" "\<not> isdigit (deref ('' '' @ [gi_flag gi]))" by (simp_all add: r_def isdigit_def)
  have s1: "strtol p = (int (gi_lst gi), r)"
    using blank [OF deref_show_nat, of "gi_lst gi" r] strtol_show_nat [OF big(1), of r] nd
    by (simp add: p_def)
  have s2: "strtol r = (int (gi_fst gi), '' '' @ [gi_flag gi])"
    using blank [OF deref_show_nat, of "gi_fst gi" "'' '' @ [gi_flag gi]"]
      strtol_show_nat [OF big(2), of "'' '' @ [gi_flag gi]"] nd
    by (simp add: r_def)
  have ne: "r \<noteq> '' '' @ [gi_flag gi]"
  proof
    assume "r = '' '' @ [gi_flag gi]"
    then have "length r = 2" by simp
    then show False by (simp add: r_def)
  qed
  have fl: "dropWhile isspace ('' '' @ [gi_flag gi]) = [gi_flag gi]" using assms(4) sp by simp
  have arr: "gi_name (put_name (gi_name gi) old) = gi_name gi"
    unfolding put_name_def using c_str_append [OF c_str_plain] by (simp add: gi_name_def)
  have ok: "length (gi_arr (put_name (gi_name gi) old)) = GI_NAMELEN" "NUL \<in> set (gi_arr (put_name (gi_name gi) old))"
    using assms(2) len by (simp_all add: put_name_def gi_ok_def)
  have u: "u32_of_int (int (gi_lst gi)) = gi_lst gi" "u32_of_int (int (gi_fst gi)) = gi_fst gi"
    using assms(1) by (simp_all add: gi_ok_def)
  have p: "p \<noteq> []" by (simp add: p_def)
  let ?new = "(put_name (gi_name gi) old)\<lparr>gi_lst := gi_lst gi, gi_fst := gi_fst gi,
      gi_n := (if gi_lst gi < gi_fst gi then 0 else u32 (gi_lst gi - gi_fst gi + 1)),
      gi_flag := gi_flag gi, gi_mtime := now\<rparr>"
  have "gi_set_line now old (print_group gi) = Ok ?new"
    unfolding gi_set_line_def nm Let_def s1 s2 prod.case u fl
    using len ne p assms(5) by simp
  moreover have "gi_ok ?new"
    using ok assms(1,2,6) by (simp add: gi_ok_def u32_def put_name_def)
  moreover have "gi_name ?new = gi_name gi" using arr by (simp add: gi_name_def)
  moreover have "gi_ctime ?new = gi_ctime old" by (simp add: put_name_def)
  ultimately show ?thesis by simp
qed

end
