(* ===== verification/Active_DB.thy ===== *)
theory Active_DB
  imports Group_Info
begin

text \<open>
  NServer-0.9.1/ActiveDB.h and NVActiveDB.{h,cc}: the database of newsgroups, a hash table of
  \<open>GroupInfo\<close> records in a container. The time is a parameter of the operations that ask for it.
\<close>

section \<open>The hash function\<close>

definition NVActiveDB_HASHSIZE :: nat where "NVActiveDB_HASHSIZE = 15013"

fun adb_hash_loop :: "nat \<Rightarrow> string \<Rightarrow> nat" where
  "adb_hash_loop h [] = h"
| "adb_hash_loop h [c] = u64_of_int (int h * schar c) mod NVActiveDB_HASHSIZE"
| "adb_hash_loop h (c # d # p) =
     adb_hash_loop (u64_of_int (int h * schar c + schar d) mod NVActiveDB_HASHSIZE) p"

definition adb_hash :: "string \<Rightarrow> nat" where
  "adb_hash strg = adb_hash_loop 1 strg"

section \<open>Looking a group up\<close>

text \<open>\<open>((GroupInfo *) r->datap())->name()\<close>, read in place.\<close>

definition name_at :: "nvc \<Rightarrow> nat \<Rightarrow> string option" where
  "name_at s r = (if r = 0 then None else cstr_at s (r + SZ_RECORD + GI_FIXED))"

text \<open>
  Once around the list from behind its last record \<open>head\<close>: the first record with the name,
  0 if there is none. A damaged list may be walked for ever.
\<close>

partial_function (option) find_group ::
  "nvc \<Rightarrow> string \<Rightarrow> nat \<Rightarrow> nat \<Rightarrow> nat outcome option" where
  "find_group s nm head r =
     (case peek s r R_next of
        None \<Rightarrow> Some Crash
      | Some r' \<Rightarrow>
          (case name_at s r' of
             None \<Rightarrow> Some Crash
           | Some n \<Rightarrow>
               if n = nm then Some (Ok r')
               else if r' = head then Some (Ok 0)
               else find_group s nm head r'))"

declare find_group.simps [code]

definition adb_find :: "string \<Rightarrow> (nvc, nat) act" where
  "adb_find nm =
     bnd (gets (\<lambda>s. nvhash_slot s (adb_hash nm))) (\<lambda>p.
     bnd (rd p) (\<lambda>head.
     if head = 0 then ret 0
     else (\<lambda>s. case find_group s nm head head of None \<Rightarrow> (Diverge, s) | Some r \<Rightarrow> (r, s))))"

text \<open>The data of a record.\<close>

definition record_data :: "nat \<Rightarrow> nat \<Rightarrow> (nvc, string) act" where
  "record_data r n s = (if in_map s (r + SZ_RECORD) n then (Ok (rbytes (fbytes s) (r + SZ_RECORD) n), s) else (Crash, s))"

section \<open>Storing a group\<close>

text \<open>
  The creation time of a record that is there is kept; one of another size is left as it is.
  The object is returned, since its creation time is set.
\<close>

definition sset :: "nat \<Rightarrow> bool \<Rightarrow> group_info \<Rightarrow> (nvc, group_info) act" where
  "sset now update_only gi =
     bnd (adb_find (gi_name gi)) (\<lambda>r.
     if r \<noteq> 0 then
       bnd (rd (r + SZ_RECORD)) (\<lambda>ct.
       let gi' = gi_setctime gi ct; raw = gi_getraw gi'
       in bnd (rdf r R_szdata) (\<lambda>sz.
          if length raw \<noteq> sz then ret gi'
          else bnd (memcpy_to (r + SZ_RECORD) raw) (\<lambda>_. ret gi')))
     else if update_only then ret gi
     else
       let gi' = gi_setctime gi now
       in bnd (nvhash_add (adb_hash (gi_name gi')) (gi_getraw gi')) (\<lambda>_. ret gi'))"

definition adb_set :: "nat \<Rightarrow> bool \<Rightarrow> group_info \<Rightarrow> (nvc, group_info) act" where
  "adb_set now update_only gi =
     bnd (lock ExclLock Block) (\<lambda>_.
     bnd (sset now update_only gi) (\<lambda>gi'.
     bnd (lock UnLock Block) (\<lambda>_. ret gi')))"

definition adb_add :: "group_info \<Rightarrow> (nvc, unit) act" where
  "adb_add gi = nvhash_add (adb_hash (gi_name gi)) (gi_getraw gi)"

text \<open>\<open>None\<close>: not found (\<open>-1\<close>).\<close>

definition adb_get :: "string \<Rightarrow> group_info \<Rightarrow> (nvc, group_info option) act" where
  "adb_get grp gi =
     bnd (lock ShrdLock Block) (\<lambda>_.
     bnd (adb_find grp) (\<lambda>r.
     bnd (if r = 0 then ret None
          else bnd (rdf r R_szdata) (\<lambda>sz.
               bnd (record_data r (u32 sz)) (\<lambda>d.
               bnd (of_outcome (gi_setraw gi d)) (\<lambda>gi'. ret (Some gi'))))) (\<lambda>res.
     bnd (lock UnLock Block) (\<lambda>_. ret res))))"

definition adb_hasgroup :: "string \<Rightarrow> (nvc, bool) act" where
  "adb_hasgroup grp =
     bnd (lock ShrdLock Block) (\<lambda>_.
     bnd (adb_find grp) (\<lambda>r.
     bnd (lock UnLock Block) (\<lambda>_. ret (r \<noteq> 0))))"

section \<open>Reading a server's list\<close>

text \<open>One line: the group is stored when the filter accepts it.\<close>

definition adb_line :: "nat \<Rightarrow> string option \<Rightarrow> bool \<Rightarrow> group_info \<Rightarrow> string \<Rightarrow> (nvc, group_info) act" where
  "adb_line now filt store_readonly gd line =
     (case filt of
        Some f \<Rightarrow> if matchgroup f (c_str line) \<le> 0 then ret gd
          else bnd (of_outcome (gi_set_line now gd (c_str line))) (\<lambda>gd1.
            sset now False (if store_readonly then gi_setflag gd1 (CHR ''n'') else gd1))
      | None \<Rightarrow> bnd (of_outcome (gi_set_line now gd (c_str line))) (\<lambda>gd1.
            sset now False (if store_readonly then gi_setflag gd1 (CHR ''n'') else gd1)))"

lemma nlreadline_eof:
  assumes "nlreadline is l k = (l', is')" and "\<not> is_eof is" and "is_eof is'"
  shows "inp is' = []"
proof -
  obtain l0 where g: "getline is l = (l0, is')" using assms(1) by (auto simp: nlreadline_def split: prod.splits)
  show ?thesis
  proof (cases "good is")
    case False
    with g assms(2,3) show ?thesis by (auto simp: getline_def)
  next
    case True
    show ?thesis
    proof (cases "dropWhile (\<lambda>c. c \<noteq> LF) (inp is)")
      case Nil
      from g True show ?thesis unfolding getline_def Let_def Nil by auto
    next
      case (Cons c r)
      from g True have "is' = is\<lparr>inp := r\<rparr>" unfolding getline_def Let_def Cons by auto
      with assms(2,3) show ?thesis by simp
    qed
  qed
qed

text \<open>
  The end of the input is looked for before each line, not behind it: the empty line that a
  broken connection leaves is taken for a group too. On a stream that has failed before its
  end the loop does not end.
\<close>

function adb_read_lines ::
  "nat \<Rightarrow> string option \<Rightarrow> bool \<Rightarrow> istream \<Rightarrow> string \<Rightarrow> group_info \<Rightarrow> (nvc, istream) act" where
  "adb_read_lines now filt ro is line gd =
     (if is_eof is then ret is
      else if is_fail is then (\<lambda>s. (Diverge, s))
      else
        let (line', is') = nlreadline is line False
        in if line' = ''.'' then ret is'
           else bnd (adb_line now filt ro gd line') (\<lambda>gd'. adb_read_lines now filt ro is' line' gd'))"
  by pat_completeness auto
termination
proof (relation "measure (\<lambda>(n, f, ro, is, l, g). 2 * length (inp is) + (if is_eof is then 0 else 1))", goal_cases)
  case (2 now filt ro i line gd x line' i' gd')
  show ?case
  proof (cases "is_eof i'")
    case True
    have "nlreadline i line False = (line', i')" "\<not> is_eof i" using 2 by simp_all
    with True have "inp i' = []" using nlreadline_eof by blast
    with True 2 show ?thesis by simp
  next
    case False
    with 2 nlreadline_shorter [of i line False line' i'] show ?thesis by simp
  qed
qed simp

declare adb_read_lines.simps [simp del]

definition adb_read ::
  "nat \<Rightarrow> istream \<Rightarrow> string option \<Rightarrow> bool \<Rightarrow> bool \<Rightarrow> (nvc, istream) act" where
  "adb_read now is filt store_readonly f_clear =
     bnd (lock ExclLock Block) (\<lambda>_.
     bnd (if f_clear then nvhash_clear else ret ()) (\<lambda>_.
     bnd (adb_read_lines now filt store_readonly is [] gi_new) (\<lambda>is'.
     bnd (setmtime now False) (\<lambda>_.
     bnd (lock UnLock Block) (\<lambda>_. ret is')))))"

section \<open>Writing the list\<close>

datatype list_mode = m_active | m_times

definition group_line :: "list_mode \<Rightarrow> group_info \<Rightarrow> string" where
  "group_line mode gd =
     (case mode of
        m_active \<Rightarrow> print_group gd @ CRLF
      | m_times \<Rightarrow> gi_name gd @ '' '' @ show_nat (gi_ctime gd) @ '' news'' @ CRLF)"

definition wanted :: "string option \<Rightarrow> nat \<Rightarrow> group_info \<Rightarrow> bool" where
  "wanted filt ctime gd \<longleftrightarrow>
     (case filt of None \<Rightarrow> True | Some f \<Rightarrow> 0 < matchgroup f (gi_name gd)) \<and> ctime < gi_ctime gd"

text \<open>
  \<open>ok\<close> tells whether the stream still takes what has been written to it.
\<close>

partial_function (option) adb_write_from ::
  "(string \<Rightarrow> bool) \<Rightarrow> nat \<Rightarrow> list_mode \<Rightarrow> string option \<Rightarrow> group_info \<Rightarrow> hash_iter \<Rightarrow> string
    \<Rightarrow> nvc \<Rightarrow> (string outcome \<times> nvc) option" where
  "adb_write_from ok ctime mode filt gd it out s =
     (if hi_pos it = 0 then Some (Ok out, s)
      else
        obnd (Some (bnd (rdf (hi_pos it) R_szdata) (\<lambda>sz.
                bnd (record_data (hi_pos it) (u32 sz)) (\<lambda>d. of_outcome (gi_setraw gd d))) s)) (\<lambda>gd' s1.
        let out' = (if wanted filt ctime gd' then out @ group_line mode gd' else out)
        in if wanted filt ctime gd' \<and> \<not> ok out' then Some (Throw (SystemError ''Cannot write GroupList''), s1)
           else obnd (Some (hi_next it s1)) (\<lambda>it' s2. adb_write_from ok ctime mode filt gd' it' out' s2)))"

declare adb_write_from.simps [code]

definition hash_iter_new :: hash_iter where
  "hash_iter_new = \<lparr>hi_att = False, hi_pos = 0, hi_tail = 0, hi_hash = 0\<rparr>"

text \<open>The iterator gives its lock back when it goes out of scope, by an exception too.\<close>

definition adb_write ::
  "(string \<Rightarrow> bool) \<Rightarrow> nat \<Rightarrow> list_mode \<Rightarrow> string option \<Rightarrow> (nvc, string) act" where
  "adb_write ok ctime mode filt =
     bnd (hi_attach hash_iter_new) (\<lambda>it.
     bnd (hi_first it) (\<lambda>it1 s.
       case loop (adb_write_from ok ctime mode filt gi_new it1 []) s of
         (Ok out, s1) \<Rightarrow> bnd (hi_detach it1) (\<lambda>_. ret out) s1
       | (Throw e, s1) \<Rightarrow> bnd (hi_detach it1) (\<lambda>_. throw e) s1
       | r \<Rightarrow> r))"

section \<open>NVActiveDB_Iter\<close>

text \<open>\<open>ai_hash = hashsz\<close> is the end; the iterator takes no lock.\<close>

record adb_iter =
  ai_hash :: nat
  ai_pos :: nat
  ai_tail :: nat
  ai_group :: group_info

fun ai_skip_nulls :: "nat list \<Rightarrow> adb_iter \<Rightarrow> (nvc, adb_iter) act" where
  "ai_skip_nulls [] it = ret it"
| "ai_skip_nulls (h # hs) it =
     bnd (gets (\<lambda>s. nvhash_slot s h)) (\<lambda>p.
     bnd (rd p) (\<lambda>t.
     if t \<noteq> 0 then bnd (rdf t R_next) (\<lambda>p'. ret (it\<lparr>ai_tail := t, ai_pos := p', ai_hash := h\<rparr>))
     else ai_skip_nulls hs (it\<lparr>ai_hash := h + 1\<rparr>)))"

definition adb_begin :: "(nvc, adb_iter) act" where
  "adb_begin = bnd (gets hashsz) (\<lambda>n.
     ai_skip_nulls [0..<n] \<lparr>ai_hash = 0, ai_pos = 0, ai_tail = 0, ai_group = gi_new\<rparr>)"

definition adb_end :: "(nvc, adb_iter) act" where
  "adb_end = bnd (gets hashsz) (\<lambda>n. ret \<lparr>ai_hash = n, ai_pos = 0, ai_tail = 0, ai_group = gi_new\<rparr>)"

definition ai_get :: "adb_iter \<Rightarrow> (nvc, adb_iter) act" where
  "ai_get it =
     bnd (rdf (ai_pos it) R_szdata) (\<lambda>sz.
     bnd (record_data (ai_pos it) (u32 sz)) (\<lambda>d.
     bnd (of_outcome (gi_setraw (ai_group it) d)) (\<lambda>gd. ret (it\<lparr>ai_group := gd\<rparr>))))"

definition ai_next :: "adb_iter \<Rightarrow> (nvc, adb_iter) act" where
  "ai_next it =
     bnd (gets hashsz) (\<lambda>n.
     if ai_hash it = n then ret it
     else if ai_pos it = ai_tail it
       then ai_skip_nulls [ai_hash it + 1..<n] (it\<lparr>ai_pos := 0, ai_hash := ai_hash it + 1\<rparr>)
     else bnd (rdf (ai_pos it) R_next) (\<lambda>p. ret (it\<lparr>ai_pos := p\<rparr>)))"

definition ai_equals :: "adb_iter \<Rightarrow> adb_iter \<Rightarrow> bool" where
  "ai_equals a b \<longleftrightarrow> ai_pos a = ai_pos b"

text \<open>The groups from \<open>begin()\<close> to \<open>end()\<close>, in the order \<open>for_each\<close> visits them.\<close>

partial_function (option) adb_each :: "adb_iter \<Rightarrow> adb_iter \<Rightarrow> group_info list \<Rightarrow> nvc \<Rightarrow> (group_info list outcome \<times> nvc) option" where
  "adb_each it e gds s =
     (if ai_equals it e then Some (Ok gds, s)
      else obnd (Some (ai_get it s)) (\<lambda>it1 s1.
           obnd (Some (ai_next it1 s1)) (\<lambda>it2 s2. adb_each it2 e (gds @ [ai_group it1]) s2)))"

declare adb_each.simps [code]

definition adb_groups :: "(nvc, group_info list) act" where
  "adb_groups = bnd adb_begin (\<lambda>b. bnd adb_end (\<lambda>e. loop (adb_each b e [])))"

end
