(* ===== verification/Client_Auth.thy ===== *)
theory Client_Auth
  imports Config_Read
begin

text \<open>
  The part of src/NewsCache.cc that decides whether a user's password is right and that adds
  the user's rights to the client's entry of the access list. The switches of configure,
  the password databases, the cryptographic functions, the PAM library and the file system
  are fields of a record of parameters.
\<close>

section \<open>What the system provides\<close>

text \<open>
  A \<open>struct passwd\<close> (\<open>spwd\<close>) is its name and its password, either of which may be a null
  pointer. \<open>env_pam\<close> tells whether \<open>pam_start\<close>, \<open>pam_authenticate\<close> and \<open>pam_acct_mgmt\<close> all
  succeed for a service when the conversation function answers with a user and a password.
\<close>

record auth_env =
  md5_auto :: bool
  md5_crypt :: bool
  shadow_password :: bool
  plain_text_passwords :: bool
  pam_auth :: bool
  env_crypt :: "string \<Rightarrow> string \<Rightarrow> string option"
  env_md5crypt :: "string \<Rightarrow> string"
  env_getpwnam :: "string \<Rightarrow> (string option \<times> string option) option"
  env_getspnam :: "string \<Rightarrow> (string option \<times> string option) option"
  env_groups :: "(string \<times> string list) list"
  env_pam :: "string \<Rightarrow> string \<Rightarrow> string \<Rightarrow> bool"
  env_read :: "string \<Rightarrow> string option"

section \<open>The password file\<close>

text \<open>What successive calls of \<open>fgets(buf, n + 1, F)\<close> deliver, as C strings.\<close>

function fgets_lines :: "nat \<Rightarrow> string \<Rightarrow> string list" where
  "fgets_lines n s =
     (if s = [] \<or> n = 0 then []
      else
        let chunk = take n s;
            k = length (takeWhile (\<lambda>c. c \<noteq> LF) chunk);
            l = take (k + 1) chunk
        in c_str l # fgets_lines n (drop (length l) s))"
  by pat_completeness auto
termination by (relation "measure (\<lambda>(n, s). length s)") auto

declare fgets_lines.simps [simp del]

text \<open>
  White space goes from the end of the line, but not its first character, and from its start.
\<close>

definition trim_line :: "string \<Rightarrow> string" where
  "trim_line l =
     dropWhile isspace
       (case l of [] \<Rightarrow> [] | c # r \<Rightarrow> c # rev (dropWhile isspace (rev r)))"

text \<open>At most \<open>n\<close> cuts at colons; what follows the last one keeps its colons.\<close>

fun cut_colons :: "nat \<Rightarrow> string \<Rightarrow> string list" where
  "cut_colons 0 p = [p]"
| "cut_colons (Suc n) p =
     (case dropWhile (\<lambda>c. c \<noteq> CHR '':'') p of
        [] \<Rightarrow> [p]
      | _ # q \<Rightarrow> takeWhile (\<lambda>c. c \<noteq> CHR '':'') p # cut_colons n q)"

text \<open>\<open>fields\<close> has eight entries, the last for the null pointer.\<close>

fun seek_lines :: "string list \<Rightarrow> string \<Rightarrow> string list option" where
  "seek_lines [] username = None"
| "seek_lines (l # ls) username =
     (let p = trim_line l
      in if deref p = CHR ''#'' \<or> p = [] then seek_lines ls username
         else
           let fields = cut_colons 6 p
           in if username = hd fields then Some fields else seek_lines ls username)"

definition seekfile :: "auth_env \<Rightarrow> string \<Rightarrow> string \<Rightarrow> string list option" where
  "seekfile env filename username =
     (case env_read env filename of
        None \<Rightarrow> None
      | Some s \<Rightarrow> seek_lines (fgets_lines 1023 s) username)"

section \<open>Comparing passwords\<close>

text \<open>\<open>True\<close>: they differ. \<open>crypt\<close> may return a null pointer.\<close>

definition auto_cryptcheck :: "auth_env \<Rightarrow> string \<Rightarrow> string \<Rightarrow> bool outcome" where
  "auto_cryptcheck env key pass =
     (if (if md5_auto env then length pass = 24 \<and> pass ! 23 = CHR ''='' \<and> pass ! 22 = CHR ''=''
          else md5_crypt env)
      then Ok (pass \<noteq> env_md5crypt env key)
      else case env_crypt env key pass of None \<Rightarrow> Crash | Some h \<Rightarrow> Ok (pass \<noteq> h))"

section \<open>Granting rights\<close>

text \<open>The checks act on the client's entry of the access list.\<close>

definition auth_field :: "nat \<Rightarrow> (access_entry, string) act" where
  "auth_field i e = (case auth_getField (authentication e) i of None \<Rightarrow> (Crash, e) | Some f \<Rightarrow> (Ok f, e))"

definition test_type :: "string \<Rightarrow> (access_entry, int) act" where
  "test_type t e = (case auth_typeEqual (authentication e) t of None \<Rightarrow> (Crash, e) | Some i \<Rightarrow> (Ok i, e))"

text \<open>\<open>filter |= NewsgroupFilter(field.c_str())\<close>\<close>

definition or_field ::
  "(access_entry \<Rightarrow> nfilter) \<Rightarrow> (nfilter \<Rightarrow> access_entry \<Rightarrow> access_entry) \<Rightarrow> nat \<Rightarrow> (access_entry, unit) act" where
  "or_field sel put i =
     bnd (auth_field i) (\<lambda>f e.
       case filter_or (sel e) (filter_new (c_str f)) of
         None \<Rightarrow> (Crash, e)
       | Some h \<Rightarrow> (Ok (), put h e))"

text \<open>The four fields from \<open>i\<close> on: list, read, postTo and the access flags.\<close>

definition grant_rights :: "nat \<Rightarrow> (access_entry, unit) act" where
  "grant_rights i =
     bnd (or_field ae_list (\<lambda>h e. e\<lparr>ae_list := h\<rparr>) i) (\<lambda>_.
     bnd (or_field ae_read (\<lambda>h e. e\<lparr>ae_read := h\<rparr>) (i + 1)) (\<lambda>_.
     bnd (or_field ae_postTo (\<lambda>h e. e\<lparr>ae_postTo := h\<rparr>) (i + 2)) (\<lambda>_.
     bnd (auth_field (i + 3)) (\<lambda>fl. upd (\<lambda>e. modifyAccessFlags e fl)))))"

section \<open>The kinds of authentication\<close>

text \<open>The password of a user of the system; \<open>None\<close>: the user is refused.\<close>

definition unix_password :: "auth_env \<Rightarrow> string \<Rightarrow> string option" where
  "unix_password env u =
     (case env_getpwnam env u of
        Some (Some nm, Some pw) \<Rightarrow>
          if pw = [] then None
          else if shadow_password env \<and> pw = ''x'' then
            (case env_getspnam env nm of Some (Some _, Some p) \<Rightarrow> Some p | _ \<Rightarrow> None)
          else Some pw
      | _ \<Rightarrow> None)"

definition check_auth_unix :: "auth_env \<Rightarrow> string \<Rightarrow> string \<Rightarrow> (access_entry, int) act" where
  "check_auth_unix env u p =
     bnd (test_type ''unix:'') (\<lambda>t.
     if t \<noteq> 0 then ret (- 1)
     else case unix_password env u of
       None \<Rightarrow> ret (- 1)
     | Some pass \<Rightarrow>
         bnd (of_outcome (auto_cryptcheck env p pass)) (\<lambda>differ.
         if differ then ret (- 1) else bnd (grant_rights 1) (\<lambda>_. ret 0)))"

definition check_auth_file :: "auth_env \<Rightarrow> string \<Rightarrow> string \<Rightarrow> (access_entry, int) act" where
  "check_auth_file env u p =
     bnd (test_type ''file:'') (\<lambda>t.
     if t \<noteq> 0 then ret (- 1)
     else bnd (auth_field 1) (\<lambda>authfile.
       case seekfile env (c_str authfile) u of
         None \<Rightarrow> ret (- 1)
       | Some authv \<Rightarrow>
           if length authv < 3 then ret (- 1)
           else
             bnd (if plain_text_passwords env \<and> p = authv ! 1 then ret False
                  else of_outcome (auto_cryptcheck env p (authv ! 1))) (\<lambda>differ.
             if differ then ret (- 1)
             else
               bnd (upd (\<lambda>e. e\<lparr>authentication :=
                      foldl auth_appendField (auth_set (''file:'' @ authfile)) (drop 2 authv)\<rparr>)) (\<lambda>_.
               bnd (grant_rights 2) (\<lambda>_. ret 0)))))"

definition check_pam_user_pass :: "auth_env \<Rightarrow> string \<Rightarrow> string \<Rightarrow> (access_entry, int) act" where
  "check_pam_user_pass env u p =
     bnd (gets PAMServicename) (\<lambda>service. ret (if env_pam env (c_str service) u p then 0 else - 1))"

text \<open>The rights of the user's groups: the lines of the file whose name is the group's behind an at sign.\<close>

fun group_auths ::
  "auth_env \<Rightarrow> string \<Rightarrow> string \<Rightarrow> (string \<times> string list) list \<Rightarrow> string list list outcome" where
  "group_auths env authfile u [] = Ok []"
| "group_auths env authfile u ((g, members) # gs) =
     (if u \<notin> set members then group_auths env authfile u gs
      else if 1023 \<le> length g then Crash
      else
        case group_auths env authfile u gs of
          Ok as \<Rightarrow>
            (case seekfile env (c_str authfile) (CHR ''@'' # g) of
               None \<Rightarrow> Ok as
             | Some authv \<Rightarrow>
                 Ok (foldl auth_appendField (auth_set (''pam+file:'' @ authfile)) (drop 1 authv) # as))
        | r \<Rightarrow> r)"

definition check_auth_pam_file :: "auth_env \<Rightarrow> string \<Rightarrow> string \<Rightarrow> (access_entry, int) act" where
  "check_auth_pam_file env u p =
     bnd (test_type ''pam+file:'') (\<lambda>t.
     if t \<noteq> 0 then ret (- 1)
     else bnd (check_pam_user_pass env u p) (\<lambda>r.
     if r \<noteq> 0 then ret (- 1)
     else bnd (auth_field 1) (\<lambda>authfile.
       let base = auth_set (''pam+file:'' @ authfile)
       in case seekfile env (c_str authfile) u of
         None \<Rightarrow> ret (- 1)
       | Some authv \<Rightarrow>
           let userAuth = foldl auth_appendField base (drop 1 authv);
               defAuth = (case seekfile env (c_str authfile) ''*'' of
                            None \<Rightarrow> [] | Some dv \<Rightarrow> foldl auth_appendField base (drop 1 dv))
           in bnd (of_outcome (group_auths env authfile u (env_groups env))) (\<lambda>groupAuths.
              bnd (upd (\<lambda>e. e\<lparr>authentication :=
                     foldl (auth_modify 0 2) (auth_modify 0 2 userAuth defAuth) groupAuths\<rparr>)) (\<lambda>_.
              bnd (grant_rights 2) (\<lambda>_. ret 0))))))"

definition check_auth_pam :: "auth_env \<Rightarrow> string \<Rightarrow> string \<Rightarrow> (access_entry, int) act" where
  "check_auth_pam env u p =
     bnd (test_type ''pam:'') (\<lambda>t.
     if t \<noteq> 0 then ret (- 1)
     else bnd (check_pam_user_pass env u p) (\<lambda>r.
     if r \<noteq> 0 then ret (- 1)
     else bnd (grant_rights 1) (\<lambda>_. ret 0)))"

definition check_authentication :: "auth_env \<Rightarrow> string \<Rightarrow> string \<Rightarrow> (access_entry, int) act" where
  "check_authentication env u p =
     bnd (gets (\<lambda>e. auth_getType (authentication e))) (\<lambda>t.
     if t = ''none'' then ret (- 1)
     else if strneq (c_str t) ''unix'' 4 then check_auth_unix env u p
     else if strneq (c_str t) ''file'' 4 then check_auth_file env u p
     else if pam_auth env \<and> strneq (c_str t) ''pam+file'' 8 then check_auth_pam_file env u p
     else if pam_auth env \<and> strneq (c_str t) ''pam'' 3 then check_auth_pam env u p
     else ret (- 1))"

end
