(* ===== verification/Client_Session.thy ===== *)
theory Client_Session
  imports Client_Auth Active_DB
begin

text \<open>
  src/NewsCache.cc: the state of a connected client, the commands a client can give, and one
  round of the loop of \<open>nnrpd\<close>. The news server object and the newsgroup objects are reached
  through their virtual functions only; these are a record of functions on a world of type
  \<open>'w\<close>, with newsgroups of type \<open>'g\<close>.
\<close>

section \<open>The virtual functions of CServer and Newsgroup\<close>

text \<open>
  Functions that print do so on the output stream, whose content is the second component of
  their state. The pointer that \<open>getarticle\<close> returns may be null.
\<close>

record ('g, 'w) cserver =
  cs_groupinfo :: "string \<Rightarrow> ('w, group_info) act"
  cs_getgroup :: "string \<Rightarrow> ('w, 'g) act"
  cs_freegroup :: "'g \<Rightarrow> ('w, unit) act"
  cs_article :: "string \<Rightarrow> ('w, article) act"
  cs_active :: "('w, unit) act"
  cs_groups :: "('w, group_info list) act"
  cs_overviewfmt :: "'w \<Rightarrow> overfmt"
  cs_post :: "article \<Rightarrow> ('w, int) act"
  ng_setsize :: "'g \<Rightarrow> nat \<Rightarrow> nat \<Rightarrow> ('w, unit) act"
  ng_getsize :: "'g \<Rightarrow> ('w, nat \<times> nat) act"
  ng_getarticle :: "'g \<Rightarrow> nat \<Rightarrow> ('w, article option) act"
  ng_getover :: "'g \<Rightarrow> nat \<Rightarrow> ('w, string) act"
  ng_printlistgroup :: "'g \<Rightarrow> ('w \<times> string, unit) act"
  ng_printoverdb :: "'g \<Rightarrow> nat \<Rightarrow> nat \<Rightarrow> ('w \<times> string, unit) act"
  ng_printheaderdb :: "'g \<Rightarrow> string \<Rightarrow> nat \<Rightarrow> nat \<Rightarrow> ('w \<times> string, unit) act"

section \<open>The environment\<close>

record ctm =
  tm_year :: int
  tm_mon :: int
  tm_mday :: int
  tm_hour :: int
  tm_min :: int
  tm_sec :: int

text \<open>
  The clock and the time zone, whether the output stream still takes what has been written,
  the value of \<open>string::npos\<close> ($2^{64}-1$ on LP64, $2^{32}-1$ on a 32 bit platform) and
  what an uninitialised \<open>int\<close> happens to hold.
\<close>

record cl_env = auth_env +
  have_tzname :: bool
  now_gmt :: "ctm option"
  now_local :: ctm
  env_daylight :: int
  env_timezone :: int
  local_dst :: int
  env_mktime :: "ctm \<Rightarrow> int \<Rightarrow> int"
  out_good :: "string \<Rightarrow> bool"
  npos :: nat
  garbage :: int

definition PACKAGE :: string where "PACKAGE = ''NewsCache''"
definition VERSION :: string where "VERSION = ''1.2rc6''"

section \<open>The table of commands\<close>

definition all_nrp_commands :: "(string \<times> string) list" where
  "all_nrp_commands =
    [(''authinfo'', ''[user username|pass password]''),
     (''article'', ''[number|<id>]''),
     (''head'', ''[number|<id>]''),
     (''body'', ''[number|<id>]''),
     (''stat'', ''[number|<id>]''),
     (''date'', ''''),
     (''group'', ''newsgroup''),
     (''help'', ''''),
     (''last'', ''''),
     (''list'', ''[active [wildmat]|active.times [time]|extensions|newsgroups|overview.fmt]''),
     (''listgroup'', ''[newsgroup]''),
     (''mode'', ''reader''),
     (''newgroups'', ''date time [GMT] [wildmat]''),
     (''next'', ''''),
     (''over'', ''[range]''),
     (''post'', ''''),
     (''quit'', ''''),
     (''xdebug'', ''xdebug help''),
     (''xhdr'', ''header [range]''),
     (''xover'', ''[range]'')]"

text \<open>A \<open>map<string, ...>\<close> keeps its entries in the order of their keys.\<close>

fun str_less :: "string \<Rightarrow> string \<Rightarrow> bool" where
  "str_less p [] \<longleftrightarrow> False"
| "str_less [] (d # q) \<longleftrightarrow> True"
| "str_less (c # p) (d # q) \<longleftrightarrow> (of_char c :: nat) < of_char d \<or> c = d \<and> str_less p q"

fun map_put :: "string \<Rightarrow> string \<Rightarrow> (string \<times> string) list \<Rightarrow> (string \<times> string) list" where
  "map_put k v [] = [(k, v)]"
| "map_put k v ((k', v') # m) =
     (if k = k' then (k, v) # m
      else if str_less k k' then (k, v) # (k', v') # m
      else (k', v') # map_put k v m)"

definition map_erase :: "string \<Rightarrow> (string \<times> string) list \<Rightarrow> (string \<times> string) list" where
  "map_erase k m = filter (\<lambda>e. fst e \<noteq> k) m"

definition enableAll :: "(string \<times> string) list \<Rightarrow> (string \<times> string) list" where
  "enableAll m = foldl (\<lambda>m (k, v). map_put k v m) m all_nrp_commands"

definition disableRead :: "(string \<times> string) list \<Rightarrow> (string \<times> string) list" where
  "disableRead m = foldl (\<lambda>m k. map_erase k m) m
     [''article'', ''head'', ''body'', ''stat'', ''group'', ''last'', ''listgroup'', ''next'',
      ''over'', ''xhdr'', ''xover'', ''list'', ''mode'', ''newgroups'']"

definition disablePost :: "(string \<times> string) list \<Rightarrow> (string \<times> string) list" where
  "disablePost m = map_erase ''post'' m"

definition disableDebug :: "(string \<times> string) list \<Rightarrow> (string \<times> string) list" where
  "disableDebug m = map_erase ''xdebug'' m"

section \<open>The client\<close>

datatype auth_state = AUTH_REQUIRED | AUTH_OK | AUTH_FAILED | AUTH_NOT_REQUIRED

text \<open>
  \<open>access_entry\<close> is a pointer into the access list of \<open>Cfg\<close>: here its index. The socket, the
  names for the log and PAM's handle are left out.
\<close>

record ('g, 'w) client_data =
  clt_in :: istream
  clt_out :: string
  clt_world :: 'w
  clt_cfg :: config
  clt_groupname :: string
  clt_grp :: "'g option"
  clt_nbr :: int
  clt_entry :: nat
  clt_auth_user :: string
  clt_auth_pass :: string
  clt_auth_state :: auth_state
  clt_auth_failures :: int
  clt_auth_max_failures :: int
  clt_stat_groups :: int
  clt_stat_artingrp :: int
  clt_stat_articles :: int
  clt_commands :: "(string \<times> string) list"

definition entry :: "('g, 'w) client_data \<Rightarrow> access_entry" where
  "entry c = clnts (clt_cfg c) ! clt_entry c"

definition set_entry :: "access_entry \<Rightarrow> ('g, 'w) client_data \<Rightarrow> ('g, 'w) client_data" where
  "set_entry e c = c\<lparr>clt_cfg := (clt_cfg c)\<lparr>clnts := (clnts (clt_cfg c))[clt_entry c := e]\<rparr>\<rparr>"

definition client_new :: "istream \<Rightarrow> 'w \<Rightarrow> config \<Rightarrow> nat \<Rightarrow> ('g, 'w) client_data" where
  "client_new is w cfg i =
     \<lparr>clt_in = is, clt_out = [], clt_world = w, clt_cfg = cfg, clt_groupname = [], clt_grp = None,
      clt_nbr = - 1, clt_entry = i, clt_auth_user = [], clt_auth_pass = [], clt_auth_state = AUTH_OK,
      clt_auth_failures = 0, clt_auth_max_failures = 3, clt_stat_groups = 0, clt_stat_artingrp = 0,
      clt_stat_articles = 0, clt_commands = enableAll []\<rparr>"

definition set_client_command_table :: "('g, 'w) client_data \<Rightarrow> ('g, 'w) client_data" where
  "set_client_command_table c =
     (let w = access_flags (entry c);
          m0 = enableAll (clt_commands c);
          m1 = (if has_bit w af_read then m0 else disableRead m0);
          m2 = (if has_bit w af_post then m1 else disablePost m1)
      in c\<lparr>clt_commands := (if has_bit w af_debug then m2 else disableDebug m2)\<rparr>)"

section \<open>Actions of a handler\<close>

definition on_entry :: "(access_entry, 'a) act \<Rightarrow> (('g, 'w) client_data, 'a) act" where
  "on_entry f c = (case f (entry c) of (r, e) \<Rightarrow> (r, set_entry e c))"

definition in_world :: "('w, 'a) act \<Rightarrow> (('g, 'w) client_data, 'a) act" where
  "in_world f c = (case f (clt_world c) of (r, w) \<Rightarrow> (r, c\<lparr>clt_world := w\<rparr>))"

definition on_stream :: "('w \<times> string, 'a) act \<Rightarrow> (('g, 'w) client_data, 'a) act" where
  "on_stream f c =
     (case f (clt_world c, clt_out c) of (r, (w, out)) \<Rightarrow> (r, c\<lparr>clt_world := w, clt_out := out\<rparr>))"

definition put :: "string \<Rightarrow> (('g, 'w) client_data, unit) act" where
  "put s = upd (\<lambda>c. c\<lparr>clt_out := clt_out c @ s\<rparr>)"

definition reply :: "string \<Rightarrow> int \<Rightarrow> (('g, 'w) client_data, int) act" where
  "reply s r = bnd (put (s @ CRLF)) (\<lambda>_. ret r)"

text \<open>A filter that reads outside its strings has no answer.\<close>

definition filter_matches :: "nfilter \<Rightarrow> string \<Rightarrow> ('s, int) act" where
  "filter_matches f g = (case matches f g of None \<Rightarrow> crash | Some n \<Rightarrow> ret n)"

end
