(* ===== verification/Client_Commands.thy ===== *)
theory Client_Commands
  imports Client_Session
begin

text \<open>
  src/NewsCache.cc: the functions \<open>ns_*\<close> that carry out the commands. Each returns the code
  that \<open>nnrpd\<close> looks at: 0 and -1 go on, everything else ends the session. \<open>args\<close> is
  \<open>argv\<close>, the command itself in front.
\<close>

section \<open>Newsgroups and articles\<close>

definition selectgroup :: "('g, 'w) cserver \<Rightarrow> string \<Rightarrow> (('g, 'w) client_data, group_info option) act" where
  "selectgroup S grp =
     bnd (try_catch (bnd (in_world (cs_groupinfo S grp)) (\<lambda>gi. ret (Some gi))) (\<lambda>_. ret None)) (\<lambda>r.
     case r of
       None \<Rightarrow> ret None
     | Some gi \<Rightarrow>
         bnd (upd (\<lambda>c. c\<lparr>clt_nbr := (if gi_fst gi \<le> gi_lst gi then i32 (int (gi_fst gi)) else - 1)\<rparr>)) (\<lambda>_.
         bnd (gets (\<lambda>c. (clt_groupname c, clt_grp c))) (\<lambda>(nm, g).
         if nm \<noteq> grp then
           bnd (case g of None \<Rightarrow> ret () | Some g' \<Rightarrow> in_world (cs_freegroup S g')) (\<lambda>_.
           bnd (upd (\<lambda>c. c\<lparr>clt_grp := None, clt_stat_groups := i32 (clt_stat_groups c + 1),
                            clt_stat_artingrp := 0\<rparr>)) (\<lambda>_.
           bnd (strcpy_to MAXNEWSGROUPNAMELEN grp) (\<lambda>n.
           bnd (upd (\<lambda>c. c\<lparr>clt_groupname := n\<rparr>)) (\<lambda>_. ret (Some gi)))))
         else
           bnd (case g of None \<Rightarrow> ret ()
                | Some g' \<Rightarrow> in_world (ng_setsize S g' (gi_fst gi) (gi_lst gi))) (\<lambda>_. ret (Some gi)))))"

definition nsh_particle :: "string \<Rightarrow> int \<Rightarrow> article \<Rightarrow> (('g, 'w) client_data, unit) act" where
  "nsh_particle cmd nbr a =
     bnd (of_outcome (getfield a ''Message-ID:'' False)) (\<lambda>aid.
     let line = (\<lambda>code what. put (code @ show_int nbr @ '' '' @ aid @ '' article retrieved - '' @ what @ CRLF))
     in if deref cmd = CHR ''a'' then
          bnd (line ''220 '' ''head and body follow'') (\<lambda>_. put (write_article a True True @ ''.'' @ CRLF))
        else if deref cmd = CHR ''h'' then
          bnd (line ''221 '' ''head follows'') (\<lambda>_. put (write_article a True False @ ''.'' @ CRLF))
        else if deref cmd = CHR ''b'' then
          bnd (line ''222 '' ''body follows'') (\<lambda>_. put (write_article a False True @ ''.'' @ CRLF))
        else ret ())"

text \<open>
  \<open>if(!clt->grp) clt->grp = clt->srvr->getgroup(clt->groupname)\<close> with its handlers: what to answer
  instead of a group, or the group.
\<close>

definition need_group :: "('g, 'w) cserver \<Rightarrow> string \<Rightarrow> (('g, 'w) client_data, 'g + string) act" where
  "need_group S no_group =
     bnd (gets (\<lambda>c. (clt_grp c, clt_groupname c))) (\<lambda>(g, nm).
     case g of
       Some g' \<Rightarrow> ret (Inl g')
     | None \<Rightarrow>
         try_catch
           (bnd (in_world (cs_getgroup S nm)) (\<lambda>g'.
            bnd (upd (\<lambda>c. c\<lparr>clt_grp := Some g'\<rparr>)) (\<lambda>_. ret (Inl g'))))
           (\<lambda>e. ret (Inr (case e of NoSuchGroupError _ \<Rightarrow> no_group | _ \<Rightarrow> ''412 operation failed''))))"

definition count_article :: "(('g, 'w) client_data, unit) act" where
  "count_article = upd (\<lambda>c. c\<lparr>clt_stat_artingrp := i32 (clt_stat_artingrp c + 1),
     clt_stat_articles := i32 (clt_stat_articles c + 1)\<rparr>)"

definition article_by_number ::
  "('g, 'w) cserver \<Rightarrow> string list \<Rightarrow> ('g \<Rightarrow> int \<Rightarrow> (('g, 'w) client_data, int) act) \<Rightarrow> (('g, 'w) client_data, int) act" where
  "article_by_number S args k =
     bnd (gets clt_groupname) (\<lambda>nm.
     if nm = [] then reply ''412 no newsgroup has been selected'' (- 1)
     else bnd (need_group S ''411 no such newsgroup'') (\<lambda>g.
     case g of
       Inr msg \<Rightarrow> reply msg (- 1)
     | Inl g' \<Rightarrow>
         bnd (gets clt_nbr) (\<lambda>cur.
         if length args = 1 \<and> cur < 0 then reply ''420 no current article has been selected'' (- 1)
         else k g' (if length args = 2 then atoi (args ! 1) else cur))))"

text \<open>The handlers around \<open>article(id, &a)\<close>.\<close>

definition article_by_id ::
  "(('g, 'w) client_data, unit) act \<Rightarrow> (('g, 'w) client_data, int) act \<Rightarrow> (('g, 'w) client_data, int) act" where
  "article_by_id f k =
     bnd (try_catch (bnd f (\<lambda>_. ret None)) (\<lambda>e. ret (Some e))) (\<lambda>r.
     case r of
       None \<Rightarrow> k
     | Some (NoSuchArticleError _) \<Rightarrow> reply ''430 no such article id found'' (- 1)
     | Some (ResponseError _ _ got) \<Rightarrow> reply got (- 1)
     | Some _ \<Rightarrow> reply ''520 ???'' (- 1))"

definition ns_article :: "('g, 'w) cserver \<Rightarrow> string list \<Rightarrow> (('g, 'w) client_data, int) act" where
  "ns_article S args =
     (let cmd = args ! 0; usage = (\<lambda>w. reply (''501 Syntax: '' @ w @ '' [nbr|<id>]'') (- 1))
      in if length args \<le> 2 \<and> (length args = 1 \<or> isdigit (deref (args ! 1))) then
           article_by_number S args (\<lambda>g nbr.
             bnd (in_world (ng_getarticle S g (u32_of_int nbr))) (\<lambda>r.
             case r of
               None \<Rightarrow> reply ''423 no such article number in this group'' (- 1)
             | Some a \<Rightarrow>
                 bnd (nsh_particle cmd nbr a) (\<lambda>_.
                 bnd (upd (\<lambda>c. c\<lparr>clt_nbr := nbr\<rparr>)) (\<lambda>_.
                 bnd count_article (\<lambda>_. ret 0)))))
         else if length args = 2 \<and> deref (args ! 1) = CHR ''<'' then
           article_by_id
             (bnd (in_world (cs_article S (args ! 1))) (\<lambda>a. nsh_particle cmd 0 a))
             (bnd count_article (\<lambda>_. ret 0))
         else if deref cmd = CHR ''a'' then usage ''article''
         else if deref cmd = CHR ''h'' then usage ''head''
         else if deref cmd = CHR ''b'' then usage ''body''
         else ret (- 1))"

definition ns_stat :: "('g, 'w) cserver \<Rightarrow> string list \<Rightarrow> (('g, 'w) client_data, int) act" where
  "ns_stat S args =
     (if length args \<le> 2 \<and> (length args = 1 \<or> isdigit (deref (args ! 1))) then
        article_by_number S args (\<lambda>g nbr.
          bnd (gets (\<lambda>c. cs_overviewfmt S (clt_world c))) (\<lambda>fmt.
          bnd (in_world (ng_getover S g (u32_of_int nbr))) (\<lambda>o'.
          bnd (of_outcome (over_getfield fmt o' ''Message-ID:'' 0)) (\<lambda>f.
          reply (''223 '' @ show_int nbr @ '' '' @ f @ '' status '') 0))))
      else if length args = 2 \<and> deref (args ! 1) = CHR ''<'' then
        bnd (try_catch (bnd (in_world (cs_article S (args ! 1))) (\<lambda>a. ret (Inl a))) (\<lambda>e. ret (Inr e))) (\<lambda>r.
        case r of
          Inl a \<Rightarrow>
            bnd (of_outcome (getfield a ''Message-ID:'' False)) (\<lambda>mid. reply (''223 0 '' @ mid @ '' status'') 0)
        | Inr (NoSuchArticleError _) \<Rightarrow> reply ''430 no such article id found'' (- 1)
        | Inr (ResponseError _ _ got) \<Rightarrow> reply got (- 1)
        | Inr _ \<Rightarrow> reply ''520 ???'' (- 1))
      else reply ''501 Syntax: stat [nbr|<id>]'' (- 1))"

definition ns_group :: "('g, 'w) cserver \<Rightarrow> string list \<Rightarrow> (('g, 'w) client_data, int) act" where
  "ns_group S args =
     (if length args \<noteq> 2 then reply ''501 Syntax: group Newsgroup'' (- 1)
      else
        bnd (gets entry) (\<lambda>e.
        bnd (filter_matches (ae_read e) (args ! 1)) (\<lambda>m.
        if m \<le> 0 then reply ''480 authentication required'' 0
        else bnd (selectgroup S (args ! 1)) (\<lambda>r.
        case r of
          None \<Rightarrow> reply ''411 no such news group'' (- 1)
        | Some gi \<Rightarrow>
            reply (''211 '' @ show_nat (gi_n gi) @ '' '' @ show_nat (gi_fst gi) @ '' '' @ show_nat (gi_lst gi)
              @ '' '' @ gi_name gi @ '' group selected'') 0))))"

definition ns_listgroup :: "('g, 'w) cserver \<Rightarrow> string list \<Rightarrow> (('g, 'w) client_data, int) act" where
  "ns_listgroup S args =
     bnd (gets clt_groupname) (\<lambda>nm.
     if 2 < length args then reply ''501 Syntax: listgroup [Newsgroup]'' (- 1)
     else if length args = 1 \<and> nm = [] then reply ''412 Not currently in a newsgroup'' (- 1)
     else
       bnd (if length args = 2 then
              bnd (selectgroup S (args ! 1)) (\<lambda>r.
              case r of
                None \<Rightarrow> ret (Some (''411 no such news group'', - 1))
              | Some _ \<Rightarrow>
                  bnd (gets entry) (\<lambda>e.
                  bnd (filter_matches (ae_read e) (args ! 1)) (\<lambda>m.
                  ret (if m \<le> 0 then Some (''480 authentication required'', 0) else None))))
            else ret None) (\<lambda>refusal.
       case refusal of
         Some (msg, r) \<Rightarrow> reply msg r
       | None \<Rightarrow>
           bnd (need_group S ''411 no such news group'') (\<lambda>g.
           case g of
             Inr msg \<Rightarrow> reply msg (- 1)
           | Inl g' \<Rightarrow>
               bnd (put (''211 list of article numbers follow'' @ CRLF)) (\<lambda>_.
               bnd (on_stream (ng_printlistgroup S g')) (\<lambda>_.
               reply ''.'' 0)))))"

subsection \<open>Next and last\<close>

text \<open>
  The search in the unsigned article numbers: towards smaller ones down to \<open>f\<close>, or towards
  greater ones up to \<open>l\<close>; both wrap around. The result is the number and the overview record.
\<close>

partial_function (option) seek_last ::
  "('g, 'w) cserver \<Rightarrow> 'g \<Rightarrow> nat \<Rightarrow> nat \<Rightarrow> 'w \<Rightarrow> ((nat \<times> string) option outcome \<times> 'w) option" where
  "seek_last S g f i w =
     (let i' = (if i = 0 then 2 ^ 32 - 1 else i - 1)
      in if i' < f then Some (Ok None, w)
         else obnd (Some (ng_getover S g i' w)) (\<lambda>o' w'.
           if deref o' \<noteq> NUL then Some (Ok (Some (i', o')), w') else seek_last S g f i' w'))"

partial_function (option) seek_next ::
  "('g, 'w) cserver \<Rightarrow> 'g \<Rightarrow> nat \<Rightarrow> nat \<Rightarrow> 'w \<Rightarrow> ((nat \<times> string) option outcome \<times> 'w) option" where
  "seek_next S g l i w =
     (let i' = u32 (i + 1)
      in if l < i' then Some (Ok None, w)
         else obnd (Some (ng_getover S g i' w)) (\<lambda>o' w'.
           if deref o' \<noteq> NUL then Some (Ok (Some (i', o')), w') else seek_next S g l i' w'))"

declare seek_last.simps [code] seek_next.simps [code]

definition ns_lastnext :: "('g, 'w) cserver \<Rightarrow> string list \<Rightarrow> (('g, 'w) client_data, int) act" where
  "ns_lastnext S args =
     (let cmd = deref (args ! 0)
      in if length args \<noteq> 1 \<and> cmd = CHR ''l'' then reply ''501 Syntax: last'' (- 1)
         else if length args \<noteq> 1 \<and> cmd = CHR ''n'' then reply ''501 Syntax: next'' (- 1)
         else
           bnd (gets (\<lambda>c. (clt_groupname c, clt_nbr c))) (\<lambda>(nm, cur).
           if nm = [] then reply ''412 No newsgroup currently selected'' (- 1)
           else if cur < 0 then reply ''420 no current article has been selected'' (- 1)
           else
             bnd (need_group S ''411 no such news group'') (\<lambda>g.
             case g of
               Inr msg \<Rightarrow> reply msg (- 1)
             | Inl g' \<Rightarrow>
                 bnd (gets (\<lambda>c. cs_overviewfmt S (clt_world c))) (\<lambda>fmt.
                 bnd (in_world (ng_getsize S g')) (\<lambda>(f, l).
                 bnd (in_world (if cmd = CHR ''l'' then loop (seek_last S g' f (u32_of_int cur))
                                else loop (seek_next S g' l (u32_of_int cur)))) (\<lambda>r.
                 case r of
                   None \<Rightarrow>
                     (if cmd = CHR ''l'' then reply ''422 No previous to retrieve'' (- 1)
                      else reply ''421 No next to retrieve'' (- 1))
                 | Some (i, o') \<Rightarrow>
                     bnd (of_outcome (over_getfield fmt o' ''Message-ID:'' 0)) (\<lambda>aid.
                     bnd (upd (\<lambda>c. c\<lparr>clt_nbr := i32 (int i)\<rparr>)) (\<lambda>_.
                     reply (''223 '' @ show_int (i32 (int i)) @ '' '' @ aid
                       @ '' article retrieved - request text separately'') 0))))))))"

section \<open>Lists\<close>

text \<open>
  \<open>for_each\<close> over the active database: the groups that are wanted are printed; a stream that
  no longer takes them raises \<open>SystemError\<close>.
\<close>

fun print_groups ::
  "(string \<Rightarrow> bool) \<Rightarrow> (group_info \<Rightarrow> bool) \<Rightarrow> nfilter \<Rightarrow> (group_info \<Rightarrow> string) \<Rightarrow> group_info list
    \<Rightarrow> (('g, 'w) client_data, unit) act" where
  "print_groups ok new filt fmt [] = ret ()"
| "print_groups ok new filt fmt (gd # gds) =
     bnd (if new gd then filter_matches filt (gi_name gd) else ret 0) (\<lambda>m.
     bnd (if 0 < m
          then bnd (put (fmt gd)) (\<lambda>_. bnd (gets clt_out) (\<lambda>out.
               check (ok out) (SystemError ''cannot write to clientstream'')))
          else ret ()) (\<lambda>_.
     print_groups ok new filt fmt gds))"

text \<open>The handler around it, and the line that ends the list.\<close>

definition listing :: "(('g, 'w) client_data, unit) act \<Rightarrow> (('g, 'w) client_data, int) act" where
  "listing f =
     bnd (try_catch (bnd f (\<lambda>_. ret 0)) (\<lambda>e. if is_system_error e then ret (- 2) else throw e)) (\<lambda>r.
     if r < 0 then ret r else reply ''.'' 0)"

text \<open>The lines of a file up to the last one that is complete.\<close>

function copy_lines :: "istream \<Rightarrow> string \<Rightarrow> string" where
  "copy_lines is line =
     (let (line', is') = nlreadline is line True
      in if \<not> good is' then [] else line' @ copy_lines is' line')"
  by pat_completeness auto
termination
proof (relation "measure (\<lambda>(is, l). length (inp is))", goal_cases)
  case (2 i l x line' i')
  then have "good i'" and n: "nlreadline i l True = (line', i')" by simp_all
  moreover have "good i"
    using n \<open>good i'\<close>
    by (auto simp: nlreadline_def getline_def good_def Let_def split: prod.splits list.splits if_splits)
  ultimately show ?case using nlreadline_shorter [of i l True line' i'] by (simp add: good_def)
qed simp

declare copy_lines.simps [simp del]

definition ns_list :: "('g, 'w) cserver \<Rightarrow> 'e cl_env_scheme \<Rightarrow> string list \<Rightarrow> (('g, 'w) client_data, int) act" where
  "ns_list S env args =
     (let usage = reply ''501 Syntax: list [active [wildmat]|active.times [time]|extensions|newsgroups|overview.fmt]'' (- 1)
      in if 3 < length args then usage
         else if length args = 1 \<or> strcaseeq (args ! 1) ''active'' then
           bnd (in_world (cs_active S)) (\<lambda>_.
           bnd (put (''215 List of newsgroups (Group High Low Flags) follows'' @ CRLF)) (\<lambda>_.
           listing (
             bnd (gets (\<lambda>c. filter_copy (ae_list (entry c)))) (\<lambda>f0.
             let f = (if length args = 3 then setWildmat f0 (args ! 2) else f0)
             in bnd (in_world (cs_groups S)) (\<lambda>gds.
                print_groups (out_good env) (\<lambda>_. True) f (\<lambda>gd. print_group gd @ CRLF) gds)))))
         else if strcaseeq (args ! 1) ''active.times'' then
           bnd (in_world (cs_active S)) (\<lambda>_.
           bnd (put (''215 information follows'' @ CRLF)) (\<lambda>_.
           listing (
             bnd (gets (\<lambda>c. filter_copy (ae_list (entry c)))) (\<lambda>f0.
             bnd (if length args = 3
                  then (case filter_and f0 (filter_new (args ! 2)) of None \<Rightarrow> crash | Some f \<Rightarrow> ret f)
                  else ret f0) (\<lambda>f.
             bnd (in_world (cs_groups S)) (\<lambda>gds.
             print_groups (out_good env) (\<lambda>_. True) f (group_line m_times) gds))))))
         else if length args = 2 \<and> strcaseeq (args ! 1) ''extensions'' then
           reply (''202 extensions supported'' @ CRLF @ '' over'' @ CRLF @ '' authinfo user'' @ CRLF @ ''.'') 0
         else if length args = 2 \<and> strcaseeq (args ! 1) ''newsgroups'' then
           bnd (gets (\<lambda>c. SpoolDirectory (clt_cfg c) @ ''/.newsgroups'')) (\<lambda>fn.
           if MAXPATHLEN \<le> length fn then crash
           else
             bnd (put (''215 Description follows'' @ CRLF)) (\<lambda>_.
             bnd (put (case env_read env fn of
                         None \<Rightarrow> []
                       | Some s \<Rightarrow> copy_lines \<lparr>inp = s, is_eof = False, is_fail = False\<rparr> [])) (\<lambda>_.
             reply ''.'' 0)))
         else if length args = 2 \<and> strcaseeq (args ! 1) ''overview.fmt'' then
           bnd (gets (\<lambda>c. cs_overviewfmt S (clt_world c))) (\<lambda>fmt.
           reply (''215 Order of fields in overview database'' @ CRLF @ print_overfmt fmt @ ''.'') 0)
         else usage)"

subsection \<open>New groups\<close>

definition DD2INT :: "string \<Rightarrow> int" where
  "DD2INT p = (int (of_char (p ! 0)) - 48) * 10 + (int (of_char (p ! 1)) - 48)"

text \<open>The year of a date of six digits, and of one of eight; both in years since 1900.\<close>

definition short_year :: "int \<Rightarrow> string \<Rightarrow> int" where
  "short_year now_year p =
     (let yr = now_year mod 100; y = DD2INT p
      in if yr < y then y + (now_year - yr - 100) else y + (now_year - yr))"

definition long_year :: "string \<Rightarrow> int" where
  "long_year p = DD2INT p * 100 + DD2INT (drop 2 p) - 1900"

definition newgroups_args_ok :: "string list \<Rightarrow> bool" where
  "newgroups_args_ok args \<longleftrightarrow>
     3 \<le> length args \<and> length args \<le> 5
     \<and> length (args ! 2) = 6 \<and> (\<forall>c \<in> set (args ! 2). isdigit c)
     \<and> length (args ! 1) \<in> {6, 8} \<and> (\<forall>c \<in> set (args ! 1). isdigit c)
     \<and> (4 \<le> length args \<longrightarrow> strcaseeq (args ! 3) ''gmt'' \<or> strcaseeq (args ! 3) ''utc'')"

text \<open>The time the arguments stand for, as \<open>mktime\<close> sees it. \<open>gmtime\<close> may fail: a null pointer is read.\<close>

definition newgroups_tm :: "'e cl_env_scheme \<Rightarrow> string list \<Rightarrow> ctm option" where
  "newgroups_tm env args =
     (let is_gmt = (4 \<le> length args);
          d = args ! 1; t = args ! 2;
          year = (if length d = 8 then Some (long_year d)
                  else case (if is_gmt then now_gmt env else Some (now_local env)) of
                    None \<Rightarrow> None
                  | Some now \<Rightarrow> Some (short_year (tm_year now) d));
          r = drop (length d - 4) d
      in map_option (\<lambda>y. \<lparr>tm_year = y, tm_mon = DD2INT r - 1, tm_mday = DD2INT (drop 2 r),
             tm_hour = DD2INT t, tm_min = DD2INT (drop 2 t), tm_sec = DD2INT (drop 4 t)\<rparr>) year)"

definition ns_newgroups :: "('g, 'w) cserver \<Rightarrow> 'e cl_env_scheme \<Rightarrow> string list \<Rightarrow> (('g, 'w) client_data, int) act" where
  "ns_newgroups S env args =
     (let usage = reply ''501 Syntax:  NEWGROUPS date time [GMT] [<wildmat>]'' (- 1)
      in if \<not> newgroups_args_ok args then usage
         else case newgroups_tm env args of
           None \<Rightarrow> crash
         | Some tm \<Rightarrow>
             let t0 = env_mktime env tm (if have_tzname env then env_daylight env else local_dst env);
                 lt = (if have_tzname env \<and> 4 \<le> length args then t0 - env_timezone env else t0)
             in if t0 = - 1 then usage
                else
                  bnd (try_catch (bnd (in_world (cs_active S)) (\<lambda>_. ret True)) (\<lambda>_. ret False)) (\<lambda>ok.
                  if \<not> ok then reply ''410 operation failed'' (- 1)
                  else
                    bnd (put (''231 list of new groups follows '' @ show_int lt @ CRLF)) (\<lambda>_.
                    listing (
                      bnd (in_world (cs_groups S)) (\<lambda>gds.
                      bnd (gets (\<lambda>c. ae_list (entry c))) (\<lambda>f.
                      print_groups (out_good env) (\<lambda>gd. u64_of_int lt < gi_ctime gd) f (group_line m_times) gds))))))"

section \<open>Posting\<close>

text \<open>\<open>find(\<dots>, i)\<close> of a comma, as an \<open>unsigned int\<close>.\<close>

definition find_comma :: "nat \<Rightarrow> string \<Rightarrow> nat \<Rightarrow> nat" where
  "find_comma np s i =
     (let k = i + length (takeWhile (\<lambda>c. c \<noteq> CHR '','') (drop i s))
      in u32 (if k < length s then k else np))"

text \<open>
  The groups of the \<open>Newsgroups\<close> field, one after the other: whether all are allowed. The second
  argument of \<open>substr\<close> is a length, here it is the position of the next comma.
\<close>

partial_function (option) post_allowed ::
  "nat \<Rightarrow> nfilter \<Rightarrow> string \<Rightarrow> nat \<Rightarrow> nat \<Rightarrow> bool outcome option" where
  "post_allowed np filt s i1 i2 =
     (if length s < i1 then Some Crash
      else
        case matches filt (c_str (take i2 (drop i1 s))) of
          None \<Rightarrow> Some Crash
        | Some m \<Rightarrow>
            if m \<le> 0 then Some (Ok False)
            else if i2 = np then Some (Ok True)
            else post_allowed np filt s (u32 (i2 + 1)) (find_comma np s (u32 (i2 + 1))))"

declare post_allowed.simps [code]

definition lift_loop :: "'a outcome option \<Rightarrow> ('s, 'a) act" where
  "lift_loop r s = (case r of None \<Rightarrow> (Diverge, s) | Some o' \<Rightarrow> (o', s))"

definition ns_post :: "('g, 'w) cserver \<Rightarrow> 'e cl_env_scheme \<Rightarrow> string list \<Rightarrow> (('g, 'w) client_data, int) act" where
  "ns_post S env args =
     (if length args \<noteq> 1 then reply ''501 Syntax: post'' (- 1)
      else
        bnd (put (''340 send article to be posted.'' @ CRLF)) (\<lambda>_.
        bnd (gets (\<lambda>c. read_article article_new (clt_in c))) (\<lambda>(art, is).
        bnd (upd (\<lambda>c. c\<lparr>clt_in := is\<rparr>)) (\<lambda>_.
        bnd (try_catch
               (bnd (of_outcome (getfield art ''newsgroups:'' False)) (\<lambda>ng.
                bnd (gets (\<lambda>c. ae_postTo (entry c))) (\<lambda>f.
                bnd (lift_loop (post_allowed (npos env) f ng 0 (find_comma (npos env) ng 0))) (\<lambda>ok.
                ret (if ok then None else Some (''480 authentication required'', 0))))))
               (\<lambda>e. case e of
                      InvalidArticleError _ \<Rightarrow> ret (Some (''441 invalid article'', - 1))
                    | NoSuchFieldError _ \<Rightarrow> ret (Some (''441 invalid article'', - 1))
                    | _ \<Rightarrow> throw e)) (\<lambda>refusal.
        case refusal of
          Some (msg, r) \<Rightarrow> reply msg r
        | None \<Rightarrow>
            try_catch
              (bnd (in_world (cs_post S art)) (\<lambda>_. reply ''240 Article posted'' 0))
              (\<lambda>e. case e of
                     InvalidArticleError _ \<Rightarrow> reply ''441 invalid article'' (- 1)
                   | NotAllowedError _ \<Rightarrow> reply ''440 posting not allowed'' (- 1)
                   | _ \<Rightarrow> reply ''449 operation failed'' (- 1)))))))"

section \<open>Overview\<close>

text \<open>
  The range of an argument, as two \<open>int\<close>s. \<open>None\<close>: a syntax error. An argument that starts with
  the hyphen leaves the first number as it happened to be.
\<close>

definition over_range :: "int \<Rightarrow> string \<Rightarrow> (int \<times> int) option" where
  "over_range junk a =
     (let (v, p) = (if isdigit (deref a) then strtol a else (junk, a));
          fst' = (if isdigit (deref a) then i32 v else junk)
      in if p = [] then Some (fst', fst')
         else if deref p = CHR ''-'' then
           (let q = tl p;
                (w, r) = (if isdigit (deref q) then strtol q else (- 1, q))
            in if r = [] then Some (fst', i32 w) else None)
         else None)"

text \<open>With \<open>xhdr\<close> and no range the pointer that is printed was never set.\<close>

definition ns_xover :: "('g, 'w) cserver \<Rightarrow> 'e cl_env_scheme \<Rightarrow> string list \<Rightarrow> (('g, 'w) client_data, int) act" where
  "ns_xover S env args =
     bnd (gets (\<lambda>c. (clt_groupname c, clt_nbr c))) (\<lambda>(nm, cur).
     if nm = [] then reply ''412 No newsgroup currently selected'' (- 1)
     else
       let i = (if args ! 0 = ''xhdr'' then 2 else 1);
           range = (if length args = i then Some (cur, cur)
                    else if length args = i + 1 then over_range (garbage env) (args ! i)
                    else None)
       in case range of
            None \<Rightarrow> reply ''501 Syntax: xover [range]'' (- 1)
          | Some (f, l) \<Rightarrow>
              bnd (need_group S ''411 no such news group'') (\<lambda>g.
              case g of
                Inr msg \<Rightarrow> reply msg (- 1)
              | Inl g' \<Rightarrow>
                  bnd (if i = 1 then
                         bnd (put (''224 Overview information follows'' @ CRLF)) (\<lambda>_.
                         on_stream (ng_printoverdb S g' (u32_of_int f) (u32_of_int l)))
                       else if length args = i then crash
                       else
                         bnd (put (''221 '' @ ''['' @ show_int f @ ''-'' @ show_int l @ '']'' @ CRLF)) (\<lambda>_.
                         on_stream (ng_printheaderdb S g' (args ! 1) (u32_of_int f) (u32_of_int l)))) (\<lambda>_.
                  reply ''.'' 0)))"

section \<open>The other commands\<close>

definition ns_authinfo :: "'e cl_env_scheme \<Rightarrow> string list \<Rightarrow> (('g, 'w) client_data, int) act" where
  "ns_authinfo env args =
     (let usage =
        (if 1 < length args \<and> tolower (deref (args ! 1)) = CHR ''u''
         then reply ''501 Syntax: authinfo user username'' (- 1)
         else if 1 < length args \<and> tolower (deref (args ! 1)) = CHR ''p''
         then reply ''501 Syntax: authinfo pass password'' (- 1)
         else reply ''501 Syntax: authinfo [user username|pass password]'' (- 1))
      in if length args \<noteq> 3 then usage
         else if 511 < length (args ! 2) then reply ''502 argument too long'' (- 1)
         else if strcaseeq (args ! 1) ''user'' then
           bnd (upd (\<lambda>c. c\<lparr>clt_auth_user := args ! 2\<rparr>)) (\<lambda>_. reply ''381 password please'' 0)
         else if strcaseeq (args ! 1) ''pass'' then
           bnd (gets clt_auth_user) (\<lambda>u.
           if u = [] then reply ''482 issue authinfo user first'' (- 1)
           else
             bnd (upd (\<lambda>c. c\<lparr>clt_auth_pass := args ! 2\<rparr>)) (\<lambda>_.
             bnd (on_entry (check_authentication (auth_env.truncate env) u (args ! 2))) (\<lambda>r.
             if r < 0 then
               bnd (upd (\<lambda>c. c\<lparr>clt_auth_failures := i32 (clt_auth_failures c + 1)\<rparr>)) (\<lambda>_.
               reply ''502 Bad authinfo.'' (- 1))
             else
               bnd (put (''281 OK.'' @ CRLF)) (\<lambda>_.
               bnd (upd (\<lambda>c. c\<lparr>clt_auth_state := AUTH_OK\<rparr>)) (\<lambda>_.
               bnd (upd set_client_command_table) (\<lambda>_. ret 0))))))
         else usage)"

text \<open>\<open>%04d\<close> and \<open>%02d\<close>.\<close>

definition padded :: "nat \<Rightarrow> int \<Rightarrow> string" where
  "padded w i =
     (if i < 0 then CHR ''-'' # replicate (w - 1 - length (show_nat (nat (- i)))) (CHR ''0'') @ show_nat (nat (- i))
      else replicate (w - length (show_nat (nat i))) (CHR ''0'') @ show_nat (nat i))"

definition ns_date :: "'e cl_env_scheme \<Rightarrow> string list \<Rightarrow> (('g, 'w) client_data, int) act" where
  "ns_date env args =
     (if length args \<noteq> 1 then reply ''501 Syntax: group Newsgroup'' (- 1)
      else case now_gmt env of
        None \<Rightarrow> reply ''500 gmtime failed'' (- 1)
      | Some tm \<Rightarrow>
          reply (''111 '' @ padded 4 (1900 + tm_year tm) @ padded 2 (tm_mon tm + 1) @ padded 2 (tm_mday tm)
            @ padded 2 (tm_hour tm) @ padded 2 (tm_min tm) @ padded 2 (tm_sec tm)) 0)"

definition ns_help :: "(('g, 'w) client_data, int) act" where
  "ns_help =
     bnd (gets (\<lambda>c. (clt_commands c, Admin (clt_cfg c)))) (\<lambda>(m, admin).
     bnd (put (''100 Legal commands'' @ CRLF
            @ concat (map (\<lambda>(k, d). ''  '' @ k @ '' '' @ d @ CRLF) m))) (\<lambda>_.
     reply (''Report problems to '' @ admin @ CRLF @ ''.'') 0))"

definition ns_mode :: "string list \<Rightarrow> (('g, 'w) client_data, int) act" where
  "ns_mode args =
     (if length args \<noteq> 2 \<or> \<not> strcaseeq (args ! 1) ''reader'' \<and> \<not> strcaseeq (args ! 1) ''query''
      then reply ''501 Syntax: mode (reader|query)'' (- 1)
      else reply (''200 '' @ PACKAGE @ '' '' @ VERSION @ '', accepting NNRP commands'') 0)"

definition ns_quit :: "(('g, 'w) client_data, int) act" where
  "ns_quit = reply ''205 Good bye'' 1"

definition ns_xmotd :: "(('g, 'w) client_data, int) act" where
  "ns_xmotd = reply ''500 not yet supported'' (- 1)"

text \<open>Printing the configuration may read behind a user's or password's array.\<close>

definition ns_xdebug :: "string list \<Rightarrow> (('g, 'w) client_data, int) act" where
  "ns_xdebug args =
     (if length args = 3 then
        bnd (if args ! 1 = ''dump'' \<and> args ! 2 = ''authorization'' then
               bnd (gets (\<lambda>c. show_access (entry c))) (\<lambda>s.
               put (''xxx authorization data follows'' @ CRLF @ s @ CRLF @ ''.'' @ CRLF))
             else if args ! 1 = ''dump'' \<and> args ! 2 = ''configuration'' then
               bnd (put (''xxx configuration data follows'' @ CRLF)) (\<lambda>_.
               bnd (gets (\<lambda>c. config_print (clt_cfg c))) (\<lambda>s.
               case s of None \<Rightarrow> crash | Some t \<Rightarrow> put (t @ ''.'' @ CRLF)))
             else ret ()) (\<lambda>_. ret 0)
      else if length args = 2 \<and> args ! 1 = ''help'' then
        reply (''Valid commands:'' @ CRLF @ ''xdebug dump authorization:'' @ CRLF
          @ ''xdebug dump configuration:'' @ CRLF @ ''.'') 0
      else reply ''501 Syntax: xdebug help'' (- 1))"

section \<open>Dispatch\<close>

definition call_command ::
  "('g, 'w) cserver \<Rightarrow> 'e cl_env_scheme \<Rightarrow> string list \<Rightarrow> (('g, 'w) client_data, int) act" where
  "call_command S env args =
     (let k = args ! 0
      in if k = ''authinfo'' then ns_authinfo env args
         else if k \<in> {''article'', ''head'', ''body''} then ns_article S args
         else if k = ''stat'' then ns_stat S args
         else if k = ''date'' then ns_date env args
         else if k = ''group'' then ns_group S args
         else if k = ''help'' then ns_help
         else if k \<in> {''last'', ''next''} then ns_lastnext S args
         else if k = ''list'' then ns_list S env args
         else if k = ''listgroup'' then ns_listgroup S args
         else if k = ''mode'' then ns_mode args
         else if k = ''newgroups'' then ns_newgroups S env args
         else if k \<in> {''over'', ''xhdr'', ''xover''} then ns_xover S env args
         else if k = ''post'' then ns_post S env args
         else if k = ''quit'' then ns_quit
         else ns_xdebug args)"

end
