(* ===== verification/Client_Loop.thy ===== *)
theory Client_Loop
  imports Client_Commands Choice_Ok
begin

text \<open>
  src/NewsCache.cc: how \<open>nnrpd\<close> begins a session and one round of its loop, from a line of the
  client to the answer; the states a session can reach.
\<close>

section \<open>Reading a command\<close>

text \<open>\<open>istream::getline(req, n, '\\n')\<close>.\<close>

definition ci_getline :: "nat \<Rightarrow> istream \<Rightarrow> string \<times> istream" where
  "ci_getline n is =
     (if \<not> good is then ([], is\<lparr>is_fail := True\<rparr>)
      else
        let l = takeWhile (\<lambda>c. c \<noteq> LF) (take (n - 1) (inp is));
            rest = drop (length l) (inp is)
        in case rest of
             [] \<Rightarrow> (l, is\<lparr>inp := [], is_eof := True, is_fail := (l = [])\<rparr>)
           | c # r \<Rightarrow> if c = LF then (l, is\<lparr>inp := r\<rparr>) else (l, is\<lparr>inp := rest, is_fail := True\<rparr>))"

text \<open>The line without the white space at its end, cut at white space, the first word in small letters.\<close>

function cut_words :: "string \<Rightarrow> string list" where
  "cut_words p =
     (case dropWhile isspace p of
        [] \<Rightarrow> []
      | c # q \<Rightarrow> (c # takeWhile (\<lambda>c. \<not> isspace c) q) # cut_words (dropWhile (\<lambda>c. \<not> isspace c) q))"
  by pat_completeness auto
termination
proof (relation "measure length", goal_cases)
  case (2 p c q)
  have "length (c # q) \<le> length p" using length_dropWhile_le [of isspace p] by (simp only: 2)
  moreover have "length (dropWhile (\<lambda>c. \<not> isspace c) q) \<le> length q" by (rule length_dropWhile_le)
  ultimately show ?case by simp
qed simp

declare cut_words.simps [simp del]

definition req_args :: "string \<Rightarrow> string list" where
  "req_args req =
     (case cut_words (rev (dropWhile isspace (rev (c_str req)))) of
        [] \<Rightarrow> []
      | w # ws \<Rightarrow> map tolower w # ws)"

section \<open>The beginning of a session\<close>

text \<open>The position of the client's entry in the access list.\<close>

fun client_index ::
  "(string \<Rightarrow> 32 word option) \<Rightarrow> char \<Rightarrow> access_entry list \<Rightarrow> string \<Rightarrow> 32 word \<Rightarrow> nat option" where
  "client_index aton before [] name addr = None"
| "client_index aton before (e # es) name addr =
     (if matchaddress aton before (ae_hostname e) name addr \<or> ae_hostname e = [] then Some 0
      else map_option Suc (client_index aton before es name addr))"

definition initial_auth_state :: "string list \<Rightarrow> auth_state" where
  "initial_auth_state fs =
     (let t = auth_getType fs
      in if t = ''unix'' \<and> 1 < auth_getNrOfFields fs \<or> t = ''file'' \<or> t = ''pam'' \<or> t = ''pam+file''
         then AUTH_NOT_REQUIRED
         else if t \<noteq> ''none'' then AUTH_REQUIRED else AUTH_OK)"

text \<open>
  \<open>Inl\<close>: the client is sent away with this text. The server object has been made, \<open>w\<close> is the
  world it lives in.
\<close>

definition nnrpd_start ::
  "(string \<Rightarrow> 32 word option) \<Rightarrow> char \<Rightarrow> config \<Rightarrow> string \<Rightarrow> 32 word \<Rightarrow> istream \<Rightarrow> 'w
    \<Rightarrow> string + ('g, 'w) client_data" where
  "nnrpd_start aton before cfg name addr is w =
     (let denied = Inl (''502 You have no permission to talk.  Goodbye.'' @ [LF])
      in case client_index aton before (clnts cfg) name addr of
           None \<Rightarrow> denied
         | Some i \<Rightarrow>
             if access_flags (clnts cfg ! i) = 0 then denied
             else
               let c = client_new is w cfg i;
                   c1 = set_client_command_table
                          (c\<lparr>clt_auth_state := initial_auth_state (authentication (clnts cfg ! i))\<rparr>)
               in Inr (c1\<lparr>clt_out := ''200 '' @ PACKAGE @ '' '' @ VERSION @ '', accepting NNRP commands'' @ CRLF\<rparr>))"

section \<open>One round\<close>

text \<open>What happens while the server waits for a line: the timeout, and a signal (\<open>Xsignal\<close>, -1 for none).\<close>

record round_event =
  timed_out :: bool
  xsignal :: int

datatype verdict = GoOn | Leave

definition service_line :: "string \<Rightarrow> string" where
  "service_line what = ''400 '' @ PACKAGE @ '' '' @ VERSION @ '', service '' @ what @ CRLF"

text \<open>
  After the call of a command. The check for too many failures is inside the block that
  the log style guards.
\<close>

definition after_command :: "int \<Rightarrow> (('g, 'w) client_data, verdict) act" where
  "after_command errc =
     bnd (gets (\<lambda>c. \<not> has_bit (LogStyle (clt_cfg c)) LogINN \<and> clt_auth_max_failures c \<le> clt_auth_failures c)) (\<lambda>full.
     if full then bnd (put (service_line ''discontinued (max passwords retries)'')) (\<lambda>_. ret Leave)
     else ret (if errc = 0 \<or> errc = - 1 then GoOn else Leave))"

definition run_command ::
  "('g, 'w) cserver \<Rightarrow> 'e cl_env_scheme \<Rightarrow> string list \<Rightarrow> (('g, 'w) client_data, verdict) act" where
  "run_command S env args =
     (if args = [] then ret GoOn
      else if 256 \<le> length args then bnd (reply ''500 Line too long'' 0) (\<lambda>_. ret GoOn)
      else
        bnd (gets (\<lambda>c. (clt_auth_state c, clt_commands c))) (\<lambda>(st, m).
        if st = AUTH_REQUIRED \<and> args ! 0 \<notin> {''authinfo'', ''quit'', ''help''} then
          bnd (reply (''480 Authentication required ('' @ args ! 0 @ '')'') 0) (\<lambda>_. ret GoOn)
        else if args ! 0 \<notin> fst ` set m then bnd (reply ''500 What?'' 0) (\<lambda>_. ret GoOn)
        else bnd (call_command S env args) after_command))"

definition client_round ::
  "('g, 'w) cserver \<Rightarrow> 'e cl_env_scheme \<Rightarrow> round_event \<Rightarrow> (('g, 'w) client_data, verdict) act" where
  "client_round S env ev =
     bnd (gets (\<lambda>c. ci_getline 1024 (clt_in c))) (\<lambda>(req, is).
     bnd (upd (\<lambda>c. c\<lparr>clt_in := is\<rparr>)) (\<lambda>_.
     if timed_out ev then bnd (put (service_line ''timed out!'')) (\<lambda>_. ret Leave)
     else if 0 \<le> xsignal ev then bnd (put (service_line ''discontinued'')) (\<lambda>_. ret Leave)
     else if is_eof is \<or> \<not> good is then ret Leave
     else run_command S env (req_args req)))"

text \<open>The states between two rounds.\<close>

inductive serves ::
  "('g, 'w) cserver \<Rightarrow> 'e cl_env_scheme \<Rightarrow> ('g, 'w) client_data \<Rightarrow> ('g, 'w) client_data \<Rightarrow> bool"
  for S env c0 where
  start: "serves S env c0 c0"
| round: "serves S env c0 c \<Longrightarrow> client_round S env ev c = (Ok GoOn, c') \<Longrightarrow> serves S env c0 c'"

text \<open>The state a session is in when it ends, in whatever way.\<close>

inductive ends ::
  "('g, 'w) cserver \<Rightarrow> 'e cl_env_scheme \<Rightarrow> ('g, 'w) client_data \<Rightarrow> verdict outcome \<Rightarrow> ('g, 'w) client_data \<Rightarrow> bool"
  for S env c0 where
  last: "serves S env c0 c \<Longrightarrow> client_round S env ev c = (r, c') \<Longrightarrow> r \<noteq> Ok GoOn \<Longrightarrow> ends S env c0 r c'"

end
