(* ===== verification/Auth_Ok.thy ===== *)
theory Auth_Ok
  imports Client_Auth Choice_Ok
begin

text \<open>
  When a password is accepted, what that changes, and who can never get in.
\<close>

section \<open>Who is accepted\<close>

text \<open>The kinds of authentication, and the credentials each accepts.\<close>

definition is_type :: "string list \<Rightarrow> string \<Rightarrow> bool" where
  "is_type fs t \<longleftrightarrow> auth_typeEqual fs (t @ '':'') = Some 0"

definition same_password :: "auth_env \<Rightarrow> string \<Rightarrow> string \<Rightarrow> bool" where
  "same_password env p stored \<longleftrightarrow> auto_cryptcheck env p stored = Ok False"

definition credentials_ok :: "auth_env \<Rightarrow> access_entry \<Rightarrow> string \<Rightarrow> string \<Rightarrow> bool" where
  "credentials_ok env e u p \<longleftrightarrow>
     (let fs = authentication e
      in is_type fs ''unix'' \<and> (\<exists>stored. unix_password env u = Some stored \<and> same_password env p stored)
       \<or> is_type fs ''file'' \<and> (\<exists>authfile authv. auth_getField fs 1 = Some authfile
            \<and> seekfile env (c_str authfile) u = Some authv \<and> 3 \<le> length authv
            \<and> (plain_text_passwords env \<and> p = authv ! 1 \<or> same_password env p (authv ! 1)))
       \<or> pam_auth env \<and> is_type fs ''pam+file'' \<and> env_pam env (c_str (PAMServicename e)) u p
            \<and> (\<exists>authfile authv. auth_getField fs 1 = Some authfile \<and> seekfile env (c_str authfile) u = Some authv)
       \<or> pam_auth env \<and> is_type fs ''pam'' \<and> env_pam env (c_str (PAMServicename e)) u p)"

section \<open>Outcomes\<close>

text \<open>
  \<open>grants P f e\<close>: \<open>f\<close> returns 0 only where \<open>P\<close> holds, only adds to the access flags then, and
  otherwise returns -1 and leaves the entry as it was.
\<close>

definition grants :: "bool \<Rightarrow> (access_entry, int) act \<Rightarrow> access_entry \<Rightarrow> bool" where
  "grants P f e \<longleftrightarrow>
     (\<forall>r e'. f e = (Ok r, e') \<longrightarrow>
        r = 0 \<and> P \<and> access_flags e AND access_flags e' = access_flags e \<or> r = - 1 \<and> e' = e)"

lemma grants_refuse: "grants P (ret (- 1)) e"
  by (simp add: grants_def ret_def)

lemma grants_mono: "grants P f e \<Longrightarrow> (P \<Longrightarrow> Q) \<Longrightarrow> grants Q f e"
  by (auto simp: grants_def)

lemma grants_bnd:
  assumes "\<And>a e'. f e = (Ok a, e') \<Longrightarrow> e' = e \<and> grants P (g a) e"
  shows "grants P (bnd f g) e"
  unfolding grants_def using assms by (auto elim!: bnd_OkE simp: grants_def)

lemma grants_type:
  assumes "tc = t @ '':''" and "is_type (authentication e) t \<Longrightarrow> grants P g e"
  shows "grants P (bnd (test_type tc) (\<lambda>i. if i \<noteq> 0 then ret (- 1) else g)) e"
  using assms
  by (intro grants_bnd) (auto simp: test_type_def is_type_def grants_refuse split: option.splits)

text \<open>Rights are only added.\<close>

definition grows :: "(access_entry, 'a) act \<Rightarrow> bool" where
  "grows f \<longleftrightarrow> (\<forall>e a e'. f e = (Ok a, e') \<longrightarrow> access_flags e AND access_flags e' = access_flags e)"

lemma and_trans: "a AND b = a \<Longrightarrow> b AND c = b \<Longrightarrow> a AND c = (a :: 32 word)"
  by (metis and.assoc)

lemma grows_bnd: "grows f \<Longrightarrow> (\<And>a. grows (g a)) \<Longrightarrow> grows (bnd f g)"
  unfolding grows_def using and_trans by (blast elim: bnd_OkE)

lemma grows_field: "grows (auth_field i)"
  by (simp add: grows_def auth_field_def split: option.split)

lemma grows_or:
  assumes "\<And>h e. access_flags (put h e) = access_flags e"
  shows "grows (or_field sel put i)"
  unfolding or_field_def
  by (rule grows_bnd [OF grows_field]) (simp add: grows_def assms split: option.split)

lemma grant_rights_grows: "grows (grant_rights i)"
  unfolding grant_rights_def
  by (intro grows_bnd grows_or grows_field)
     (simp_all add: grows_def upd_def modifyAccessFlags_def modify_flags_keep)

lemma grant_rights_Ok:
  "grant_rights i e = (Ok x, e') \<Longrightarrow> access_flags e AND access_flags e' = access_flags e"
  using grant_rights_grows unfolding grows_def by blast

lemma grants_granted:
  assumes "P" and "\<And>e. access_flags (f e) = access_flags e"
  shows "grants P (bnd (upd f) (\<lambda>_. bnd (grant_rights i) (\<lambda>_. ret 0))) e"
  unfolding grants_def using assms grant_rights_Ok
  by (fastforce elim!: bnd_OkE simp: upd_def ret_def)

lemma grants_granted': "P \<Longrightarrow> grants P (bnd (grant_rights i) (\<lambda>_. ret 0)) e"
  unfolding grants_def using grant_rights_Ok by (fastforce elim!: bnd_OkE simp: ret_def)

lemma grants_password:
  assumes "\<And>P. P = same_password env p stored \<Longrightarrow> (P \<Longrightarrow> grants Q g e)"
  shows "grants Q (bnd (of_outcome (auto_cryptcheck env p stored)) (\<lambda>differ. if differ then ret (- 1) else g)) e"
  using assms by (intro grants_bnd) (auto simp: of_outcome_def grants_refuse same_password_def)

lemma grants_field:
  "(\<And>a. auth_getField (authentication e) i = Some a \<Longrightarrow> grants P (g a) e) \<Longrightarrow> grants P (bnd (auth_field i) g) e"
  by (rule grants_bnd) (simp add: auth_field_def split: option.splits)

lemma grants_of: "(\<And>a. x = Ok a \<Longrightarrow> grants P (g a) e) \<Longrightarrow> grants P (bnd (of_outcome x) g) e"
  by (rule grants_bnd) (simp add: of_outcome_def)

lemma unix_grants: "grants (credentials_ok env e u p) (check_auth_unix env u p) e"
  unfolding check_auth_unix_def
proof (rule grants_type [where t = "''unix''"])
  assume t: "is_type (authentication e) ''unix''"
  show "grants (credentials_ok env e u p)
     (case unix_password env u of None \<Rightarrow> ret (- 1)
      | Some pass \<Rightarrow> bnd (of_outcome (auto_cryptcheck env p pass)) (\<lambda>differ.
          if differ then ret (- 1) else bnd (grant_rights 1) (\<lambda>_. ret 0))) e"
    using t by (auto simp: credentials_ok_def intro!: grants_refuse grants_password grants_granted' split: option.split)
qed simp

lemma file_grants: "grants (credentials_ok env e u p) (check_auth_file env u p) e"
  unfolding check_auth_file_def
proof (rule grants_type [where t = "''file''"], simp, rule grants_bnd)
  fix authfile e'
  assume t: "is_type (authentication e) ''file''" and f: "auth_field 1 e = (Ok authfile, e')"
  have f': "auth_getField (authentication e) 1 = Some authfile" "e' = e"
    using f by (simp_all add: auth_field_def split: option.splits)
  have ok: "credentials_ok env e u p" if "seekfile env (c_str authfile) u = Some authv" "3 \<le> length authv"
    "plain_text_passwords env \<and> p = authv ! 1 \<or> same_password env p (authv ! 1)" for authv
    using t f'(1) that by (auto simp: credentials_ok_def)
  show "e' = e \<and> grants (credentials_ok env e u p)
     (case seekfile env (c_str authfile) u of None \<Rightarrow> ret (- 1)
      | Some authv \<Rightarrow>
          if length authv < 3 then ret (- 1)
          else bnd (if plain_text_passwords env \<and> p = authv ! 1 then ret False
                    else of_outcome (auto_cryptcheck env p (authv ! 1))) (\<lambda>differ.
               if differ then ret (- 1)
               else bnd (upd (\<lambda>e. e\<lparr>authentication :=
                      foldl auth_appendField (auth_set (''file:'' @ authfile)) (drop 2 authv)\<rparr>)) (\<lambda>_.
                    bnd (grant_rights 2) (\<lambda>_. ret 0)))) e"
    using f'(2) ok
    by (auto intro!: grants_refuse grants_password grants_granted split: option.split)
qed

lemma pam_check: "check_pam_user_pass env u p e = (Ok r, e') \<Longrightarrow>
    e' = e \<and> (r = 0 \<longleftrightarrow> env_pam env (c_str (PAMServicename e)) u p)"
  by (auto simp: check_pam_user_pass_def act_simps elim!: bnd_OkE split: if_splits)

lemma pam_grants:
  assumes "pam_auth env"
  shows "grants (credentials_ok env e u p) (check_auth_pam env u p) e"
  unfolding check_auth_pam_def
proof (rule grants_type [where t = "''pam''"], simp, rule grants_bnd)
  fix r e'
  assume "is_type (authentication e) ''pam''" and "check_pam_user_pass env u p e = (Ok r, e')"
  then show "e' = e \<and> grants (credentials_ok env e u p) (if r \<noteq> 0 then ret (- 1) else bnd (grant_rights 1) (\<lambda>_. ret 0)) e"
    using assms by (auto dest!: pam_check simp: credentials_ok_def intro!: grants_refuse grants_granted')
qed

lemma pam_file_grants:
  assumes "pam_auth env"
  shows "grants (credentials_ok env e u p) (check_auth_pam_file env u p) e"
  unfolding check_auth_pam_file_def
proof (rule grants_type [where t = "''pam+file''"], simp, rule grants_bnd)
  fix r e'
  assume t: "is_type (authentication e) ''pam+file''" and "check_pam_user_pass env u p e = (Ok r, e')"
  then have r: "e' = e" "r = 0 \<longleftrightarrow> env_pam env (c_str (PAMServicename e)) u p" using pam_check by blast+
  have ok: "credentials_ok env e u p"
    if "r = 0" "auth_getField (authentication e) 1 = Some authfile"
      "seekfile env (c_str authfile) u = Some authv" for authfile authv
    using t r(2) assms that by (auto simp: credentials_ok_def)
  show "e' = e \<and> grants (credentials_ok env e u p)
    (if r \<noteq> 0 then ret (- 1)
     else bnd (auth_field 1) (\<lambda>authfile.
       let base = auth_set (''pam+file:'' @ authfile)
       in case seekfile env (c_str authfile) u of
         None \<Rightarrow> ret (- 1)
       | Some authv \<Rightarrow>
           let userAuth = foldl auth_appendField base (drop 1 authv);
               defAuth = (case seekfile env (c_str authfile) ''*'' of
                            None \<Rightarrow> [] | Some dv \<Rightarrow> foldl auth_appendField base (drop 1 dv))
           in bnd (of_outcome (group_auths env authfile u (env_groups env))) (\<lambda>groupAuths.
              bnd (upd (\<lambda>e. e\<lparr>authentication :=
                     foldl (auth_modify 0 2) (auth_modify 0 2 userAuth defAuth) groupAuths\<rparr>)) (\<lambda>_.
              bnd (grant_rights 2) (\<lambda>_. ret 0))))) e"
    using r(1) ok
    by (auto simp: Let_def intro!: grants_refuse grants_field grants_of grants_granted split: option.split)
qed

lemma check_grants: "grants (credentials_ok env e u p) (check_authentication env u p) e"
  unfolding check_authentication_def
  by (rule grants_bnd) (auto simp: gets_def intro!: grants_refuse unix_grants file_grants pam_grants pam_file_grants)

end
