(* ===== verification/Session_Ok.thy ===== *)
theory Session_Ok
  imports Client_Loop Auth_Ok
begin

text \<open>
  What holds of every session: which parts of the client's state a command can change, that the
  table of commands follows the client's rights, and what a client that has not given a
  password can do.
\<close>

section \<open>What a handler leaves alone\<close>

text \<open>\<open>frame p f\<close>: whatever the outcome of \<open>f\<close>, the part \<open>p\<close> of the state is as before.\<close>

definition frame :: "('s \<Rightarrow> 'x) \<Rightarrow> ('s, 'a) act \<Rightarrow> bool" where
  "frame p f \<longleftrightarrow> (\<forall>s. p (snd (f s)) = p s)"

named_theorems frame_intros \<open>structural rules of \<open>frame\<close>\<close>

lemma frameD: "frame p f \<Longrightarrow> f s = (r, s') \<Longrightarrow> p s' = p s"
  unfolding frame_def by (metis snd_conv)

lemma frame_bnd [frame_intros]:
  assumes "frame p f" and "\<And>a. frame p (g a)"
  shows "frame p (bnd f g)"
  unfolding frame_def
proof
  fix s
  obtain r s' where f: "f s = (r, s')" by fastforce
  have "p s' = p s" using frameD [OF assms(1) f] .
  then show "p (snd (bnd f g s)) = p s"
    using assms(2) by (cases r) (simp_all add: bnd_def f frame_def)
qed

lemma frame_try [frame_intros]:
  assumes "frame p f" and "\<And>e. frame p (h e)"
  shows "frame p (try_catch f h)"
  unfolding frame_def
proof
  fix s
  obtain r s' where f: "f s = (r, s')" by fastforce
  have "p s' = p s" using frameD [OF assms(1) f] .
  then show "p (snd (try_catch f h s)) = p s"
    using assms(2) by (cases r) (simp_all add: try_catch_def f frame_def)
qed

lemma frame_simple [frame_intros]:
  "frame p (ret a)" "frame p (throw e)" "frame p crash" "frame p (gets f)" "frame p (of_outcome r)"
  "frame p (lift_loop l)"
  by (simp_all add: frame_def act_simps of_outcome_def lift_loop_def split: option.split)

lemma frame_upd: "(\<And>s. p (u s) = p s) \<Longrightarrow> frame p (upd u)"
  by (simp add: frame_def upd_def)

lemma frame_check [frame_intros]: "frame p (check b e)"
  by (simp add: check_def frame_simple)

lemma frame_strcpy [frame_intros]: "frame p (strcpy_to n s)"
  by (simp add: strcpy_to_def frame_simple)

lemma frame_matches [frame_intros]: "frame p (filter_matches f g)"
  by (simp add: filter_matches_def frame_simple split: option.split)

lemma frame_if [frame_intros]: "(b \<Longrightarrow> frame p f) \<Longrightarrow> (\<not> b \<Longrightarrow> frame p g) \<Longrightarrow> frame p (if b then f else g)"
  by simp

lemma frame_option [frame_intros]:
  "frame p f \<Longrightarrow> (\<And>a. frame p (g a)) \<Longrightarrow> frame p (case r of None \<Rightarrow> f | Some a \<Rightarrow> g a)"
  by (simp split: option.split)

lemma frame_sum [frame_intros]:
  "(\<And>a. frame p (f a)) \<Longrightarrow> (\<And>a. frame p (g a)) \<Longrightarrow> frame p (case r of Inl a \<Rightarrow> f a | Inr a \<Rightarrow> g a)"
  by (simp split: sum.split)

lemma frame_prod [frame_intros]: "(\<And>a b. frame p (f a b)) \<Longrightarrow> frame p (case r of (a, b) \<Rightarrow> f a b)"
  by (simp split: prod.split)

lemma frame_Let [frame_intros]: "frame p (f r) \<Longrightarrow> frame p (let a = r in f a)"
  by simp

text \<open>The rights of a client and what else only \<open>authinfo\<close> changes.\<close>

definition account :: "('g, 'w) client_data \<Rightarrow>
    config \<times> nat \<times> (string \<times> string) list \<times> auth_state \<times> int \<times> int" where
  "account c = (clt_cfg c, clt_entry c, clt_commands c, clt_auth_state c, clt_auth_failures c, clt_auth_max_failures c)"

text \<open>What belongs to the newsgroups and the news server.\<close>

definition news :: "('g, 'w) client_data \<Rightarrow> 'w \<times> string \<times> 'g option \<times> int" where
  "news c = (clt_world c, clt_groupname c, clt_grp c, clt_nbr c)"

lemma frame_put [frame_intros]: "frame account (put s)" "frame news (put s)"
  by (simp_all add: put_def frame_def upd_def account_def news_def)

lemma frame_reply [frame_intros]: "frame account (reply s r)" "frame news (reply s r)"
  by (simp_all add: reply_def frame_intros)

lemma frame_world [frame_intros]: "frame account (in_world f)"
  by (simp add: frame_def in_world_def account_def split: prod.split)

lemma frame_stream [frame_intros]: "frame account (on_stream f)"
  by (simp add: frame_def on_stream_def account_def split: prod.split)

lemma frame_loop: "(\<And>s r. f s = Some r \<Longrightarrow> p (snd r) = p s) \<Longrightarrow> frame p (loop f)"
  by (simp add: frame_def loop_def split: option.split)

lemma frame_nserror [frame_intros]:
  assumes "\<And>x. frame p (a x)" "\<And>x. frame p (b x)" "\<And>x. frame p (c x)" "\<And>x. frame p (d x)" "\<And>x. frame p (e x)"
    "\<And>x. frame p (f x)" "\<And>x. frame p (g x)" "\<And>x. frame p (h x)" "\<And>x. frame p (i x)" "\<And>x. frame p (j x)"
    "\<And>x. frame p (k x)" "\<And>x. frame p (l x)" "\<And>x. frame p (m x)" "\<And>x y z. frame p (n x y z)"
  shows "frame p (case err of Error x \<Rightarrow> a x | SystemError x \<Rightarrow> b x | IOError x \<Rightarrow> c x | AssertionError x \<Rightarrow> d x
    | SyntaxError x \<Rightarrow> e x | NSError x \<Rightarrow> f x | NoSuchFieldError x \<Rightarrow> g x | NoSuchGroupError x \<Rightarrow> h x
    | NoSuchArticleError x \<Rightarrow> i x | DuplicateArticleError x \<Rightarrow> j x | NotAllowedError x \<Rightarrow> k x
    | PostingFailedError x \<Rightarrow> l x | InvalidArticleError x \<Rightarrow> m x | ResponseError x y z \<Rightarrow> n x y z)"
  using assms by (simp split: nserror.split)

section \<open>Every command but \<open>authinfo\<close> leaves the account alone\<close>

lemma account_upd [frame_intros]:
  "frame account (upd (\<lambda>c. c\<lparr>clt_nbr := f c\<rparr>))"
  "frame account (upd (\<lambda>c. c\<lparr>clt_grp := g c\<rparr>))"
  "frame account (upd (\<lambda>c. c\<lparr>clt_in := i c\<rparr>))"
  "frame account (upd (\<lambda>c. c\<lparr>clt_groupname := n c\<rparr>))"
  "frame account (upd (\<lambda>c. c\<lparr>clt_grp := g c, clt_stat_groups := x c, clt_stat_artingrp := y c\<rparr>))"
  by (simp_all add: frame_def upd_def account_def)

lemma selectgroup_account [frame_intros]: "frame account (selectgroup S grp)"
  unfolding selectgroup_def by (intro frame_intros)

lemma particle_account [frame_intros]: "frame account (nsh_particle cmd nbr a)"
  unfolding nsh_particle_def by (intro frame_intros)

lemma need_group_account [frame_intros]: "frame account (need_group S m)"
  unfolding need_group_def by (intro frame_intros)

lemma count_account [frame_intros]: "frame account count_article"
  by (simp add: count_article_def frame_def upd_def account_def)

lemma by_number_account [frame_intros]:
  "(\<And>g n. frame account (k g n)) \<Longrightarrow> frame account (article_by_number S args k)"
  unfolding article_by_number_def by (intro frame_intros)

lemma by_id_account [frame_intros]:
  "frame account f \<Longrightarrow> frame account k \<Longrightarrow> frame account (article_by_id f k)"
  unfolding article_by_id_def by (intro frame_intros)

lemma print_groups_account [frame_intros]: "frame account (print_groups ok new filt fmt gds)"
  by (induction gds) (auto intro!: frame_intros)

lemma listing_account [frame_intros]: "frame account f \<Longrightarrow> frame account (listing f)"
  unfolding listing_def by (intro frame_intros)

lemma handlers_account [frame_intros]:
  "frame account (ns_article S args)" "frame account (ns_stat S args)" "frame account (ns_group S args)"
  "frame account (ns_listgroup S args)" "frame account (ns_lastnext S args)"
  "frame account (ns_list S env args)" "frame account (ns_newgroups S env args)"
  "frame account (ns_post S env args)" "frame account (ns_xover S env args)"
  "frame account (ns_date env args)" "frame account ns_help" "frame account (ns_mode args)"
  "frame account ns_quit" "frame account (ns_xdebug args)"
  unfolding ns_article_def ns_stat_def ns_group_def ns_listgroup_def ns_lastnext_def ns_list_def
    ns_newgroups_def ns_post_def ns_xover_def ns_date_def ns_help_def ns_mode_def ns_quit_def ns_xdebug_def
  by (intro frame_intros)+

lemma call_account:
  "args ! 0 \<noteq> ''authinfo'' \<Longrightarrow> frame account (call_command S env args)"
  unfolding call_command_def Let_def by (simp add: frame_intros)

section \<open>The table of commands\<close>

definition read_commands :: "string set" where
  "read_commands = {''article'', ''head'', ''body'', ''stat'', ''group'', ''last'', ''listgroup'', ''next'',
     ''over'', ''xhdr'', ''xover'', ''list'', ''mode'', ''newgroups''}"

definition open_commands :: "string set" where
  "open_commands = {''authinfo'', ''date'', ''help'', ''quit''}"

text \<open>The commands of a client with the given rights.\<close>

definition allowed_commands :: "32 word \<Rightarrow> string set" where
  "allowed_commands w = open_commands
     \<union> (if has_bit w af_read then read_commands else {})
     \<union> (if has_bit w af_post then {''post''} else {})
     \<union> (if has_bit w af_debug then {''xdebug''} else {})"

lemma map_put_keys: "fst ` set (map_put k v m) = insert k (fst ` set m)"
  by (induction k v m rule: map_put.induct) auto

lemma map_erase_keys: "fst ` set (map_erase k m) = fst ` set m - {k}"
  by (auto simp: map_erase_def)

lemma foldl_put_keys:
  "fst ` set (foldl (\<lambda>m (k, v). map_put k v m) m es) = fst ` set m \<union> fst ` set es"
  by (induction es arbitrary: m) (simp_all add: map_put_keys case_prod_unfold)

lemma foldl_erase_keys: "fst ` set (foldl (\<lambda>m k. map_erase k m) m ks) = fst ` set m - set ks"
  by (induction ks arbitrary: m) (auto simp: map_erase_keys)

lemma all_commands: "fst ` set all_nrp_commands = open_commands \<union> read_commands \<union> {''post'', ''xdebug''}"
  by (simp add: all_nrp_commands_def open_commands_def read_commands_def insert_commute)

lemma disableRead_keys: "fst ` set (disableRead m) = fst ` set m - read_commands"
proof -
  have "set [''article'', ''head'', ''body'', ''stat'', ''group'', ''last'', ''listgroup'', ''next'',
      ''over'', ''xhdr'', ''xover'', ''list'', ''mode'', ''newgroups''] = read_commands"
    unfolding read_commands_def by (simp only: list.set)
  then show ?thesis unfolding disableRead_def foldl_erase_keys by (simp only:)
qed

lemma other_commands: "(open_commands \<union> {''post'', ''xdebug''}) \<inter> read_commands = {}"
  "''post'' \<notin> open_commands" "''xdebug'' \<notin> open_commands" "''post'' \<noteq> ''xdebug''"
  by (simp_all add: open_commands_def read_commands_def)

lemma set_table_keys:
  assumes "fst ` set (clt_commands c) \<subseteq> fst ` set all_nrp_commands"
  shows "fst ` set (clt_commands (set_client_command_table c)) = allowed_commands (access_flags (entry c))"
proof -
  have "fst ` set (enableAll (clt_commands c)) = open_commands \<union> read_commands \<union> {''post'', ''xdebug''}"
    using assms unfolding enableAll_def foldl_put_keys all_commands by blast
  then show ?thesis
    unfolding set_client_command_table_def Let_def allowed_commands_def
    using other_commands
    by (auto simp: disableRead_keys disablePost_def disableDebug_def map_erase_keys)
qed

definition well_tabled :: "('g, 'w) client_data \<Rightarrow> bool" where
  "well_tabled c \<longleftrightarrow> clt_entry c < length (clnts (clt_cfg c))
     \<and> fst ` set (clt_commands c) = allowed_commands (access_flags (entry c))"

lemma allowed_all: "allowed_commands w \<subseteq> fst ` set all_nrp_commands"
  by (auto simp: all_commands allowed_commands_def)

lemma entry_set_entry: "clt_entry c < length (clnts (clt_cfg c)) \<Longrightarrow> entry (set_entry e c) = e"
  by (simp add: entry_def set_entry_def)

section \<open>A password\<close>

text \<open>What \<open>authinfo\<close> can do to the account.\<close>

lemma set_entry_same: "set_entry (entry c) c = c"
  by (simp add: entry_def set_entry_def)

lemma on_entry_check:
  assumes "on_entry (check_authentication env u p) c = (Ok r, c')"
  shows "r = 0 \<and> credentials_ok env (entry c) u p \<and> c' = set_entry (snd (check_authentication env u p (entry c))) c
      \<and> fst (check_authentication env u p (entry c)) = Ok 0
    \<or> r = - 1 \<and> c' = c"
proof -
  obtain e' where k: "check_authentication env u p (entry c) = (Ok r, e')" "c' = set_entry e' c"
    using assms by (auto simp: on_entry_def split: prod.splits)
  with check_grants [of env "entry c" u p] show ?thesis
    by (auto simp: grants_def set_entry_same)
qed

text \<open>
  The account is the same, or a failure has been counted, or the password was right: the entry
  has the new rights and the table is made for them.
\<close>

definition authinfo_effect ::
  "auth_env \<Rightarrow> ('g, 'w) client_data \<Rightarrow> ('g, 'w) client_data \<Rightarrow> bool" where
  "authinfo_effect env c c' \<longleftrightarrow>
     account c' = account c
   \<or> account c' = account (c\<lparr>clt_auth_failures := i32 (clt_auth_failures c + 1)\<rparr>)
   \<or> (\<exists>u p e'. check_authentication env u p (entry c) = (Ok 0, e') \<and> credentials_ok env (entry c) u p
        \<and> account c' = account (set_client_command_table ((set_entry e' c)\<lparr>clt_auth_state := AUTH_OK\<rparr>)))"

lemma reply_Ok: "reply s n c = (Ok r, c') \<Longrightarrow> r = n \<and> account c' = account c \<and> news c' = news c"
  by (auto simp: reply_def put_def act_simps bnd_def account_def news_def)

lemma authinfo_pass:
  assumes "bnd (on_entry (check_authentication env u p)) (\<lambda>r.
             if r < 0 then
               bnd (upd (\<lambda>c. c\<lparr>clt_auth_failures := i32 (clt_auth_failures c + 1)\<rparr>)) (\<lambda>_.
               reply ''502 Bad authinfo.'' (- 1))
             else
               bnd (put (''281 OK.'' @ CRLF)) (\<lambda>_.
               bnd (upd (\<lambda>c. c\<lparr>clt_auth_state := AUTH_OK\<rparr>)) (\<lambda>_.
               bnd (upd set_client_command_table) (\<lambda>_. ret 0)))) c = (Ok r, c')"
  shows "authinfo_effect env c c' \<and> (r = 0 \<or> r = - 1)"
  using assms
proof (rule bnd_OkE)
  fix k c1
  assume k: "on_entry (check_authentication env u p) c = (Ok k, c1)"
    and rest: "(if k < 0 then
               bnd (upd (\<lambda>c. c\<lparr>clt_auth_failures := i32 (clt_auth_failures c + 1)\<rparr>)) (\<lambda>_.
               reply ''502 Bad authinfo.'' (- 1))
             else
               bnd (put (''281 OK.'' @ CRLF)) (\<lambda>_.
               bnd (upd (\<lambda>c. c\<lparr>clt_auth_state := AUTH_OK\<rparr>)) (\<lambda>_.
               bnd (upd set_client_command_table) (\<lambda>_. ret 0)))) c1 = (Ok r, c')"
  from on_entry_check [OF k] show ?thesis
  proof
    assume "k = - 1 \<and> c1 = c"
    with rest have "reply ''502 Bad authinfo.'' (- 1) (c\<lparr>clt_auth_failures := i32 (clt_auth_failures c + 1)\<rparr>) = (Ok r, c')"
      by (simp add: bnd_def upd_def)
    from reply_Ok [OF this] show ?thesis by (auto simp: authinfo_effect_def)
  next
    assume good: "k = 0 \<and> credentials_ok env (entry c) u p \<and> c1 = set_entry (snd (check_authentication env u p (entry c))) c
      \<and> fst (check_authentication env u p (entry c)) = Ok 0"
    then obtain e' where e': "check_authentication env u p (entry c) = (Ok 0, e')" by (metis prod.collapse)
    with good rest have "r = 0" "c' = set_client_command_table
        ((set_entry e' c)\<lparr>clt_out := clt_out (set_entry e' c) @ ''281 OK.'' @ CRLF, clt_auth_state := AUTH_OK\<rparr>)"
      by (simp_all add: bnd_def upd_def put_def ret_def)
    then have "r = 0" "account c' = account (set_client_command_table ((set_entry e' c)\<lparr>clt_auth_state := AUTH_OK\<rparr>))"
      by (simp_all add: account_def set_client_command_table_def entry_def Let_def)
    with e' good show ?thesis unfolding authinfo_effect_def by blast
  qed
qed

lemma same_account:
  assumes "account d = account c"
  shows "entry d = entry c"
    and "account (d\<lparr>clt_auth_failures := i32 (clt_auth_failures d + 1)\<rparr>)
      = account (c\<lparr>clt_auth_failures := i32 (clt_auth_failures c + 1)\<rparr>)"
    and "account (set_client_command_table ((set_entry e d)\<lparr>clt_auth_state := AUTH_OK\<rparr>))
      = account (set_client_command_table ((set_entry e c)\<lparr>clt_auth_state := AUTH_OK\<rparr>))"
  using assms by (simp_all add: account_def set_client_command_table_def set_entry_def entry_def Let_def)

lemma authinfo_effect_from:
  assumes "authinfo_effect env d c'" and "account d = account c"
  shows "authinfo_effect env c c'"
  using assms(1) unfolding authinfo_effect_def same_account [OF assms(2)] assms(2) .

lemma authinfo_account:
  assumes "ns_authinfo env args c = (Ok r, c')"
  shows "authinfo_effect (auth_env.truncate env) c c' \<and> (r = 0 \<or> r = - 1)"
proof -
  let ?user = "bnd (upd (\<lambda>c. c\<lparr>clt_auth_user := args ! 2\<rparr>)) (\<lambda>_. reply ''381 password please'' 0)"
  have same: "account d = account c \<Longrightarrow> authinfo_effect e c d" for d e by (simp add: authinfo_effect_def)
  consider (user) "?user c = (Ok r, c')" | (said) s n where "reply s n c = (Ok r, c')" "n = - 1"
    | (pass) "bnd (upd (\<lambda>c. c\<lparr>clt_auth_pass := args ! 2\<rparr>)) (\<lambda>_.
             bnd (on_entry (check_authentication (auth_env.truncate env) (clt_auth_user c) (args ! 2))) (\<lambda>r.
             if r < 0 then
               bnd (upd (\<lambda>c. c\<lparr>clt_auth_failures := i32 (clt_auth_failures c + 1)\<rparr>)) (\<lambda>_.
               reply ''502 Bad authinfo.'' (- 1))
             else
               bnd (put (''281 OK.'' @ CRLF)) (\<lambda>_.
               bnd (upd (\<lambda>c. c\<lparr>clt_auth_state := AUTH_OK\<rparr>)) (\<lambda>_.
               bnd (upd set_client_command_table) (\<lambda>_. ret 0))))) c = (Ok r, c')"
    using assms unfolding ns_authinfo_def Let_def
    by (auto simp: bnd_Ok [OF gets_eval] split: if_splits)
  then show ?thesis
  proof cases
    case user
    then have "reply ''381 password please'' 0 (c\<lparr>clt_auth_user := args ! 2\<rparr>) = (Ok r, c')"
      by (simp add: bnd_def upd_def)
    from reply_Ok [OF this] show ?thesis by (auto intro!: same simp: account_def)
  next
    case said
    from reply_Ok [OF said(1)] said(2) show ?thesis by (auto intro!: same)
  next
    case pass
    let ?d = "c\<lparr>clt_auth_pass := args ! 2\<rparr>"
    have "authinfo_effect (auth_env.truncate env) ?d c' \<and> (r = 0 \<or> r = - 1)"
      using pass by (intro authinfo_pass) (simp add: bnd_Ok [OF upd_eval])
    moreover have "account ?d = account c" by (simp add: account_def)
    ultimately show ?thesis using authinfo_effect_from by blast
  qed
qed

section \<open>Rounds\<close>

lemma after_command_account [frame_intros]:
  "frame account (after_command n)" "frame news (after_command n)"
  unfolding after_command_def by (intro frame_intros)+

lemma authinfo_effect_refl: "account c' = account c \<Longrightarrow> authinfo_effect env c c'"
  by (simp add: authinfo_effect_def)

lemma authinfo_effect_to: "authinfo_effect env c d \<Longrightarrow> account c' = account d \<Longrightarrow> authinfo_effect env c c'"
  by (simp add: authinfo_effect_def)

lemma call_effect:
  assumes "call_command S env args c = (Ok r, c')"
  shows "authinfo_effect (auth_env.truncate env) c c'"
proof (cases "args ! 0 = ''authinfo''")
  case True
  then have "call_command S env args = ns_authinfo env args" by (simp add: call_command_def)
  with authinfo_account assms show ?thesis by metis
next
  case False
  from frameD [OF call_account [OF False] assms] show ?thesis by (rule authinfo_effect_refl)
qed

lemma after_command_GoOn:
  assumes "after_command n c = (Ok GoOn, c')"
  shows "has_bit (LogStyle (clt_cfg c)) LogINN \<or> clt_auth_failures c < clt_auth_max_failures c"
proof (rule ccontr)
  assume "\<not> ?thesis"
  then have "after_command n c = (Ok Leave, snd (put (service_line ''discontinued (max passwords retries)'') c))"
    by (simp add: after_command_def bnd_def gets_def put_def upd_def ret_def)
  with assms show False by simp
qed

lemma run_effect:
  assumes "run_command S env args c = (Ok v, c')"
  shows "authinfo_effect (auth_env.truncate env) c c'
    \<and> (v = GoOn \<longrightarrow> account c' = account c \<or> has_bit (LogStyle (clt_cfg c')) LogINN
         \<or> clt_auth_failures c' < clt_auth_max_failures c')"
proof -
  consider (same) "account c' = account c"
    | (call) "bnd (call_command S env args) after_command c = (Ok v, c')"
    using assms unfolding run_command_def
    by (auto simp: bnd_Ok [OF gets_eval] ret_def elim!: bnd_OkE dest!: reply_Ok split: if_splits)
  then show ?thesis
  proof cases
    case same
    then show ?thesis by (simp add: authinfo_effect_refl)
  next
    case call
    then obtain n d where d: "call_command S env args c = (Ok n, d)" "after_command n d = (Ok v, c')" by (rule bnd_OkE)
    have a: "account c' = account d" using d(2) frameD [OF after_command_account(1)] by blast
    have "authinfo_effect (auth_env.truncate env) c c'" by (rule authinfo_effect_to [OF call_effect [OF d(1)] a])
    moreover have "v = GoOn \<Longrightarrow> has_bit (LogStyle (clt_cfg c')) LogINN \<or> clt_auth_failures c' < clt_auth_max_failures c'"
      using after_command_GoOn [of n d c'] d(2) a by (simp add: account_def)
    ultimately show ?thesis by blast
  qed
qed

text \<open>A round that goes on has read a line and carried it out.\<close>

lemma round_GoOn:
  assumes "client_round S env ev c = (Ok GoOn, c')"
  shows "\<exists>is args. run_command S env args (c\<lparr>clt_in := is\<rparr>) = (Ok GoOn, c')"
proof -
  obtain req "is" where g: "ci_getline 1024 (clt_in c) = (req, is)" by fastforce
  have "(if timed_out ev then bnd (put (service_line ''timed out!'')) (\<lambda>_. ret Leave)
     else if 0 \<le> xsignal ev then bnd (put (service_line ''discontinued'')) (\<lambda>_. ret Leave)
     else if is_eof is \<or> \<not> good is then ret Leave
     else run_command S env (req_args req)) (c\<lparr>clt_in := is\<rparr>) = (Ok GoOn, c')"
    using assms unfolding client_round_def bnd_Ok [OF gets_eval] g prod.case bnd_Ok [OF upd_eval] .
  then show ?thesis by (auto simp: bnd_def put_def upd_def ret_def split: if_splits)
qed

lemma account_in: "account (c\<lparr>clt_in := is\<rparr>) = account c"
  by (simp add: account_def)

lemma round_effect:
  assumes "client_round S env ev c = (Ok GoOn, c')"
  shows "authinfo_effect (auth_env.truncate env) c c'
    \<and> (account c' = account c \<or> has_bit (LogStyle (clt_cfg c')) LogINN \<or> clt_auth_failures c' < clt_auth_max_failures c')"
proof -
  obtain "is" args where r: "run_command S env args (c\<lparr>clt_in := is\<rparr>) = (Ok GoOn, c')"
    using round_GoOn [OF assms] by blast
  from run_effect [OF r] show ?thesis
    using authinfo_effect_from [OF _ account_in] by (auto simp: account_in)
qed

section \<open>Invariants of a session\<close>

lemma effect_well_tabled:
  assumes "authinfo_effect env c c'" and "well_tabled c"
  shows "well_tabled c'"
proof -
  have other: "well_tabled d" if "account d = account c''" "well_tabled c''" for c'' d
    using that by (simp add: well_tabled_def account_def entry_def)
  consider "account c' = account c" | "account c' = account (c\<lparr>clt_auth_failures := i32 (clt_auth_failures c + 1)\<rparr>)"
    | (new) e' where "account c' = account (set_client_command_table ((set_entry e' c)\<lparr>clt_auth_state := AUTH_OK\<rparr>))"
    using assms(1) unfolding authinfo_effect_def by blast
  then show ?thesis
  proof cases
    case 1
    then show ?thesis using assms(2) by (rule other)
  next
    case 2
    have "well_tabled (c\<lparr>clt_auth_failures := i32 (clt_auth_failures c + 1)\<rparr>)"
      using assms(2) by (simp add: well_tabled_def entry_def)
    with 2 show ?thesis by (rule other)
  next
    case new
    let ?d = "(set_entry e' c)\<lparr>clt_auth_state := AUTH_OK\<rparr>"
    have "fst ` set (clt_commands ?d) \<subseteq> fst ` set all_nrp_commands"
      using assms(2) allowed_all by (simp add: well_tabled_def set_entry_def)
    from set_table_keys [OF this] have "well_tabled (set_client_command_table ?d)"
      using assms(2)
      by (simp add: well_tabled_def set_client_command_table_def Let_def entry_def) (simp add: set_entry_def)
    with new show ?thesis by (rule other)
  qed
qed

lemma client_index_less: "client_index aton before es name addr = Some i \<Longrightarrow> i < length es"
  by (induction es arbitrary: i) (auto split: if_splits)

lemma client_index_client:
  "client aton before es name addr = map_option (\<lambda>i. es ! i) (client_index aton before es name addr)"
  by (induction es) (auto simp: option.map_comp comp_def)

lemma start_facts:
  assumes "nnrpd_start aton before cfg name addr is w = Inr c"
  shows "well_tabled c" and "clt_auth_failures c = 0" and "clt_auth_max_failures c = 3"
    and "config_client aton before cfg name addr = Some (entry c)"
    and "clt_auth_state c = initial_auth_state (authentication (entry c))" and "clt_cfg c = cfg"
proof -
  obtain i where i: "client_index aton before (clnts cfg) name addr = Some i"
    using assms by (auto simp: nnrpd_start_def Let_def split: option.splits)
  let ?c = "(client_new is w cfg i)\<lparr>clt_auth_state := initial_auth_state (authentication (clnts cfg ! i))\<rparr>"
  have c: "c = (set_client_command_table ?c)\<lparr>clt_out := ''200 '' @ PACKAGE @ '' '' @ VERSION @ '', accepting NNRP commands'' @ CRLF\<rparr>"
    using assms by (simp add: nnrpd_start_def i Let_def split: if_splits)
  have k: "fst ` set (clt_commands ?c) \<subseteq> fst ` set all_nrp_commands"
    by (simp add: client_new_def enableAll_def foldl_put_keys)
  have e: "entry c = clnts cfg ! i"
    by (simp add: c entry_def set_client_command_table_def Let_def client_new_def)
  have e': "entry ?c = entry c" by (simp add: e) (simp add: entry_def client_new_def)
  show "config_client aton before cfg name addr = Some (entry c)"
    by (simp add: config_client_def client_index_client i e)
  have "fst ` set (clt_commands c) = allowed_commands (access_flags (entry c))"
    using set_table_keys [OF k] unfolding e' by (simp add: c)
  moreover have "clt_entry c < length (clnts (clt_cfg c))"
    using client_index_less [OF i] by (simp add: c set_client_command_table_def Let_def client_new_def)
  ultimately show "well_tabled c" by (simp add: well_tabled_def)
  show "clt_auth_failures c = 0" "clt_auth_max_failures c = 3" "clt_cfg c = cfg"
    by (simp_all add: c set_client_command_table_def Let_def client_new_def)
  show "clt_auth_state c = initial_auth_state (authentication (entry c))"
    unfolding e by (simp add: c set_client_command_table_def Let_def client_new_def)
qed

lemma serves_well_tabled: "serves S env c0 c \<Longrightarrow> well_tabled c0 \<Longrightarrow> well_tabled c"
  by (induction rule: serves.induct) (auto dest: round_effect effect_well_tabled)

text \<open>Three wrong passwords end the session, unless the log is in the style of INN.\<close>

lemma effect_constant:
  assumes "authinfo_effect env c c'"
  shows "LogStyle (clt_cfg c') = LogStyle (clt_cfg c)" and "clt_auth_max_failures c' = clt_auth_max_failures c"
  using assms
  by (auto simp: authinfo_effect_def account_def set_client_command_table_def set_entry_def Let_def)

lemma serves_failures:
  assumes "serves S env c0 c" and "\<not> has_bit (LogStyle (clt_cfg c0)) LogINN"
    and "clt_auth_failures c0 < clt_auth_max_failures c0"
  shows "\<not> has_bit (LogStyle (clt_cfg c)) LogINN \<and> clt_auth_failures c < clt_auth_max_failures c
    \<and> clt_auth_max_failures c = clt_auth_max_failures c0"
  using assms
proof (induction rule: serves.induct)
  case (round c ev c')
  then have r: "authinfo_effect (auth_env.truncate env) c c'"
    "account c' = account c \<or> has_bit (LogStyle (clt_cfg c')) LogINN \<or> clt_auth_failures c' < clt_auth_max_failures c'"
    using round_effect by blast+
  with round effect_constant [OF r(1)] show ?case by (auto simp: account_def)
qed simp

section \<open>Clients that must give a password\<close>

lemma colon_fields_parts: "f \<in> set (colon_fields s) \<Longrightarrow> CHR '':'' \<notin> set f \<and> set f \<subseteq> set s"
proof (induction s rule: colon_fields.induct)
  case (1 p)
  show ?case
  proof (cases "dropWhile (\<lambda>c. c \<noteq> CHR '':'') p")
    case Nil
    then have "CHR '':'' \<notin> set p" by (auto simp: dropWhile_eq_Nil_conv)
    with 1(2) show ?thesis unfolding colon_fields.simps [of p] Nil by simp
  next
    case (Cons c q)
    have q: "set q \<subseteq> set p" using set_dropWhileD [of _ "\<lambda>c. c \<noteq> CHR '':''" p] unfolding Cons by auto
    have "f = takeWhile (\<lambda>c. c \<noteq> CHR '':'') p \<or> f \<in> set (colon_fields q)"
      using 1(2) unfolding colon_fields.simps [of p] Cons by simp
    then show ?thesis
    proof
      assume "f = takeWhile (\<lambda>c. c \<noteq> CHR '':'') p"
      then show ?thesis by (auto dest: set_takeWhileD)
    next
      assume "f \<in> set (colon_fields q)"
      with 1(1) [OF Cons] q show ?thesis by blast
    qed
  qed
qed

lemma colon_fields_nonempty [simp]: "colon_fields s \<noteq> []"
  by (subst colon_fields.simps) (simp split: list.split)

lemma is_type_plain:
  assumes "CHR '':'' \<notin> set f" and "NUL \<notin> set f" and "CHR '':'' \<notin> set t" and "NUL \<notin> set t"
  shows "is_type (f # fs) t \<longleftrightarrow> f = t"
proof
  assume "f = t"
  with assms show "is_type (f # fs) t" by (simp add: is_type_def auth_typeEqual_def Let_def c_str_id)
next
  assume "is_type (f # fs) t"
  then have p: "take (length f) (t @ '':'') = f" "deref (drop (length f) (t @ '':'')) \<in> {NUL, CHR '':''}"
    using assms by (simp_all add: is_type_def auth_typeEqual_def Let_def c_str_id split: if_splits)
  have l: "length f \<le> length t"
  proof (rule ccontr)
    assume "\<not> length f \<le> length t"
    then have "f = t @ '':''" using p(1) by simp
    with assms(1) show False by simp
  qed
  have "length f = length t"
  proof (rule ccontr)
    assume "length f \<noteq> length t"
    with l have lt: "length f < length t" by simp
    then have "deref (drop (length f) (t @ '':'')) = t ! length f"
      unfolding chr_at_drop by (simp add: chr_at_def nth_append)
    with p(2) assms(3,4) lt show False by (auto dest: nth_mem)
  qed
  with p(1) show "f = t" by simp
qed

text \<open>
  An entry of the access list whose authentication is demanded at once: its kind is none of those
  the code knows, or \<open>unix\<close> without fields for the rights.
\<close>

definition demands_password :: "string list \<Rightarrow> bool" where
  "demands_password fs \<longleftrightarrow> initial_auth_state fs = AUTH_REQUIRED \<and> length fs < 2 ^ 31
     \<and> (\<exists>s. NUL \<notin> set s \<and> fs = auth_set s)"

lemma demands_unix:
  assumes "demands_password fs" and "is_type fs ''unix'' \<or> is_type fs ''file'' \<or> is_type fs ''pam'' \<or> is_type fs ''pam+file''"
  shows "fs = [''unix'']"
proof -
  obtain s where s: "NUL \<notin> set s" "fs = auth_set s" using assms(1) by (auto simp: demands_password_def)
  have "fs \<noteq> []" using assms(1) by (auto simp: demands_password_def initial_auth_state_def auth_getType_def)
  then obtain f r where f: "fs = f # r" by (cases fs) auto
  then have "f \<in> set (colon_fields s)" using s(2) by (auto simp: auth_set_def split: if_splits)
  then have plain: "CHR '':'' \<notin> set f" "NUL \<notin> set f" using colon_fields_parts s(1) by blast+
  have "f = ''unix'' \<or> f = ''file'' \<or> f = ''pam'' \<or> f = ''pam+file''"
    using assms(2) unfolding f by (simp add: is_type_plain [OF plain])
  moreover have "initial_auth_state (f # r) = AUTH_REQUIRED" "length (f # r) < 2 ^ 31"
    using assms(1) unfolding f by (simp_all add: demands_password_def)
  ultimately have "f = ''unix''" "\<not> 1 < auth_getNrOfFields (f # r)"
    by (auto simp: initial_auth_state_def auth_getType_def Let_def split: if_splits)
  with \<open>length (f # r) < 2 ^ 31\<close> show ?thesis unfolding f by (cases r) (simp_all add: auth_getNrOfFields_def)
qed

lemma unix_alone:
  assumes "authentication e = [''unix'']"
  shows "fst (check_authentication env u p e) \<noteq> Ok 0"
proof
  assume "fst (check_authentication env u p e) = Ok 0"
  then obtain e' where "check_authentication env u p e = (Ok 0, e')" by (metis prod.collapse)
  moreover have "check_authentication env u p e = check_auth_unix env u p e"
    using assms by (simp add: check_authentication_def bnd_Ok [OF gets_eval] auth_getType_def strneq_def c_str_def)
  ultimately have "check_auth_unix env u p e = (Ok 0, e')" by simp
  then obtain e1 x e2 where "authentication e1 = [''unix'']" "grant_rights 1 e1 = (Ok x, e2)"
    using assms unfolding check_auth_unix_def
    by (auto elim!: bnd_OkE simp: test_type_def of_outcome_def act_simps split: option.splits if_splits)
  then show False
    by (auto elim!: bnd_OkE simp: grant_rights_def or_field_def auth_field_def auth_getField_def)
qed

lemma demands_refuses:
  assumes "demands_password (authentication e)"
  shows "fst (check_authentication env u p e) \<noteq> Ok 0"
proof
  assume ok: "fst (check_authentication env u p e) = Ok 0"
  then obtain e' where "check_authentication env u p e = (Ok 0, e')" by (metis prod.collapse)
  with check_grants [of env e u p] have "credentials_ok env e u p" by (auto simp: grants_def)
  then have "authentication e = [''unix'']"
    using demands_unix [OF assms] by (auto simp: credentials_ok_def Let_def)
  with unix_alone ok show False by blast
qed

text \<open>A client whose state demands a password reaches neither the groups nor the server.\<close>

lemma news_upd:
  "frame news (upd (\<lambda>c. c\<lparr>clt_auth_user := x\<rparr>))" "frame news (upd (\<lambda>c. c\<lparr>clt_auth_pass := x\<rparr>))"
  "frame news (upd (\<lambda>c. c\<lparr>clt_auth_failures := f c\<rparr>))" "frame news (upd (\<lambda>c. c\<lparr>clt_auth_state := st\<rparr>))"
  "frame news (upd (\<lambda>c. c\<lparr>clt_in := is\<rparr>))" "frame news (upd set_client_command_table)"
  by (simp_all add: frame_def upd_def news_def set_client_command_table_def Let_def)

lemma news_entry: "frame news (on_entry f)"
  by (simp add: frame_def on_entry_def news_def set_entry_def split: prod.split)

lemma gate_news:
  assumes "args ! 0 \<in> {''authinfo'', ''quit'', ''help''}"
  shows "frame news (call_command S env args)"
proof -
  have "frame news (ns_authinfo env args)" "frame news ns_quit" "frame news ns_help"
    unfolding ns_authinfo_def ns_quit_def ns_help_def by (intro frame_intros news_upd news_entry)+
  with assms show ?thesis by (auto simp: call_command_def)
qed

lemma gated_round:
  assumes "clt_auth_state c = AUTH_REQUIRED" and "client_round S env ev c = (r, c')"
  shows "news c' = news c"
proof -
  have run: "news (snd (run_command S env args d)) = news d" if "clt_auth_state d = AUTH_REQUIRED" for args d
  proof -
    define b where "b = (args ! 0 \<notin> fst ` set (clt_commands d))"
    have "run_command S env args d =
        (if args = [] then ret GoOn
         else if 256 \<le> length args then bnd (reply ''500 Line too long'' 0) (\<lambda>_. ret GoOn)
         else if args ! 0 \<notin> {''authinfo'', ''quit'', ''help''} then
           bnd (reply (''480 Authentication required ('' @ args ! 0 @ '')'') 0) (\<lambda>_. ret GoOn)
         else if b then bnd (reply ''500 What?'' 0) (\<lambda>_. ret GoOn)
         else bnd (call_command S env args) after_command) d" (is "_ = ?f d")
      using that by (simp add: run_command_def bnd_Ok [OF gets_eval] b_def)
    moreover have "frame news ?f" by (intro frame_intros gate_news) auto
    ultimately show ?thesis by (simp add: frame_def)
  qed
  obtain req "is" where g: "ci_getline 1024 (clt_in c) = (req, is)" by fastforce
  let ?d = "c\<lparr>clt_in := is\<rparr>"
  have "client_round S env ev c =
     (if timed_out ev then bnd (put (service_line ''timed out!'')) (\<lambda>_. ret Leave)
     else if 0 \<le> xsignal ev then bnd (put (service_line ''discontinued'')) (\<lambda>_. ret Leave)
     else if is_eof is \<or> \<not> good is then ret Leave
     else run_command S env (req_args req)) ?d"
    unfolding client_round_def bnd_Ok [OF gets_eval] g prod.case bnd_Ok [OF upd_eval] ..
  moreover have "news ?d = news c" "clt_auth_state ?d = AUTH_REQUIRED" using assms(1) by (simp_all add: news_def)
  moreover have "news (snd (bnd (put s) (\<lambda>_. ret Leave) ?d)) = news c" for s
    by (simp add: bnd_def put_def upd_def ret_def news_def)
  ultimately have "news (snd (client_round S env ev c)) = news c"
    using run [of ?d] by (simp add: ret_def)
  with assms(2) show ?thesis by simp
qed

text \<open>And it never gets out of this state.\<close>

definition locked :: "('g, 'w) client_data \<Rightarrow> bool" where
  "locked c \<longleftrightarrow> clt_auth_state c = AUTH_REQUIRED \<and> demands_password (authentication (entry c))"

lemma effect_locked:
  assumes "authinfo_effect env c c'" and "locked c"
  shows "locked c'"
proof -
  have "\<not> (\<exists>u p e'. check_authentication env u p (entry c) = (Ok 0, e'))"
    using demands_refuses assms(2) unfolding locked_def by (metis fst_conv)
  then have "clt_auth_state c' = clt_auth_state c \<and> entry c' = entry c"
    using assms(1) unfolding authinfo_effect_def by (auto simp: account_def entry_def)
  with assms(2) show ?thesis by (simp add: locked_def)
qed

lemma serves_locked: "serves S env c0 c \<Longrightarrow> locked c0 \<Longrightarrow> locked c \<and> news c = news c0"
proof (induction rule: serves.induct)
  case (round c ev c')
  then have "locked c" "news c = news c0" by blast+
  moreover have "news c' = news c" using gated_round round.hyps(2) calculation(1) by (auto simp: locked_def)
  ultimately show ?case using round_effect [OF round.hyps(2)] effect_locked by auto
qed simp

end
