(* ===== verification/Commands_Ok.thy ===== *)
theory Commands_Ok
  imports Session_Ok Match_Ok
begin

text \<open>
  What single commands do: who may select a group and how \<open>listgroup\<close> gets around it, which
  groups \<open>list\<close> shows, where \<open>next\<close> and \<open>last\<close> lead, and which articles \<open>post\<close> takes.
\<close>

lemmas run_evals = bnd_def gets_def upd_def ret_def crash_def in_world_def try_catch_def put_def reply_def
  filter_matches_def of_outcome_def

section \<open>Selecting a group\<close>

lemma group_refused:
  assumes "matches (ae_read (entry c)) g = Some m" and "m \<le> 0"
  shows "ns_group S [''group'', g] c = (Ok 0, c\<lparr>clt_out := clt_out c @ ''480 authentication required'' @ CRLF\<rparr>)"
  using assms by (simp add: ns_group_def run_evals)

lemma selectgroup_new:
  assumes "cs_groupinfo S g (clt_world c) = (Ok gi, w)" and "clt_groupname c \<noteq> g" and "clt_grp c = None"
    and "length g < MAXNEWSGROUPNAMELEN" and "NUL \<notin> set g"
  shows "selectgroup S g c = (Ok (Some gi), c\<lparr>clt_world := w,
      clt_nbr := (if gi_fst gi \<le> gi_lst gi then i32 (int (gi_fst gi)) else - 1),
      clt_stat_groups := i32 (clt_stat_groups c + 1), clt_stat_artingrp := 0, clt_groupname := g\<rparr>)"
proof -
  have g: "c_str g = g" using assms(5) by (rule c_str_id)
  show ?thesis using assms(2-4) by (simp add: selectgroup_def strcpy_to_def run_evals assms(1) g)
qed

text \<open>\<open>listgroup\<close> selects the group first and looks at the rights afterwards.\<close>

lemma listgroup_refused:
  assumes "cs_groupinfo S g (clt_world c) = (Ok gi, w)" and "clt_groupname c \<noteq> g" and "clt_grp c = None"
    and "length g < MAXNEWSGROUPNAMELEN" and "NUL \<notin> set g"
    and "matches (ae_read (entry c)) g = Some m" and "m \<le> 0"
  shows "ns_listgroup S [''listgroup'', g] c = (Ok 0, c\<lparr>clt_world := w,
      clt_nbr := (if gi_fst gi \<le> gi_lst gi then i32 (int (gi_fst gi)) else - 1),
      clt_stat_groups := i32 (clt_stat_groups c + 1), clt_stat_artingrp := 0, clt_groupname := g,
      clt_out := clt_out c @ ''480 authentication required'' @ CRLF\<rparr>)"
proof -
  have s: "selectgroup S g c = (Ok (Some gi), c\<lparr>clt_world := w,
      clt_nbr := (if gi_fst gi \<le> gi_lst gi then i32 (int (gi_fst gi)) else - 1),
      clt_stat_groups := i32 (clt_stat_groups c + 1), clt_stat_artingrp := 0, clt_groupname := g\<rparr>)" (is "_ = (_, ?d)")
    by (rule selectgroup_new [OF assms(1-5)])
  have "entry ?d = entry c" by (simp add: entry_def)
  then show ?thesis using assms(6,7) by (simp add: ns_listgroup_def run_evals s)
qed

lemma article_current:
  assumes "clt_groupname c \<noteq> []" and "clt_grp c = None" and "0 \<le> clt_nbr c"
    and "cs_getgroup S (clt_groupname c) (clt_world c) = (Ok h, w1)"
    and "ng_getarticle S h (u32_of_int (clt_nbr c)) w1 = (Ok (Some a), w2)"
    and "getfield a ''Message-ID:'' False = Ok mid"
  shows "\<exists>c'. ns_article S [''article''] c = (Ok 0, c')
    \<and> clt_out c' = clt_out c @ ''220 '' @ show_int (clt_nbr c) @ '' '' @ mid
        @ '' article retrieved - head and body follow'' @ CRLF @ write_article a True True @ ''.'' @ CRLF"
proof -
  have n: "need_group S ''411 no such newsgroup'' c = (Ok (Inl h), c\<lparr>clt_world := w1, clt_grp := Some h\<rparr>)"
    using assms(2,4) by (simp add: need_group_def run_evals)
  show ?thesis
    using assms(1,3,5,6)
    by (simp add: ns_article_def article_by_number_def nsh_particle_def count_article_def run_evals n Let_def)
qed

section \<open>Listing the groups\<close>

lemma matches_plain: "\<not> WildmatSearch f \<Longrightarrow> matches f g = Some (matchgroup (rulelist f) g)"
  by (simp add: matches_def matchgroup_def split: prod.split)

lemma filter_copy_plain: "\<not> WildmatSearch (filter_copy f)" "rulelist (filter_copy f) = rulelist f"
  by (simp_all add: filter_copy_def filter_new_def)

lemma print_groups_eval:
  assumes "\<not> WildmatSearch f"
  shows "print_groups (\<lambda>_. True) new f fmt gds c = (Ok (), c\<lparr>clt_out := clt_out c
    @ concat (map fmt (filter (\<lambda>gd. new gd \<and> 0 < matchgroup (rulelist f) (gi_name gd)) gds))\<rparr>)"
  by (induction gds arbitrary: c)
     (simp_all add: run_evals matches_plain [OF assms] check_def)

lemma list_active_eval:
  assumes "cs_active S (clt_world c) = (Ok (), w1)" and "cs_groups S w1 = (Ok gds, w2)"
    and "out_good env = (\<lambda>_. True)"
  shows "\<exists>c'. ns_list S env [''list''] c = (Ok 0, c') \<and> clt_world c' = w2
    \<and> clt_out c' = clt_out c @ ''215 List of newsgroups (Group High Low Flags) follows'' @ CRLF
        @ concat (map (\<lambda>gd. print_group gd @ CRLF)
            (filter (\<lambda>gd. 0 < matchgroup (rulelist (ae_list (entry c))) (gi_name gd)) gds))
        @ ''.'' @ CRLF"
  using assms(3)
  by (simp add: ns_list_def listing_def run_evals assms(1,2) entry_def print_groups_eval filter_copy_plain Let_def)

section \<open>Next and last\<close>

text \<open>The overview records as the group object delivers them.\<close>

definition delivers :: "('g, 'w) cserver \<Rightarrow> 'g \<Rightarrow> 'w \<Rightarrow> (nat \<Rightarrow> string) \<Rightarrow> bool" where
  "delivers S g w ov \<longleftrightarrow> (\<forall>i. ng_getover S g i w = (Ok (ov i), w))"

definition present :: "(nat \<Rightarrow> string) \<Rightarrow> nat \<Rightarrow> bool" where
  "present ov i \<longleftrightarrow> deref (ov i) \<noteq> NUL"

lemma seek_next_find:
  assumes "delivers S g w ov" and "l < 2 ^ 32 - 1" and "i < 2 ^ 32 - 1"
  shows "seek_next S g l i w = Some (Ok (map_option (\<lambda>j. (j, ov j)) (find (present ov) [i + 1..<l + 1])), w)"
  using assms(3)
proof (induction "l - i" arbitrary: i)
  case 0
  then have "u32 (i + 1) = i + 1" "l < i + 1" by simp_all
  then show ?case by (subst seek_next.simps) simp
next
  case (Suc k)
  then have u: "u32 (i + 1) = i + 1" "\<not> l < i + 1" and "[i + 1..<l + 1] = (i + 1) # [i + 1 + 1..<l + 1]"
    by (simp_all add: upt_rec)
  moreover have "seek_next S g l (i + 1) w
      = Some (Ok (map_option (\<lambda>j. (j, ov j)) (find (present ov) [i + 1 + 1..<l + 1])), w)"
    using Suc assms(2) by (intro Suc.hyps(1)) simp_all
  ultimately show ?case
    using assms(1) by (subst seek_next.simps) (simp add: delivers_def present_def)
qed

lemma seek_last_find:
  assumes "delivers S g w ov" and "0 < f"
  shows "seek_last S g f i w = Some (Ok (map_option (\<lambda>j. (j, ov j))
    (find (present ov) (rev [f..<if i = 0 then 2 ^ 32 else i]))), w)"
proof -
  have down: "0 < i \<Longrightarrow> seek_last S g f i w = Some (Ok (map_option (\<lambda>j. (j, ov j)) (find (present ov) (rev [f..<i]))), w)" for i
  proof (induction i)
    case (Suc i)
    show ?case
    proof (cases "i < f")
      case True
      then show ?thesis by (subst seek_last.simps) simp
    next
      case False
      then have "0 < i" "rev [f..<Suc i] = i # rev [f..<i]" using assms(2) by simp_all
      with Suc.IH False assms(1) show ?thesis
        by (subst seek_last.simps) (simp add: delivers_def present_def [abs_def])
    qed
  qed simp
  show ?thesis
  proof (cases "i = 0")
    case True
    have "seek_last S g f 0 w = seek_last S g f (2 ^ 32) w"
      by (subst (1 2) seek_last.simps) simp
    with True down [of "2 ^ 32"] show ?thesis by simp
  qed (use down in simp)
qed

text \<open>A group whose first number is 0 and that holds no article at all: \<open>last\<close> does not end.\<close>

lemma seek_last_endless:
  assumes "delivers S g w ov" and "\<forall>j. \<not> present ov j"
  shows "seek_last S g 0 i w = None"
proof (rule ccontr)
  assume "seek_last S g 0 i w \<noteq> None"
  then obtain y where "seek_last S g 0 i w = Some y" by blast
  then have "S = S \<and> g = g \<and> (0::nat) = 0 \<and> w = w \<longrightarrow> False"
  proof (rule seek_last.raw_induct [where P = "\<lambda>S' g' f i w' y. S' = S \<and> g' = g \<and> f = 0 \<and> w' = w \<longrightarrow> False", rotated])
    fix rec S' g' f i w' y
    assume ih: "\<And>S' g' f i w' y. rec S' g' f i w' = Some y \<Longrightarrow> S' = S \<and> g' = g \<and> f = 0 \<and> w' = w \<longrightarrow> False"
      and body: "(let i' = if i = 0 then 2 ^ 32 - 1 else i - 1
        in if i' < f then Some (Ok None, w')
           else obnd (Some (ng_getover S' g' i' w')) (\<lambda>o' w''.
             if deref o' \<noteq> NUL then Some (Ok (Some (i', o')), w'') else rec S' g' f i' w'')) = Some y"
    show "S' = S \<and> g' = g \<and> f = 0 \<and> w' = w \<longrightarrow> False"
    proof
      assume "S' = S \<and> g' = g \<and> f = 0 \<and> w' = w"
      with body assms have "rec S g 0 (if i = 0 then 2 ^ 32 - 1 else i - 1) w = Some y"
        by (simp add: delivers_def present_def Let_def)
      with ih show False by blast
    qed
  qed
  then show False by simp
qed

section \<open>Posting\<close>

lemma find_comma_less: "find_comma np s i < 2 ^ 32"
  by (simp add: find_comma_def u32_def Let_def)

text \<open>Where \<open>string::npos\<close> does not fit into an \<open>unsigned int\<close> no posting is ever allowed.\<close>

lemma post_never_allowed:
  assumes "2 ^ 32 \<le> np" and "i2 < 2 ^ 32"
  shows "post_allowed np f s i1 i2 \<noteq> Some (Ok True)"
proof
  assume "post_allowed np f s i1 i2 = Some (Ok True)"
  then have "np = np \<and> i2 < 2 ^ 32 \<longrightarrow> Ok True \<noteq> Ok True"
  proof (rule post_allowed.raw_induct [where P = "\<lambda>np' f s i1 i2 y. np' = np \<and> i2 < 2 ^ 32 \<longrightarrow> y \<noteq> Ok True", rotated])
    fix rec np' f s i1 i2 y
    assume ih: "\<And>np' f s i1 i2 y. rec np' f s i1 i2 = Some y \<Longrightarrow> np' = np \<and> i2 < 2 ^ 32 \<longrightarrow> y \<noteq> Ok True"
      and body: "(if length s < i1 then Some Crash
        else case matches f (c_str (take i2 (drop i1 s))) of
          None \<Rightarrow> Some Crash
        | Some m \<Rightarrow>
            if m \<le> 0 then Some (Ok False)
            else if i2 = np' then Some (Ok True)
            else rec np' f s (u32 (i2 + 1)) (find_comma np' s (u32 (i2 + 1)))) = Some y"
    show "np' = np \<and> i2 < 2 ^ 32 \<longrightarrow> y \<noteq> Ok True"
    proof
      assume a: "np' = np \<and> i2 < 2 ^ 32"
      with assms(1) have ne: "i2 \<noteq> np'" by simp
      have "y = Crash \<or> y = Ok False
        \<or> rec np' f s (u32 (i2 + 1)) (find_comma np' s (u32 (i2 + 1))) = Some y"
        using body unfolding if_not_P [OF ne] by (auto split: if_splits option.splits)
      then consider "y = Crash" | "y = Ok False"
        | "rec np' f s (u32 (i2 + 1)) (find_comma np' s (u32 (i2 + 1))) = Some y" by blast
      then show "y \<noteq> Ok True"
      proof cases
        case 3
        from ih [OF this] a find_comma_less show ?thesis by blast
      qed simp_all
    qed
  qed
  with assms(2) show False by simp
qed

text \<open>A single group that is allowed is looked at again and again.\<close>

lemma post_endless:
  assumes "matches f s = Some m" and "0 < m" and "CHR '','' \<notin> set s" and "NUL \<notin> set s"
    and "length s < 2 ^ 32 - 1"
  shows "post_allowed (2 ^ 64 - 1) f s 0 (find_comma (2 ^ 64 - 1) s 0) = None"
proof (rule ccontr)
  let ?np = "2 ^ 64 - 1 :: nat" and ?i2 = "2 ^ 32 - 1 :: nat"
  assume ne: "post_allowed ?np f s 0 (find_comma ?np s 0) \<noteq> None"
  have "\<forall>c \<in> set s. c \<noteq> CHR '',''" using assms(3) by blast
  then have tw: "takeWhile (\<lambda>c. c \<noteq> CHR '','') s = s" by (simp only: takeWhile_eq_all_conv)
  have n: "find_comma ?np s 0 = ?i2" unfolding find_comma_def Let_def drop_0 tw by (simp add: u32_def)
  obtain y where "post_allowed ?np f s 0 ?i2 = Some y" using ne unfolding n by blast
  then have "?np = ?np \<and> f = f \<and> s = s \<and> (0::nat) = 0 \<and> ?i2 = ?i2 \<longrightarrow> False"
  proof (rule post_allowed.raw_induct [where P = "\<lambda>np f' s' i1 i2 y.
      np = 2 ^ 64 - 1 \<and> f' = f \<and> s' = s \<and> i1 = 0 \<and> i2 = 2 ^ 32 - 1 \<longrightarrow> False", rotated])
    fix rec np f' s' i1 i2 and y :: "bool outcome"
    assume ih: "\<And>np f' s' i1 i2 y. rec np f' s' i1 i2 = Some y \<Longrightarrow>
        np = 2 ^ 64 - 1 \<and> f' = f \<and> s' = s \<and> i1 = 0 \<and> i2 = 2 ^ 32 - 1 \<longrightarrow> False"
      and body: "(if length s' < i1 then Some Crash
        else case matches f' (c_str (take i2 (drop i1 s'))) of
          None \<Rightarrow> Some Crash
        | Some m \<Rightarrow>
            if m \<le> 0 then Some (Ok False)
            else if i2 = np then Some (Ok True)
            else rec np f' s' (u32 (i2 + 1)) (find_comma np s' (u32 (i2 + 1)))) = Some y"
    show "np = 2 ^ 64 - 1 \<and> f' = f \<and> s' = s \<and> i1 = 0 \<and> i2 = 2 ^ 32 - 1 \<longrightarrow> False"
    proof
      assume a: "np = 2 ^ 64 - 1 \<and> f' = f \<and> s' = s \<and> i1 = 0 \<and> i2 = 2 ^ 32 - 1"
      have "c_str (take i2 (drop i1 s')) = s"
        using a assms(4,5) by (simp add: c_str_id)
      moreover have "u32 (i2 + 1) = 0" "i2 \<noteq> np" using a by (simp_all add: u32_def)
      ultimately have "rec ?np f s 0 (find_comma ?np s 0) = Some y"
        using body a assms(1,2) by simp
      with ih [of ?np f s 0 ?i2] n show False by simp
    qed
  qed
  then show False by simp
qed

lemma frame_bnd_val:
  assumes "frame p f" and "\<And>s a s'. f s = (Ok a, s') \<Longrightarrow> frame p (g a)"
  shows "frame p (bnd f g)"
  unfolding frame_def
proof
  fix s
  obtain r s' where f: "f s = (r, s')" by fastforce
  have same: "p s' = p s" using frameD [OF assms(1) f] .
  show "p (snd (bnd f g s)) = p s"
  proof (cases r)
    case (Ok a)
    with assms(2) f have "frame p (g a)" by blast
    with same f Ok show ?thesis by (simp add: bnd_def frame_def)
  qed (use same f in \<open>simp_all add: bnd_def\<close>)
qed

lemma world_frames:
  "frame clt_world (put s)" "frame clt_world (reply s n)" "frame clt_world (upd (\<lambda>c. c\<lparr>clt_in := is\<rparr>))"
  by (simp_all add: frame_def put_def reply_def bnd_def upd_def ret_def)

text \<open>So on such a platform \<open>post\<close> never hands an article to the server.\<close>

lemma post_world:
  fixes S :: "('g, 'w) cserver"
  assumes "2 ^ 32 \<le> npos env" and "ns_post S env args c = (r, c')"
  shows "clt_world c' = clt_world c"
proof -
  have loop: "lift_loop (post_allowed (npos env) f ng 0 (find_comma (npos env) ng 0)) s = (Ok ok, s') \<Longrightarrow> \<not> ok"
    for f ng ok and s s' :: "('g, 'w) client_data"
    using post_never_allowed [OF assms(1) find_comma_less, of f ng 0 "npos env" ng 0]
    by (auto simp: lift_loop_def split: option.splits)
  have refused: "refusal \<noteq> None"
    if "try_catch
               (bnd (of_outcome (getfield art ''newsgroups:'' False)) (\<lambda>ng.
                bnd (gets (\<lambda>c. ae_postTo (entry c))) (\<lambda>f.
                bnd (lift_loop (post_allowed (npos env) f ng 0 (find_comma (npos env) ng 0))) (\<lambda>ok.
                ret (if ok then None else Some (''480 authentication required'', 0 :: int))))))
               (\<lambda>e. case e of
                      InvalidArticleError _ \<Rightarrow> ret (Some (''441 invalid article'', - 1))
                    | NoSuchFieldError _ \<Rightarrow> ret (Some (''441 invalid article'', - 1))
                    | _ \<Rightarrow> throw e) s = (Ok refusal, s')"
    for art refusal and s s' :: "('g, 'w) client_data"
  proof -
    have "x \<noteq> None"
      if "bnd (of_outcome (getfield art ''newsgroups:'' False)) (\<lambda>ng.
                bnd (gets (\<lambda>c. ae_postTo (entry c))) (\<lambda>f.
                bnd (lift_loop (post_allowed (npos env) f ng 0 (find_comma (npos env) ng 0))) (\<lambda>ok.
                ret (if ok then None else Some (''480 authentication required'', 0 :: int))))) s = (Ok x, t)"
      for x and t :: "('g, 'w) client_data"
      using that by (auto elim!: bnd_OkE dest!: loop simp: ret_def)
    with that show ?thesis
      unfolding try_catch_def
      by (auto simp: ret_def throw_def split: prod.splits outcome.splits nserror.splits)
  qed
  have "frame clt_world (ns_post S env args :: (('g, 'w) client_data, int) act)"
    unfolding ns_post_def
    by (intro frame_if world_frames frame_bnd frame_simple frame_prod frame_bnd_val [where f = "try_catch _ _"]
        frame_try frame_nserror)
       (auto dest!: refused intro!: world_frames)
  from frameD [OF this assms(2)] show ?thesis .
qed

text \<open>Where it fits, the first and the last group are looked at as they are, but not those between.\<close>

lemma find_comma_at:
  assumes "CHR '','' \<notin> set y" and "length (x @ y) < 2 ^ 32"
  shows "find_comma np (x @ y @ CHR '','' # z) (length x) = length x + length y"
proof -
  have "\<forall>c \<in> set y. c \<noteq> CHR '',''" using assms(1) by blast
  from takeWhile_stop [OF this, of "CHR '',''" z] show ?thesis
    using assms(2) by (simp add: find_comma_def Let_def)
qed

lemma find_comma_none:
  assumes "CHR '','' \<notin> set y"
  shows "find_comma (2 ^ 32 - 1) (x @ y) (length x) = 2 ^ 32 - 1"
proof -
  have "\<forall>c \<in> set y. c \<noteq> CHR '',''" using assms by blast
  then have tw: "takeWhile (\<lambda>c. c \<noteq> CHR '','') y = y" by (simp only: takeWhile_eq_all_conv)
  have d: "drop (length x) (x @ y) = y" by simp
  show ?thesis unfolding find_comma_def Let_def d tw by simp
qed

lemma post_step:
  assumes "\<not> WildmatSearch f" and "NUL \<notin> set s" and "i1 \<le> length s" and "i2 < 2 ^ 32 - 1"
  shows "post_allowed (2 ^ 32 - 1) f s i1 i2 =
    (if 0 < matchgroup (rulelist f) (take i2 (drop i1 s))
     then post_allowed (2 ^ 32 - 1) f s (i2 + 1) (find_comma (2 ^ 32 - 1) s (i2 + 1)) else Some (Ok False))"
proof -
  have "NUL \<notin> set (take i2 (drop i1 s))" using assms(2) by (meson in_set_dropD in_set_takeD)
  then have "c_str (take i2 (drop i1 s)) = take i2 (drop i1 s)" by (rule c_str_id)
  then show ?thesis using assms by (subst post_allowed.simps) (simp add: matches_plain)
qed

lemma post_last:
  assumes "\<not> WildmatSearch f" and "NUL \<notin> set s" and "i1 \<le> length s" and "length s < 2 ^ 32 - 1"
  shows "post_allowed (2 ^ 32 - 1) f s i1 (2 ^ 32 - 1) = Some (Ok (0 < matchgroup (rulelist f) (drop i1 s)))"
proof -
  have "NUL \<notin> set (drop i1 s)" using assms(2) by (meson in_set_dropD)
  then have "c_str (drop i1 s) = drop i1 s" by (rule c_str_id)
  then show ?thesis using assms by (subst post_allowed.simps) (simp add: matches_plain)
qed

lemma post_three:
  assumes "\<not> WildmatSearch f" and "CHR '','' \<notin> set a" and "CHR '','' \<notin> set b" and "CHR '','' \<notin> set c"
    and "NUL \<notin> set (a @ b @ c)" and "length (a @ b @ c) + 3 < 2 ^ 32"
  defines "s \<equiv> a @ CHR '','' # b @ CHR '','' # c"
  shows "post_allowed (2 ^ 32 - 1) f s 0 (find_comma (2 ^ 32 - 1) s 0) =
    Some (Ok (0 < matchgroup (rulelist f) a
      \<and> 0 < matchgroup (rulelist f) (take (length a + 1 + length b) (b @ CHR '','' # c))
      \<and> 0 < matchgroup (rulelist f) c))"
proof -
  let ?k = "length a + 1 + length b"
  have z: "NUL \<notin> set s" and l: "length s < 2 ^ 32 - 1" using assms(5,6) by (auto simp: s_def)
  have f1: "find_comma (2 ^ 32 - 1) s 0 = length a"
    using find_comma_at [of a "[]" "2 ^ 32 - 1" "b @ CHR '','' # c"] assms(2,6) by (simp add: s_def)
  have f2: "find_comma (2 ^ 32 - 1) s (length a + 1) = ?k"
    using find_comma_at [of b "a @ '',''" "2 ^ 32 - 1" c] assms(3,6) by (simp add: s_def)
  have f3: "find_comma (2 ^ 32 - 1) s (?k + 1) = 2 ^ 32 - 1"
    using find_comma_none [of c "a @ CHR '','' # b @ '',''"] assms(4) by (simp add: s_def)
  have p: "take (length a) (drop 0 s) = a" "drop (length a + 1) s = b @ CHR '','' # c" "drop (?k + 1) s = c"
    by (simp_all add: s_def)
  have "post_allowed (2 ^ 32 - 1) f s 0 (length a) =
      (if 0 < matchgroup (rulelist f) a then post_allowed (2 ^ 32 - 1) f s (length a + 1) ?k else Some (Ok False))"
    using post_step [OF assms(1) z, of 0 "length a"] assms(6) unfolding p f2 by simp
  moreover have "post_allowed (2 ^ 32 - 1) f s (length a + 1) ?k =
      (if 0 < matchgroup (rulelist f) (take ?k (b @ CHR '','' # c))
       then post_allowed (2 ^ 32 - 1) f s (?k + 1) (2 ^ 32 - 1) else Some (Ok False))"
    using post_step [OF assms(1) z, of "length a + 1" ?k] assms(6) unfolding p f3 by (simp add: s_def)
  moreover have "post_allowed (2 ^ 32 - 1) f s (?k + 1) (2 ^ 32 - 1) = Some (Ok (0 < matchgroup (rulelist f) c))"
    using post_last [OF assms(1) z, of "?k + 1"] l unfolding p by (simp add: s_def)
  ultimately show ?thesis unfolding f1 by simp
qed

end
