(* ===== verification/Remote_Server.thy ===== *)
theory Remote_Server
  imports Active_DB Lexer_MP
begin

text \<open>
  NServer-0.9.1/sstream.{h,cc} and the class \<open>RServer\<close> of NServer.{h,cc}: the connection to the
  upstream news servers, the commands that are sent to them and what is made of the answers.

  The network is a parameter with a state of type \<open>'n\<close>: what binding, connecting and closing a
  socket do, and what comes back when something is sent. What has come back can be read at once;
  a connection with nothing left to read is at its end.
\<close>

section \<open>sstream\<close>

record 'n net_env =
  net_bind :: "string \<Rightarrow> 'n \<Rightarrow> bool \<times> 'n"
  net_open :: "string \<Rightarrow> string \<Rightarrow> 'n \<Rightarrow> string option \<times> 'n"
  net_say :: "string \<Rightarrow> 'n \<Rightarrow> string \<times> 'n"
  net_close :: "'n \<Rightarrow> 'n"

text \<open>\<open>badbit\<close> is \<open>is_fail\<close>.\<close>

record sstream =
  ss_in :: istream
  ss_connected :: bool

definition ss_new :: sstream where
  "ss_new = \<lparr>ss_in = \<lparr>inp = [], is_eof = False, is_fail = True\<rparr>, ss_connected = False\<rparr>"

definition ss_bad :: "sstream \<Rightarrow> sstream" where
  "ss_bad ss = ss\<lparr>ss_in := (ss_in ss)\<lparr>is_fail := True\<rparr>\<rparr>"

definition ss_disconnect :: "'n net_env \<Rightarrow> sstream \<Rightarrow> 'n \<Rightarrow> sstream \<times> 'n" where
  "ss_disconnect N ss n = (ss_bad (ss\<lparr>ss_connected := False\<rparr>), net_close N n)"

definition ss_connectTo :: "'n net_env \<Rightarrow> string \<Rightarrow> string \<Rightarrow> string \<Rightarrow> sstream \<Rightarrow> 'n \<Rightarrow> sstream \<times> 'n" where
  "ss_connectTo N nm service bind_to ss0 n0 =
     (let (ss, n) = (if ss_connected ss0 then ss_disconnect N ss0 n0 else (ss0, n0));
          (bound, n1) = (if bind_to \<noteq> [] then net_bind N bind_to n else (True, n))
      in if \<not> bound then (ss_bad ss, n1)
         else case net_open N nm service n1 of
           (None, n2) \<Rightarrow> (ss_bad ss, n2)
         | (Some greeting, n2) \<Rightarrow>
             (\<lparr>ss_in = \<lparr>inp = greeting, is_eof = False, is_fail = False\<rparr>, ss_connected = True\<rparr>, n2))"

section \<open>The object\<close>

text \<open>
  The members of \<open>NServer\<close>, \<open>LServer\<close>, \<open>RServer\<close> and \<open>CServer\<close>, which are one object. A pointer to
  an entry of the server list is its index. The clock stands still while a function runs.
  \<open>sv_pc\<close>, \<open>sv_agroup\<close> and \<open>sv_lgroup\<close> are static variables of functions, \<open>sv_hostname\<close> and
  \<open>sv_posting_host\<close> the globals \<open>nntp_hostname\<close> and \<open>nntp_posting_host\<close>; the last two members
  are the files of the article spool.
\<close>

record 'n nserver =
  sv_net :: 'n
  sv_now :: nat
  sv_usec :: nat
  sv_fmt :: overfmt
  sv_active :: nvc
  sv_list :: "mpentry list"
  sv_current :: "nat option"
  sv_group :: group_info
  sv_stream :: "sstream option"
  sv_agroup :: group_info
  sv_lgroup :: group_info
  sv_pc :: nat
  sv_ttl_active :: nat
  sv_spooldir :: string
  sv_hostname :: string
  sv_posting_host :: string
  sv_pid :: nat
  sv_spool :: "(string \<times> string) list"
  sv_bad :: "(string \<times> string) list"

text \<open>The entry of the current server; the pointer may be null.\<close>

definition current :: "('n nserver, mpentry) act" where
  "current s = (case sv_current s of
      None \<Rightarrow> (Crash, s)
    | Some i \<Rightarrow> if i < length (sv_list s) then (Ok (sv_list s ! i), s) else (Crash, s))"

definition upd_current :: "(mpentry \<Rightarrow> mpentry) \<Rightarrow> ('n nserver, unit) act" where
  "upd_current f = upd (\<lambda>s. case sv_current s of
      None \<Rightarrow> s
    | Some i \<Rightarrow> s\<lparr>sv_list := (sv_list s)[i := f (sv_list s ! i)]\<rparr>)"

definition clear_flag :: "32 word \<Rightarrow> ('n nserver, unit) act" where
  "clear_flag f = upd_current (\<lambda>e. e\<lparr>nntpflags := nntpflags e AND NOT f\<rparr>)"

section \<open>The stream\<close>

definition on_conn :: "(sstream \<Rightarrow> 'n \<Rightarrow> 'a \<times> sstream \<times> 'n) \<Rightarrow> ('n nserver, 'a) act" where
  "on_conn f s = (case sv_stream s of
      None \<Rightarrow> (Crash, s)
    | Some ss \<Rightarrow> (case f ss (sv_net s) of (a, ss', n) \<Rightarrow> (Ok a, s\<lparr>sv_stream := Some ss', sv_net := n\<rparr>)))"

definition sv_good :: "('n nserver, bool) act" where
  "sv_good = on_conn (\<lambda>ss n. (good (ss_in ss), ss, n))"

text \<open>\<open><<\<close> with \<open>flush\<close>: nothing is sent on a stream that is not good.\<close>

definition sv_write :: "'n net_env \<Rightarrow> string \<Rightarrow> ('n nserver, unit) act" where
  "sv_write N t = on_conn (\<lambda>ss n.
     if good (ss_in ss)
     then (case net_say N t n of (back, n') \<Rightarrow> ((), ss\<lparr>ss_in := (ss_in ss)\<lparr>inp := inp (ss_in ss) @ back\<rparr>\<rparr>, n'))
     else ((), ss, n))"

definition with_in :: "(istream \<Rightarrow> 'a \<times> istream) \<Rightarrow> ('n nserver, 'a) act" where
  "with_in f = on_conn (\<lambda>ss n. case f (ss_in ss) of (a, is) \<Rightarrow> (a, ss\<lparr>ss_in := is\<rparr>, n))"

definition sv_readline :: "string \<Rightarrow> bool \<Rightarrow> ('n nserver, string) act" where
  "sv_readline old keepnl = with_in (\<lambda>is. nlreadline is old keepnl)"

definition sv_connectTo :: "'n net_env \<Rightarrow> mpentry \<Rightarrow> ('n nserver, unit) act" where
  "sv_connectTo N e = on_conn (\<lambda>ss n.
     case ss_connectTo N (hostname e) (servicename e) (bindFrom e) ss n of (ss', n') \<Rightarrow> ((), ss', n'))"

text \<open>\<open>delete _pServerStream; _pServerStream = NULL\<close>.\<close>

definition sv_delete :: "'n net_env \<Rightarrow> ('n nserver, unit) act" where
  "sv_delete N = upd (\<lambda>s. case sv_stream s of
      None \<Rightarrow> s
    | Some ss \<Rightarrow> s\<lparr>sv_stream := None, sv_net := snd (ss_disconnect N ss (sv_net s))\<rparr>)"

definition disconnect :: "'n net_env \<Rightarrow> ('n nserver, unit) act" where
  "disconnect N =
     bnd (gets sv_stream) (\<lambda>st.
     if st = None then ret () else bnd (sv_write N (''quit'' @ CRLF)) (\<lambda>_. sv_delete N))"

text \<open>\<open>readxoin\<close> on a stream that has failed does not end.\<close>

definition sv_readxoin :: "('n nserver, unit) act" where
  "sv_readxoin s = (case sv_stream s of
      None \<Rightarrow> (Crash, s)
    | Some ss \<Rightarrow> (case readxoin (sv_fmt s) (ss_in ss) of
          None \<Rightarrow> (Diverge, s)
        | Some (fmt, is) \<Rightarrow> (Ok (), s\<lparr>sv_fmt := fmt, sv_stream := Some (ss\<lparr>ss_in := is\<rparr>)\<rparr>)))"

definition standard_overview :: string where
  "standard_overview = concat (map (\<lambda>n. n @ [LF])
     [''Subject:'', ''From:'', ''Date:'', ''Message-ID:'', ''References:'', ''Bytes:'', ''Lines:''])"

definition sv_readxoin_standard :: "('n nserver, unit) act" where
  "sv_readxoin_standard s =
     (case readxoin (sv_fmt s) \<lparr>inp = standard_overview, is_eof = False, is_fail = False\<rparr> of
        None \<Rightarrow> (Diverge, s)
      | Some (fmt, _) \<Rightarrow> (Ok (), s\<lparr>sv_fmt := fmt\<rparr>))"

section \<open>Answers\<close>

definition is_code :: "string \<Rightarrow> string \<Rightarrow> bool" where
  "is_code resp code \<longleftrightarrow> take (length code) (c_str resp) = code"

definition greeting_ok :: "string \<Rightarrow> bool" where
  "greeting_ok grt \<longleftrightarrow> chr_at grt 0 = CHR ''2'' \<and> chr_at grt 1 = CHR ''0'' \<and> chr_at grt 2 \<in> {CHR ''0'', CHR ''1''}"

section \<open>The server of a group\<close>

text \<open>As \<open>best_entry\<close>, with the index of the entry.\<close>

fun best_index :: "(mpentry \<Rightarrow> string) \<Rightarrow> string \<Rightarrow> mpentry list \<Rightarrow> nat \<Rightarrow> nat option \<Rightarrow> int \<Rightarrow> nat option" where
  "best_index sel grp [] i bm bmlen = bm"
| "best_index sel grp (e # es) i bm bmlen =
     (let clen = matchgroup (sel e) grp
      in if bmlen < clen then best_index sel grp es (i + 1) (Some i) clen
         else best_index sel grp es (i + 1) bm bmlen)"

definition pick_server :: "(mpentry \<Rightarrow> string) \<Rightarrow> mpentry list \<Rightarrow> string \<Rightarrow> nat option" where
  "pick_server sel es grp =
     (case best_index sel grp es 0 None 0 of
        None \<Rightarrow> None
      | Some i \<Rightarrow> if hostname (es ! i) \<noteq> [] then Some i else None)"

definition setserver :: "'n net_env \<Rightarrow> nat \<Rightarrow> ('n nserver, unit) act" where
  "setserver N i =
     bnd (gets sv_current) (\<lambda>c.
     if c = Some i then ret ()
     else
       bnd (if c \<noteq> None then disconnect N else ret ()) (\<lambda>_.
       upd (\<lambda>s. s\<lparr>sv_group := gi_init (sv_group s), sv_current := Some i\<rparr>)))"

section \<open>The current group\<close>

definition in_active :: "(nvc, 'a) act \<Rightarrow> ('n nserver, 'a) act" where
  "in_active f s = (case f (sv_active s) of (r, db) \<Rightarrow> (r, s\<lparr>sv_active := db\<rparr>))"

text \<open>\<open>_ActiveDB->get(name, &_CurrentGroup)\<close>.\<close>

definition fetch_group :: "string \<Rightarrow> ('n nserver, bool) act" where
  "fetch_group name =
     bnd (gets sv_group) (\<lambda>g.
     bnd (in_active (adb_get name g)) (\<lambda>r.
     case r of
       None \<Rightarrow> ret False
     | Some gi \<Rightarrow> bnd (upd (\<lambda>s. s\<lparr>sv_group := gi\<rparr>)) (\<lambda>_. ret True)))"

definition store_group :: "string \<Rightarrow> int \<Rightarrow> int \<Rightarrow> int \<Rightarrow> ('n nserver, unit) act" where
  "store_group name f l n =
     bnd (gets (\<lambda>s. (sv_group s, sv_now s))) (\<lambda>(g, now).
     bnd (of_outcome (gi_set now g name (i32 f) (i32 l) (i32 n) (CHR ''y''))) (\<lambda>g1.
     bnd (upd (\<lambda>s. s\<lparr>sv_group := g1\<rparr>)) (\<lambda>_.
     bnd (in_active (adb_set now False g1)) (\<lambda>g2.
     upd (\<lambda>s. s\<lparr>sv_group := g2\<rparr>)))))"

text \<open>
  The answer to \<open>group\<close>. The pointer behind the third number is compared with the whole answer,
  not with the place where the number should have been.
\<close>

definition take_numbers :: "string \<Rightarrow> string \<Rightarrow> ('n nserver, unit) act" where
  "take_numbers name resp =
     (let (nbr, p1) = strtol (drop 3 (c_str resp));
          (f, p2) = strtol p1;
          (l, ep) = strtol p2
      in if ep = resp
         then bnd (fetch_group name) (\<lambda>found. if found then ret () else store_group name 0 0 0)
         else bnd (fetch_group name) (\<lambda>_. store_group name f l nbr))"

section \<open>Sending a command\<close>

text \<open>
  \<open>connect\<close> sends commands with \<open>issue\<close>, and \<open>issue\<close> connects again when the connection is lost: each
  is first written down with the other one as an argument. The number of retries is an
  \<open>int\<close> that is counted down to zero; a negative one is counted down through $-2^{31}$.
\<close>

definition tries :: "int \<Rightarrow> nat" where
  "tries i = (if u32_of_int i = 0 then 2 ^ 32 else u32_of_int i)"

definition lost :: "string \<Rightarrow> bool" where
  "lost resp \<longleftrightarrow> is_code resp ''400'' \<or> is_code resp ''503''"

text \<open>An answer that is too short where none was expected: a \<open>string\<close> is made of the null pointer.\<close>

definition check_answer :: "string \<Rightarrow> string option \<Rightarrow> string \<Rightarrow> ('n nserver, string) act" where
  "check_answer cmd expresp resp =
     (case expresp of
        None \<Rightarrow> if length resp < 3 then crash else ret resp
      | Some e \<Rightarrow> if length resp < 3 \<or> \<not> is_code resp e then throw (ResponseError cmd e resp) else ret resp)"

fun issue_loop :: "'n net_env \<Rightarrow> ('n nserver, unit) act \<Rightarrow> string \<Rightarrow> string option \<Rightarrow> string \<Rightarrow> nat
    \<Rightarrow> ('n nserver, string) act"
and reconnect :: "'n net_env \<Rightarrow> ('n nserver, unit) act \<Rightarrow> string \<Rightarrow> string option \<Rightarrow> string \<Rightarrow> nat
    \<Rightarrow> ('n nserver, string) act" where
  "issue_loop N conn cmd expresp resp i =
     bnd (sv_write N cmd) (\<lambda>_.
     bnd (sv_readline resp False) (\<lambda>resp'.
     bnd sv_good (\<lambda>ok.
     if \<not> ok \<or> lost resp' then reconnect N conn cmd expresp resp' i
     else check_answer cmd expresp resp')))"
| "reconnect N conn cmd expresp resp 0 = crash"
| "reconnect N conn cmd expresp resp (Suc i) =
     (if i = 0 then throw (SystemError ''maximum number of retries reached'')
      else
        bnd (disconnect N) (\<lambda>_.
        bnd (try_catch (bnd conn (\<lambda>_. ret True))
               (\<lambda>e. if is_system_error e then ret False else throw e)) (\<lambda>connected.
        if connected then issue_loop N conn cmd expresp resp i
        else reconnect N conn cmd expresp resp i)))"

definition issue_with :: "'n net_env \<Rightarrow> ('n nserver, unit) act \<Rightarrow> string \<Rightarrow> string option \<Rightarrow> ('n nserver, string) act" where
  "issue_with N conn cmd expresp =
     bnd current (\<lambda>e.
     bnd (gets sv_stream) (\<lambda>st.
     bnd (if st = None then conn else ret ()) (\<lambda>_.
     issue_loop N conn cmd expresp [] (tries (retries e + 1)))))"

section \<open>Selecting a group\<close>

definition selectgroup_with :: "'n net_env \<Rightarrow> (string \<Rightarrow> string option \<Rightarrow> ('n nserver, string) act)
    \<Rightarrow> string \<Rightarrow> bool \<Rightarrow> ('n nserver, unit) act" where
  "selectgroup_with N iss name force =
     (if 512 < length name
      then throw (AssertionError ''RServer::selectgroup: name of newsgroup too long'')
      else
        bnd (gets (\<lambda>s. (gi_name (sv_group s), pick_server rd_groups (sv_list s) name))) (\<lambda>(g, srv).
        if \<not> force \<and> g = name then ret ()
        else case srv of
          None \<Rightarrow> throw (NoSuchGroupError ''no such group'')
        | Some k \<Rightarrow>
            bnd (setserver N k) (\<lambda>_.
            bnd (iss (''group '' @ name @ CRLF) None) (\<lambda>resp.
            if \<not> is_code resp ''211'' then
              (if is_code resp ''411'' then throw (NoSuchGroupError ''no such group'')
               else throw (ResponseError (''group '' @ name @ CRLF) ''211'' resp))
            else take_numbers name resp))))"

section \<open>Connecting\<close>

definition login :: "'n net_env \<Rightarrow> (string \<Rightarrow> string option \<Rightarrow> ('n nserver, string) act) \<Rightarrow> ('n nserver, unit) act" where
  "login N iss =
     bnd current (\<lambda>e.
     if user e = [] then ret ()
     else
       bnd (iss (''authinfo user '' @ user e @ CRLF) None) (\<lambda>resp.
       bnd (if chr_at resp 0 = CHR ''3''
            then bnd current (\<lambda>e. iss (''authinfo pass '' @ passwd e @ CRLF) None)
            else ret resp) (\<lambda>resp.
       if chr_at resp 0 \<noteq> CHR ''2''
       then bnd (sv_delete N) (\<lambda>_. throw (ResponseError ''_authenticate_'' ''[23]..'' resp))
       else ret ())))"

text \<open>The last greeting; \<open>None\<close>: the connection is lost.\<close>

definition mode_reader :: "(string \<Rightarrow> string option \<Rightarrow> ('n nserver, string) act) \<Rightarrow> string
    \<Rightarrow> ('n nserver, string option) act" where
  "mode_reader iss grt =
     bnd current (\<lambda>e.
     if \<not> has_bit (nntpflags e) F_MODE_READER then ret (Some grt)
     else
       bnd (iss (''mode reader'' @ CRLF) None) (\<lambda>resp.
       bnd sv_good (\<lambda>ok.
       if \<not> ok then ret None
       else bnd (if greeting_ok resp then ret () else clear_flag F_MODE_READER) (\<lambda>_. ret (Some resp)))))"

definition ask_overview :: "(string \<Rightarrow> string option \<Rightarrow> ('n nserver, string) act) \<Rightarrow> ('n nserver, unit) act" where
  "ask_overview iss =
     bnd current (\<lambda>e.
     if has_bit (nntpflags e) F_LIST_OVERVIEW_FMT then
       bnd (iss (''list overview.fmt'' @ CRLF) (Some ''215'')) (\<lambda>resp.
       bnd sv_readxoin (\<lambda>_.
       if \<not> (chr_at resp 0 = CHR ''2'' \<and> chr_at resp 1 = CHR ''1'' \<and> chr_at resp 2 = CHR ''5'')
       then bnd (clear_flag F_LIST_OVERVIEW_FMT) (\<lambda>_. sv_readxoin_standard)
       else ret ()))
     else sv_readxoin_standard)"

text \<open>What is done after the greeting; \<open>False\<close>: the connection is lost.\<close>

definition greeted :: "'n net_env \<Rightarrow> (string \<Rightarrow> string option \<Rightarrow> ('n nserver, string) act) \<Rightarrow> string
    \<Rightarrow> ('n nserver, bool) act" where
  "greeted N iss grt =
     bnd (login N iss) (\<lambda>_.
     bnd (mode_reader iss grt) (\<lambda>r.
     case r of
       None \<Rightarrow> ret False
     | Some grt' \<Rightarrow>
         bnd (if chr_at grt' 2 = CHR ''1'' then clear_flag F_POST else ret ()) (\<lambda>_.
         bnd (ask_overview iss) (\<lambda>_.
         bnd (gets (\<lambda>s. gi_name (sv_group s))) (\<lambda>g.
         bnd (if g \<noteq> [] then selectgroup_with N iss g True else ret ()) (\<lambda>_. ret True))))))"

definition connection_failed :: "mpentry \<Rightarrow> nserror" where
  "connection_failed e = SystemError (''Connection to '' @ hostname e @ '':'' @ servicename e @ '' failed'')"

text \<open>One round of the loop; \<open>again\<close> is what is done when the connection is lost in it.\<close>

definition connect_once :: "'n net_env \<Rightarrow> (string \<Rightarrow> string option \<Rightarrow> ('n nserver, string) act)
    \<Rightarrow> (mpentry \<Rightarrow> ('n nserver, unit) act) \<Rightarrow> ('n nserver, unit) act" where
  "connect_once N iss again =
     bnd current (\<lambda>e.
     bnd (sv_connectTo N e) (\<lambda>_.
     bnd sv_good (\<lambda>ok.
     if \<not> ok then
       bnd (sv_delete N) (\<lambda>_. throw (SystemError ''RServer::connect: cannot connect to news server''))
     else
       bnd (sv_readline [] False) (\<lambda>grt.
       bnd sv_good (\<lambda>ok.
       if \<not> ok then again e
       else if \<not> greeting_ok grt then
         bnd (sv_delete N) (\<lambda>_. throw (ResponseError ''_connect_'' ''20[01]'' grt))
       else bnd (greeted N iss grt) (\<lambda>done'. if done' then ret () else again e))))))"

primrec connect_loop :: "'n net_env \<Rightarrow> (string \<Rightarrow> string option \<Rightarrow> ('n nserver, string) act) \<Rightarrow> nat
    \<Rightarrow> ('n nserver, unit) act" where
  "connect_loop N iss 0 = connect_once N iss (\<lambda>e. throw (connection_failed e))"
| "connect_loop N iss (Suc i) = connect_once N iss (\<lambda>_. connect_loop N iss i)"

definition connect_with :: "'n net_env \<Rightarrow> (string \<Rightarrow> string option \<Rightarrow> ('n nserver, string) act) \<Rightarrow> ('n nserver, unit) act" where
  "connect_with N iss =
     bnd (gets sv_stream) (\<lambda>st.
     if st \<noteq> None then ret ()
     else
       bnd current (\<lambda>e.
       bnd (upd (\<lambda>s. s\<lparr>sv_stream := Some ss_new\<rparr>)) (\<lambda>_.
       connect_loop N iss (u32_of_int (retries e)))))"

text \<open>
  The knot: the number bounds how often \<open>issue\<close> and \<open>connect\<close> may call each other, one inside the
  other; with none left the run has not come to an end.
\<close>

primrec issue :: "nat \<Rightarrow> 'n net_env \<Rightarrow> string \<Rightarrow> string option \<Rightarrow> ('n nserver, string) act" where
  "issue 0 N = (\<lambda>cmd expresp s. (Diverge, s))"
| "issue (Suc n) N = issue_with N (connect_with N (issue n N))"

definition connect :: "nat \<Rightarrow> 'n net_env \<Rightarrow> ('n nserver, unit) act" where
  "connect n N = connect_with N (issue n N)"

definition rs_selectgroup :: "nat \<Rightarrow> 'n net_env \<Rightarrow> string \<Rightarrow> bool \<Rightarrow> ('n nserver, unit) act" where
  "rs_selectgroup n N = selectgroup_with N (issue n N)"

section \<open>The list of groups\<close>

text \<open>\<open>_ActiveDB->read(*_pServerStream, ...)\<close>.\<close>

definition read_active :: "string option \<Rightarrow> bool \<Rightarrow> ('n nserver, unit) act" where
  "read_active filt ro s = (case sv_stream s of
      None \<Rightarrow> (Crash, s)
    | Some ss \<Rightarrow>
        (case adb_read (sv_now s) (ss_in ss) filt ro False (sv_active s) of
           (Ok is, db) \<Rightarrow> (Ok (), s\<lparr>sv_active := db, sv_stream := Some (ss\<lparr>ss_in := is\<rparr>)\<rparr>)
         | (Throw e, db) \<Rightarrow> (Throw e, s\<lparr>sv_active := db\<rparr>)
         | (Crash, db) \<Rightarrow> (Crash, s\<lparr>sv_active := db\<rparr>)
         | (Diverge, db) \<Rightarrow> (Diverge, s\<lparr>sv_active := db\<rparr>)))"

text \<open>The parts between the commas; a part is copied into an array of 513 characters.\<close>

function comma_parts :: "string \<Rightarrow> string list" where
  "comma_parts p =
     (case dropWhile (\<lambda>c. c \<noteq> CHR '','') p of
        [] \<Rightarrow> [p]
      | _ # q \<Rightarrow> takeWhile (\<lambda>c. c \<noteq> CHR '','') p # comma_parts q)"
  by pat_completeness auto
termination
proof (relation "measure length", goal_cases)
  case (2 p x q)
  from length_dropWhile_le [of "\<lambda>c. c \<noteq> CHR '',''" p] show ?case by (simp add: 2)
qed simp

declare comma_parts.simps [simp del]

fun list_active_parts :: "nat \<Rightarrow> 'n net_env \<Rightarrow> nat \<Rightarrow> bool \<Rightarrow> string list \<Rightarrow> ('n nserver, unit) act" where
  "list_active_parts n N i ro [] = ret ()"
| "list_active_parts n N i ro (g # gs) =
     (if 512 < length g then crash
      else
        bnd (issue n N (''list active '' @ g @ CRLF) (Some ''215'')) (\<lambda>_.
        bnd (gets sv_list) (\<lambda>es.
        bnd (read_active (makeFilter es i g) ro) (\<lambda>_. list_active_parts n N i ro gs))))"

text \<open>
  One server of the list. Whether its groups are marked as read-only is decided before the
  connection tells whether it takes postings.
\<close>

definition active_from :: "nat \<Rightarrow> 'n net_env \<Rightarrow> nat \<Rightarrow> ('n nserver, unit) act" where
  "active_from n N i =
     bnd (setserver N i) (\<lambda>_.
     bnd current (\<lambda>e.
     if has_bit (flags e) (F_OFFLINE OR F_SEMIOFFLINE) then ret ()
     else
       let ro = (\<not> (has_bit (nntpflags e) F_POST \<or> \<not> has_bit (flags e) F_SETPOSTFLAG))
       in bnd (connect n N) (\<lambda>_.
          bnd current (\<lambda>e1.
          bnd (if has_bit (nntpflags e1) F_LIST_ACTIVE_WILDMAT then
                 try_catch (list_active_parts n N i ro (comma_parts (c_str (rd_groups e1))))
                   (\<lambda>err. case err of
                       ResponseError _ _ _ \<Rightarrow> clear_flag F_LIST_ACTIVE_WILDMAT
                     | _ \<Rightarrow> throw err)
               else ret ()) (\<lambda>_.
          bnd current (\<lambda>e2.
          if has_bit (nntpflags e2) F_LIST_ACTIVE_WILDMAT then ret ()
          else
            bnd (issue n N (''list active'' @ CRLF) (Some ''215'')) (\<lambda>_.
            bnd (gets sv_list) (\<lambda>es. read_active (makeFilter es i ''*'') ro))))))))"

fun active_loop :: "nat \<Rightarrow> 'n net_env \<Rightarrow> nat list \<Rightarrow> ('n nserver, unit) act" where
  "active_loop n N [] = ret ()"
| "active_loop n N (i # is) =
     bnd (gets (\<lambda>s. hostname (sv_list s ! i))) (\<lambda>h.
     bnd (if h = [] then ret () else try_catch (active_from n N i) (\<lambda>_. ret ())) (\<lambda>_.
     active_loop n N is))"

definition rs_active :: "nat \<Rightarrow> 'n net_env \<Rightarrow> ('n nserver, unit) act" where
  "rs_active n N = bnd (gets (\<lambda>s. length (sv_list s))) (\<lambda>k. active_loop n N [0..<k])"

section \<open>The articles of a group\<close>

text \<open>\<open>listgroup\<close>: the list of flags, and whether the list was complete.\<close>

function listgroup_lines :: "istream \<Rightarrow> string \<Rightarrow> nat \<Rightarrow> nat \<Rightarrow> bool list \<Rightarrow> bool list \<times> bool \<times> istream" where
  "listgroup_lines is line f l lst =
     (let (line', is') = nlreadline is line True
      in if line' = ''.'' @ CRLF then (lst, True, is')
         else if \<not> good is' then (lst, False, is')
         else
           let i = u32_of_int (atoi (c_str line'))
           in listgroup_lines is' line' f l (if f \<le> i \<and> i \<le> l then lst[i - f := True] else lst))"
  by pat_completeness auto
termination
proof (relation "measure (\<lambda>(is, s, f, l, lst). length (inp is))", goal_cases)
  case (2 i line f l lst x line' i' nr)
  then obtain l0 where g: "getline i line = (l0, i')"
    by (auto simp: nlreadline_def split: prod.splits)
  have "good i'" using 2 by simp
  moreover from this have "good i" using g by (auto simp: getline_def good_def split: if_splits)
  ultimately show ?case using getline_shorter [OF _ g] by simp
qed simp

declare listgroup_lines.simps [simp del]

definition rs_listgroup :: "nat \<Rightarrow> 'n net_env \<Rightarrow> string \<Rightarrow> bool list \<Rightarrow> nat \<Rightarrow> nat \<Rightarrow> ('n nserver, bool list) act" where
  "rs_listgroup n N gname lst f l =
     bnd (rs_selectgroup n N gname False) (\<lambda>_.
     bnd (issue n N (''listgroup'' @ CRLF) None) (\<lambda>resp.
     if \<not> is_code resp ''211'' then throw (ResponseError (''listgroup'' @ CRLF) ''211'' resp)
     else
       bnd (with_in (\<lambda>is. case listgroup_lines is [] f l lst of (lst', ok, is') \<Rightarrow> ((lst', ok), is'))) (\<lambda>(lst', ok).
       if ok then ret lst' else throw (SystemError ''error while reading from server''))))"

text \<open>
  \<open>overviewdb\<close>: \<open>readover\<close> is the group's \<open>readoverdb\<close>, which reads from the connection. A server
  that does not know \<open>over\<close> is asked with \<open>xover\<close>, one that knows neither is given up.
\<close>

definition read_over :: "(overfmt \<Rightarrow> istream \<Rightarrow> ('g, istream) act) \<Rightarrow> ('n nserver \<times> 'g, unit) act" where
  "read_over readover =
     bnd (gets (\<lambda>sg. (sv_stream (fst sg), sv_fmt (fst sg)))) (\<lambda>(st, fmt).
     case st of
       None \<Rightarrow> crash
     | Some ss \<Rightarrow>
         bnd (on_snd (readover fmt (ss_in ss))) (\<lambda>is.
         upd (\<lambda>(s, g). (s\<lparr>sv_stream := Some (ss\<lparr>ss_in := is\<rparr>)\<rparr>, g))))"

partial_function (option) overview_loop ::
  "nat \<Rightarrow> 'n net_env \<Rightarrow> (overfmt \<Rightarrow> istream \<Rightarrow> ('g, istream) act) \<Rightarrow> bool \<Rightarrow> nat \<Rightarrow> nat
    \<Rightarrow> 'n nserver \<times> 'g \<Rightarrow> (unit outcome \<times> 'n nserver \<times> 'g) option" where
  "overview_loop n N readover x f l sg =
     obnd (Some (on_fst current sg)) (\<lambda>e sg1.
     let x' = (x \<or> \<not> has_bit (nntpflags e) F_OVER);
         cmd = (if x' then ''xover '' else ''over '') @ show_int (i32 (int f)) @ ''-'' @ show_int (i32 (int l)) @ CRLF
     in if \<not> has_bit (nntpflags e) F_XOVER
        then Some (throw (NSError ''news server neither implements OVER nor XOVER'') sg1)
        else
          obnd (Some (on_fst (issue n N cmd None) sg1)) (\<lambda>resp sg2.
          if is_code resp ''224'' then Some (read_over readover sg2)
          else if is_code resp ''502'' then Some (throw (NotAllowedError resp) sg2)
          else if is_code resp ''412'' then Some (throw (NoSuchGroupError ''no such group'') sg2)
          else if is_code resp ''420'' then Some (throw (ResponseError cmd ''224'' resp) sg2)
          else
            obnd (Some (on_fst (clear_flag (if x' then F_XOVER else F_OVER)) sg2)) (\<lambda>_ sg3.
            overview_loop n N readover x' f l sg3)))"

declare overview_loop.simps [code]

definition rs_overviewdb ::
  "nat \<Rightarrow> 'n net_env \<Rightarrow> string \<Rightarrow> (overfmt \<Rightarrow> istream \<Rightarrow> ('g, istream) act) \<Rightarrow> nat \<Rightarrow> nat
    \<Rightarrow> ('n nserver \<times> 'g, unit) act" where
  "rs_overviewdb n N name readover f l =
     bnd (on_fst (rs_selectgroup n N name False)) (\<lambda>_. loop (overview_loop n N readover False f l))"

section \<open>Articles\<close>

definition read_art :: "int \<Rightarrow> article \<Rightarrow> ('n nserver, article) act" where
  "read_art nr a = bnd (with_in (read_article a)) (\<lambda>a'. ret (setnbr a' nr))"

definition rs_article :: "nat \<Rightarrow> 'n net_env \<Rightarrow> string \<Rightarrow> nat \<Rightarrow> article \<Rightarrow> ('n nserver, article) act" where
  "rs_article n N gname nbr art =
     bnd (rs_selectgroup n N gname False) (\<lambda>_.
     let cmd = ''article '' @ show_nat nbr @ CRLF
     in bnd (issue n N cmd None) (\<lambda>resp.
        if \<not> is_code resp ''220'' then
          (if is_code resp ''423'' then throw (NoSuchArticleError resp) else throw (ResponseError cmd ''220'' resp))
        else read_art (i32 (int nbr)) art))"

text \<open>
  By message identifier: first the current server, then the others, those left out that \<open>skip\<close>
  names. The command is printed into an array of 1024 characters.
\<close>

fun article_elsewhere :: "nat \<Rightarrow> 'n net_env \<Rightarrow> (mpentry \<Rightarrow> bool) \<Rightarrow> nat option \<Rightarrow> string \<Rightarrow> article \<Rightarrow> string \<Rightarrow> nat list
    \<Rightarrow> ('n nserver, article) act" where
  "article_elsewhere n N skip cs cmd art resp [] = throw (NoSuchArticleError resp)"
| "article_elsewhere n N skip cs cmd art resp (i # is) =
     bnd (gets (\<lambda>s. sv_list s ! i)) (\<lambda>e.
     if cs = Some i \<or> hostname e = [] \<or> skip e then article_elsewhere n N skip cs cmd art resp is
     else
       bnd (setserver N i) (\<lambda>_.
       bnd (connect n N) (\<lambda>_.
       bnd (issue n N cmd None) (\<lambda>resp'.
       if is_code resp' ''220'' then read_art (- 1) art
       else article_elsewhere n N skip cs cmd art resp' is))))"

definition rs_article_id :: "nat \<Rightarrow> 'n net_env \<Rightarrow> (mpentry \<Rightarrow> bool) \<Rightarrow> string \<Rightarrow> article \<Rightarrow> ('n nserver, article) act" where
  "rs_article_id n N skip ident art =
     (let cmd = ''article '' @ ident @ CRLF
      in if 1024 \<le> length cmd then crash
         else
           bnd (gets sv_current) (\<lambda>cur.
           bnd (if cur = None then ret None
                else bnd current (\<lambda>e.
                  if skip e then ret None else bnd (issue n N cmd None) (\<lambda>resp. ret (Some resp)))) (\<lambda>first'.
           case first' of
             Some resp \<Rightarrow>
               if is_code resp ''220'' then read_art (- 1) art
               else bnd (gets (\<lambda>s. (sv_current s, length (sv_list s)))) (\<lambda>(cs, k).
                    article_elsewhere n N skip cs cmd art resp [0..<k])
           | None \<Rightarrow>
               bnd (gets (\<lambda>s. (sv_current s, length (sv_list s)))) (\<lambda>(cs, k).
               article_elsewhere n N skip cs cmd art [] [0..<k]))))"

end
