(* ===== verification/Remote_Post.thy ===== *)
theory Remote_Post
  imports Remote_Server
begin

text \<open>
  NServer-0.9.1/NServer.cc: \<open>RServer::post\<close>, the posting of an article to one server and to the
  servers of all its newsgroups. The article is changed in place: the state is the pair of the
  server object and the article.
\<close>

type_synonym 'n posting = "'n nserver \<times> article"

section \<open>Posting to one server\<close>

text \<open>The check for a duplicate; an article without message identifier is not checked.\<close>

definition check_duplicate :: "nat \<Rightarrow> 'n net_env \<Rightarrow> article \<Rightarrow> ('n nserver, unit) act" where
  "check_duplicate n N art =
     try_catch
       (bnd (of_outcome (getfield art ''message-id:'' False)) (\<lambda>mid.
        let cmd = ''stat '' @ c_str mid @ CRLF
        in if 513 \<le> length cmd then crash
           else
             bnd (issue n N cmd None) (\<lambda>resp.
             if is_code resp ''223'' then throw (DuplicateArticleError ''Response 223'')
             else if \<not> is_code resp ''430'' then throw (ResponseError cmd ''223|430'' resp)
             else ret ())))
       (\<lambda>e. case e of NoSuchFieldError _ \<Rightarrow> ret () | _ \<Rightarrow> throw e)"

text \<open>The answer to the article; \<open>i\<close> counts the attempts as in \<open>issue\<close>.\<close>

fun post_loop :: "nat \<Rightarrow> 'n net_env \<Rightarrow> article \<Rightarrow> nat \<Rightarrow> ('n nserver, string) act"
and post_reconnect :: "nat \<Rightarrow> 'n net_env \<Rightarrow> article \<Rightarrow> nat \<Rightarrow> ('n nserver, string) act" where
  "post_loop n N art i =
     bnd (issue n N (''post'' @ CRLF) None) (\<lambda>resp.
     if \<not> is_code resp ''340'' then
       (if is_code resp ''440'' then throw (NotAllowedError resp)
        else throw (ResponseError (''post'' @ CRLF) ''[34]40'' resp))
     else
       bnd (sv_write N (art_text art @ ''.'' @ CRLF)) (\<lambda>_.
       bnd (sv_readline resp True) (\<lambda>resp'.
       bnd sv_good (\<lambda>ok.
       if ok then ret resp' else post_reconnect n N art i))))"
| "post_reconnect n N art 0 = crash"
| "post_reconnect n N art (Suc i) =
     (if i = 0 then throw (SystemError ''maximum number of retries reached while trying to post an article'')
      else
        bnd (disconnect N) (\<lambda>_.
        bnd (try_catch (bnd (connect n N) (\<lambda>_. ret True))
               (\<lambda>e. if is_system_error e then ret False else throw e)) (\<lambda>connected.
        if connected then post_loop n N art i else post_reconnect n N art i)))"

definition post_to :: "nat \<Rightarrow> 'n net_env \<Rightarrow> nat \<Rightarrow> article \<Rightarrow> ('n nserver, unit) act" where
  "post_to n N i art =
     bnd (setserver N i) (\<lambda>_.
     bnd (connect n N) (\<lambda>_.
     bnd (check_duplicate n N art) (\<lambda>_.
     bnd current (\<lambda>e.
     bnd (post_loop n N art (tries (retries e + 1))) (\<lambda>resp.
     if is_code resp ''240'' then ret ()
     else if is_code resp ''440'' then throw (NotAllowedError resp)
     else if is_code resp ''441'' then throw (PostingFailedError resp)
     else throw (ResponseError (''post'' @ CRLF) ''[23]40,44[01]'' resp))))))"

section \<open>The header\<close>

definition set_art_field :: "string \<Rightarrow> string \<Rightarrow> (article, unit) act" where
  "set_art_field nm v a = (case setfield a nm v of
      Ok a' \<Rightarrow> (Ok (), a') | Throw e \<Rightarrow> (Throw e, a) | Crash \<Rightarrow> (Crash, a) | Diverge \<Rightarrow> (Diverge, a))"

definition required_fields :: "(article, string) act" where
  "required_fields =
     bnd (gets id) (\<lambda>a.
     try_catch
       (bnd (of_outcome (has_field a ''from:'')) (\<lambda>f.
        if \<not> f then throw (InvalidArticleError ''no from field'')
        else
          bnd (of_outcome (has_field a ''subject:'')) (\<lambda>s.
          if \<not> s then throw (InvalidArticleError ''no subject field'')
          else of_outcome (getfield a ''newsgroups:'' False))))
       (\<lambda>e. case e of
              NoSuchFieldError _ \<Rightarrow> throw (InvalidArticleError ''no newsgroups field'')
            | _ \<Rightarrow> throw e))"

text \<open>
  The digits of a number to the base 36, the last one first; nothing for zero. The macro divides
  its argument itself down to zero, so that the serial number of the next article is always 1.
\<close>

fun base36 :: "nat \<Rightarrow> string" where
  "base36 j = (if j = 0 then [] else
     char_of (if j mod 36 < 10 then 48 + j mod 36 else 97 + (j mod 36 - 10)) # base36 (j div 36))"

declare base36.simps [simp del]

definition own_message_id :: "'n nserver \<Rightarrow> string" where
  "own_message_id s = ''Message-ID: <newscache$'' @ base36 (sv_now s) @ ''$'' @ base36 (sv_pid s) @ ''$''
     @ base36 (sv_pc s) @ ''@'' @ sv_hostname s @ ''>'' @ CRLF"

definition add_fields :: "('n posting, unit) act" where
  "add_fields =
     bnd (gets fst) (\<lambda>s.
     bnd (if sv_posting_host s \<noteq> []
          then on_snd (set_art_field ''X-NNTP-Posting-Host:''
                 (''X-NNTP-Posting-Host: '' @ sv_posting_host s @ CRLF))
          else ret ()) (\<lambda>_.
     bnd (gets snd) (\<lambda>a.
     bnd (of_outcome (has_field a ''message-id:'')) (\<lambda>f.
     if f then ret ()
     else
       bnd (on_fst (upd (\<lambda>s. s\<lparr>sv_pc := 0 + 1\<rparr>))) (\<lambda>_.
       on_snd (set_art_field ''Message-ID:'' (own_message_id s)))))))"

section \<open>The servers of the newsgroups\<close>

definition sep :: "char \<Rightarrow> bool" where
  "sep c \<longleftrightarrow> isspace c \<or> c = CHR '',''"

text \<open>The names between the separators; without any the loop is run once with the empty name.\<close>

function group_words :: "string \<Rightarrow> string list" where
  "group_words q =
     (let q' = dropWhile sep (dropWhile (\<lambda>c. \<not> sep c) q)
      in takeWhile (\<lambda>c. \<not> sep c) q # (if q' = [] then [] else group_words q'))"
  by pat_completeness auto
termination
proof (relation "measure length", goal_cases)
  case (2 q q')
  let ?r = "dropWhile (\<lambda>c. \<not> sep c) q"
  have r: "length (dropWhile sep ?r) \<le> length ?r" "length ?r \<le> length q" by (rule length_dropWhile_le)+
  show ?case
  proof (cases ?r)
    case (Cons c t)
    then have "sep c" by (metis dropWhile_eq_Cons_conv)
    then have "length (dropWhile sep ?r) \<le> length t" using Cons by (simp add: length_dropWhile_le)
    with Cons r(2) 2 show ?thesis by simp
  next
    case Nil
    with 2 have "q' = []" by (simp only: dropWhile.simps)
    with 2 show ?thesis by simp
  qed
qed simp

declare group_words.simps [simp del]

definition post_servers :: "mpentry list \<Rightarrow> string \<Rightarrow> nat list" where
  "post_servers es newsgroups =
     foldl (\<lambda>ms g. case pick_server post_groups es g of
               None \<Rightarrow> ms
             | Some i \<Rightarrow> if i \<in> set ms then ms else ms @ [i])
       [] (group_words (dropWhile sep (c_str newsgroups)))"

section \<open>Posting to all of them\<close>

record post_count =
  pc_posts :: nat
  pc_spool :: nat
  pc_err :: "32 word"

text \<open>What an exception counts as.\<close>

definition count_error :: "post_count \<Rightarrow> nserror \<Rightarrow> post_count" where
  "count_error k e =
     (case e of
        DuplicateArticleError _ \<Rightarrow> k\<lparr>pc_posts := pc_posts k + 1\<rparr>
      | NotAllowedError _ \<Rightarrow> k\<lparr>pc_err := pc_err k OR 1\<rparr>
      | PostingFailedError _ \<Rightarrow> k\<lparr>pc_err := pc_err k OR 2\<rparr>
      | ResponseError _ _ _ \<Rightarrow> k\<lparr>pc_spool := pc_spool k + 1\<rparr>
      | SystemError _ \<Rightarrow> k\<lparr>pc_spool := pc_spool k + 1\<rparr>
      | IOError _ \<Rightarrow> k\<lparr>pc_spool := pc_spool k + 1\<rparr>
      | _ \<Rightarrow> k\<lparr>pc_err := pc_err k OR 4\<rparr>)"

fun post_all :: "nat \<Rightarrow> 'n net_env \<Rightarrow> nat list \<Rightarrow> post_count \<Rightarrow> ('n posting, post_count) act" where
  "post_all n N [] k = ret k"
| "post_all n N (i # is) k =
     bnd (gets (\<lambda>sa. (sv_list (fst sa) ! i, snd sa))) (\<lambda>(e, art).
     bnd (if has_bit (flags e) F_OFFLINE then ret (k\<lparr>pc_spool := pc_spool k + 1\<rparr>)
          else try_catch (bnd (on_fst (post_to n N i art)) (\<lambda>_. ret (k\<lparr>pc_posts := pc_posts k + 1\<rparr>)))
                 (\<lambda>err. ret (count_error k err))) (\<lambda>k'.
     post_all n N is k'))"

text \<open>0: posted, -1: to be spooled, -2: posted to some servers only.\<close>

definition post_result :: "post_count \<Rightarrow> int outcome" where
  "post_result k =
     (if pc_err k = 0 then Ok (if 0 < pc_spool k then - 1 else 0)
      else if pc_posts k = 0
           then Throw (InvalidArticleError ''illegaly formatted article or no post permission'')
      else Ok (- 2))"

definition rs_post :: "nat \<Rightarrow> 'n net_env \<Rightarrow> ('n posting, int) act" where
  "rs_post n N =
     bnd (on_snd required_fields) (\<lambda>newsgroups.
     bnd add_fields (\<lambda>_.
     bnd (gets (\<lambda>sa. post_servers (sv_list (fst sa)) newsgroups)) (\<lambda>ms.
     if ms = [] then throw (InvalidArticleError ''no valid newsgroup'')
     else
       bnd (post_all n N ms \<lparr>pc_posts = 0, pc_spool = 0, pc_err = 0\<rparr>) (\<lambda>k. of_outcome (post_result k)))))"

end
