(* ===== verification/Art_Spooler.thy ===== *)
theory Art_Spooler
  imports Remote_Post
begin

text \<open>
  NServer-0.9.1/ArtSpooler.{h,cc}: the directory of articles that wait to be posted and the one
  of articles that could not be. The files of a directory are kept in the order in which they
  are listed. The lock of the spool is always granted, and files can be opened and written.
\<close>

section \<open>Files\<close>

definition is_art :: "string \<Rightarrow> bool" where
  "is_art fn \<longleftrightarrow> take 4 fn = ''art_''"

definition createID :: "'n nserver \<Rightarrow> string" where
  "createID s = show_int (i32 (int (sv_pid s))) @ show_int (i32 (int (sv_now s))) @ show_int (i32 (int (sv_usec s)))"

text \<open>\<open>None\<close>: there is a file of that name.\<close>

definition storeArticle :: "string \<Rightarrow> article \<Rightarrow> (string \<times> string) list \<Rightarrow> (string \<times> string) list option" where
  "storeArticle ident a dir =
     (let fn = ''art_'' @ ident
      in if map_of dir fn = None then Some (dir @ [(fn, art_text a)]) else None)"

definition spoolArt :: "article \<Rightarrow> ('n nserver, unit) act" where
  "spoolArt a s =
     (case storeArticle (createID s) a (sv_spool s) of
        None \<Rightarrow> (Throw (Error ''spoolArt: duplicateArt''), s)
      | Some d \<Rightarrow> (Ok (), s\<lparr>sv_spool := d\<rparr>))"

definition storeBadArt :: "article \<Rightarrow> ('n nserver, unit) act" where
  "storeBadArt a s =
     (case storeArticle (createID s) a (sv_bad s) of
        None \<Rightarrow> (Throw (Error ''storeBadArt: duplicateArt''), s)
      | Some d \<Rightarrow> (Ok (), s\<lparr>sv_bad := d\<rparr>))"

text \<open>The first article of the directory, which is read and removed.\<close>

definition getSpooledArt :: "('n nserver, article option) act" where
  "getSpooledArt s =
     (case filter (\<lambda>e. is_art (fst e)) (sv_spool s) of
        [] \<Rightarrow> (Ok None, s)
      | (fn, t) # _ \<Rightarrow>
          (Ok (Some (fst (read_article article_new \<lparr>inp = t, is_eof = False, is_fail = False\<rparr>))),
           s\<lparr>sv_spool := filter (\<lambda>e. fst e \<noteq> fn) (sv_spool s)\<rparr>))"

section \<open>CServer: spooling and posting what is spooled\<close>

definition cache_post :: "nat \<Rightarrow> 'n net_env \<Rightarrow> ('n posting, int) act" where
  "cache_post n N =
     bnd (rs_post n N) (\<lambda>r.
     if r < 0 then bnd (gets snd) (\<lambda>a. bnd (on_fst (spoolArt a)) (\<lambda>_. ret 1)) else ret 0)"

text \<open>The message for the log asks for the field, which an article need not have.\<close>

definition store_failed :: "('n posting, unit) act" where
  "store_failed =
     bnd (gets snd) (\<lambda>a.
     bnd (of_outcome (getfield a ''message-id'' False)) (\<lambda>_. on_fst (storeBadArt a)))"

text \<open>One article that has been taken from the spool.\<close>

definition post_one :: "nat \<Rightarrow> 'n net_env \<Rightarrow> ('n posting, unit) act" where
  "post_one n N =
     try_catch
       (bnd (rs_post n N) (\<lambda>r. if r = - 1 \<or> r = - 2 then store_failed else ret ()))
       (\<lambda>e. case e of InvalidArticleError _ \<Rightarrow> store_failed | _ \<Rightarrow> throw e)"

partial_function (option) postspooled_loop :: "nat \<Rightarrow> 'n net_env \<Rightarrow> 'n nserver \<Rightarrow> (unit outcome \<times> 'n nserver) option" where
  "postspooled_loop n N s =
     obnd (Some (getSpooledArt s)) (\<lambda>r s1.
     case r of
       None \<Rightarrow> Some (Ok (), s1)
     | Some a \<Rightarrow>
         obnd (Some (case post_one n N (s1, a) of (res, (s2, _)) \<Rightarrow> (res, s2))) (\<lambda>_ s2.
         postspooled_loop n N s2))"

declare postspooled_loop.simps [code]

definition postspooled :: "nat \<Rightarrow> 'n net_env \<Rightarrow> ('n nserver, unit) act" where
  "postspooled n N = loop (postspooled_loop n N)"

end
