(* ===== verification/Cache_Server.thy ===== *)
theory Cache_Server
  imports Art_Spooler
begin

text \<open>
  NServer-0.9.1/NServer.{h,cc}, the classes \<open>LServer\<close> and \<open>CServer\<close>: what is answered from the
  local database and what is asked of the upstream servers.
\<close>

definition offline :: "mpentry \<Rightarrow> bool" where
  "offline e \<longleftrightarrow> has_bit (flags e) F_OFFLINE"

text \<open>The entry of a group's server.\<close>

definition server_of :: "string \<Rightarrow> ('n nserver, mpentry option) act" where
  "server_of name = gets (\<lambda>s. map_option (\<lambda>i. sv_list s ! i) (pick_server rd_groups (sv_list s) name))"

section \<open>The active database\<close>

definition active_valid :: "('n nserver, bool) act" where
  "active_valid =
     bnd (in_active getmtime) (\<lambda>tm.
     gets (\<lambda>s. sv_now s < u64 (tm + sv_ttl_active s)))"

definition active_lock :: "lockcmd \<Rightarrow> ('n nserver, unit) act" where
  "active_lock c = bnd (in_active (lock c Block)) (\<lambda>_. ret ())"

definition cache_active :: "nat \<Rightarrow> 'n net_env \<Rightarrow> ('n nserver, unit) act" where
  "cache_active n N =
     bnd active_valid (\<lambda>v.
     if v then ret ()
     else
       bnd (active_lock ExclLock) (\<lambda>_.
       bnd (try_catch (bnd active_valid (\<lambda>v. if v then ret () else rs_active n N)) (\<lambda>_. ret ())) (\<lambda>_.
       active_lock UnLock)))"

definition invalidateActiveDB :: "('n nserver, unit) act" where
  "invalidateActiveDB = in_active (setmtime 0 True)"

section \<open>A group's numbers\<close>

definition ls_groupinfo :: "string \<Rightarrow> ('n nserver, group_info) act" where
  "ls_groupinfo name =
     (if 512 < length name then throw (AssertionError ''LServer::groupinfo: name of newsgroup too long'')
      else
        bnd (gets sv_lgroup) (\<lambda>g.
        bnd (in_active (adb_get name g)) (\<lambda>r.
        case r of
          None \<Rightarrow> throw (NoSuchGroupError ''no such group'')
        | Some gi \<Rightarrow> bnd (upd (\<lambda>s. s\<lparr>sv_lgroup := gi\<rparr>)) (\<lambda>_. ret gi))))"

text \<open>Whether what the database has of a group is still to be used.\<close>

definition fresh_info :: "nat \<Rightarrow> mpentry \<Rightarrow> group_info \<Rightarrow> bool" where
  "fresh_info now e gi \<longleftrightarrow> now \<le> u64 (gi_mtime gi + u64_of_int (groupTimeout e))"

definition ask_group :: "nat \<Rightarrow> 'n net_env \<Rightarrow> string \<Rightarrow> bool \<Rightarrow> ('n nserver, unit) act" where
  "ask_group n N name known =
     try_catch
       (bnd (rs_selectgroup n N name True) (\<lambda>_. upd (\<lambda>s. s\<lparr>sv_agroup := sv_group s\<rparr>)))
       (\<lambda>e. if (case e of ResponseError _ _ _ \<Rightarrow> True | _ \<Rightarrow> is_system_error e)
            then (if known then ret () else throw (NoSuchGroupError ''no such group''))
            else throw e)"

definition cache_groupinfo :: "nat \<Rightarrow> 'n net_env \<Rightarrow> string \<Rightarrow> ('n nserver, group_info) act" where
  "cache_groupinfo n N name =
     (if 512 < length name then throw (AssertionError ''CServer::groupinfo: Name of newsgroup too long'')
      else
        bnd (server_of name) (\<lambda>srv.
        case srv of
          None \<Rightarrow> throw (NoSuchGroupError ''no such group'')
        | Some e \<Rightarrow>
            if offline e then ls_groupinfo name
            else
              bnd (gets (\<lambda>s. (sv_agroup s, sv_now s))) (\<lambda>(g, now).
              bnd (in_active (adb_get name g)) (\<lambda>r.
              bnd (case r of None \<Rightarrow> ret () | Some gi \<Rightarrow> upd (\<lambda>s. s\<lparr>sv_agroup := gi\<rparr>)) (\<lambda>_.
              bnd (case r of
                     None \<Rightarrow> ask_group n N name False
                   | Some gi \<Rightarrow> if fresh_info now e gi then ret () else ask_group n N name True) (\<lambda>_.
              gets sv_agroup))))))"

section \<open>What is passed on unless offline\<close>

text \<open>The entry of the group is used without a look whether there is one.\<close>

definition sure_server :: "string \<Rightarrow> ('n nserver, mpentry) act" where
  "sure_server name = bnd (server_of name) (\<lambda>srv. case srv of None \<Rightarrow> crash | Some e \<Rightarrow> ret e)"

definition cache_listgroup :: "nat \<Rightarrow> 'n net_env \<Rightarrow> string \<Rightarrow> bool list \<Rightarrow> nat \<Rightarrow> nat \<Rightarrow> ('n nserver, bool list) act" where
  "cache_listgroup n N gname lst f l =
     bnd (sure_server gname) (\<lambda>e.
     if offline e then throw (NSError ''cannot listgroup in offline mode'')
     else rs_listgroup n N gname lst f l)"

definition cache_overviewdb ::
  "nat \<Rightarrow> 'n net_env \<Rightarrow> string \<Rightarrow> (overfmt \<Rightarrow> istream \<Rightarrow> ('g, istream) act) \<Rightarrow> nat \<Rightarrow> nat
    \<Rightarrow> ('n nserver \<times> 'g, unit) act" where
  "cache_overviewdb n N name readover f l =
     bnd (on_fst (sure_server name)) (\<lambda>e.
     if offline e then ret () else rs_overviewdb n N name readover f l)"

definition cache_article :: "nat \<Rightarrow> 'n net_env \<Rightarrow> string \<Rightarrow> nat \<Rightarrow> article \<Rightarrow> ('n nserver, article) act" where
  "cache_article n N gname nbr art =
     bnd (sure_server gname) (\<lambda>e.
     if offline e then throw (NSError ''cannot retrieve articles in offline mode'')
     else rs_article n N gname nbr art)"

definition cache_article_id :: "nat \<Rightarrow> 'n net_env \<Rightarrow> string \<Rightarrow> article \<Rightarrow> ('n nserver, article) act" where
  "cache_article_id n N = rs_article_id n N offline"

end
