(* ===== verification/NV_Newsgroup.thy ===== *)
theory NV_Newsgroup
  imports NV_Array NV_List Overview_Fmt
begin

text \<open>
  NServer-0.9.1/Newsgroup.h and NVNewsgroup.{h,cc}: a newsgroup that keeps its articles and
  overview records in an \<open>NVArray\<close>, long articles in files of its spool directory. An element of
  the array is one character for its kind and the text with its terminating zero. The
  overview format is an argument, because the object shares it with the server.
\<close>

section \<open>The object\<close>

definition MAXGROUPNAMELEN :: nat where "MAXGROUPNAMELEN = 512"

definition k_overview :: char where "k_overview = CHR 0x02"
definition k_article :: char where "k_article = CHR 0x03"
definition k_bigarticle :: char where "k_bigarticle = CHR 0x04"

text \<open>
  \<open>ng_files\<close>: the files of the spool directory by name. They can always be opened and written.
\<close>

record ngroup =
  ng_name :: string
  ng_nv :: nvc
  ng_files :: "string \<Rightarrow> string option"

definition in_nv :: "(nvc, 'a) act \<Rightarrow> (ngroup, 'a) act" where
  "in_nv f g = (case f (ng_nv g) of (r, s) \<Rightarrow> (r, g\<lparr>ng_nv := s\<rparr>))"

definition ng_lock :: "lockcmd \<Rightarrow> (ngroup, unit) act" where
  "ng_lock c = bnd (in_nv (lock c Block)) (\<lambda>_. ret ())"

definition bounds :: "ngroup \<Rightarrow> nat \<times> nat" where
  "bounds g = arr_getsize (ng_nv g)"

definition art_file :: "nat \<Rightarrow> string" where
  "art_file nbr = ''.art'' @ show_nat nbr"

definition unlink_file :: "string \<Rightarrow> (ngroup, unit) act" where
  "unlink_file fn = upd (\<lambda>g. g\<lparr>ng_files := (ng_files g)(fn := None)\<rparr>)"

definition write_file :: "string \<Rightarrow> string \<Rightarrow> (ngroup, unit) act" where
  "write_file fn t = upd (\<lambda>g. g\<lparr>ng_files := (ng_files g)(fn \<mapsto> t)\<rparr>)"

text \<open>\<open>Article::read\<close> on a file.\<close>

definition read_file :: "article \<Rightarrow> string \<Rightarrow> article" where
  "read_file a t = fst (read_article a \<lparr>inp = t, is_eof = False, is_fail = False\<rparr>)"

section \<open>An element\<close>

definition kind_at :: "nat \<Rightarrow> (nvc, char) act" where
  "kind_at a s = (if in_map s a 1 then (Ok (char_of (fbytes s a)), s) else (Crash, s))"

definition text_at :: "nat \<Rightarrow> nat \<Rightarrow> (nvc, string) act" where
  "text_at a n s = (if in_map s a n then (Ok (rbytes (fbytes s) a n), s) else (Crash, s))"

text \<open>A C string that is read where it lies.\<close>

definition string_at :: "nat \<Rightarrow> (nvc, string) act" where
  "string_at a s = (case cstr_at s a of None \<Rightarrow> (Crash, s) | Some t \<Rightarrow> (Ok t, s))"

text \<open>
  The article in an element of \<open>n\<close> bytes at \<open>a\<close>; \<open>extra\<close> is what is taken off the size for
  the kind and, but for \<open>printheaderdb\<close>, for the terminating zero.
\<close>

definition article_at :: "nat \<Rightarrow> nat \<Rightarrow> nat \<Rightarrow> nat \<Rightarrow> (nvc, article) act" where
  "article_at nbr a n extra =
     (if n < extra then crash
      else bnd (text_at (a + 1) (n - extra)) (\<lambda>t. ret \<lparr>art_nbr = i32 (int nbr), art_text = t\<rparr>))"

text \<open>A new element at index \<open>i\<close> of the table.\<close>

definition put_element :: "nat \<Rightarrow> char \<Rightarrow> string \<Rightarrow> (nvc, unit) act" where
  "put_element i k t =
     (let n = length t + 2
      in bnd (arr_nvalloc (n + SZ_ULONG)) (\<lambda>x.
         bnd (arr_set_entry i x) (\<lambda>_.
         bnd (wr x n) (\<lambda>_.
         bnd (memcpy_to (x + SZ_ULONG) [k]) (\<lambda>_.
         memcpy_to (x + SZ_ULONG + 1) (t @ [NUL]))))))"

section \<open>Overview records\<close>

text \<open>The record of an element, empty where there is none.\<close>

definition sget_over :: "overfmt \<Rightarrow> nat \<Rightarrow> (nvc, string option) act" where
  "sget_over fmt nbr =
     bnd (arr_sget nbr) (\<lambda>e.
     case e of
       None \<Rightarrow> ret None
     | Some (a, n) \<Rightarrow>
         bnd (kind_at a) (\<lambda>k.
         if k = k_article then
           bnd (article_at nbr a n 2) (\<lambda>art.
           bnd (of_outcome (convert_article fmt art)) (\<lambda>ov. ret (Some ov)))
         else if k = k_bigarticle \<or> k = k_overview then bnd (string_at (a + 1)) (\<lambda>t. ret (Some t))
         else ret None))"

definition nv_sprintover :: "overfmt \<Rightarrow> nat \<Rightarrow> (ngroup, string) act" where
  "nv_sprintover fmt nbr =
     bnd (gets bounds) (\<lambda>(f, l).
     if f \<le> nbr \<and> nbr \<le> l
     then bnd (in_nv (sget_over fmt nbr)) (\<lambda>r. ret (case r of None \<Rightarrow> [] | Some t \<Rightarrow> t @ CRLF))
     else ret [])"

definition nv_getover :: "overfmt \<Rightarrow> nat \<Rightarrow> (ngroup, string) act" where
  "nv_getover fmt nbr =
     bnd (ng_lock ShrdLock) (\<lambda>_.
     bnd (gets bounds) (\<lambda>(f, l).
     bnd (if f \<le> nbr \<and> nbr \<le> l then in_nv (sget_over fmt nbr) else ret None) (\<lambda>r.
     bnd (ng_lock UnLock) (\<lambda>_.
     ret (case r of None \<Rightarrow> [] | Some t \<Rightarrow> c_str t)))))"

text \<open>A record is stored only where there is no element yet.\<close>

definition nv_setover :: "string \<Rightarrow> (ngroup, unit) act" where
  "nv_setover ov =
     (let nbr = u64_of_int (atoi (c_str ov))
      in bnd (ng_lock ExclLock) (\<lambda>_.
         bnd (gets bounds) (\<lambda>(f, l).
         bnd (if f \<le> nbr \<and> nbr \<le> l then
                bnd (in_nv (arr_sget nbr)) (\<lambda>e.
                if e = None then in_nv (put_element (nbr - f) k_overview ov) else ret ())
              else ret ()) (\<lambda>_.
         ng_lock UnLock))))"

text \<open>
  The records of a server; the line read last is kept when the stream fails, and a stream that
  has failed before its end is read for ever.
\<close>

function readover_lines :: "overfmt \<Rightarrow> istream \<Rightarrow> string \<Rightarrow> (ngroup, istream) act" where
  "readover_lines fmt is line =
     (if is_fail is \<and> \<not> is_eof is then (\<lambda>g. (Diverge, g))
      else
        let (line', is') = nlreadline is line False
        in if line' = ''.'' \<or> is_eof is' then ret is'
           else
             bnd (if dotrans fmt then bnd (of_outcome (convert_record fmt line')) nv_setover
                  else nv_setover line') (\<lambda>_.
             readover_lines fmt is' line'))"
  by pat_completeness auto
termination
proof (relation "measure (\<lambda>(fmt, is, l). length (inp is))", goal_cases)
  case (2 fmt i line x line' i')
  then show ?case using nlreadline_shorter [of i line False line' i'] by simp
qed simp

declare readover_lines.simps [simp del]

definition nv_readoverdb :: "nat \<Rightarrow> overfmt \<Rightarrow> istream \<Rightarrow> (ngroup, istream) act" where
  "nv_readoverdb now fmt is =
     bnd (ng_lock ExclLock) (\<lambda>_.
     bnd (readover_lines fmt is []) (\<lambda>is'.
     bnd (in_nv (setmtime now False)) (\<lambda>_.
     bnd (ng_lock UnLock) (\<lambda>_. ret is'))))"

text \<open>
  The functions that print do so on the output stream, the second component of their state. An
  \<open>unsigned int\<close> that runs to the largest one does not come to an end.
\<close>

definition emit :: "string \<Rightarrow> ('s \<times> string, unit) act" where
  "emit t = on_snd (upd (\<lambda>out. out @ t))"

fun print_each :: "(nat \<Rightarrow> ('s, string) act) \<Rightarrow> nat list \<Rightarrow> ('s \<times> string, unit) act" where
  "print_each f [] = ret ()"
| "print_each f (i # is) = bnd (on_fst (f i)) (\<lambda>t. bnd (emit t) (\<lambda>_. print_each f is))"

definition print_range :: "nat \<Rightarrow> nat \<Rightarrow> (nat \<Rightarrow> ('s, string) act) \<Rightarrow> ('s \<times> string, unit) act" where
  "print_range f l p = (if l = 2 ^ 32 - 1 then (\<lambda>g. (Diverge, g)) else print_each p [f..<l + 1])"

definition nv_printover :: "overfmt \<Rightarrow> nat \<Rightarrow> (ngroup \<times> string, unit) act" where
  "nv_printover fmt nbr =
     bnd (on_fst (ng_lock ShrdLock)) (\<lambda>_.
     bnd (on_fst (nv_sprintover fmt nbr)) (\<lambda>t. bnd (emit t) (\<lambda>_. on_fst (ng_lock UnLock))))"

definition nv_printoverdb :: "overfmt \<Rightarrow> nat \<Rightarrow> nat \<Rightarrow> (ngroup \<times> string, unit) act" where
  "nv_printoverdb fmt f l =
     bnd (on_fst (ng_lock ShrdLock)) (\<lambda>_.
     bnd (on_fst (gets bounds)) (\<lambda>(af, al).
     let f' = (if f < af then u32 af else f); l' = (if al < l then u32 al else l)
     in bnd (print_range f' l' (nv_sprintover fmt)) (\<lambda>_. on_fst (ng_lock UnLock))))"

text \<open>The header of an article that lies in the array is read with its terminating zero.\<close>

definition header_line :: "overfmt \<Rightarrow> string \<Rightarrow> nat \<Rightarrow> (nvc, string) act" where
  "header_line fmt xheader i =
     (let answer = (\<lambda>r. case r of
            Ok fld \<Rightarrow> ret (show_nat i @ '' '' @ fld @ CRLF)
          | Throw (NoSuchFieldError _) \<Rightarrow> ret (show_nat i @ '' (none)'' @ CRLF)
          | Throw e \<Rightarrow> throw e | Crash \<Rightarrow> crash | Diverge \<Rightarrow> (\<lambda>s. (Diverge, s)))
      in
     bnd (arr_sget i) (\<lambda>e.
     case e of
       None \<Rightarrow> ret []
     | Some (a, n) \<Rightarrow>
         bnd (kind_at a) (\<lambda>k.
         if k = k_article then bnd (article_at i a n 1) (\<lambda>art. answer (getfield art xheader False))
         else if k = k_bigarticle \<or> k = k_overview
         then bnd (string_at (a + 1)) (\<lambda>ov. answer (over_getfield fmt ov xheader 0))
         else ret [])))"

definition nv_printheaderdb :: "overfmt \<Rightarrow> string \<Rightarrow> nat \<Rightarrow> nat \<Rightarrow> (ngroup \<times> string, unit) act" where
  "nv_printheaderdb fmt header f l =
     (if 512 \<le> length header + 1 then crash
      else
        bnd (on_fst (ng_lock ShrdLock)) (\<lambda>_.
        bnd (on_fst (gets bounds)) (\<lambda>(gf, gl).
        bnd (print_each (\<lambda>i. in_nv (header_line fmt (header @ '':'') i))
               [(if f < gf then u32 gf else f)..<(if gl < l then u32 gl else l) + 1]) (\<lambda>_.
        on_fst (ng_lock UnLock)))))"

definition nv_printlistgroup :: "(ngroup \<times> string, unit) act" where
  "nv_printlistgroup =
     bnd (on_fst (ng_lock ShrdLock)) (\<lambda>_.
     bnd (on_fst (gets bounds)) (\<lambda>(f, l).
     bnd (print_range (u32 f) l (\<lambda>i.
            bnd (in_nv (arr_shas_element i)) (\<lambda>x. ret (if x \<noteq> 0 then show_nat i @ CRLF else [])))) (\<lambda>_.
     on_fst (ng_lock UnLock))))"

section \<open>Articles\<close>

text \<open>Articles are shorter than $2^{31}$ bytes.\<close>

definition put_article :: "nat \<Rightarrow> nat \<Rightarrow> article \<Rightarrow> (nvc, unit) act" where
  "put_article nbr i art =
     bnd (arr_sget nbr) (\<lambda>e.
     bnd (if e = None then ret () else bnd (arr_entry i) arr_nvfree) (\<lambda>_.
     put_element i k_article (art_text art)))"

text \<open>
  A long article: the array keeps its overview record, an element that is there already when
  its text is one.
\<close>

definition put_bigarticle :: "overfmt \<Rightarrow> nat \<Rightarrow> nat \<Rightarrow> article \<Rightarrow> (nvc, unit) act" where
  "put_bigarticle fmt nbr i art =
     bnd (arr_sget nbr) (\<lambda>e.
     let fresh = bnd (of_outcome (convert_article fmt art)) (\<lambda>ov. put_element i k_bigarticle ov)
     in case e of
          None \<Rightarrow> fresh
        | Some (a, n) \<Rightarrow>
            bnd (kind_at a) (\<lambda>k.
            if k = k_overview \<or> k = k_bigarticle then memcpy_to a [k_bigarticle]
            else bnd (arr_entry i) (\<lambda>x. bnd (arr_nvfree x) (\<lambda>_. fresh))))"

definition nv_setarticle :: "overfmt \<Rightarrow> article \<Rightarrow> (ngroup, unit) act" where
  "nv_setarticle fmt art =
     (let nbr = u32_of_int (getnbr art)
      in bnd (ng_lock ExclLock) (\<lambda>_.
         bnd (gets bounds) (\<lambda>(f, l).
         bnd (if f \<le> nbr \<and> nbr \<le> l then
                (if article_length art \<le> 15360
                 then in_nv (put_article nbr (nbr - f) art)
                 else bnd (in_nv (put_bigarticle fmt nbr (nbr - f) art)) (\<lambda>_.
                      write_file (art_file nbr) (art_text art)))
              else ret ()) (\<lambda>_.
         ng_lock UnLock))))"

text \<open>
  Where the group has no article \<open>retrievearticle\<close> is asked for it, a virtual function: for the
  base class it has none. What it works on is the first component of the state.
\<close>

type_synonym 'x retriever = "nat \<Rightarrow> ('x \<times> ngroup, article option) act"

definition no_retriever :: "'x retriever" where
  "no_retriever nbr = ret None"

definition retrieve_and_store :: "overfmt \<Rightarrow> 'x retriever \<Rightarrow> nat \<Rightarrow> ('x \<times> ngroup, article option) act" where
  "retrieve_and_store fmt retr nbr =
     bnd (retr nbr) (\<lambda>r.
     bnd (case r of None \<Rightarrow> ret () | Some art \<Rightarrow> on_snd (nv_setarticle fmt art)) (\<lambda>_. ret r))"

definition nv_getarticle :: "overfmt \<Rightarrow> 'x retriever \<Rightarrow> nat \<Rightarrow> ('x \<times> ngroup, article option) act" where
  "nv_getarticle fmt retr nbr =
     bnd (on_snd (ng_lock ShrdLock)) (\<lambda>_.
     bnd (gets (\<lambda>xg. bounds (snd xg))) (\<lambda>(f, l).
     bnd (if f \<le> nbr \<and> nbr \<le> l then
            bnd (on_snd (in_nv (arr_sget nbr))) (\<lambda>e.
            case e of
              None \<Rightarrow> retrieve_and_store fmt retr nbr
            | Some (a, n) \<Rightarrow>
                bnd (on_snd (in_nv (kind_at a))) (\<lambda>k.
                if k = k_article
                then bnd (on_snd (in_nv (article_at nbr a n 2))) (\<lambda>art. ret (Some art))
                else if k = k_bigarticle then
                  bnd (gets (\<lambda>xg. ng_files (snd xg) (art_file nbr))) (\<lambda>t.
                  case t of
                    None \<Rightarrow> retrieve_and_store fmt retr nbr
                  | Some t' \<Rightarrow> ret (Some (read_file (article_nbr (i32 (int nbr))) t')))
                else retrieve_and_store fmt retr nbr))
          else ret None) (\<lambda>r.
     bnd (on_snd (ng_lock UnLock)) (\<lambda>_. ret r))))"

definition nv_printarticle :: "overfmt \<Rightarrow> 'x retriever \<Rightarrow> nat \<Rightarrow> ('x \<times> ngroup, string) act" where
  "nv_printarticle fmt retr nbr =
     bnd (on_snd (ng_lock ShrdLock)) (\<lambda>_.
     bnd (gets (\<lambda>xg. bounds (snd xg))) (\<lambda>(f, l).
     bnd (if f \<le> nbr \<and> nbr \<le> l then
            bnd (on_snd (in_nv (arr_sget nbr))) (\<lambda>e.
            case e of
              None \<Rightarrow> ret []
            | Some (a, n) \<Rightarrow>
                bnd (on_snd (in_nv (kind_at a))) (\<lambda>k.
                if k = k_article then on_snd (in_nv (string_at (a + 1)))
                else if k = k_bigarticle then
                  bnd (gets (\<lambda>xg. ng_files (snd xg) (art_file nbr))) (\<lambda>t.
                  ret (case t of None \<Rightarrow> [] | Some t' \<Rightarrow> art_text (read_file (article_nbr (i32 (int nbr))) t')))
                else
                  bnd (retrieve_and_store fmt retr nbr) (\<lambda>r.
                  case r of None \<Rightarrow> crash | Some art \<Rightarrow> ret (art_text art))))
          else ret []) (\<lambda>t.
     bnd (on_snd (ng_lock UnLock)) (\<lambda>_. ret t))))"

section \<open>The bounds\<close>

text \<open>
  The elements that fall out of the bounds are freed, but their entries are not cleared: the
  table is copied without them. \<open>is\<close> are the indices, \<open>f\<close> the first number.
\<close>

fun ng_drop_entries :: "nat \<Rightarrow> nat list \<Rightarrow> (ngroup, unit) act" where
  "ng_drop_entries f [] = ret ()"
| "ng_drop_entries f (i # is) =
     bnd (in_nv (arr_entry i)) (\<lambda>x.
     bnd (if x = 0 then ret ()
          else
            bnd (in_nv (kind_at (x + SZ_ULONG))) (\<lambda>k.
            bnd (if k = k_bigarticle then unlink_file (art_file (u64 (f + i))) else ret ()) (\<lambda>_.
            in_nv (arr_nvfree x)))) (\<lambda>_.
     ng_drop_entries f is))"

text \<open>The differences of the bounds are \<open>long\<close>s.\<close>

definition long :: "nat \<Rightarrow> int" where
  "long n = (if n < 2 ^ 63 then int n else int n - 2 ^ 64)"

definition nv_drop :: "nat \<Rightarrow> nat \<Rightarrow> nat \<Rightarrow> nat \<Rightarrow> (ngroup, unit) act" where
  "nv_drop f l af al =
     (if af \<le> al then
        (let n = long (u64 (sub64 al af + 1))
         in bnd (ng_drop_entries af [0..<nat (min (long (sub64 f af)) n)]) (\<lambda>_.
            ng_drop_entries af [nat (long (u64 (sub64 l af + 1)))..<nat n]))
      else ret ())"

definition nv_setsize :: "nat \<Rightarrow> nat \<Rightarrow> (ngroup, unit) act" where
  "nv_setsize f l =
     bnd (ng_lock ShrdLock) (\<lambda>_.
     bnd (gets bounds) (\<lambda>(af, al).
     bnd (if f = af \<and> l = al then ret ()
          else
            bnd (ng_lock ExclLock) (\<lambda>_.
            bnd (gets bounds) (\<lambda>(af, al).
            bnd (nv_drop f l af al) (\<lambda>_.
            bnd (in_nv (arr_ssetsize f l)) (\<lambda>_.
            ng_lock UnLock))))) (\<lambda>_.
     ng_lock UnLock)))"

definition nv_hasrecord :: "nat \<Rightarrow> (ngroup, int) act" where
  "nv_hasrecord i = in_nv (arr_has_element i)"

end
