(* ===== verification/Cache_Newsgroup.thy ===== *)
theory Cache_Newsgroup
  imports Cache_Server NV_Newsgroup
begin

text \<open>
  NServer-0.9.1/CNewsgroup.{h,cc} and RNewsgroup.{h,cc}: a newsgroup whose articles and overview
  records are fetched from the upstream server and kept in the database, and one that is only
  passed on. The state is the server object and the group object.
\<close>

type_synonym 'n caching = "'n nserver \<times> ngroup"

section \<open>CNewsgroup\<close>

definition fmt_of :: "'n caching \<Rightarrow> overfmt" where
  "fmt_of sg = sv_fmt (fst sg)"

definition now_of :: "'n caching \<Rightarrow> nat" where
  "now_of sg = sv_now (fst sg)"

text \<open>Any exception: all articles are taken to be there.\<close>

definition cg_listgroup :: "nat \<Rightarrow> 'n net_env \<Rightarrow> bool list \<Rightarrow> nat \<Rightarrow> nat \<Rightarrow> ('n caching, bool list) act" where
  "cg_listgroup n N lst f l =
     bnd (gets (\<lambda>sg. ng_name (snd sg))) (\<lambda>name.
     try_catch (on_fst (cache_listgroup n N name lst f l)) (\<lambda>_. ret (replicate (length lst) True)))"

definition cg_setsize :: "nat \<Rightarrow> nat \<Rightarrow> (ngroup, unit) act" where
  "cg_setsize f l =
     bnd (ng_lock ShrdLock) (\<lambda>_.
     bnd (gets bounds) (\<lambda>(af, al).
     bnd (if f = af \<and> l = al then ret ()
          else bnd (nv_setsize f l) (\<lambda>_. in_nv (setmtime 0 True))) (\<lambda>_.
     ng_lock UnLock)))"

text \<open>\<open>getsize\<close> into \<open>unsigned int\<close>s.\<close>

definition size32 :: "ngroup \<Rightarrow> nat \<times> nat" where
  "size32 g = (case bounds g of (f, l) \<Rightarrow> (u32 f, u32 l))"

definition cg_sUpdateGroupInfo :: "nat \<Rightarrow> 'n net_env \<Rightarrow> ('n caching, nat \<times> nat) act" where
  "cg_sUpdateGroupInfo n N =
     try_catch
       (bnd (gets (\<lambda>sg. ng_name (snd sg))) (\<lambda>name.
        bnd (on_fst (cache_groupinfo n N name)) (\<lambda>info.
        bnd (gets (\<lambda>sg. size32 (snd sg))) (\<lambda>(f, l).
        bnd (if gi_fst info \<noteq> f \<or> gi_lst info \<noteq> l
             then bnd (if gi_fst info < f then on_snd (in_nv arr_clear) else ret ()) (\<lambda>_.
                  on_snd (cg_setsize (gi_fst info) (gi_lst info)))
             else ret ()) (\<lambda>_.
        ret (gi_fst info, gi_lst info))))))
       (\<lambda>_. gets (\<lambda>sg. size32 (snd sg)))"

definition has_elem :: "nat \<Rightarrow> ('n caching, bool) act" where
  "has_elem i = bnd (on_snd (in_nv (arr_shas_element i))) (\<lambda>x. ret (x \<noteq> 0))"

definition cg_overviewdb :: "nat \<Rightarrow> 'n net_env \<Rightarrow> nat \<Rightarrow> nat \<Rightarrow> ('n caching, unit) act" where
  "cg_overviewdb n N f l =
     bnd (gets (\<lambda>sg. (ng_name (snd sg), now_of sg))) (\<lambda>(name, now).
     cache_overviewdb n N name (nv_readoverdb now) f l)"

text \<open>The server's flag of an article, in an array of flags from the number \<open>f\<close> on.\<close>

definition listed :: "bool list \<Rightarrow> nat \<Rightarrow> nat \<Rightarrow> ('s, bool) act" where
  "listed lst f i = (let k = u32_of_int (int i - int f) in if k < length lst then ret (lst ! k) else crash)"

text \<open>
  The last of the numbers from \<open>f\<close> on that are to be fetched in one go: as long as the next one
  that is missing is at most seven numbers away. Returned with the number where the search ended.
\<close>

partial_function (option) fetch_range ::
  "nat \<Rightarrow> nat \<Rightarrow> bool list \<Rightarrow> nat \<Rightarrow> nat \<Rightarrow> 'n caching \<Rightarrow> ((nat \<times> nat) outcome \<times> 'n caching) option" where
  "fetch_range infof infol lst i l sg =
     (if i < u32 (l + 8) \<and> i \<le> infol then
        obnd (Some (has_elem i sg)) (\<lambda>h sg1.
        obnd (Some ((if h then ret False else listed lst infof i) sg1)) (\<lambda>fetch sg2.
        fetch_range infof infol lst (u32 (i + 1)) (if fetch then i else l) sg2))
      else Some (Ok (l, i), sg))"

declare fetch_range.simps [code]

text \<open>
  An article that the server no longer has: its file goes by its index in the table and
  another suffix than the one it was written with.
\<close>

definition cg_delete :: "nat \<Rightarrow> (ngroup, unit) act" where
  "cg_delete i =
     bnd (in_nv (arr_entry i)) (\<lambda>x.
     bnd (in_nv (kind_at (x + SZ_ULONG))) (\<lambda>k.
     bnd (if k = k_bigarticle then unlink_file (art_file i @ ''d'') else ret ()) (\<lambda>_.
     bnd (in_nv (arr_nvfree x)) (\<lambda>_.
     in_nv (arr_set_entry i 0)))))"

partial_function (option) update_loop ::
  "nat \<Rightarrow> 'n net_env \<Rightarrow> nat \<Rightarrow> nat \<Rightarrow> bool list \<Rightarrow> nat \<Rightarrow> 'n caching \<Rightarrow> (unit outcome \<times> 'n caching) option" where
  "update_loop n N infof infol lst f sg =
     (if infol < f then Some (Ok (), sg)
      else
        obnd (Some (has_elem f sg)) (\<lambda>h sg1.
        obnd (Some (listed lst infof f sg1)) (\<lambda>there sg2.
        if h = there then update_loop n N infof infol lst (u32 (f + 1)) sg2
        else if there then
          obnd (fetch_range infof infol lst (u32 (f + 1)) f sg2) (\<lambda>(l, i) sg3.
          obnd (Some (cg_overviewdb n N f l sg3)) (\<lambda>_ sg4.
          update_loop n N infof infol lst i sg4))
        else
          obnd (Some (on_snd (cg_delete (u32_of_int (int f - int infof))) sg2)) (\<lambda>_ sg3.
          update_loop n N infof infol lst (u32 (f + 1)) sg3))))"

declare update_loop.simps [code]

definition cg_sUpdateOverview :: "nat \<Rightarrow> 'n net_env \<Rightarrow> ('n caching, unit) act" where
  "cg_sUpdateOverview n N =
     bnd (cg_sUpdateGroupInfo n N) (\<lambda>(infof, infol).
     try_catch
       (bnd (cg_listgroup n N (replicate (u32_of_int (int infol - int infof + 1)) False) infof infol) (\<lambda>lst.
        bnd (loop (update_loop n N infof infol lst infof)) (\<lambda>_.
        bnd (gets now_of) (\<lambda>now. on_snd (in_nv (setmtime now False))))))
       (\<lambda>_. ret ()))"

definition cg_updateOverview :: "nat \<Rightarrow> 'n net_env \<Rightarrow> nat \<Rightarrow> ('n caching, unit) act" where
  "cg_updateOverview n N ttl =
     bnd (on_snd (in_nv getmtime)) (\<lambda>mt.
     bnd (gets now_of) (\<lambda>now.
     if now \<le> u64 (mt + ttl) then ret ()
     else
       bnd (on_snd (ng_lock ExclLock)) (\<lambda>_.
       bnd (cg_sUpdateOverview n N) (\<lambda>_.
       on_snd (ng_lock UnLock)))))"

definition cg_prefetchOverview :: "nat \<Rightarrow> 'n net_env \<Rightarrow> ('n caching, unit) act" where
  "cg_prefetchOverview n N =
     bnd (on_snd (ng_lock ExclLock)) (\<lambda>_. bnd (cg_sUpdateOverview n N) (\<lambda>_. on_snd (ng_lock UnLock)))"

definition cg_retrievearticle :: "nat \<Rightarrow> 'n net_env \<Rightarrow> 'n nserver retriever" where
  "cg_retrievearticle n N nbr =
     bnd (gets (\<lambda>sg. ng_name (snd sg))) (\<lambda>name.
     try_catch (bnd (on_fst (cache_article n N name nbr article_new)) (\<lambda>a. ret (Some a))) (\<lambda>_. ret None))"

definition cg_getarticle :: "nat \<Rightarrow> 'n net_env \<Rightarrow> nat \<Rightarrow> ('n caching, article option) act" where
  "cg_getarticle n N nbr = bnd (gets fmt_of) (\<lambda>fmt. nv_getarticle fmt (cg_retrievearticle n N) nbr)"

definition cg_printarticle :: "nat \<Rightarrow> 'n net_env \<Rightarrow> nat \<Rightarrow> ('n caching, string) act" where
  "cg_printarticle n N nbr = bnd (gets fmt_of) (\<lambda>fmt. nv_printarticle fmt (cg_retrievearticle n N) nbr)"

text \<open>The functions that bring the overview database up to date first.\<close>

definition cg_getover :: "nat \<Rightarrow> 'n net_env \<Rightarrow> nat \<Rightarrow> nat \<Rightarrow> ('n caching, string) act" where
  "cg_getover n N ttl nbr =
     bnd (cg_updateOverview n N ttl) (\<lambda>_. bnd (gets fmt_of) (\<lambda>fmt. on_snd (nv_getover fmt nbr)))"

text \<open>A printing function of the group, and the output stream beside both objects.\<close>

definition on_group :: "(ngroup \<times> string, 'a) act \<Rightarrow> ('n caching \<times> string, 'a) act" where
  "on_group f st = (case st of ((s, g), out) \<Rightarrow> case f (g, out) of (r, (g', out')) \<Rightarrow> (r, ((s, g'), out')))"

definition printed :: "nat \<Rightarrow> 'n net_env \<Rightarrow> nat \<Rightarrow> (overfmt \<Rightarrow> (ngroup \<times> string, unit) act)
    \<Rightarrow> ('n caching \<times> string, unit) act" where
  "printed n N ttl f =
     bnd (on_fst (cg_updateOverview n N ttl)) (\<lambda>_. bnd (on_fst (gets fmt_of)) (\<lambda>fmt. on_group (f fmt)))"

definition cg_printheaderdb where
  "cg_printheaderdb n N ttl header f l = printed n N ttl (\<lambda>fmt. nv_printheaderdb fmt header f l)"

definition cg_printlistgroup where
  "cg_printlistgroup n N ttl = printed n N ttl (\<lambda>_. nv_printlistgroup)"

definition cg_printover where
  "cg_printover n N ttl nbr = printed n N ttl (\<lambda>fmt. nv_printover fmt nbr)"

definition cg_printoverdb where
  "cg_printoverdb n N ttl f l = printed n N ttl (\<lambda>fmt. nv_printoverdb fmt f l)"

subsection \<open>Fetching a whole group\<close>

definition sget_kind :: "nat \<Rightarrow> ('n caching, char option) act" where
  "sget_kind f =
     on_snd (in_nv (bnd (arr_sget f) (\<lambda>e.
       case e of None \<Rightarrow> ret None | Some (a, n) \<Rightarrow> bnd (kind_at a) (\<lambda>k. ret (Some k)))))"

definition unless_locked :: "bool \<Rightarrow> lockcmd \<Rightarrow> ('n caching, unit) act" where
  "unless_locked lockgrp c = (if lockgrp then ret () else on_snd (ng_lock c))"

text \<open>
  One number: nothing to do when both have the article or neither. Without \<open>lockgrp\<close> the group is
  locked exclusively for one number at a time, and the element is looked at again.
\<close>

definition prefetch_one :: "nat \<Rightarrow> 'n net_env \<Rightarrow> bool \<Rightarrow> nat \<Rightarrow> bool list \<Rightarrow> nat \<Rightarrow> ('n caching, unit) act" where
  "prefetch_one n N lockgrp infof lst f =
     bnd (sget_kind f) (\<lambda>e.
     bnd (listed lst infof f) (\<lambda>there.
         if (case e of None \<Rightarrow> \<not> there | Some k \<Rightarrow> (k = k_article \<or> k = k_bigarticle) \<and> there) then ret ()
         else
           bnd (unless_locked lockgrp ExclLock) (\<lambda>_.
           bnd (if lockgrp then ret e else sget_kind f) (\<lambda>e.
           bnd (if there \<and> (e = None \<or> e = Some k_overview) then
                  bnd (cg_retrievearticle n N f) (\<lambda>r.
                  bnd (gets fmt_of) (\<lambda>fmt.
                  case r of None \<Rightarrow> ret () | Some a \<Rightarrow> on_snd (nv_setarticle fmt a)))
                else if \<not> there \<and> e \<noteq> None then on_snd (cg_delete (u32_of_int (int f - int infof)))
                else ret ()) (\<lambda>_.
           unless_locked lockgrp UnLock)))))"

partial_function (option) prefetch_loop ::
  "nat \<Rightarrow> 'n net_env \<Rightarrow> bool \<Rightarrow> nat \<Rightarrow> nat \<Rightarrow> bool list \<Rightarrow> nat \<Rightarrow> 'n caching \<Rightarrow> (unit outcome \<times> 'n caching) option" where
  "prefetch_loop n N lockgrp infof infol lst f sg =
     (if infol < f then Some (Ok (), sg)
      else obnd (Some (prefetch_one n N lockgrp infof lst f sg)) (\<lambda>_ sg1.
           prefetch_loop n N lockgrp infof infol lst (u32 (f + 1)) sg1))"

declare prefetch_loop.simps [code]

definition cg_prefetchGroup :: "nat \<Rightarrow> 'n net_env \<Rightarrow> bool \<Rightarrow> ('n caching, unit) act" where
  "cg_prefetchGroup n N lockgrp =
     bnd (on_snd (ng_lock ExclLock)) (\<lambda>_.
     bnd (cg_sUpdateGroupInfo n N) (\<lambda>(infof, infol).
     bnd (if lockgrp then ret ()
          else bnd (on_snd (ng_lock UnLock)) (\<lambda>_. on_snd (ng_lock ShrdLock))) (\<lambda>_.
     bnd (try_catch
       (bnd (cg_listgroup n N (replicate (u32_of_int (int infol - int infof + 1)) False) infof infol) (\<lambda>lst.
        bnd (loop (prefetch_loop n N lockgrp infof infol lst infof)) (\<lambda>_.
        bnd (gets now_of) (\<lambda>now. on_snd (in_nv (setmtime now False))))))
       (\<lambda>_. ret ())) (\<lambda>_.
     on_snd (ng_lock UnLock)))))"

section \<open>RNewsgroup\<close>

text \<open>The overview records that have been read, in the order of their numbers.\<close>

record rgroup =
  rg_name :: string
  rg_overdb :: "(nat \<times> string) list"
  rg_first :: nat
  rg_last :: nat

definition rg_new :: "string \<Rightarrow> rgroup" where
  "rg_new name = \<lparr>rg_name = take 512 (c_str name), rg_overdb = [], rg_first = 1, rg_last = 0\<rparr>"

fun nat_put :: "nat \<Rightarrow> string \<Rightarrow> (nat \<times> string) list \<Rightarrow> (nat \<times> string) list" where
  "nat_put k v [] = [(k, v)]"
| "nat_put k v ((k', v') # m) =
     (if k = k' then (k, v) # m else if k < k' then (k, v) # (k', v') # m else (k', v') # nat_put k v m)"

definition rg_setover :: "string \<Rightarrow> (rgroup, unit) act" where
  "rg_setover ov =
     upd (\<lambda>g. let i = u32_of_int (atoi (c_str ov))
          in if rg_first g \<le> i \<and> i \<le> rg_last g then g\<lparr>rg_overdb := nat_put i ov (rg_overdb g)\<rparr> else g)"

function rg_read_lines :: "overfmt \<Rightarrow> istream \<Rightarrow> string \<Rightarrow> (rgroup, istream) act" where
  "rg_read_lines fmt is line =
     (if is_fail is \<and> \<not> is_eof is then (\<lambda>g. (Diverge, g))
      else
        let (line', is') = nlreadline is line False
        in if line' = ''.'' \<or> is_eof is' then ret is'
           else
             bnd (if dotrans fmt then bnd (of_outcome (convert_record fmt line')) rg_setover
                  else rg_setover line') (\<lambda>_.
             rg_read_lines fmt is' line'))"
  by pat_completeness auto
termination
proof (relation "measure (\<lambda>(fmt, is, l). length (inp is))", goal_cases)
  case (2 fmt i line x line' i')
  then show ?case using nlreadline_shorter [of i line False line' i'] by simp
qed simp

declare rg_read_lines.simps [simp del]

definition rg_readoverdb :: "overfmt \<Rightarrow> istream \<Rightarrow> (rgroup, istream) act" where
  "rg_readoverdb fmt is = rg_read_lines fmt is []"

type_synonym 'n passing = "'n nserver \<times> rgroup"

definition rg_overviewdb :: "nat \<Rightarrow> 'n net_env \<Rightarrow> nat \<Rightarrow> nat \<Rightarrow> ('n passing, unit) act" where
  "rg_overviewdb n N f l =
     bnd (gets (\<lambda>sg. rg_name (snd sg))) (\<lambda>name. cache_overviewdb n N name rg_readoverdb f l)"

text \<open>
  A group that starts later keeps the old first number when no article has been added; one with
  new articles is asked for all numbers from the old end on.
\<close>

definition rg_setsize :: "nat \<Rightarrow> 'n net_env \<Rightarrow> nat \<Rightarrow> nat \<Rightarrow> ('n passing, unit) act" where
  "rg_setsize n N f l =
     bnd (gets snd) (\<lambda>g.
     if f < rg_first g \<or> l < rg_last g then
       bnd (on_snd (upd (\<lambda>g. g\<lparr>rg_overdb := [], rg_first := f, rg_last := l\<rparr>))) (\<lambda>_.
       rg_overviewdb n N f l)
     else
       bnd (on_snd (upd (\<lambda>g. if rg_first g < f
              then g\<lparr>rg_overdb := filter (\<lambda>e. f \<le> fst e) (rg_overdb g)\<rparr> else g))) (\<lambda>_.
       if rg_last g < l then
         bnd (on_snd (upd (\<lambda>g. g\<lparr>rg_first := f, rg_last := l\<rparr>))) (\<lambda>_.
         rg_overviewdb n N (u32 (rg_last g + 1)) l)
       else ret ()))"

definition rg_getarticle :: "nat \<Rightarrow> 'n net_env \<Rightarrow> nat \<Rightarrow> ('n passing, article option) act" where
  "rg_getarticle n N nbr =
     bnd (gets (\<lambda>sg. rg_name (snd sg))) (\<lambda>name.
     try_catch (bnd (on_fst (cache_article n N name nbr article_new)) (\<lambda>a. ret (Some a))) (\<lambda>_. ret None))"

definition rg_printarticle :: "nat \<Rightarrow> 'n net_env \<Rightarrow> nat \<Rightarrow> ('n passing, string) act" where
  "rg_printarticle n N nbr =
     bnd (rg_getarticle n N nbr) (\<lambda>r. ret (case r of None \<Rightarrow> [] | Some a \<Rightarrow> art_text a))"

text \<open>\<open>None\<close> is the null pointer.\<close>

definition rg_getover :: "rgroup \<Rightarrow> nat \<Rightarrow> string option" where
  "rg_getover g nbr = map_option c_str (map_of (rg_overdb g) nbr)"

definition rg_hasrecord :: "rgroup \<Rightarrow> nat \<Rightarrow> bool" where
  "rg_hasrecord g i \<longleftrightarrow> map_of (rg_overdb g) i \<noteq> None"

text \<open>\<open>printoverdb\<close> of the base class.\<close>

definition rg_printoverdb :: "nat \<Rightarrow> nat \<Rightarrow> (rgroup \<times> string, unit) act" where
  "rg_printoverdb f l =
     bnd (on_fst (gets id)) (\<lambda>g.
     print_range (max f (rg_first g)) (min l (rg_last g)) (\<lambda>i.
       bnd (gets (\<lambda>g. rg_getover g i)) (\<lambda>o'. ret (case o' of None \<Rightarrow> [] | Some t \<Rightarrow> t @ CRLF))))"

definition rg_header_line :: "overfmt \<Rightarrow> string \<Rightarrow> nat \<Rightarrow> (rgroup, string) act" where
  "rg_header_line fmt xheader i =
     bnd (gets (\<lambda>g. rg_getover g i)) (\<lambda>o'.
     try_catch
       (bnd (of_outcome (over_getfield fmt (case o' of None \<Rightarrow> [] | Some t \<Rightarrow> t) xheader 0)) (\<lambda>fld.
        ret (show_nat i @ '' '' @ fld @ CRLF)))
       (\<lambda>e. case e of NoSuchFieldError _ \<Rightarrow> ret (show_nat i @ '' (none)'' @ CRLF) | _ \<Rightarrow> throw e))"

definition rg_printheaderdb :: "overfmt \<Rightarrow> string \<Rightarrow> nat \<Rightarrow> nat \<Rightarrow> (rgroup \<times> string, unit) act" where
  "rg_printheaderdb fmt header f l =
     (if 512 \<le> length header + 1 then crash
      else
        bnd (on_fst (gets rg_overdb)) (\<lambda>db.
        print_each (rg_header_line fmt (header @ '':''))
          (filter (\<lambda>i. f \<le> i \<and> i \<le> l) (map fst db))))"

definition rg_printlistgroup :: "(rgroup \<times> string, unit) act" where
  "rg_printlistgroup =
     bnd (on_fst (gets rg_overdb)) (\<lambda>db. emit (concat (map (\<lambda>e. show_nat (fst e) @ CRLF) db)))"

end
