(* ===== verification/Cache_Groups.thy ===== *)
theory Cache_Groups
  imports Cache_Newsgroup Client_Session
begin

text \<open>
  NServer-0.9.1/NServer.cc: \<open>CServer::getgroup\<close>, which makes a newsgroup object of the kind that the
  configuration asks for, and the whole server as the object that a client session works with:
  the virtual functions that NewsCache.cc calls, on the world of the server, its newsgroup
  objects and the files.
\<close>

section \<open>The world\<close>

datatype group_obj = NVGroup ngroup | CGroup ngroup nat | RGroup rgroup

text \<open>
  The objects by their handle, a deleted one is \<open>None\<close>; the databases of the newsgroups that are
  not open and the files in their directories.
\<close>

record 'n world =
  wd_srv :: "'n nserver"
  wd_objs :: "group_obj option list"
  wd_disk :: "string \<Rightarrow> (mem \<times> nat) option"
  wd_files :: "string \<Rightarrow> string \<Rightarrow> string option"
  wd_os :: osenv

definition in_srv :: "('n nserver, 'a) act \<Rightarrow> ('n world, 'a) act" where
  "in_srv f w = (case f (wd_srv w) of (r, s) \<Rightarrow> (r, w\<lparr>wd_srv := s\<rparr>))"

definition group_dir :: "'n world \<Rightarrow> string \<Rightarrow> string" where
  "group_dir w name = sv_spooldir (wd_srv w) @ ''/'' @ group2dir (c_str name)"

section \<open>Making and deleting objects\<close>

text \<open>The constructor of \<open>NVNewsgroup\<close>; the directory can be made.\<close>

definition nv_new :: "string \<Rightarrow> ('n world, ngroup) act" where
  "nv_new name w =
     (let dir = group_dir w name
      in case open_nv (dir @ ''/.db'') (nvcontainer_new ClsArray (wd_os w) (wd_disk w)) of
           (Ok _, s) \<Rightarrow> (Ok \<lparr>ng_name = take MAXGROUPNAMELEN (c_str name), ng_nv = s, ng_files = wd_files w dir\<rparr>,
                        w\<lparr>wd_disk := disk s\<rparr>)
         | (Throw e, s) \<Rightarrow> (Throw e, w\<lparr>wd_disk := disk s\<rparr>)
         | (Crash, s) \<Rightarrow> (Crash, w)
         | (Diverge, s) \<Rightarrow> (Diverge, w))"

definition new_obj :: "group_obj \<Rightarrow> ('n world, nat) act" where
  "new_obj g = bnd (gets (\<lambda>w. length (wd_objs w))) (\<lambda>h.
     bnd (upd (\<lambda>w. w\<lparr>wd_objs := wd_objs w @ [Some g]\<rparr>)) (\<lambda>_. ret h))"

definition with_pair :: "('n nserver \<times> 'g, 'a) act \<Rightarrow> 'g \<Rightarrow> ('n world, 'a \<times> 'g) act" where
  "with_pair f g w = (case f (wd_srv w, g) of
      (Ok a, (s, g')) \<Rightarrow> (Ok (a, g'), w\<lparr>wd_srv := s\<rparr>)
    | (Throw e, (s, g')) \<Rightarrow> (Throw e, w\<lparr>wd_srv := s\<rparr>)
    | (Crash, (s, g')) \<Rightarrow> (Crash, w\<lparr>wd_srv := s\<rparr>)
    | (Diverge, (s, g')) \<Rightarrow> (Diverge, w\<lparr>wd_srv := s\<rparr>))"

text \<open>The destructor: the database is closed and stays on the disk.\<close>

definition free_ngroup :: "ngroup \<Rightarrow> ('n world, unit) act" where
  "free_ngroup g w =
     (case close_nv ((ng_nv g)\<lparr>disk := wd_disk w\<rparr>) of
        (r, s) \<Rightarrow> (r, w\<lparr>wd_disk := disk s, wd_files := (wd_files w)(group_dir w (ng_name g) := ng_files g)\<rparr>))"

definition w_freegroup :: "nat \<Rightarrow> ('n world, unit) act" where
  "w_freegroup h =
     bnd (gets (\<lambda>w. if h < length (wd_objs w) then wd_objs w ! h else None)) (\<lambda>g.
     bnd (upd (\<lambda>w. w\<lparr>wd_objs := (wd_objs w)[h := None]\<rparr>)) (\<lambda>_.
     case g of
       None \<Rightarrow> crash
     | Some (NVGroup g) \<Rightarrow> free_ngroup g
     | Some (CGroup g _) \<Rightarrow> free_ngroup g
     | Some (RGroup _) \<Rightarrow> ret ()))"

section \<open>CServer::getgroup\<close>

definition w_getgroup :: "nat \<Rightarrow> 'n net_env \<Rightarrow> string \<Rightarrow> ('n world, nat) act" where
  "w_getgroup n N name =
     bnd (in_srv (server_of name)) (\<lambda>srv.
     case srv of
       None \<Rightarrow> throw (NoSuchGroupError ''no such group'')
     | Some e \<Rightarrow>
         if offline e then
           bnd (in_srv (in_active (adb_get name gi_new))) (\<lambda>r.
           case r of
             None \<Rightarrow> throw (NoSuchGroupError ''no such group'')
           | Some gi \<Rightarrow>
               bnd (nv_new name) (\<lambda>g.
               bnd (with_pair (on_snd (nv_setsize (gi_fst gi) (gi_lst gi))) g) (\<lambda>(_, g').
               new_obj (NVGroup g'))))
         else if \<not> has_bit (flags e) F_CACHED then
           bnd (in_srv (cache_groupinfo n N name)) (\<lambda>info.
           bnd (in_srv (in_active (adb_get name info))) (\<lambda>r.
           case r of
             None \<Rightarrow> throw (NoSuchGroupError ''no such group'')
           | Some gi \<Rightarrow>
               bnd (with_pair (rg_setsize n N (gi_fst gi) (gi_lst gi)) (rg_new name)) (\<lambda>(_, g').
               new_obj (RGroup g'))))
         else
           bnd (in_srv (cache_groupinfo n N name)) (\<lambda>gi.
           bnd (nv_new name) (\<lambda>g.
           bnd (with_pair (on_snd (cg_setsize (gi_fst gi) (gi_lst gi))) g) (\<lambda>(_, g').
           new_obj (CGroup g' (u64_of_int (groupTimeout e)))))))"

section \<open>Calling a virtual function\<close>

text \<open>\<open>'s\<close> is what the function works on beside the objects: nothing, or the output stream.\<close>

definition store_obj :: "nat \<Rightarrow> group_obj \<Rightarrow> 'n nserver \<Rightarrow> 'n world \<Rightarrow> 'n world" where
  "store_obj h g s w = w\<lparr>wd_srv := s, wd_objs := (wd_objs w)[h := Some g]\<rparr>"

definition call_obj ::
  "nat \<Rightarrow> ('n caching, 'a) act \<Rightarrow> (nat \<Rightarrow> ('n caching, 'a) act) \<Rightarrow> ('n passing, 'a) act \<Rightarrow> ('n world, 'a) act" where
  "call_obj h nv cg rg w =
     (case (if h < length (wd_objs w) then wd_objs w ! h else None) of
        None \<Rightarrow> (Crash, w)
      | Some (NVGroup g) \<Rightarrow> (case nv (wd_srv w, g) of (r, (s, g')) \<Rightarrow> (r, store_obj h (NVGroup g') s w))
      | Some (CGroup g t) \<Rightarrow> (case cg t (wd_srv w, g) of (r, (s, g')) \<Rightarrow> (r, store_obj h (CGroup g' t) s w))
      | Some (RGroup g) \<Rightarrow> (case rg (wd_srv w, g) of (r, (s, g')) \<Rightarrow> (r, store_obj h (RGroup g') s w)))"

definition call_print ::
  "nat \<Rightarrow> ('n caching \<times> string, unit) act \<Rightarrow> (nat \<Rightarrow> ('n caching \<times> string, unit) act)
    \<Rightarrow> ('n passing \<times> string, unit) act \<Rightarrow> ('n world \<times> string, unit) act" where
  "call_print h nv cg rg wo =
     (case wo of (w, out) \<Rightarrow>
      case (if h < length (wd_objs w) then wd_objs w ! h else None) of
        None \<Rightarrow> (Crash, wo)
      | Some (NVGroup g) \<Rightarrow> (case nv ((wd_srv w, g), out) of (r, ((s, g'), out')) \<Rightarrow> (r, (store_obj h (NVGroup g') s w, out')))
      | Some (CGroup g t) \<Rightarrow> (case cg t ((wd_srv w, g), out) of (r, ((s, g'), out')) \<Rightarrow> (r, (store_obj h (CGroup g' t) s w, out')))
      | Some (RGroup g) \<Rightarrow> (case rg ((wd_srv w, g), out) of (r, ((s, g'), out')) \<Rightarrow> (r, (store_obj h (RGroup g') s w, out'))))"

definition on_rgroup :: "(rgroup \<times> string, 'a) act \<Rightarrow> ('n passing \<times> string, 'a) act" where
  "on_rgroup f st = (case st of ((s, g), out) \<Rightarrow> case f (g, out) of (r, (g', out')) \<Rightarrow> (r, ((s, g'), out')))"

section \<open>The server of a session\<close>

text \<open>A null pointer from \<open>getover\<close> is read by every caller.\<close>

definition cache_server :: "nat \<Rightarrow> 'n net_env \<Rightarrow> (nat, 'n world) cserver" where
  "cache_server n N =
     \<lparr>cs_groupinfo = (\<lambda>name. in_srv (cache_groupinfo n N name)),
      cs_getgroup = w_getgroup n N,
      cs_freegroup = w_freegroup,
      cs_article = (\<lambda>ident. in_srv (cache_article_id n N ident article_new)),
      cs_active = in_srv (cache_active n N),
      cs_groups = in_srv (in_active adb_groups),
      cs_overviewfmt = (\<lambda>w. sv_fmt (wd_srv w)),
      cs_post = (\<lambda>a. bnd (with_pair (cache_post n N) a) (\<lambda>(r, _). ret r)),
      ng_setsize = (\<lambda>h f l. call_obj h (on_snd (nv_setsize f l)) (\<lambda>_. on_snd (cg_setsize f l)) (rg_setsize n N f l)),
      ng_getsize = (\<lambda>h. call_obj h (gets (\<lambda>sg. size32 (snd sg))) (\<lambda>_. gets (\<lambda>sg. size32 (snd sg)))
         (gets (\<lambda>sg. (rg_first (snd sg), rg_last (snd sg))))),
      ng_getarticle = (\<lambda>h nbr. call_obj h
         (bnd (gets fmt_of) (\<lambda>fmt. nv_getarticle fmt no_retriever nbr))
         (\<lambda>_. cg_getarticle n N nbr) (rg_getarticle n N nbr)),
      ng_getover = (\<lambda>h nbr. call_obj h
         (bnd (gets fmt_of) (\<lambda>fmt. on_snd (nv_getover fmt nbr)))
         (\<lambda>t. cg_getover n N t nbr)
         (bnd (gets (\<lambda>sg. rg_getover (snd sg) nbr)) (\<lambda>o'. case o' of None \<Rightarrow> crash | Some t \<Rightarrow> ret t))),
      ng_printlistgroup = (\<lambda>h. call_print h (on_group nv_printlistgroup) (\<lambda>t. cg_printlistgroup n N t)
         (on_rgroup rg_printlistgroup)),
      ng_printoverdb = (\<lambda>h f l. call_print h
         (bnd (on_fst (gets fmt_of)) (\<lambda>fmt. on_group (nv_printoverdb fmt f l)))
         (\<lambda>t. cg_printoverdb n N t f l) (on_rgroup (rg_printoverdb f l))),
      ng_printheaderdb = (\<lambda>h header f l. call_print h
         (bnd (on_fst (gets fmt_of)) (\<lambda>fmt. on_group (nv_printheaderdb fmt header f l)))
         (\<lambda>t. cg_printheaderdb n N t header f l)
         (bnd (on_fst (gets (\<lambda>sg. sv_fmt (fst sg)))) (\<lambda>fmt. on_rgroup (rg_printheaderdb fmt header f l))))\<rparr>"

end
