(* ===== verification/NV_Array_Ok.thy ===== *)
theory NV_Array_Ok
  imports NV_Array NV_List_Ok
begin

text \<open>
  The array of NVArray.cc as a map from numbers to byte strings: what looking up an element,
  storing one where there is none, freeing one and setting the bounds do to that map, and that
  they keep the heap the array lives in.
\<close>

section \<open>The table in memory\<close>

text \<open>The entry of number \<open>i\<close> in the table that begins at \<open>u\<close> with the bounds from \<open>f\<close> on.\<close>

definition slot :: "nat \<Rightarrow> nat \<Rightarrow> nat \<Rightarrow> nat" where
  "slot u f i = u + 16 + 8 * (i - f)"

definition elem_at :: "mem \<Rightarrow> (nat \<times> nat) set \<Rightarrow> nat \<Rightarrow> nat \<Rightarrow> string \<Rightarrow> bool" where
  "elem_at m B u x d \<longleftrightarrow> x \<noteq> u \<and> (\<exists>c. (x, c) \<in> B \<and> 8 + length d \<le> c)
     \<and> rl m x = length d \<and> rbytes m (x + 8) (length d) = d"

text \<open>\<open>D\<close>: the numbers whose entries mean nothing at the moment.\<close>

definition table_at :: "mem \<Rightarrow> (nat \<times> nat) set \<Rightarrow> nat \<Rightarrow> nat \<Rightarrow> nat \<Rightarrow> nat set \<Rightarrow> (nat \<rightharpoonup> string) \<Rightarrow> bool" where
  "table_at m B u f l D A \<longleftrightarrow> (\<exists>c. (u, c) \<in> B \<and> 16 + 8 * (l + 1 - f) \<le> c)
     \<and> rl m H_userdata = u \<and> rl m u = f \<and> rl m (u + 8) = l \<and> dom A \<subseteq> {f..l} - D
     \<and> (\<forall>i \<in> {f..l} - D. case A i of None \<Rightarrow> rl m (slot u f i) = 0
          | Some d \<Rightarrow> elem_at m B u (rl m (slot u f i)) d)
     \<and> inj_on (\<lambda>i. rl m (slot u f i)) (dom A)"

definition array_at ::
  "nvc \<Rightarrow> (nat \<times> nat) set \<Rightarrow> nat \<Rightarrow> nat \<Rightarrow> nat \<Rightarrow> nat set \<Rightarrow> (nat \<rightharpoonup> string) \<Rightarrow> bool" where
  "array_at s B u f l D A \<longleftrightarrow> nv_holds s B \<and> vcls s = ClsArray \<and> arr_sync s
     \<and> table_at (fbytes s) B u f l D A \<and> f \<le> l + 1 \<and> l < 2 ^ 32"

lemma table_slot:
  assumes "table_at m B u f l D A" and "i \<in> {f..l}"
  shows "\<exists>c. (u, c) \<in> B \<and> u \<le> slot u f i \<and> slot u f i + 8 \<le> u + c"
  using assms by (auto simp: table_at_def slot_def)

lemma slot_inj: "i \<in> {f..l} \<Longrightarrow> j \<in> {f..l} \<Longrightarrow> i \<noteq> j \<Longrightarrow>
    slot u f i + 8 \<le> slot u f j \<or> slot u f j + 8 \<le> slot u f i"
  by (auto simp: slot_def)

lemma table_at_case:
  assumes "table_at m B u f l D A" and "i \<in> {f..l} - D"
  shows "case A i of None \<Rightarrow> rl m (slot u f i) = 0 | Some d \<Rightarrow> elem_at m B u (rl m (slot u f i)) d"
  using assms unfolding table_at_def by blast

lemma table_dom: "table_at m B u f l D A \<Longrightarrow> dom A \<subseteq> {f..l} - D"
  by (simp add: table_at_def)

lemma table_elem:
  assumes "table_at m B u f l D A" and "A i = Some d"
  shows "elem_at m B u (rl m (slot u f i)) d" and "i \<in> {f..l} - D"
proof -
  show i: "i \<in> {f..l} - D" using table_dom [OF assms(1)] assms(2) by blast
  show "elem_at m B u (rl m (slot u f i)) d" using table_at_case [OF assms(1) i] assms(2) by simp
qed

lemma table_none:
  "table_at m B u f l D A \<Longrightarrow> i \<in> {f..l} - D \<Longrightarrow> A i = None \<Longrightarrow> rl m (slot u f i) = 0"
  using table_at_case [of m B u f l D A i] by simp

text \<open>A change of memory that leaves the blocks of the array alone.\<close>

lemma elem_frame:
  assumes "elem_at m B u x d" and "unchanged C m m'" and "\<And>c. (x, c) \<in> B \<Longrightarrow> (x, c) \<in> C" and "C \<subseteq> B'"
  shows "elem_at m' B' u x d"
proof -
  obtain c where c: "(x, c) \<in> B" "8 + length d \<le> c" using assms(1) by (auto simp: elem_at_def)
  then have C: "(x, c) \<in> C" using assms(3) by simp
  have "rl m' x = rl m x" "rbytes m' (x + 8) (length d) = rbytes m (x + 8) (length d)"
    using unchanged_rl [OF assms(2) C] unchanged_rbytes [OF assms(2) C] c by simp_all
  moreover have "(x, c) \<in> B'" using C assms(4) by (rule subsetD [rotated])
  moreover have "x \<noteq> u" "rl m x = length d" "rbytes m (x + 8) (length d) = d"
    using assms(1) by (simp_all add: elem_at_def)
  ultimately show ?thesis
    unfolding elem_at_def by (intro conjI exI [of _ c]) (simp_all add: c(2))
qed

lemma table_frame:
  assumes t: "table_at m B u f l D A" and un: "unchanged C m m'" and ag: "agree m m' H_userdata 8"
    and keep: "\<And>c. (u, c) \<in> B \<Longrightarrow> (u, c) \<in> C"
      "\<And>i c. i \<in> dom A' \<Longrightarrow> (rl m (slot u f i), c) \<in> B \<Longrightarrow> (rl m (slot u f i), c) \<in> C"
    and sub: "C \<subseteq> B'" "D \<subseteq> D'" and A': "A' = A |` (- D')"
  shows "table_at m' B' u f l D' A'"
proof -
  obtain c where c: "(u, c) \<in> B" "16 + 8 * (l + 1 - f) \<le> c" using t by (auto simp: table_at_def)
  have C: "(u, c) \<in> C" using keep(1) c(1) by simp
  have r: "rl m' x = rl m x" if "u \<le> x" "x + 8 \<le> u + 16 + 8 * (l + 1 - f)" for x
    using unchanged_rl [OF un C] that c(2) by simp
  have sl: "rl m' (slot u f i) = rl m (slot u f i)" if "i \<in> {f..l}" for i
    using r [of "slot u f i"] that by (auto simp: slot_def)
  have u0: "rl m' H_userdata = u" using rl_cong [OF ag] t by (simp add: table_at_def)
  have el: "case A' i of None \<Rightarrow> rl m' (slot u f i) = 0 | Some d \<Rightarrow> elem_at m' B' u (rl m' (slot u f i)) d"
    if i: "i \<in> {f..l} - D'" for i
  proof (cases "A' i")
    case None
    then have "A i = None" using i A' by (simp add: restrict_map_def)
    with None table_none [OF t, of i] i sub(2) sl [of i] show ?thesis by auto
  next
    case (Some d)
    then have "A i = Some d" using A' by (simp add: restrict_map_def split: if_splits)
    from elem_frame [OF table_elem(1) [OF t this] un keep(2) [of i] sub(1)] Some sl [of i] i show ?thesis
      by auto
  qed
  have dm: "dom A' \<subseteq> dom A" "dom A' \<subseteq> - D'" using A' by (auto simp: restrict_map_def split: if_splits)
  have inj: "inj_on (\<lambda>i. rl m' (slot u f i)) (dom A')"
  proof -
    have "inj_on (\<lambda>i. rl m (slot u f i)) (dom A')"
      using t dm(1) by (auto simp: table_at_def intro: inj_on_subset)
    moreover have "rl m' (slot u f i) = rl m (slot u f i)" if "i \<in> dom A'" for i
      using sl that dm(1) table_dom [OF t] by blast
    ultimately show ?thesis by (simp add: inj_on_def)
  qed
  show ?thesis
    unfolding table_at_def
  proof (intro conjI ballI)
    show "\<exists>c. (u, c) \<in> B' \<and> 16 + 8 * (l + 1 - f) \<le> c" using c C sub(1) by blast
    show "rl m' 40 = u" by (rule u0)
    show "rl m' u = f" "rl m' (u + 8) = l" using r [of u] r [of "u + 8"] t by (simp_all add: table_at_def)
    show "dom A' \<subseteq> {f..l} - D'" using dm t by (auto simp: table_at_def)
  qed (use el inj in auto)
qed

section \<open>Under a lock\<close>

lemma array_block:
  assumes "array_at s B u f l D A"
  shows "\<exists>c. (u, c) \<in> B \<and> 16 + 8 * (l + 1 - f) \<le> c \<and> 56 \<le> u \<and> u + c \<le> fsize s \<and> fsize s < 2 ^ 31"
proof -
  obtain c where c: "(u, c) \<in> B" "16 + 8 * (l + 1 - f) \<le> c"
    using assms by (auto simp: array_at_def table_at_def)
  have "nv_holds s B" using assms by (simp add: array_at_def)
  from holds_block [OF this c(1)] c show ?thesis by blast
qed

lemma array_loaded:
  assumes "array_at s B u f l D A"
  shows "loaded (fbytes s) = (u + 16, f, l)"
  using array_block [OF assms] assms by (auto simp: array_at_def table_at_def loaded_def Let_def)

lemma array_members:
  assumes "array_at s B u f l D A" and "locks s \<noteq> []"
  shows "arrtab s = u + 16" and "arrfst s = f" and "arrlst s = l" and "mapped s"
  using array_loaded [OF assms(1)] assms holds_mapped [of s B]
  by (auto simp: array_at_def arr_sync_def coherent_def arrs_def)

lemma array_slot_in_map:
  assumes "array_at s B u f l D A" and "locks s \<noteq> []" and "i \<in> {f..l}"
  shows "in_map s (slot u f i) 8" and "0 < u"
proof -
  obtain c where "16 + 8 * (l + 1 - f) \<le> c" "56 \<le> u" "u + c \<le> fsize s"
    using array_block [OF assms(1)] by blast
  then show "in_map s (slot u f i) 8" "0 < u"
    using assms(3) mapped_in_map [OF array_members(4) [OF assms(1,2)]] by (auto simp: slot_def)
qed

lemma array_entry:
  assumes "array_at s B u f l D A" and "locks s \<noteq> []" and "i \<in> {f..l}"
  shows "arr_entry (i - f) s = (Ok (rl (fbytes s) (slot u f i)), s)"
    and "arr_set_entry (i - f) v s = (Ok (), s\<lparr>fbytes := wl (fbytes s) (slot u f i) v\<rparr>)"
  using array_slot_in_map [OF assms] array_members(1) [OF assms(1,2)]
  by (simp_all add: arr_entry_def arr_set_entry_def act_simps slot_def add.assoc)

text \<open>Looking up an element.\<close>

lemma array_elem:
  assumes "array_at s B u f l D A" and "locks s \<noteq> []" and "A i = Some d"
  defines "x \<equiv> rl (fbytes s) (slot u f i)"
  shows "elem_at (fbytes s) B u x d" and "in_map s x (8 + length d)" and "56 \<le> x"
    and "x + 8 + length d \<le> fsize s" and "i \<in> {f..l} - D"
proof -
  have t: "table_at (fbytes s) B u f l D A" using assms(1) by (simp add: array_at_def)
  show e: "elem_at (fbytes s) B u x d" "i \<in> {f..l} - D"
    using table_elem [OF t assms(3)] by (simp_all add: x_def)
  from e(1) obtain c where c: "(x, c) \<in> B" "8 + length d \<le> c" by (auto simp: elem_at_def)
  have "nv_holds s B" using assms(1) by (simp add: array_at_def)
  from holds_block [OF this c(1)] c
  show "56 \<le> x" and le: "x + 8 + length d \<le> fsize s" by simp_all
  show "in_map s x (8 + length d)" using mapped_in_map [OF array_members(4) [OF assms(1,2)]] le by simp
qed

lemma array_sget:
  assumes "array_at s B u f l D A" and "locks s \<noteq> []" and "i \<notin> D"
  shows "arr_sget i s
    = (Ok (map_option (\<lambda>d. (rl (fbytes s) (slot u f i) + 8, length d)) (A i)), s)"
proof (cases "i \<in> {f..l}")
  case False
  then have "A i = None" using table_dom [of "fbytes s" B u f l D A] assms(1) by (auto simp: array_at_def)
  with False show ?thesis using array_members [OF assms(1,2)] by (auto simp: arr_sget_def act_simps)
next
  case True
  note en = array_entry(1) [OF assms(1,2) True]
  show ?thesis
  proof (cases "A i")
    case None
    have "rl (fbytes s) (slot u f i) = 0"
      using table_none [of "fbytes s" B u f l D A i] assms True None by (simp add: array_at_def)
    with None True show ?thesis
      using array_members [OF assms(1,2)] en by (simp add: arr_sget_def act_simps)
  next
    case (Some d)
    note e = array_elem [OF assms(1,2) Some]
    have "in_map s (rl (fbytes s) (slot u f i)) 8" using e(2) by (simp add: in_map_def)
    with Some True e(1,3) show ?thesis
      using array_members [OF assms(1,2)] en by (simp add: arr_sget_def act_simps elem_at_def)
  qed
qed

section \<open>Taking and returning blocks\<close>

lemma loaded_table: "table_at m B u f l D A \<Longrightarrow> 0 < u \<Longrightarrow> loaded m = (u + 16, f, l)"
  by (simp add: table_at_def loaded_def Let_def)

lemma table_restrict: "table_at m B u f l D A \<Longrightarrow> A = A |` (- D)"
  by (rule ext) (auto simp: restrict_map_def dest!: table_dom)

lemma arr_end_le:
  assumes "arrtab s = u + 16" and "arrfst s = f" and "arrlst s = l" and "f \<le> l + 1"
    and "l < 2 ^ 32" and "u < 2 ^ 31"
  shows "arr_end s \<le> u + 8 + 8 * (l + 1 - f)"
proof (cases "f \<le> l")
  case True
  then have "arr_end s = u + 16 + 8 * (l - f)" using assms by (simp add: arr_end_def)
  with True show ?thesis by simp
next
  case False
  with assms(4) have f: "f = l + 1" by simp
  have "sub64 l f = 2 ^ 64 - 1" using assms(5) f by (simp add: sub64_def u64_def)
  then have "arr_end s = u64 (u + 8 + 2 ^ 64 * 8)"
    by (simp add: arr_end_def assms(1-3))
  also have "\<dots> = (u + 8) mod 2 ^ 64" unfolding u64_def by (rule mod_mult_self2)
  also have "\<dots> = u + 8" using assms(6) by simp
  finally show ?thesis using f by simp
qed

lemma array_alloc:
  assumes a: "array_at s B u f l D A" and x: "top_lock (locks s) = ExclLock" and r: "nv_room s n"
  shows "\<exists>s' p c. arr_nvalloc n s = (Ok p, s') \<and> array_at s' (insert (p, c) B) u f l D A
    \<and> (p, c) \<notin> B \<and> n \<le> c \<and> p \<notin> fst ` B \<and> locks s' = locks s \<and> unchanged B (fbytes s) (fbytes s')"
proof -
  have lk: "locks s \<noteq> []" using x by auto
  have h: "nv_holds s B" and ar: "vcls s = ClsArray" and co: "coherent s"
    and t: "table_at (fbytes s) B u f l D A" and fl: "f \<le> l + 1" "l < 2 ^ 32"
    using a lk by (auto simp: array_at_def arr_sync_def)
  obtain c0 where u: "(u, c0) \<in> B" "16 + 8 * (l + 1 - f) \<le> c0" "56 \<le> u" "u + c0 \<le> fsize s" "fsize s < 2 ^ 31"
    using array_block [OF a] by blast
  obtain s' p c m where s': "nvalloc n s = (Ok p, s')" "nv_holds s' (insert (p, c) B)" "(p, c) \<notin> B"
    "n \<le> c" "unchanged B (fbytes s) (fbytes s')" "locks s' = locks s"
    "agree (fbytes s) (fbytes s') H_userdata 8" "same_env s s'"
    "unchanged B (fbytes s) m" "agree (fbytes s) m H_userdata 8" "arrs s' = loaded m"
    using nvalloc_holds [OF h r] ar co x by blast
  have frame: "table_at m' (insert (p, c) B) u f l D A"
    if "unchanged B (fbytes s) m'" "agree (fbytes s) m' H_userdata 8" for m'
    by (rule table_frame [OF t that]) (use table_restrict [OF t] in auto)
  have "loaded m = loaded (fbytes s')"
    using loaded_table [OF frame [OF s'(9,10)]] loaded_table [OF frame [OF s'(5,7)]] u(3) by simp
  then have a': "array_at s' (insert (p, c) B) u f l D A"
    using s'(2,8,11) ar frame [OF s'(5,7)] fl
    by (simp add: array_at_def arr_sync_def coherent_def same_env_def)
  have apart: "p + c \<le> q \<or> q + d \<le> p" if "(q, d) \<in> B" for q d
    using nv.blocks_apart [OF s'(2), of p c q d] that s'(3) by auto
  have c8: "8 \<le> c" using holds_block(4) [OF s'(2), of p c] by simp
  have "p \<noteq> q" if "(q, d) \<in> B" for q d
    using apart [OF that] holds_block(4) [OF h that] c8 by auto
  then have new: "p \<notin> fst ` B" by force
  have "arr_end s' \<le> p \<or> p + n \<le> u + 16"
  proof -
    note mem = array_members(1-3) [OF a'] 
    have "arr_end s' \<le> u + 8 + 8 * (l + 1 - f)"
      by (rule arr_end_le) (use mem lk s'(6) fl u in auto)
    then show ?thesis using apart [OF u(1)] u(2) s'(4) by auto
  qed
  then have "arr_nvalloc n s = (Ok p, s')"
    using array_members(1) [OF a'] lk s'(6) by (auto simp: arr_nvalloc_def act_simps s'(1))
  with a' s' new show ?thesis by blast
qed

lemma holds_size:
  assumes "nv_holds s B" and "(p, c) \<in> B"
  shows "rl (fbytes s) (p - 8) = c + 8" and "8 \<le> p"
proof -
  obtain T where T: "heap (fbytes s) (fsize s) T" "B = (\<lambda>t. (off t + 8, sz t - 8)) ` inuse T"
    using assms(1) by (auto simp: nv_holds_def)
  then obtain t where t: "t \<in> set T" "\<not> is_free t" "p = off t + 8" "c = sz t - 8"
    using assms(2) by (auto simp: inuse_def)
  then show "rl (fbytes s) (p - 8) = c + 8" "8 \<le> p"
    using T(1) heap_bounds(4) [OF T(1) t(1)] by (auto simp: heap_def)
qed

text \<open>Any block but that of the table and those of the elements that stay.\<close>

lemma array_free_block:
  assumes a: "array_at s B u f l D A" and x: "top_lock (locks s) = ExclLock" and c: "(p, c) \<in> B" and pu: "p \<noteq> u"
    and D': "D \<subseteq> D'" "A' = A |` (- D')" "\<And>j. j \<in> dom A' \<Longrightarrow> rl (fbytes s) (slot u f j) \<noteq> p"
  shows "\<exists>s'. arr_nvfree p s = (Ok (), s') \<and> array_at s' (B - {(p, c)}) u f l D' A'
    \<and> locks s' = locks s \<and> fsize s' = fsize s"
proof -
  have lk: "locks s \<noteq> []" using x by auto
  have h: "nv_holds s B" and ar: "vcls s = ClsArray" and co: "coherent s"
    and t: "table_at (fbytes s) B u f l D A" and fl: "f \<le> l + 1" "l < 2 ^ 32"
    using a lk by (auto simp: array_at_def arr_sync_def)
  obtain c0 where u: "(u, c0) \<in> B" "16 + 8 * (l + 1 - f) \<le> c0" "56 \<le> u" "u + c0 \<le> fsize s" "fsize s < 2 ^ 31"
    using array_block [OF a] by blast
  obtain s' where s': "nvfree p s = (Ok (), s')" "nv_holds s' (B - {(p, c)})"
    "unchanged (B - {(p, c)}) (fbytes s) (fbytes s')" "locks s' = locks s"
    "agree (fbytes s) (fbytes s') H_userdata 8" "same_env s s'" "fsize s' = fsize s" "arrs s' = arrs s"
    using nvfree_holds [OF h c] x by blast
  have t': "table_at (fbytes s') (B - {(p, c)}) u f l D' A'"
    by (rule table_frame [OF t s'(3,5)]) (use pu D' in auto)
  have a': "array_at s' (B - {(p, c)}) u f l D' A'"
    using s' ar t' fl co loaded_table [OF t'] loaded_table [OF t] u(3)
    by (simp add: array_at_def arr_sync_def coherent_def same_env_def)
  have "arr_nvfree p s = (Ok (), s')"
  proof (cases "arr_end s \<le> p")
    case True
    then show ?thesis by (simp add: arr_nvfree_def act_simps s'(1))
  next
    case False
    note mem = array_members [OF a lk]
    have "arr_end s \<le> u + 8 + 8 * (l + 1 - f)"
      by (rule arr_end_le [OF mem(1-3) fl]) (use u in simp)
    with False nv.blocks_apart [OF h c u(1)] pu u(2) have le: "p + c \<le> u" by auto
    note sz = holds_size [OF h c]
    have "sub64 p 8 = p - 8" using sz le u by simp
    moreover have "in_map s (p - 8) 8" using mapped_in_map [OF mem(4)] le u sz(2) by simp
    moreover have "i32 (int (c + 8)) = int (c + 8)" using le u sz(2) by simp
    ultimately show ?thesis
      using False le by (simp add: arr_nvfree_def act_simps sz(1) mem(1) s'(1))
  qed
  with a' s'(4,7) show ?thesis by blast
qed

lemma array_free:
  assumes a: "array_at s B u f l D A" and x: "top_lock (locks s) = ExclLock" and i: "A i = Some d"
  defines "p \<equiv> rl (fbytes s) (slot u f i)"
  shows "\<exists>s' c. arr_nvfree p s = (Ok (), s') \<and> (p, c) \<in> B
    \<and> array_at s' (B - {(p, c)}) u f l (insert i D) (A(i := None)) \<and> locks s' = locks s
    \<and> fsize s' = fsize s"
proof -
  have lk: "locks s \<noteq> []" using x by auto
  have t: "table_at (fbytes s) B u f l D A" using a by (simp add: array_at_def)
  obtain c where c: "(p, c) \<in> B" "p \<noteq> u"
    using array_elem(1) [OF a lk i] by (auto simp: elem_at_def p_def)
  have inj: "inj_on (\<lambda>i. rl (fbytes s) (slot u f i)) (dom A)" using t by (simp add: table_at_def)
  have "A(i := None) = A |` (- insert i D)"
    using table_dom [OF t] by (auto simp: restrict_map_def fun_eq_iff)
  moreover have "rl (fbytes s) (slot u f j) \<noteq> p" if "j \<in> dom (A(i := None))" for j
    using inj i that unfolding p_def inj_on_def by (metis domI domIff fun_upd_same fun_upd_other)
  ultimately show ?thesis
    using array_free_block [OF a x c, of "insert i D" "A(i := None)"] c(1) by blast
qed

section \<open>Writing an element\<close>

definition with_elem :: "mem \<Rightarrow> nat \<Rightarrow> nat \<Rightarrow> string \<Rightarrow> mem" where
  "with_elem m a p d = wbytes (wl (wl m a p) p (length d)) (p + 8) d"

lemma with_elem_agree:
  "b + k \<le> a \<or> a + 8 \<le> b \<Longrightarrow> b + k \<le> p \<or> p + 8 + length d \<le> b \<Longrightarrow> agree m (with_elem m a p d) b k"
  by (auto simp: with_elem_def)

lemma wbytes_Cons: "wbytes (wbytes m a [k]) (Suc a) d = wbytes m a (k # d)"
  by (rule ext) (auto simp: wbytes_def nth_Cons')

lemma array_put:
  assumes a: "array_at s B u f l D A" and lk: "locks s \<noteq> []" and i: "i \<in> {f..l}" "A i = None"
    and p: "(p, c) \<in> B" "8 + length d \<le> c" "p \<noteq> u" "p \<notin> (\<lambda>j. rl (fbytes s) (slot u f j)) ` dom A"
  defines "m \<equiv> with_elem (fbytes s) (slot u f i) p d"
  shows "array_at (s\<lparr>fbytes := m\<rparr>) B u f l (D - {i}) (A(i \<mapsto> d))"
proof -
  let ?w = "\<lambda>j. rl (fbytes s) (slot u f j)"
  have h: "nv_holds s B" and ar: "vcls s = ClsArray" and co: "coherent s"
    and t: "table_at (fbytes s) B u f l D A" and fl: "f \<le> l + 1" "l < 2 ^ 32"
    using a lk by (auto simp: array_at_def arr_sync_def)
  obtain c0 where u: "(u, c0) \<in> B" "16 + 8 * (l + 1 - f) \<le> c0" "56 \<le> u" "u + c0 \<le> fsize s" "fsize s < 2 ^ 31"
    using array_block [OF a] by blast
  have sl: "u + 16 \<le> slot u f j" "slot u f j + 8 \<le> u + c0" if "j \<in> {f..l}" for j
    using that u(2) by (auto simp: slot_def)
  note pb = holds_block [OF h p(1)]
  have pu: "p + c \<le> u \<or> u + c0 \<le> p" using nv.blocks_apart [OF h p(1) u(1)] p(3) by simp
  have hm: "nv_holds (s\<lparr>fbytes := m\<rparr>) B"
    unfolding m_def with_elem_def
    by (intro holds_wbytes [OF _ lk p(1)] holds_wl [OF _ lk p(1)] holds_wl [OF _ lk u(1)])
       (use h sl [OF i(1)] p(2) in simp_all)
  have ag: "agree (fbytes s) m b k" if "b + k \<le> slot u f i \<or> slot u f i + 8 \<le> b" "b + k \<le> p \<or> p + c \<le> b"
    for b k using that p(2) unfolding m_def by (intro with_elem_agree) auto
  have word: "rl m x = rl (fbytes s) x" if "u \<le> x" "x + 8 \<le> u + c0" "x + 8 \<le> slot u f i \<or> slot u f i + 8 \<le> x" for x
  proof -
    have "x + 8 \<le> p \<or> p + c \<le> x" using that pu by auto
    from rl_cong [OF ag [OF that(3) this]] show ?thesis by simp
  qed
  have other: "rl m (slot u f j) = ?w j" if "j \<in> {f..l}" "j \<noteq> i" for j
    using word [of "slot u f j"] sl [OF that(1)] slot_inj [OF that(1) i(1) that(2), of u] by simp
  have new: "rl m (slot u f i) = p"
  proof -
    have "p < 2 ^ 64" using pb u by simp
    have "slot u f i + 8 \<le> p \<or> p + 8 + length d \<le> slot u f i"
      using pu sl [OF i(1)] p(2) by auto
    then have "rl m (slot u f i) = u64 p"
      by (auto simp: m_def with_elem_def rl_wbytes_other rl_wl_other rl_wl_same)
    with \<open>p < 2 ^ 64\<close> show ?thesis by simp
  qed
  have elem: "elem_at m B u (?w j) e" if "A j = Some e" for j e
  proof -
    have e: "elem_at (fbytes s) B u (?w j) e" using table_elem(1) [OF t that] .
    then obtain c' where c': "(?w j, c') \<in> B" "8 + length e \<le> c'" by (auto simp: elem_at_def)
    have "?w j \<noteq> p" using p(4) that by force
    from nv.blocks_apart [OF h c'(1) p(1)] this c'(2)
    have 1: "?w j + (8 + length e) \<le> p \<or> p + c \<le> ?w j" by auto
    have "?w j \<noteq> u" using e by (simp add: elem_at_def)
    from nv.blocks_apart [OF h c'(1) u(1)] this c'(2) sl [OF i(1)]
    have "?w j + (8 + length e) \<le> slot u f i \<or> slot u f i + 8 \<le> ?w j" by auto
    note g = ag [OF this 1]
    have "rl m (?w j) = rl (fbytes s) (?w j)" by (rule rl_agree [OF g]) simp_all
    moreover have "rbytes m (?w j + 8) (length e) = rbytes (fbytes s) (?w j + 8) (length e)"
      by (rule rbytes_agree [OF g]) simp_all
    ultimately show ?thesis using e unfolding elem_at_def by simp
  qed
  have elem_new: "elem_at m B u p d"
  proof -
    have "length d < 2 ^ 64" using pb u p(2) by simp
    then have "rl m p = length d"
      by (simp add: m_def with_elem_def rl_wbytes_other rl_wl_same)
    moreover have "rbytes m (p + 8) (length d) = d"
      by (simp add: m_def with_elem_def rbytes_wbytes_same)
    ultimately show ?thesis unfolding elem_at_def using p by blast
  qed
  have "table_at m B u f l (D - {i}) (A(i \<mapsto> d))"
    unfolding table_at_def
  proof (intro conjI ballI)
    show "\<exists>c. (u, c) \<in> B \<and> 16 + 8 * (l + 1 - f) \<le> c" using u by blast
    have "agree (fbytes s) m 40 8" using sl [OF i(1)] u(3) pb(1) by (intro ag) auto
    then show "rl m 40 = u" using rl_cong t by (fastforce simp: table_at_def)
    show "rl m u = f" "rl m (u + 8) = l"
      using word [of u] word [of "u + 8"] u(2) sl [OF i(1)] t by (simp_all add: table_at_def)
    show "dom (A(i \<mapsto> d)) \<subseteq> {f..l} - (D - {i})" using table_dom [OF t] i(1) by auto
    show "inj_on (\<lambda>j. rl m (slot u f j)) (dom (A(i \<mapsto> d)))"
    proof -
      have "inj_on ?w (dom A)" using t by (simp add: table_at_def)
      moreover have "rl m (slot u f j) = (if j = i then p else ?w j)" if "j \<in> insert i (dom A)" for j
        using that other [of j] new table_dom [OF t] by auto
      ultimately show ?thesis using p(4) i(2) by (auto simp: inj_on_def)
    qed
  next
    fix j assume j: "j \<in> {f..l} - (D - {i})"
    show "case (A(i \<mapsto> d)) j of None \<Rightarrow> rl m (slot u f j) = 0
      | Some d \<Rightarrow> elem_at m B u (rl m (slot u f j)) d"
    proof (cases "j = i")
      case True
      then show ?thesis using new elem_new by simp
    next
      case False
      with j have "j \<in> {f..l} - D" by simp
      from table_at_case [OF t this] False other [of j] j elem [of j] show ?thesis
        by (auto split: option.splits)
    qed
  qed
  moreover from this u(3) have "coherent (s\<lparr>fbytes := m\<rparr>)"
    using co loaded_table [of m] loaded_table [OF t] by (simp add: coherent_def arrs_def)
  ultimately show ?thesis
    using hm ar fl by (simp add: array_at_def arr_sync_def)
qed

section \<open>Setting the bounds\<close>

text \<open>A database without a table.\<close>

definition no_array :: "nvc \<Rightarrow> (nat \<times> nat) set \<Rightarrow> bool" where
  "no_array s B \<longleftrightarrow> nv_holds s B \<and> vcls s = ClsArray \<and> arr_sync s \<and> rl (fbytes s) H_userdata = 0"

definition copy_to :: "nat \<Rightarrow> nat \<Rightarrow> (nat \<Rightarrow> nat) \<Rightarrow> nat list \<Rightarrow> mem \<Rightarrow> mem" where
  "copy_to p f' W is m = foldl (\<lambda>m i. wl m (p + 8 * (2 + i)) (W (i + f'))) m is"

lemma copy_to_simps [simp]:
  "copy_to p f' W [] m = m"
  "copy_to p f' W (i # is) m = copy_to p f' W is (wl m (p + 8 * (2 + i)) (W (i + f')))"
  by (simp_all add: copy_to_def)

lemma copy_to_snoc:
  "copy_to p f' W (is @ [i]) m = wl (copy_to p f' W is m) (p + 8 * (2 + i)) (W (i + f'))"
  by (simp add: copy_to_def)

lemma copy_to_reads:
  "(\<And>i. W i < 2 ^ 64) \<Longrightarrow> j < n \<Longrightarrow> rl (copy_to p f' W [0..<n] m) (p + 8 * (2 + j)) = W (j + f')"
proof (induction n)
  case (Suc n)
  show ?case
  proof (cases "j = n")
    case True
    have "W (n + f') < 18446744073709551616" using Suc.prems(1) [of "n + f'"] by simp
    then show ?thesis using True by (simp add: copy_to_snoc rl_wl_same)
  next
    case False
    then have "j < n" using Suc.prems(2) by simp
    then show ?thesis using Suc by (simp add: copy_to_snoc rl_wl_other)
  qed
qed simp

lemma copy_to_differs:
  "set is \<subseteq> {..<n} \<Longrightarrow> 16 + 8 * n \<le> c \<Longrightarrow> differs_in m m' p c \<Longrightarrow> differs_in m (copy_to p f' W is m') p c"
proof (induction "is" arbitrary: m')
  case (Cons i "is")
  have "differs_in m' (wl m' (p + 8 * (2 + i)) v) p c" for v
    using Cons.prems(1,2) by (intro differs_wl) auto
  then have "differs_in m (wl m' (p + 8 * (2 + i)) v) p c" for v
    using Cons.prems(3) by (simp add: differs_in_def)
  with Cons show ?case by simp
qed simp

text \<open>The entries that are copied are those of the old table, 0 outside its bounds.\<close>

lemma copy_entries:
  assumes "mapped s" and "arrtab s = T" and "arrfst s = f" and "arrlst s = l" and "f \<le> l \<Longrightarrow> 0 < T"
    and "\<And>i. i \<in> {f..l} \<Longrightarrow> T + 8 * (i - f) + 8 \<le> fsize s
        \<and> (T + 8 * (i - f) + 8 \<le> p \<or> p + c \<le> T + 8 * (i - f))"
    and "p + c \<le> fsize s" and "16 + 8 * n \<le> c" and "f' + n < 2 ^ 64"
    and "\<And>i. i \<in> {f..l} \<Longrightarrow> rl (fbytes s) (T + 8 * (i - f)) = W i" and "\<And>i. i \<notin> {f..l} \<Longrightarrow> W i = 0"
    and "set is \<subseteq> {..<n}"
  shows "arr_copy_entries p f' is s = (Ok (), s\<lparr>fbytes := copy_to p f' W is (fbytes s)\<rparr>)"
  using assms
proof (induction "is" arbitrary: s)
  case Nil
  then show ?case by (simp add: act_simps)
next
  case (Cons i "is")
  have i: "i < n" using Cons.prems(12) by simp
  then have u: "u64 (i + f') = i + f'" using Cons.prems(9) by simp
  let ?s = "s\<lparr>fbytes := wl (fbytes s) (p + 8 * (2 + i)) (W (i + f'))\<rparr>"
  have rd: "(if f \<le> l \<and> f \<le> u64 (i + f') \<and> u64 (i + f') \<le> l
      then arr_entry (u64 (i + f') - f) else ret 0) s = (Ok (W (i + f')), s)"
  proof (cases "i + f' \<in> {f..l}")
    case True
    then have "f \<le> l" by simp
    with True Cons.prems(1,2,5) Cons.prems(6,10) [OF True] show ?thesis
      unfolding u by (simp add: arr_entry_def act_simps mapped_in_map)
  next
    case False
    with Cons.prems(11) [OF False] show ?thesis unfolding u by (auto simp: act_simps)
  qed
  have w: "in_map s (p + 8 * (2 + i)) 8"
    using i Cons.prems(7,8) mapped_in_map [OF Cons.prems(1)] by simp
  have ih: "arr_copy_entries p f' is ?s = (Ok (), ?s\<lparr>fbytes := copy_to p f' W is (fbytes ?s)\<rparr>)"
  proof (rule Cons.IH)
    show "mapped ?s" using Cons.prems(1) by (simp add: mapped_def)
    show "rl (fbytes ?s) (T + 8 * (j - f)) = W j" if "j \<in> {f..l}" for j
      using Cons.prems(6,10) [OF that] i Cons.prems(8) by (auto simp: rl_wl_other)
  qed (use Cons.prems in auto)
  show ?case
    using Cons.prems(3,4) rd w ih by (simp add: act_simps)
qed

text \<open>The new table in the block \<open>p\<close>, with the entries \<open>W\<close> of the old one.\<close>

definition new_table :: "mem \<Rightarrow> nat \<Rightarrow> nat \<Rightarrow> nat \<Rightarrow> (nat \<Rightarrow> nat) \<Rightarrow> mem" where
  "new_table m p f' l' W = wl (copy_to p f' W [0..<l' + 1 - f'] (wl (wl m p f') (p + 8) l')) H_userdata p"

lemma new_table_at:
  assumes h: "nv_holds s B" and lk: "locks s \<noteq> []" and p: "(p, c) \<in> B" "16 + 8 * (l' + 1 - f') \<le> c"
    and fl: "f' \<le> l' + 1" "l' < 2 ^ 32" and W: "\<And>i. W i < 2 ^ 64"
    and A: "dom A \<subseteq> {f'..l'}" "inj_on W (dom A)"
    and el: "\<And>i. i \<in> {f'..l'} \<Longrightarrow> (case A i of None \<Rightarrow> W i = 0 | Some d \<Rightarrow> elem_at (fbytes s) B p (W i) d)"
  defines "m \<equiv> new_table (fbytes s) p f' l' W"
  shows "nv_holds (s\<lparr>fbytes := m\<rparr>) B" and "table_at m B p f' l' {} A"
proof -
  let ?n = "l' + 1 - f'"
  let ?m = "copy_to p f' W [0..<?n] (wl (wl (fbytes s) p f') (p + 8) l')"
  note pb = holds_block [OF h p(1)]
  have "differs_in (fbytes s) (wl (wl (fbytes s) p f') (p + 8) l') p c"
    using differs_wl [of p p c "fbytes s" f'] differs_wl [of p "p + 8" c "wl (fbytes s) p f'" l'] p(2)
    by (simp add: differs_in_def)
  then have d: "differs_in (fbytes s) ?m p c"
    by (intro copy_to_differs [where n = ?n]) (use p(2) in auto)
  have h1: "nv_holds (s\<lparr>fbytes := ?m\<rparr>) B" by (rule holds_payload [OF h lk p(1) d])
  have "nv_holds (s\<lparr>fbytes := ?m, fbytes := wl ?m 40 p\<rparr>) B"
    using holds_userdata [OF h1, of p] lk pb p(2) by simp
  then show "nv_holds (s\<lparr>fbytes := m\<rparr>) B" by (simp add: m_def new_table_def)
  have p64: "p < 2 ^ 64" using pb by simp
  have rd: "rl m x = rl ?m x" if "56 \<le> x" for x using that by (simp add: m_def new_table_def rl_wl_other)
  have word: "rl m (slot p f' i) = W i" if i: "i \<in> {f'..l'}" for i
  proof -
    have "rl ?m (p + 8 * (2 + (i - f'))) = W (i - f' + f')"
      by (rule copy_to_reads [OF W]) (use i in auto)
    moreover have sl: "p + 8 * (2 + (i - f')) = slot p f' i" by (simp add: slot_def)
    moreover have "56 \<le> slot p f' i" using pb(1) by (simp add: slot_def)
    moreover have "i - f' + f' = i" using i by simp
    ultimately show ?thesis using rd [of "slot p f' i"] by (simp only:)
  qed
  have low: "rl (copy_to p f' W is m0) x = rl m0 x" if "x + 8 \<le> p + 16" for "is" m0 x
    using that by (induction "is" arbitrary: m0) (simp_all add: rl_wl_other)
  have f64: "f' < 2 ^ 64" using fl by simp
  have ag: "agree (fbytes s) m x k" if "(q, e) \<in> B" "q \<noteq> p" "q \<le> x" "x + k \<le> q + e" for q e x k
  proof -
    have "x + k \<le> p \<or> p + c \<le> x" using nv.blocks_apart [OF h that(1) p(1)] that by auto
    then have "agree (fbytes s) ?m x k" by (rule differs_agree [OF d])
    then show ?thesis
      using holds_block(1) [OF h that(1)] that(3) unfolding m_def new_table_def by (intro agree_wl_step) auto
  qed
  have el': "elem_at m B p (W i) d" if "A i = Some d" for i d
  proof -
    have i: "i \<in> {f'..l'}" using A(1) that by blast
    have e: "elem_at (fbytes s) B p (W i) d" using el [OF i] that by simp
    then obtain c' where c': "(W i, c') \<in> B" "8 + length d \<le> c'" "W i \<noteq> p" by (auto simp: elem_at_def)
    have g: "agree (fbytes s) m (W i) (8 + length d)" by (rule ag [OF c'(1,3)]) (use c'(2) in simp_all)
    have "rl m (W i) = rl (fbytes s) (W i)" by (rule rl_agree [OF g]) simp_all
    moreover have "rbytes m (W i + 8) (length d) = rbytes (fbytes s) (W i + 8) (length d)"
      by (rule rbytes_agree [OF g]) simp_all
    ultimately show ?thesis using e unfolding elem_at_def by simp
  qed
  show "table_at m B p f' l' {} A"
    unfolding table_at_def
  proof (intro conjI ballI)
    show "\<exists>c. (p, c) \<in> B \<and> 16 + 8 * (l' + 1 - f') \<le> c" using p by blast
    show "rl m 40 = p" using p64 by (simp add: m_def new_table_def rl_wl_same)
    show "rl m p = f'" "rl m (p + 8) = l'"
      using rd [of p] rd [of "p + 8"] pb(1) low [of p] low [of "p + 8"] f64 fl(2)
      by (simp_all add: rl_wl_same rl_wl_other)
    show "dom A \<subseteq> {f'..l'} - {}" using A(1) by simp
    show "inj_on (\<lambda>i. rl m (slot p f' i)) (dom A)"
    proof (rule inj_onI)
      fix i j assume ij: "i \<in> dom A" "j \<in> dom A" "rl m (slot p f' i) = rl m (slot p f' j)"
      then have "i \<in> {f'..l'}" "j \<in> {f'..l'}" using A(1) by blast+
      then have "W i = W j" using word ij(3) by simp
      with ij A(2) show "i = j" by (simp add: inj_on_def)
    qed
  next
    fix i assume i: "i \<in> {f'..l'} - {}"
    show "case A i of None \<Rightarrow> rl m (slot p f' i) = 0 | Some d \<Rightarrow> elem_at m B p (rl m (slot p f' i)) d"
      using el [of i] el' [of i] word [of i] i by (auto split: option.splits)
  qed
qed

lemma holds_members [simp]:
  "nv_holds (s\<lparr>fbytes := m, arrfst := a, arrlst := b, arrtab := t\<rparr>) B = nv_holds (s\<lparr>fbytes := m\<rparr>) B"
  by (simp add: nv_holds_def ready_def mappable_def lock_wf_def locks_def mapped_def)

lemma in_map_members [simp]: "in_map (s\<lparr>arrfst := a, arrlst := b\<rparr>) x n = in_map s x n"
  by (simp add: in_map_def)

lemma members_last:
  "s\<lparr>arrfst := a, arrlst := b, fbytes := m, arrtab := t\<rparr> = s\<lparr>fbytes := m, arrfst := a, arrlst := b, arrtab := t\<rparr>"
  by simp

text \<open>
  \<open>ssetsize\<close> once the block of the new table has been taken: \<open>q\<close> is the block of the old one, 0 if
  there was none.
\<close>

lemma ssetsize_tail:
  assumes h: "nv_holds s B" and x: "top_lock (locks s) = ExclLock" and ar: "vcls s = ClsArray"
    and p: "(p, c) \<in> B" "16 + 8 * (l' + 1 - f') \<le> c" and fl: "f' \<le> l' + 1" "l' < 2 ^ 32"
    and q: "rl (fbytes s) H_userdata = q" "p \<noteq> q" "q \<noteq> 0 \<Longrightarrow> (q, c0) \<in> B"
    and old: "arrtab s = T" "arrfst s = f" "arrlst s = l" "f \<le> l \<Longrightarrow> 0 < T"
      "\<And>i. i \<in> {f..l} \<Longrightarrow> T + 8 * (i - f) + 8 \<le> fsize s
        \<and> (T + 8 * (i - f) + 8 \<le> p \<or> p + c \<le> T + 8 * (i - f))"
      "\<And>i. i \<in> {f..l} \<Longrightarrow> rl (fbytes s) (T + 8 * (i - f)) = W i" "\<And>i. i \<notin> {f..l} \<Longrightarrow> W i = 0"
    and A: "dom A \<subseteq> {f'..l'}" "inj_on W (dom A)"
    and el: "\<And>i. i \<in> {f'..l'} \<Longrightarrow> (case A i of None \<Rightarrow> W i = 0 | Some d \<Rightarrow> elem_at (fbytes s) B p (W i) d)"
      "\<And>i. i \<in> dom A \<Longrightarrow> W i \<noteq> q"
  shows "\<exists>s' B'. bnd getdata (\<lambda>q.
     bnd (wr p f') (\<lambda>_.
     bnd (wr (p + 8) l') (\<lambda>_.
     bnd (arr_copy_entries p f' [0..<u64 (sub64 l' f' + 1)]) (\<lambda>_.
     bnd (upd (\<lambda>s. s\<lparr>arrfst := f', arrlst := l'\<rparr>)) (\<lambda>_.
     bnd (setdata p) (\<lambda>_.
     bnd (upd (\<lambda>s. s\<lparr>arrtab := p + 2 * 8\<rparr>)) (\<lambda>_.
     if q \<noteq> 0 then arr_nvfree q else ret ()))))))) s = (Ok (), s')
    \<and> array_at s' B' p f' l' {} A \<and> locks s' = locks s"
proof -
  have lk: "locks s \<noteq> []" using x by auto
  have mp: "mapped s" "64 < fsize s" using holds_mapped [OF h lk] by simp_all
  note pb = holds_block [OF h p(1)]
  let ?n = "l' + 1 - f'"
  have n: "u64 (sub64 l' f' + 1) = ?n"
  proof (cases "f' \<le> l'")
    case True
    then show ?thesis using fl(2) by simp
  next
    case False
    then have "f' = l' + 1" using fl(1) by simp
    moreover from this fl(2) have "sub64 l' f' = 2 ^ 64 - 1" by (simp add: sub64_def u64_def)
    ultimately show ?thesis by (simp add: u64_def)
  qed
  let ?m1 = "wl (wl (fbytes s) p f') (p + 8) l'"
  let ?s1 = "s\<lparr>fbytes := ?m1\<rparr>"
  have W: "W i < 2 ^ 64" for i
    by (cases "i \<in> {f..l}") (simp_all add: old(6) [symmetric] old(7))
  have copy: "arr_copy_entries p f' [0..<?n] ?s1 = (Ok (), ?s1\<lparr>fbytes := copy_to p f' W [0..<?n] ?m1\<rparr>)"
  proof -
    have "rl ?m1 (T + 8 * (i - f)) = W i" if "i \<in> {f..l}" for i
      using old(5,6) [OF that] p(2) by (auto simp: rl_wl_other)
    then show ?thesis
      using copy_entries [of ?s1 T f l p c ?n f' W "[0..<?n]"] old mp(1) pb p(2) fl
      by (simp add: mapped_def atLeast0LessThan)
  qed
  let ?m = "new_table (fbytes s) p f' l' W"
  let ?s2 = "s\<lparr>fbytes := ?m, arrfst := f', arrlst := l', arrtab := p + 16\<rparr>"
  note nt = new_table_at [OF h lk p fl W A el(1)]
  have "nv_holds ?s2 B" using nt(1) by (simp only: holds_members)
  moreover have l2: "locks ?s2 = locks s" by (simp add: locks_def)
  moreover have "coherent ?s2" using loaded_table [OF nt(2)] pb(1) by (simp add: coherent_def arrs_def)
  ultimately have a2: "array_at ?s2 B p f' l' {} A"
    using nt(2) ar fl by (simp add: array_at_def arr_sync_def)
  have ev: "bnd (wr p f') (\<lambda>_. bnd (wr (p + 8) l') (\<lambda>_.
     bnd (arr_copy_entries p f' [0..<u64 (sub64 l' f' + 1)]) (\<lambda>_.
     bnd (upd (\<lambda>s. s\<lparr>arrfst := f', arrlst := l'\<rparr>)) (\<lambda>_.
     bnd (setdata p) (\<lambda>_. bnd (upd (\<lambda>s. s\<lparr>arrtab := p + 2 * 8\<rparr>)) F))))) s = F () ?s2" for F :: "unit \<Rightarrow> (nvc, unit) act"
  proof -
    have m1: "in_map s p 8" "in_map s (p + 8) 8" "in_map s 40 8"
      using pb p(2) mp by (simp_all add: mapped_in_map)
    show ?thesis
      unfolding n bnd_def by (simp add: wr_def in_map_def [of "_\<lparr>fbytes := _, arrfst := _, arrlst := _\<rparr>"]
        m1 m1 [unfolded in_map_def] copy [simplified] setdata_def upd_def new_table_def members_last)
  qed
  have gd: "bnd getdata G s = G q s" for G :: "nat \<Rightarrow> (nvc, unit) act"
    using mp q(1) by (simp add: getdata_def act_simps mapped_in_map)
  show ?thesis
  proof (cases "q = 0")
    case True
    then show ?thesis unfolding gd ev using a2 l2 by (auto simp: act_simps)
  next
    case False
    have D: "rl (fbytes ?s2) (slot p f' j) \<noteq> q" if "j \<in> dom A" for j
    proof -
      have "j \<in> {f'..l'}" using A(1) that by blast
      have "rl (fbytes ?s2) (slot p f' j) = W j"
      proof -
        have "rl (copy_to p f' W [0..<?n] ?m1) (p + 8 * (2 + (j - f'))) = W (j - f' + f')"
          by (rule copy_to_reads [OF W]) (use \<open>j \<in> {f'..l'}\<close> in auto)
        moreover have "p + 8 * (2 + (j - f')) = slot p f' j" "j - f' + f' = j"
          using \<open>j \<in> {f'..l'}\<close> by (simp_all add: slot_def)
        moreover have "56 \<le> slot p f' j" using pb(1) by (simp add: slot_def)
        ultimately show ?thesis by (simp add: new_table_def rl_wl_other)
      qed
      with el(2) [OF that] show ?thesis by simp
    qed
    have r: "A = A |` (- {})" by (simp add: restrict_map_def)
    obtain s' where "arr_nvfree q ?s2 = (Ok (), s')" "array_at s' (B - {(q, c0)}) p f' l' {} A"
      "locks s' = locks ?s2"
      using array_free_block [OF a2 _ q(3) [OF False] q(2) [symmetric] empty_subsetI r D] x l2 by auto
    with False l2 show ?thesis unfolding gd ev by auto
  qed
qed

text \<open>
  \<open>ssetsize\<close>: the first table, without elements, and a new table that keeps those elements of the
  old one that lie within the bounds; what lies outside must have been freed before.
\<close>

definition table_room :: "nvc \<Rightarrow> nat \<Rightarrow> nat \<Rightarrow> bool" where
  "table_room s f l \<longleftrightarrow> nv_room s ((l + 3 - f) * 8)"

lemma table_bytes:
  assumes "f \<le> l + 1" and "l < 2 ^ 32"
  shows "u64 ((sub64 l f + 1 + 2) * 8) = (l + 3 - f) * 8"
proof (cases "f \<le> l")
  case True
  then show ?thesis using assms(2) by simp
next
  case False
  then have f: "f = l + 1" using assms(1) by simp
  moreover from this assms(2) have "sub64 l f = 2 ^ 64 - 1" by (simp add: sub64_def u64_def)
  ultimately show ?thesis by (simp add: u64_def)
qed

lemma ssetsize_first:
  assumes a: "no_array s B" and x: "top_lock (locks s) = ExclLock" and fl: "f' \<le> l' + 1" "l' < 2 ^ 32"
    and r: "table_room s f' l'"
  shows "\<exists>s' B' u. arr_ssetsize f' l' s = (Ok (), s') \<and> array_at s' B' u f' l' {} Map.empty \<and> locks s' = locks s"
proof -
  have lk: "locks s \<noteq> []" using x by auto
  have h: "nv_holds s B" and ar: "vcls s = ClsArray" and co: "coherent s" and u0: "rl (fbytes s) 40 = 0"
    using a lk by (auto simp: no_array_def arr_sync_def)
  obtain s1 p c m where s1: "nvalloc ((l' + 3 - f') * 8) s = (Ok p, s1)" "nv_holds s1 (insert (p, c) B)"
    "(l' + 3 - f') * 8 \<le> c" "locks s1 = locks s" "agree (fbytes s) (fbytes s1) H_userdata 8" "same_env s s1"
    "agree (fbytes s) m H_userdata 8" "arrs s1 = loaded m"
    using nvalloc_holds [OF h r [unfolded table_room_def]] ar co x by blast
  have m0: "rl m 40 = 0" "rl (fbytes s1) 40 = 0" using rl_cong [OF s1(5)] rl_cong [OF s1(7)] u0 by simp_all
  have mem: "arrtab s1 = 0" "arrfst s1 = 1" "arrlst s1 = 0"
    using s1(8) m0 by (simp_all add: arrs_def loaded_def)
  have p0: "p \<noteq> 0" using holds_block(1) [OF s1(2), of p c] by simp
  have "\<exists>s' B'. arr_ssetsize f' l' s = (Ok (), s') \<and> array_at s' B' p f' l' {} Map.empty \<and> locks s' = locks s1"
    unfolding arr_ssetsize_def table_bytes [OF fl]
    using ssetsize_tail [OF s1(2) _ _ _ _ fl m0(2) p0 _ mem, of c 0 "\<lambda>_. 0" Map.empty]
      x s1(3,4,6) ar fl by (simp add: arr_nvalloc_def act_simps s1(1) mem same_env_def)
  with s1(4) show ?thesis by auto
qed

lemma ssetsize_again:
  assumes a: "array_at s B u f l D A" and x: "top_lock (locks s) = ExclLock" and fl: "f' \<le> l' + 1" "l' < 2 ^ 32"
    and r: "table_room s f' l'" and A: "dom A \<subseteq> {f'..l'}" "D \<inter> {f'..l'} = {}"
  shows "\<exists>s' B' u. arr_ssetsize f' l' s = (Ok (), s') \<and> array_at s' B' u f' l' {} A \<and> locks s' = locks s"
proof -
  obtain s1 p c where s1: "arr_nvalloc ((l' + 3 - f') * 8) s = (Ok p, s1)"
    "array_at s1 (insert (p, c) B) u f l D A" "(l' + 3 - f') * 8 \<le> c" "p \<notin> fst ` B" "locks s1 = locks s"
    "unchanged B (fbytes s) (fbytes s1)"
    using array_alloc [OF a x r [unfolded table_room_def]] by blast
  have lk: "locks s1 \<noteq> []" and x1: "top_lock (locks s1) = ExclLock" using x s1(5) by auto
  have h: "nv_holds s1 (insert (p, c) B)" and ar: "vcls s1 = ClsArray"
    and t: "table_at (fbytes s1) (insert (p, c) B) u f l D A" using s1(2) by (auto simp: array_at_def)
  have ta: "table_at (fbytes s) B u f l D A" using a by (simp add: array_at_def)
  then obtain c0 where u: "(u, c0) \<in> B" "16 + 8 * (l + 1 - f) \<le> c0" by (auto simp: table_at_def)
  then have pu: "p \<noteq> u" using s1(4) by force
  have ub: "56 \<le> u" "u + c0 \<le> fsize s1" using holds_block [OF h, of u c0] u(1) by simp_all
  note mem = array_members(1-3) [OF s1(2) lk]
  define W where "W = (\<lambda>i. if i \<in> {f..l} then rl (fbytes s1) (slot u f i) else 0)"
  have apart: "p + c \<le> u \<or> u + c0 \<le> p" using nv.blocks_apart [OF h, of p c u c0] u(1) pu by blast
  have el: "elem_at (fbytes s1) (insert (p, c) B) p (W i) d" "W i \<noteq> u" if d: "A i = Some d" for i d
  proof -
    note e = table_elem [OF t d]
    have W: "W i = rl (fbytes s1) (slot u f i)" using e(2) by (simp add: W_def)
    obtain c1 where "(rl (fbytes s) (slot u f i), c1) \<in> B"
      using table_elem(1) [OF ta d] by (auto simp: elem_at_def)
    moreover have "rl (fbytes s1) (slot u f i) = rl (fbytes s) (slot u f i)"
      by (rule unchanged_rl [OF s1(6) u(1)]) (use e(2) u(2) in \<open>auto simp: slot_def\<close>)
    ultimately have "W i \<noteq> p" using s1(4) W by force
    then show "elem_at (fbytes s1) (insert (p, c) B) p (W i) d" "W i \<noteq> u"
      using e(1) unfolding W [symmetric] elem_at_def by blast+
  qed
  have inj: "inj_on W (dom A)"
  proof -
    have "inj_on (\<lambda>i. rl (fbytes s1) (slot u f i)) (dom A)" using t by (simp add: table_at_def)
    moreover have "W i = rl (fbytes s1) (slot u f i)" if "i \<in> dom A" for i
      using that table_dom [OF t] by (auto simp: W_def)
    ultimately show ?thesis by (simp add: inj_on_def)
  qed
  have "\<exists>s' B'. arr_ssetsize f' l' s = (Ok (), s') \<and> array_at s' B' p f' l' {} A \<and> locks s' = locks s1"
    unfolding arr_ssetsize_def table_bytes [OF fl] bnd_Ok [where f = "arr_nvalloc _" and s = s, OF s1(1)]
  proof (rule ssetsize_tail [OF h x1 ar _ _ fl _ pu])
    show "rl (fbytes s1) 40 = u" using t by (simp add: table_at_def)
    show "arrtab s1 = u + 16" "arrfst s1 = f" "arrlst s1 = l" by (rule mem)+
    show "u + 16 + 8 * (i - f) + 8 \<le> fsize s1 \<and>
        (u + 16 + 8 * (i - f) + 8 \<le> p \<or> p + c \<le> u + 16 + 8 * (i - f))" if "i \<in> {f..l}" for i
      using that u(2) ub apart by auto
    show "rl (fbytes s1) (u + 16 + 8 * (i - f)) = W i" if "i \<in> {f..l}" for i
      using that by (simp add: W_def slot_def)
    show "W i = 0" if "i \<notin> {f..l}" for i using that by (simp only: W_def if_False)
    show "case A i of None \<Rightarrow> W i = 0 | Some d \<Rightarrow> elem_at (fbytes s1) (insert (p, c) B) p (W i) d"
      if "i \<in> {f'..l'}" for i
    proof (cases "A i")
      case None
      have "W i = 0"
      proof (cases "i \<in> {f..l}")
        case True
        with that A(2) have "i \<in> {f..l} - D" by blast
        then show ?thesis using table_none [OF t _ None] True by (simp add: W_def)
      qed (simp only: W_def if_False)
      then show ?thesis using None by simp
    qed (simp add: el)
    show "W i \<noteq> u" if "i \<in> dom A" for i using that el(2) by blast
  qed (use s1(3) fl u(1) A(1) inj in auto)
  with s1(5) show ?thesis by auto
qed

end
