(* ===== verification/Newsgroup_Ok.thy ===== *)
theory Newsgroup_Ok
  imports Cache_Newsgroup NV_Array_Ok
begin

text \<open>
  The newsgroup database as a map from article numbers to what is kept of them: storing and
  fetching articles and overview records and setting the bounds, on the array in its file.
\<close>

section \<open>What is kept\<close>

datatype kept = Over string | Small string | Big string string

fun encode :: "kept \<Rightarrow> string" where
  "encode (Over t) = k_overview # t @ [NUL]"
| "encode (Small t) = k_article # t @ [NUL]"
| "encode (Big ov t) = k_bigarticle # ov @ [NUL]"

definition enc :: "(nat \<rightharpoonup> kept) \<Rightarrow> nat \<rightharpoonup> string" where
  "enc M = (\<lambda>i. map_option encode (M i))"

lemma enc_simps [simp]:
  "enc M i = map_option encode (M i)" "dom (enc M) = dom M" "enc (M(i \<mapsto> k)) = (enc M)(i \<mapsto> encode k)"
  "enc (M(i := None)) = (enc M)(i := None)" "enc (M |` S) = enc M |` S" "enc Map.empty = Map.empty"
  by (auto simp: enc_def restrict_map_def)

definition files_ok :: "(string \<Rightarrow> string option) \<Rightarrow> (nat \<rightharpoonup> kept) \<Rightarrow> bool" where
  "files_ok fs M \<longleftrightarrow> (\<forall>i ov t. M i = Some (Big ov t) \<longrightarrow> fs (art_file i) = Some t)"

definition group_at :: "ngroup \<Rightarrow> nat \<Rightarrow> nat \<Rightarrow> (nat \<rightharpoonup> kept) \<Rightarrow> bool" where
  "group_at g f l M \<longleftrightarrow> (\<exists>B u. array_at (ng_nv g) B u f l {} (enc M)) \<and> files_ok (ng_files g) M"

section \<open>Evaluation\<close>

lemma in_nv_eval [act_simps]: "f (ng_nv g) = (r, s) \<Longrightarrow> in_nv f g = (r, g\<lparr>ng_nv := s\<rparr>)"
  by (simp add: in_nv_def)

lemma on_snd_eval [act_simps]: "f t = (r, t') \<Longrightarrow> on_snd f (s, t) = (r, (s, t'))"
  by (simp add: on_snd_def)

lemma on_fst_eval [act_simps]: "f s = (r, s') \<Longrightarrow> on_fst f (s, t) = (r, (s', t))"
  by (simp add: on_fst_def)

lemma rbytes_Cons: "rbytes m a (Suc n) = char_of (m a) # rbytes m (Suc a) n"
  by (simp add: rbytes_def upt_conv_Cons map_Suc_upt [symmetric] comp_def del: upt_Suc)

lemma rbytes_snoc: "rbytes m a (Suc n) = rbytes m a n @ [char_of (m (a + n))]"
  by (simp add: rbytes_def)

lemma cstr_at_ok:
  "rbytes (fbytes s) a (Suc (length t)) = t @ [NUL] \<Longrightarrow> in_map s a (Suc (length t)) \<Longrightarrow> cstr_at s a = Some (c_str t)"
proof (induction t arbitrary: a)
  case Nil
  then show ?case by (subst cstr_at.simps) (simp add: rbytes_def in_map_def c_str_def)
next
  case (Cons c t)
  have r: "char_of (fbytes s a) = c" "rbytes (fbytes s) (Suc a) (Suc (length t)) = t @ [NUL]"
    using Cons.prems(1) by (simp_all add: rbytes_Cons [of _ a] del: One_nat_def)
  have m: "in_map s (Suc a) (Suc (length t))" "in_map s a 1" using Cons.prems(2) by (simp_all add: in_map_def)
  show ?case
  proof (cases "c = NUL")
    case True
    then show ?thesis using r(1) m(2) by (subst cstr_at.simps) (simp add: c_str_def)
  next
    case False
    then show ?thesis
      using r m Cons.IH [OF r(2) m(1)] by (subst cstr_at.simps) (simp add: c_str_def)
  qed
qed

text \<open>Reading an element.\<close>

lemma element_reads:
  assumes a: "array_at s B u f l D A" and lk: "locks s \<noteq> []" and i: "A i = Some (k # t @ [NUL])"
  defines "x \<equiv> rl (fbytes s) (slot u f i) + 8"
  shows "kind_at x s = (Ok k, s)" and "text_at (x + 1) (length t) s = (Ok t, s)"
    and "string_at (x + 1) s = (Ok (c_str t), s)"
    and "article_at nbr x (length t + 2) 2 s = (Ok \<lparr>art_nbr = i32 (int nbr), art_text = t\<rparr>, s)"
proof -
  note e = array_elem [OF a lk i]
  have r: "rbytes (fbytes s) x (length t + 2) = k # t @ [NUL]"
    using e(1) by (simp add: elem_at_def x_def)
  then have k: "char_of (fbytes s x) = k" and r1: "rbytes (fbytes s) (Suc x) (Suc (length t)) = t @ [NUL]"
    by (simp_all add: rbytes_Cons [of _ x])
  from r1 have r2: "rbytes (fbytes s) (Suc x) (length t) = t" by (simp add: rbytes_snoc [of _ "Suc x"])
  have m: "in_map s x 1" "in_map s (Suc x) (length t)" "in_map s (Suc x) (Suc (length t))"
    using e(2) by (simp_all add: in_map_def x_def)
  show "kind_at x s = (Ok k, s)" using m k by (simp add: kind_at_def)
  show t: "text_at (x + 1) (length t) s = (Ok t, s)" using m r2 by (simp add: text_at_def)
  show "string_at (x + 1) s = (Ok (c_str t), s)" using cstr_at_ok [OF r1 m(3)] by (simp add: string_at_def)
  show "article_at nbr x (length t + 2) 2 s = (Ok \<lparr>art_nbr = i32 (int nbr), art_text = t\<rparr>, s)"
    using t by (simp add: article_at_def act_simps)
qed

section \<open>Locks\<close>

lemma array_same:
  assumes "array_at s B u f l D A" and "same_db s s'" and "nv_holds s' B" and "arr_sync s'"
  shows "array_at s' B u f l D A"
  using assms by (simp add: array_at_def same_db_def)

lemma array_lock:
  assumes a: "array_at s B u f l D A" and "length (locks s) + 3 \<le> LOCKSTACKSIZE" and "c \<noteq> UnLock"
  shows "\<exists>s'. lock c Block s = (Ok 0, s') \<and> array_at s' B u f l D A \<and> locks s' = push_lock c (locks s)
    \<and> fsize s' = fsize s"
proof -
  have h: "nv_holds s B" and y: "arr_sync s" using a by (simp_all add: array_at_def)
  have r: "ready s" "length (locks s) < LOCKSTACKSIZE" using h assms(2) by (auto simp: nv_holds_def)
  obtain s' where s': "lock c Block s = (Ok 0, s')" "same_db s s'" "arr_sync s'"
    using lock_ok [OF r(1) assms(3) r(2), of Block] y by blast
  with holds_lock [OF h assms(2,3)] array_same [OF a] show ?thesis by (auto simp: same_db_def)
qed

lemma array_unlock:
  assumes a: "array_at s B u f l D A" and ls: "locks s = push_lock c ls"
  shows "\<exists>s'. lock UnLock Block s = (Ok 0, s') \<and> array_at s' B u f l D A \<and> locks s' = ls
    \<and> fsize s' = fsize s"
proof -
  have h: "nv_holds s B" and y: "arr_sync s" using a by (simp_all add: array_at_def)
  have r: "ready s" "locks s \<noteq> []" using h ls by (auto simp: nv_holds_def)
  obtain s' where s': "lock UnLock Block s = (Ok 0, s')" "same_db s s'" "arr_sync s'"
    using unlock_ok [OF r, of Block] y by blast
  with holds_unlock [OF h ls] array_same [OF a] show ?thesis by (auto simp: same_db_def)
qed

section \<open>Storing\<close>

lemma put_element_ok:
  assumes a: "array_at s B u f l D A" and x: "top_lock (locks s) = ExclLock" and i: "i \<in> {f..l}" "A i = None"
    and r: "nv_room s (length t + 10)"
  shows "\<exists>s' B'. put_element (i - f) k t s = (Ok (), s')
    \<and> array_at s' B' u f l (D - {i}) (A(i \<mapsto> k # t @ [NUL])) \<and> locks s' = locks s"
proof -
  let ?d = "k # t @ [NUL]"
  have n: "length t + 2 + 8 = length t + 10" by simp
  obtain s1 p c where s1: "arr_nvalloc (length t + 2 + 8) s = (Ok p, s1)"
    "array_at s1 (insert (p, c) B) u f l D A" "length t + 2 + 8 \<le> c" "p \<notin> fst ` B" "locks s1 = locks s"
    "unchanged B (fbytes s) (fbytes s1)"
    using array_alloc [OF a x r [folded n]] by blast
  have lk: "locks s1 \<noteq> []" using x s1(5) by auto
  have t: "table_at (fbytes s) B u f l D A" and t1: "table_at (fbytes s1) (insert (p, c) B) u f l D A"
    and h: "nv_holds s1 (insert (p, c) B)"
    using a s1(2) by (simp_all add: array_at_def)
  obtain c0 where u: "(u, c0) \<in> B" "16 + 8 * (l + 1 - f) \<le> c0" using t by (auto simp: table_at_def)
  have pu: "p \<noteq> u" using u(1) s1(4) by force
  have "rl (fbytes s1) (slot u f j) \<in> fst ` B" if dj: "j \<in> dom A" for j
  proof -
    obtain e where e: "A j = Some e" using dj by blast
    have "rl (fbytes s1) (slot u f j) = rl (fbytes s) (slot u f j)"
      by (rule unchanged_rl [OF s1(6) u(1)]) (use table_elem(2) [OF t e] u(2) in \<open>auto simp: slot_def\<close>)
    moreover obtain c' where "(rl (fbytes s) (slot u f j), c') \<in> B"
      using table_elem(1) [OF t e] by (auto simp: elem_at_def)
    ultimately show ?thesis by force
  qed
  then have new: "p \<notin> (\<lambda>j. rl (fbytes s1) (slot u f j)) ` dom A" using s1(4) by auto
  have p: "(p, c) \<in> insert (p, c) B" "8 + length ?d \<le> c" using s1(3) by simp_all
  note put = array_put [OF s1(2) lk i p pu new]
  note se = array_entry(2) [OF s1(2) lk i(1)]
  have m: "in_map s1 p 8" "in_map s1 (p + 8) (Suc 0)" "in_map s1 (9 + p) (Suc (length t))"
    using holds_block(2) [OF h p(1)] p(2) mapped_in_map [OF array_members(4) [OF s1(2) lk]] by simp_all
  have w: "wbytes (wbytes m (p + 8) [k]) (9 + p) d = wbytes m (p + 8) (k # d)" for m d
    using wbytes_Cons [of m "p + 8" k d] by simp
  have "put_element (i - f) k t s = (Ok (), s1\<lparr>fbytes := with_elem (fbytes s1) (slot u f i) p ?d\<rparr>)"
    unfolding put_element_def Let_def bnd_def
    by (simp add: s1(1) [simplified] se wr_def memcpy_to_def m with_elem_def w)
  with put s1(5) show ?thesis by auto
qed

lemma put_article_ok:
  assumes a: "array_at s B u f l D A" and x: "top_lock (locks s) = ExclLock" and i: "i \<in> {f..l}" "i \<notin> D"
    and r: "nv_room s (length (art_text art) + 10)"
  shows "\<exists>s' B'. put_article i (i - f) art s = (Ok (), s')
    \<and> array_at s' B' u f l D (A(i \<mapsto> k_article # art_text art @ [NUL])) \<and> locks s' = locks s"
proof -
  have lk: "locks s \<noteq> []" using x by auto
  note sg = array_sget [OF a lk i(2)]
  show ?thesis
  proof (cases "A i")
    case None
    obtain s' B' where s': "put_element (i - f) k_article (art_text art) s = (Ok (), s')"
      "array_at s' B' u f l (D - {i}) (A(i \<mapsto> k_article # art_text art @ [NUL]))" "locks s' = locks s"
      using put_element_ok [OF a x i(1) None r] by blast
    have "D - {i} = D" using i(2) by blast
    with None s' show ?thesis
      unfolding put_article_def by (intro exI [of _ s'] exI [of _ B']) (simp add: act_simps sg)
  next
    case (Some d)
    obtain s1 c where s1: "arr_nvfree (rl (fbytes s) (slot u f i)) s = (Ok (), s1)"
      "array_at s1 (B - {(rl (fbytes s) (slot u f i), c)}) u f l (insert i D) (A(i := None))"
      "locks s1 = locks s" "fsize s1 = fsize s"
      using array_free [OF a x Some] by blast
    have x1: "top_lock (locks s1) = ExclLock" "nv_room s1 (length (art_text art) + 10)"
      using x r s1(3,4) by (simp_all add: nv_room_def)
    obtain s' B' where s': "put_element (i - f) k_article (art_text art) s1 = (Ok (), s')"
      "array_at s' B' u f l (insert i D - {i}) ((A(i := None))(i \<mapsto> k_article # art_text art @ [NUL]))"
      "locks s' = locks s1"
      using put_element_ok [OF s1(2) x1(1) i(1) _ x1(2), of k_article] by auto
    have "insert i D - {i} = D" using i(2) by blast
    moreover have "put_article i (i - f) art s = (Ok (), s')"
      unfolding put_article_def using Some s1(1) s'(1) array_entry(1) [OF a lk i(1)]
      by (simp add: act_simps sg)
    ultimately show ?thesis using s'(2,3) s1(3) by auto
  qed
qed

text \<open>The group's lock, and the bounds under it.\<close>

lemma ng_lock_ok:
  assumes "array_at (ng_nv g) B u f l D A" and "length (locks (ng_nv g)) + 3 \<le> LOCKSTACKSIZE" and "c \<noteq> UnLock"
  shows "\<exists>s. ng_lock c g = (Ok (), g\<lparr>ng_nv := s\<rparr>) \<and> array_at s B u f l D A
    \<and> locks s = push_lock c (locks (ng_nv g)) \<and> fsize s = fsize (ng_nv g) \<and> (arrfst s, arrlst s) = (f, l)"
proof -
  obtain s where s: "lock c Block (ng_nv g) = (Ok 0, s)" "array_at s B u f l D A"
    "locks s = push_lock c (locks (ng_nv g))" "fsize s = fsize (ng_nv g)"
    using array_lock [OF assms] by blast
  have "ng_lock c g = (Ok (), g\<lparr>ng_nv := s\<rparr>)"
    by (simp add: ng_lock_def bnd_def in_nv_def s(1) ret_def)
  moreover have "locks s \<noteq> []" using s(3) by (simp add: push_lock_def)
  ultimately show ?thesis using s array_members(2,3) [OF s(2)] by blast
qed

lemma ng_unlock_ok:
  assumes "array_at (ng_nv g) B u f l D A" and "locks (ng_nv g) = push_lock c ls"
  shows "\<exists>s. ng_lock UnLock g = (Ok (), g\<lparr>ng_nv := s\<rparr>) \<and> array_at s B u f l D A \<and> locks s = ls"
proof -
  obtain s where s: "lock UnLock Block (ng_nv g) = (Ok 0, s)" "array_at s B u f l D A" "locks s = ls"
    using array_unlock [OF assms] by blast
  have "ng_lock UnLock g = (Ok (), g\<lparr>ng_nv := s\<rparr>)"
    by (simp add: ng_lock_def bnd_def in_nv_def s(1) ret_def)
  with s show ?thesis by blast
qed

text \<open>An article of at most 15360 bytes; what was there is replaced.\<close>

lemma setarticle_ok:
  assumes g: "group_at g f l M" and ls: "length (locks (ng_nv g)) + 3 \<le> LOCKSTACKSIZE"
    and i: "u32_of_int (getnbr art) \<in> {f..l}" and sm: "length (art_text art) \<le> 15360"
    and r: "nv_room (ng_nv g) (length (art_text art) + 10)"
  shows "\<exists>g'. nv_setarticle fmt art g = (Ok (), g')
    \<and> group_at g' f l (M(u32_of_int (getnbr art) \<mapsto> Small (art_text art)))
    \<and> locks (ng_nv g') = locks (ng_nv g) \<and> ng_name g' = ng_name g"
proof -
  let ?i = "u32_of_int (getnbr art)"
  obtain B u where a: "array_at (ng_nv g) B u f l {} (enc M)" and fs: "files_ok (ng_files g) M"
    using g by (auto simp: group_at_def)
  obtain s1 where s1: "ng_lock ExclLock g = (Ok (), g\<lparr>ng_nv := s1\<rparr>)" "array_at s1 B u f l {} (enc M)"
    "locks s1 = push_lock ExclLock (locks (ng_nv g))" "fsize s1 = fsize (ng_nv g)" "(arrfst s1, arrlst s1) = (f, l)"
    using ng_lock_ok [OF a ls, of ExclLock] by auto
  have x: "top_lock (locks s1) = ExclLock" "nv_room s1 (length (art_text art) + 10)"
    using s1(3,4) r by (simp_all add: push_lock_def nv_room_def)
  obtain s2 B' where s2: "put_article ?i (?i - f) art s1 = (Ok (), s2)"
    "array_at s2 B' u f l {} ((enc M)(?i \<mapsto> k_article # art_text art @ [NUL]))" "locks s2 = locks s1"
    using put_article_ok [OF s1(2) x(1) i _ x(2)] by auto
  obtain s3 where s3: "ng_lock UnLock (g\<lparr>ng_nv := s2\<rparr>) = (Ok (), g\<lparr>ng_nv := s3\<rparr>)"
    "array_at s3 B' u f l {} (enc (M(?i \<mapsto> Small (art_text art))))" "locks s3 = locks (ng_nv g)"
    using ng_unlock_ok [of "g\<lparr>ng_nv := s2\<rparr>" B' u f l "{}"] s2(2,3) s1(3) by force
  have len: "article_length art \<le> 15360" using sm by (simp add: article_length_def)
  have "nv_setarticle fmt art g = (Ok (), g\<lparr>ng_nv := s3\<rparr>)"
    unfolding nv_setarticle_def Let_def bnd_def
    using i s1(5) by (simp add: s1(1) gets_def bounds_def arr_getsize_def len in_nv_def s2(1) s3(1))
  moreover have "files_ok (ng_files g) (M(?i \<mapsto> Small (art_text art)))"
    using fs by (auto simp: files_ok_def)
  ultimately show ?thesis using s3(2,3) by (auto simp: group_at_def)
qed

text \<open>An overview record is stored where there is nothing yet, and only there.\<close>

lemma setover_ok:
  assumes g: "group_at g f l M" and ls: "length (locks (ng_nv g)) + 3 \<le> LOCKSTACKSIZE"
    and r: "nv_room (ng_nv g) (length ov + 10)"
  defines "i \<equiv> u64_of_int (atoi (c_str ov))"
  shows "\<exists>g'. nv_setover ov g = (Ok (), g')
    \<and> group_at g' f l (if i \<in> {f..l} \<and> M i = None then M(i \<mapsto> Over ov) else M)
    \<and> locks (ng_nv g') = locks (ng_nv g)"
proof -
  obtain B u where a: "array_at (ng_nv g) B u f l {} (enc M)" and fs: "files_ok (ng_files g) M"
    using g by (auto simp: group_at_def)
  obtain s1 where s1: "ng_lock ExclLock g = (Ok (), g\<lparr>ng_nv := s1\<rparr>)" "array_at s1 B u f l {} (enc M)"
    "locks s1 = push_lock ExclLock (locks (ng_nv g))" "fsize s1 = fsize (ng_nv g)" "(arrfst s1, arrlst s1) = (f, l)"
    using ng_lock_ok [OF a ls, of ExclLock] by auto
  have x: "top_lock (locks s1) = ExclLock" "nv_room s1 (length ov + 10)"
    using s1(3,4) r by (simp_all add: push_lock_def nv_room_def)
  have lk: "locks s1 \<noteq> []" using s1(3) by (simp add: push_lock_def)
  note sg = array_sget [OF s1(2) lk, of i]
  show ?thesis
  proof (cases "i \<in> {f..l} \<and> M i = None")
    case True
    obtain s2 B' where s2: "put_element (i - f) k_overview ov s1 = (Ok (), s2)"
      "array_at s2 B' u f l {} ((enc M)(i \<mapsto> k_overview # ov @ [NUL]))" "locks s2 = locks s1"
      using put_element_ok [OF s1(2) x(1) _ _ x(2), of i k_overview] True by auto
    obtain s3 where s3: "ng_lock UnLock (g\<lparr>ng_nv := s2\<rparr>) = (Ok (), g\<lparr>ng_nv := s3\<rparr>)"
      "array_at s3 B' u f l {} (enc (M(i \<mapsto> Over ov)))" "locks s3 = locks (ng_nv g)"
      using ng_unlock_ok [of "g\<lparr>ng_nv := s2\<rparr>" B' u f l "{}"] s2(2,3) s1(3) by force
    have "nv_setover ov g = (Ok (), g\<lparr>ng_nv := s3\<rparr>)"
      unfolding nv_setover_def Let_def bnd_def i_def [symmetric]
      using True s1(5) by (simp add: s1(1) gets_def bounds_def arr_getsize_def in_nv_def sg s2(1) s3(1))
    moreover have "files_ok (ng_files g) (M(i \<mapsto> Over ov))" using fs by (auto simp: files_ok_def)
    ultimately show ?thesis using s3(2,3) True by (auto simp: group_at_def)
  next
    case False
    obtain s3 where s3: "ng_lock UnLock (g\<lparr>ng_nv := s1\<rparr>) = (Ok (), g\<lparr>ng_nv := s3\<rparr>)"
      "array_at s3 B u f l {} (enc M)" "locks s3 = locks (ng_nv g)"
      using ng_unlock_ok [of "g\<lparr>ng_nv := s1\<rparr>" B u f l "{}"] s1(2,3) by force
    have "nv_setover ov g = (Ok (), g\<lparr>ng_nv := s3\<rparr>)"
      unfolding nv_setover_def Let_def bnd_def i_def [symmetric]
      using False s1(5) by (auto simp: s1(1) gets_def bounds_def arr_getsize_def in_nv_def sg s3(1) ret_def)
    then show ?thesis using s3(2,3) fs False by (auto simp: group_at_def)
  qed
qed

section \<open>Fetching\<close>

lemma u32_of_int_i32: "n < 2 ^ 32 \<Longrightarrow> u32_of_int (i32 (int n)) = n"
proof -
  assume n: "n < 2 ^ 32"
  have "u32_of_int (i32 (int n)) = nat ((int n + 2 ^ 31 - 2 ^ 31) mod 2 ^ 32)"
    by (simp only: u32_of_int_def i32_def mod_diff_left_eq)
  then show ?thesis using n by simp
qed

text \<open>What a source of articles may do: the group is left alone, and the article has the number asked for.\<close>

locale article_source =
  fixes retr :: "'x retriever"
  assumes leaves_group: "\<exists>r x'. retr nbr (x, g) = (r, (x', g))"
    and right_number: "retr nbr (x, g) = (Ok (Some a), y) \<Longrightarrow> getnbr a = i32 (int nbr)"

text \<open>What is in the database is returned as it is, whatever the source.\<close>

lemma getarticle_hit:
  assumes g: "group_at g f l M" and ls: "length (locks (ng_nv g)) + 3 \<le> LOCKSTACKSIZE" and i: "nbr \<in> {f..l}"
    and k: "M nbr = Some k" "a = (case k of Small t \<Rightarrow> \<lparr>art_nbr = i32 (int nbr), art_text = t\<rparr>
      | Big ov t \<Rightarrow> read_file (article_nbr (i32 (int nbr))) t)" "\<forall>ov. k \<noteq> Over ov"
  shows "\<exists>g'. nv_getarticle fmt retr nbr (x, g) = (Ok (Some a), (x, g')) \<and> group_at g' f l M
    \<and> locks (ng_nv g') = locks (ng_nv g) \<and> fsize (ng_nv g') = fsize (ng_nv g)"
proof -
  obtain B u where a: "array_at (ng_nv g) B u f l {} (enc M)" and fs: "files_ok (ng_files g) M"
    using g by (auto simp: group_at_def)
  obtain s1 where s1: "ng_lock ShrdLock g = (Ok (), g\<lparr>ng_nv := s1\<rparr>)" "array_at s1 B u f l {} (enc M)"
    "locks s1 = push_lock ShrdLock (locks (ng_nv g))" "fsize s1 = fsize (ng_nv g)" "(arrfst s1, arrlst s1) = (f, l)"
    using ng_lock_ok [OF a ls, of ShrdLock] by auto
  have lk: "locks s1 \<noteq> []" using s1(3) by (simp add: push_lock_def)
  note sg = array_sget [OF s1(2) lk, of nbr]
  obtain s3 where s3: "lock UnLock Block s1 = (Ok 0, s3)" "array_at s3 B u f l {} (enc M)" "locks s3 = locks (ng_nv g)"
    "fsize s3 = fsize s1"
    using array_unlock [OF s1(2,3)] by auto
  have un: "ng_lock UnLock (g\<lparr>ng_nv := s1\<rparr>) = (Ok (), g\<lparr>ng_nv := s3\<rparr>)"
    by (simp add: ng_lock_def bnd_def in_nv_def s3(1) ret_def)
  have "nv_getarticle fmt retr nbr (x, g) = (Ok (Some a), (x, g\<lparr>ng_nv := s3\<rparr>))"
  proof (cases k)
    case (Small t)
    have e: "enc M nbr = Some (k_article # t @ [NUL])" using k(1) Small by simp
    show ?thesis
      unfolding nv_getarticle_def bnd_def
      using i s1(5) k Small element_reads(1,4) [OF s1(2) lk e]
      by (simp add: on_snd_def s1(1) gets_def bounds_def arr_getsize_def in_nv_def sg un ret_def bnd_def)
  next
    case (Big ov t)
    have e: "enc M nbr = Some (k_bigarticle # ov @ [NUL])" using k(1) Big by simp
    have "ng_files g (art_file nbr) = Some t" using fs k(1) Big by (simp add: files_ok_def)
    then show ?thesis
      unfolding nv_getarticle_def bnd_def
      using i s1(5) k Big element_reads(1) [OF s1(2) lk e]
      by (simp add: on_snd_def s1(1) gets_def bounds_def arr_getsize_def in_nv_def sg un ret_def bnd_def
          k_bigarticle_def k_article_def)
  qed (use k in simp)
  with s3 s1(4) fs show ?thesis by (auto simp: group_at_def)
qed

context article_source
begin

lemma getarticle_miss:
  assumes g: "group_at g f l M" and ls: "length (locks (ng_nv g)) + 4 \<le> LOCKSTACKSIZE" and i: "nbr \<in> {f..l}"
    and nbr: "nbr < 2 ^ 32" and k: "M nbr = None \<or> (\<exists>ov. M nbr = Some (Over ov))"
  shows "\<exists>s1 r x'. retr nbr (x, g\<lparr>ng_nv := s1\<rparr>) = (r, (x', g\<lparr>ng_nv := s1\<rparr>))
    \<and> fsize s1 = fsize (ng_nv g)
    \<and> (case r of
        Ok None \<Rightarrow> (\<exists>g'. nv_getarticle fmt retr nbr (x, g) = (Ok None, (x', g')) \<and> group_at g' f l M
          \<and> locks (ng_nv g') = locks (ng_nv g))
      | Ok (Some a) \<Rightarrow> (\<forall>a' y. nv_getarticle fmt retr nbr (x, g) = (Ok a', y) \<longrightarrow> a' = Some a)
          \<and> (length (art_text a) \<le> 15360 \<longrightarrow> nv_room (ng_nv g) (length (art_text a) + 10) \<longrightarrow>
          (\<exists>g'. nv_getarticle fmt retr nbr (x, g) = (Ok (Some a), (x', g'))
            \<and> group_at g' f l (M(nbr \<mapsto> Small (art_text a))) \<and> locks (ng_nv g') = locks (ng_nv g)
            \<and> a = \<lparr>art_nbr = i32 (int nbr), art_text = art_text a\<rparr>))
      | Throw e \<Rightarrow> fst (nv_getarticle fmt retr nbr (x, g)) = Throw e
      | Crash \<Rightarrow> fst (nv_getarticle fmt retr nbr (x, g)) = Crash
      | Diverge \<Rightarrow> fst (nv_getarticle fmt retr nbr (x, g)) = Diverge)"
proof -
  have ls3: "length (locks (ng_nv g)) + 3 \<le> LOCKSTACKSIZE" using ls by simp
  obtain B u where a: "array_at (ng_nv g) B u f l {} (enc M)" and fs: "files_ok (ng_files g) M"
    using g by (auto simp: group_at_def)
  obtain s1 where s1: "ng_lock ShrdLock g = (Ok (), g\<lparr>ng_nv := s1\<rparr>)" "array_at s1 B u f l {} (enc M)"
    "locks s1 = push_lock ShrdLock (locks (ng_nv g))" "fsize s1 = fsize (ng_nv g)" "(arrfst s1, arrlst s1) = (f, l)"
    using ng_lock_ok [OF a ls3, of ShrdLock] by auto
  let ?g = "g\<lparr>ng_nv := s1\<rparr>"
  have lk: "locks s1 \<noteq> []" using s1(3) by (simp add: push_lock_def)
  note sg = array_sget [OF s1(2) lk, of nbr]
  have g1: "group_at ?g f l M" using s1(2) fs by (auto simp: group_at_def)
  obtain r x' where r: "retr nbr (x, ?g) = (r, (x', ?g))" using leaves_group by blast
  have ge: "nv_getarticle fmt retr nbr (x, g)
      = bnd (retrieve_and_store fmt retr nbr) (\<lambda>r. bnd (on_snd (ng_lock UnLock)) (\<lambda>_. ret r)) (x, ?g)"
  proof (cases "M nbr")
    case None
    then show ?thesis
      unfolding nv_getarticle_def bnd_def using i s1(5)
      by (simp add: on_snd_def s1(1) gets_def bounds_def arr_getsize_def in_nv_def sg bnd_def)
  next
    case (Some k')
    then obtain ov where ov: "M nbr = Some (Over ov)" using k by auto
    have e: "enc M nbr = Some (k_overview # ov @ [NUL])" using ov by simp
    show ?thesis
      unfolding nv_getarticle_def bnd_def using i s1(5) ov element_reads(1) [OF s1(2) lk e]
      by (simp add: on_snd_def s1(1) gets_def bounds_def arr_getsize_def in_nv_def sg bnd_def
          k_bigarticle_def k_article_def k_overview_def)
  qed
  show ?thesis
  proof (intro exI conjI)
    show "retr nbr (x, ?g) = (r, (x', ?g))" by (rule r)
    show "fsize s1 = fsize (ng_nv g)" by (rule s1(4))
    show "case r of
        Ok None \<Rightarrow> (\<exists>g'. nv_getarticle fmt retr nbr (x, g) = (Ok None, (x', g')) \<and> group_at g' f l M
          \<and> locks (ng_nv g') = locks (ng_nv g))
      | Ok (Some a) \<Rightarrow> (\<forall>a' y. nv_getarticle fmt retr nbr (x, g) = (Ok a', y) \<longrightarrow> a' = Some a)
          \<and> (length (art_text a) \<le> 15360 \<longrightarrow> nv_room (ng_nv g) (length (art_text a) + 10) \<longrightarrow>
          (\<exists>g'. nv_getarticle fmt retr nbr (x, g) = (Ok (Some a), (x', g'))
            \<and> group_at g' f l (M(nbr \<mapsto> Small (art_text a))) \<and> locks (ng_nv g') = locks (ng_nv g)
            \<and> a = \<lparr>art_nbr = i32 (int nbr), art_text = art_text a\<rparr>))
      | Throw e \<Rightarrow> fst (nv_getarticle fmt retr nbr (x, g)) = Throw e
      | Crash \<Rightarrow> fst (nv_getarticle fmt retr nbr (x, g)) = Crash
      | Diverge \<Rightarrow> fst (nv_getarticle fmt retr nbr (x, g)) = Diverge"
    proof (cases r)
      case (Ok v)
      show ?thesis
      proof (cases v)
        case None
        obtain s3 where s3: "ng_lock UnLock ?g = (Ok (), g\<lparr>ng_nv := s3\<rparr>)"
          "array_at s3 B u f l {} (enc M)" "locks s3 = locks (ng_nv g)"
          using ng_unlock_ok [of ?g B u f l "{}"] s1(2,3) by force
        have "nv_getarticle fmt retr nbr (x, g) = (Ok None, (x', g\<lparr>ng_nv := s3\<rparr>))"
          unfolding ge by (simp add: bnd_def retrieve_and_store_def r Ok None ret_def on_snd_def s3(1))
        with Ok None s3(2,3) fs show ?thesis by (auto simp: group_at_def)
      next
        case (Some a)
        have num: "u32_of_int (getnbr a) = nbr" "getnbr a = i32 (int nbr)"
          using right_number [of nbr x ?g a] r Ok Some nbr by (simp_all add: u32_of_int_i32)
        have rm: "nv_room s1 k = nv_room (ng_nv g) k" for k using s1(4) by (simp add: nv_room_def)
        have "\<exists>g'. nv_getarticle fmt retr nbr (x, g) = (Ok (Some a), (x', g'))
            \<and> group_at g' f l (M(nbr \<mapsto> Small (art_text a))) \<and> locks (ng_nv g') = locks (ng_nv g)
            \<and> a = \<lparr>art_nbr = i32 (int nbr), art_text = art_text a\<rparr>"
          if sm: "length (art_text a) \<le> 15360" "nv_room (ng_nv g) (length (art_text a) + 10)"
        proof -
          obtain g2 where g2: "nv_setarticle fmt a ?g = (Ok (), g2)"
            "group_at g2 f l (M(nbr \<mapsto> Small (art_text a)))" "locks (ng_nv g2) = locks s1"
            using setarticle_ok [OF g1, of a fmt] num i sm rm ls s1(3) by (auto simp: push_lock_def)
          obtain B2 u2 where a2: "array_at (ng_nv g2) B2 u2 f l {} (enc (M(nbr \<mapsto> Small (art_text a))))"
            and fs2: "files_ok (ng_files g2) (M(nbr \<mapsto> Small (art_text a)))"
            using g2(2) by (auto simp: group_at_def)
          obtain s3 where s3: "ng_lock UnLock g2 = (Ok (), g2\<lparr>ng_nv := s3\<rparr>)"
            "array_at s3 B2 u2 f l {} (enc (M(nbr \<mapsto> Small (art_text a))))" "locks s3 = locks (ng_nv g)"
            using ng_unlock_ok [OF a2] g2(3) s1(3) by auto
          have "nv_getarticle fmt retr nbr (x, g) = (Ok (Some a), (x', g2\<lparr>ng_nv := s3\<rparr>))"
            unfolding ge by (simp add: bnd_def retrieve_and_store_def r Ok Some ret_def on_snd_def g2(1) s3(1))
          moreover have "a = \<lparr>art_nbr = i32 (int nbr), art_text = art_text a\<rparr>"
            using num(2) by (simp add: getnbr_def)
          ultimately show ?thesis using s3(2,3) fs2 by (auto simp: group_at_def)
        qed
        moreover have "a' = Some a" if "nv_getarticle fmt retr nbr (x, g) = (Ok a', y)" for a' y
          using that unfolding ge
          by (auto simp: retrieve_and_store_def bnd_def r Ok Some ret_def split: prod.splits outcome.splits)
        ultimately show ?thesis using Ok Some by auto
      qed
    qed (simp_all add: ge bnd_def retrieve_and_store_def r)
  qed
qed

text \<open>An article that has been fetched is not asked for again.\<close>

lemma fetched_once:
  assumes g: "group_at g f l M" and ls: "length (locks (ng_nv g)) + 4 \<le> LOCKSTACKSIZE" and i: "nbr \<in> {f..l}"
    and nbr: "nbr < 2 ^ 32" and nb: "\<forall>ov t. M nbr \<noteq> Some (Big ov t)"
    and get: "nv_getarticle fmt retr nbr (x, g) = (Ok (Some a), (x', g'))"
    and sm: "length (art_text a) \<le> 15360" "nv_room (ng_nv g) (length (art_text a) + 10)"
  shows "group_at g' f l (M(nbr \<mapsto> Small (art_text a))) \<and> locks (ng_nv g') = locks (ng_nv g)
    \<and> (\<exists>g''. nv_getarticle fmt' retr' nbr (y, g') = (Ok (Some a), (y, g'')))"
proof -
  have ls3: "length (locks (ng_nv g)) + 3 \<le> LOCKSTACKSIZE" using ls by simp
  have new: "group_at g' f l (M(nbr \<mapsto> Small (art_text a))) \<and> locks (ng_nv g') = locks (ng_nv g)
      \<and> a = \<lparr>art_nbr = i32 (int nbr), art_text = art_text a\<rparr>"
  proof (cases "\<exists>t. M nbr = Some (Small t)")
    case True
    then obtain t where t: "M nbr = Some (Small t)" by blast
    from getarticle_hit [OF g ls3 i this refl, of fmt retr x] get
    have "a = \<lparr>art_nbr = i32 (int nbr), art_text = t\<rparr>" "group_at g' f l M" "locks (ng_nv g') = locks (ng_nv g)"
      by auto
    moreover from this have "M(nbr \<mapsto> Small (art_text a)) = M" using t by auto
    ultimately show ?thesis by simp
  next
    case False
    then have k: "M nbr = None \<or> (\<exists>ov. M nbr = Some (Over ov))"
      using nb by (cases "M nbr") (auto split: kept.splits intro: kept.exhaust)
    obtain r y where m: "case r of
        Ok None \<Rightarrow> (\<exists>g'. nv_getarticle fmt retr nbr (x, g) = (Ok None, (y, g')) \<and> group_at g' f l M
          \<and> locks (ng_nv g') = locks (ng_nv g))
      | Ok (Some a) \<Rightarrow> (\<forall>a' y. nv_getarticle fmt retr nbr (x, g) = (Ok a', y) \<longrightarrow> a' = Some a)
          \<and> (length (art_text a) \<le> 15360 \<longrightarrow> nv_room (ng_nv g) (length (art_text a) + 10) \<longrightarrow>
          (\<exists>g'. nv_getarticle fmt retr nbr (x, g) = (Ok (Some a), (y, g'))
            \<and> group_at g' f l (M(nbr \<mapsto> Small (art_text a))) \<and> locks (ng_nv g') = locks (ng_nv g)
            \<and> a = \<lparr>art_nbr = i32 (int nbr), art_text = art_text a\<rparr>))
      | Throw e \<Rightarrow> fst (nv_getarticle fmt retr nbr (x, g)) = Throw e
      | Crash \<Rightarrow> fst (nv_getarticle fmt retr nbr (x, g)) = Crash
      | Diverge \<Rightarrow> fst (nv_getarticle fmt retr nbr (x, g)) = Diverge"
      using getarticle_miss [OF g ls i nbr k, of x fmt] by blast
    then have "r = Ok (Some a)"
      using get by (auto split: outcome.splits option.splits)
    with m sm get show ?thesis by auto
  qed
  then have h: "(M(nbr \<mapsto> Small (art_text a))) nbr = Some (Small (art_text a))"
    "length (locks (ng_nv g')) + 3 \<le> LOCKSTACKSIZE" "group_at g' f l (M(nbr \<mapsto> Small (art_text a)))"
    using ls by simp_all
  from getarticle_hit [OF h(3,2) i h(1) refl, of fmt' retr' y] new show ?thesis by auto
qed

end

section \<open>The upstream server as a source of articles\<close>

lemma rs_article_number:
  assumes "rs_article n N name nbr art s = (Ok a, s')"
  shows "getnbr a = i32 (int nbr)"
proof -
  have "getnbr a' = k" if "read_art k b s1 = (Ok a', s2)" for k b s1 a' s2
    using that by (auto simp: read_art_def setnbr_def getnbr_def elim!: bnd_OkE) (auto simp: act_simps)
  then show ?thesis
    using assms by (auto simp: rs_article_def Let_def throw_def elim!: bnd_OkE split: if_splits)
qed

lemma cache_article_number:
  assumes "cache_article n N name nbr art s = (Ok a, s')"
  shows "getnbr a = i32 (int nbr)"
  using assms rs_article_number
  by (auto simp: cache_article_def throw_def elim!: bnd_OkE split: if_splits)

interpretation upstream: article_source "cg_retrievearticle n N" for n N
proof
  fix nbr and s :: "'a nserver" and g :: ngroup
  show "\<exists>r x'. cg_retrievearticle n N nbr (s, g) = (r, (x', g))"
    by (auto simp: cg_retrievearticle_def bnd_def gets_def try_catch_def on_fst_def ret_def
        split: prod.splits outcome.splits)
next
  fix nbr and s :: "'a nserver" and g :: ngroup and a y
  assume "cg_retrievearticle n N nbr (s, g) = (Ok (Some a), y)"
  then show "getnbr a = i32 (int nbr)"
    using cache_article_number
    by (auto simp: cg_retrievearticle_def bnd_def gets_def try_catch_def on_fst_def ret_def
        split: prod.splits outcome.splits)
qed

interpretation offline_group: article_source no_retriever
  by unfold_locales (simp_all add: no_retriever_def ret_def)

section \<open>Setting the bounds\<close>

lemma show_nat_inj: "show_nat m = show_nat n \<Longrightarrow> m = n"
  by (metis scan_digits_show)

lemma art_file_inj [simp]: "art_file m = art_file n \<longleftrightarrow> m = n"
  by (auto simp: art_file_def dest: show_nat_inj)

text \<open>What is freed falls out of the map, and the files of long articles are removed.\<close>

lemma table_weaken:
  assumes t: "table_at m B u f l D A" and "A i = None"
  shows "table_at m B u f l (insert i D) A"
proof -
  have d: "dom A \<subseteq> {f..l} - insert i D" using table_dom [OF t] assms(2) by auto
  show ?thesis
    unfolding table_at_def
  proof (intro conjI ballI)
    fix j assume "j \<in> {f..l} - insert i D"
    then have "j \<in> {f..l} - D" by blast
    then show "case A j of None \<Rightarrow> rl m (slot u f j) = 0 | Some d \<Rightarrow> elem_at m B u (rl m (slot u f j)) d"
      by (rule table_at_case [OF t])
  qed (use t d in \<open>simp_all add: table_at_def\<close>)
qed

lemma array_weaken:
  "array_at s B u f l D A \<Longrightarrow> A i = None \<Longrightarrow> array_at s B u f l (insert i D) A"
  using table_weaken by (auto simp: array_at_def)

lemma files_drop:
  "files_ok fs M \<Longrightarrow> files_ok fs (M(i := None))"
  "files_ok fs M \<Longrightarrow> files_ok (fs(art_file i := None)) (M(i := None))"
  by (auto simp: files_ok_def)

text \<open>The state while elements are dropped: those of \<open>S\<close> are gone.\<close>

definition dropped :: "ngroup \<Rightarrow> nat \<Rightarrow> nat \<Rightarrow> (nat \<rightharpoonup> kept) \<Rightarrow> nat set \<Rightarrow> bool" where
  "dropped g f l M S \<longleftrightarrow> (\<exists>B u. array_at (ng_nv g) B u f l S (enc (M |` (- S))))
     \<and> files_ok (ng_files g) (M |` (- S))
     \<and> (\<forall>i ov t. i \<in> S \<longrightarrow> M i = Some (Big ov t) \<longrightarrow> ng_files g (art_file i) = None)"

lemma drop_one:
  assumes d: "dropped g f l M S" and x: "top_lock (locks (ng_nv g)) = ExclLock" and i: "f + i \<in> {f..l}" "f + i \<notin> S"
  shows "\<exists>g'. ng_drop_entries f (i # is) g = ng_drop_entries f is g' \<and> dropped g' f l M (insert (f + i) S)
    \<and> locks (ng_nv g') = locks (ng_nv g) \<and> fsize (ng_nv g') = fsize (ng_nv g) \<and> ng_name g' = ng_name g"
proof -
  let ?S = "insert (f + i) S" and ?M = "M |` (- S)"
  obtain B u where a: "array_at (ng_nv g) B u f l S (enc ?M)" and fs: "files_ok (ng_files g) ?M"
    and gone: "\<And>i ov t. i \<in> S \<Longrightarrow> M i = Some (Big ov t) \<Longrightarrow> ng_files g (art_file i) = None"
    using d by (auto simp: dropped_def)
  have lk: "locks (ng_nv g) \<noteq> []" using x by auto
  have m: "?M (f + i) = M (f + i)" using i(2) by simp
  have S: "M |` (- ?S) = ?M(f + i := None)" by (auto simp: restrict_map_def fun_eq_iff)
  have l: "l < 2 ^ 32" using a by (simp add: array_at_def)
  have u64: "u64 (f + i) = f + i" using i(1) l by simp
  note en = array_entry(1) [OF a lk i(1)]
  show ?thesis
  proof (cases "M (f + i)")
    case None
    then have n0: "(enc ?M) (f + i) = None" unfolding enc_def using m by simp
    have t: "table_at (fbytes (ng_nv g)) B u f l S (enc ?M)" using a by (simp add: array_at_def)
    have z: "rl (fbytes (ng_nv g)) (slot u f (f + i)) = 0" using table_none [OF t _ n0] i by simp
    have "array_at (ng_nv g) B u f l ?S (enc ?M)" by (rule array_weaken [OF a n0])
    moreover have S': "M |` (- ?S) = ?M" using None by (auto simp: restrict_map_def fun_eq_iff)
    ultimately have "dropped g f l M ?S"
      unfolding dropped_def S' using fs gone None by auto
    moreover have "ng_drop_entries f (i # is) g = ng_drop_entries f is g"
      using en z by (simp add: bnd_def in_nv_def ret_def)
    ultimately show ?thesis by blast
  next
    case (Some k)
    then have e: "(enc ?M) (f + i) = Some (encode k)" unfolding enc_def using m by simp
    let ?x = "rl (fbytes (ng_nv g)) (slot u f (f + i))"
    have x0: "?x \<noteq> 0" using array_elem(3) [OF a lk e] by simp
    obtain c t where ct: "encode k = c # t @ [NUL]" "c = k_bigarticle \<longleftrightarrow> (\<exists>ov t. k = Big ov t)"
      by (cases k) (auto simp: k_bigarticle_def k_article_def k_overview_def)
    have kind: "kind_at (?x + 8) (ng_nv g) = (Ok c, ng_nv g)"
      using element_reads(1) [OF a lk e [unfolded ct(1)]] .
    obtain s' c' where s': "arr_nvfree ?x (ng_nv g) = (Ok (), s')"
      "array_at s' (B - {(?x, c')}) u f l ?S ((enc ?M)(f + i := None))"
      "locks s' = locks (ng_nv g)" "fsize s' = fsize (ng_nv g)"
      using array_free [OF a x e] by blast
    let ?fs = "if c = k_bigarticle then (ng_files g)(art_file (f + i) := None) else ng_files g"
    let ?g = "g\<lparr>ng_files := ?fs, ng_nv := s'\<rparr>"
    have "ng_drop_entries f (i # is) g = ng_drop_entries f is ?g"
      using en x0 kind s'(1) u64
      by (simp add: bnd_def in_nv_def ret_def unlink_file_def upd_def)
    moreover have nv: "ng_nv ?g = s'" and nf: "ng_files ?g = ?fs" by simp_all
    moreover have "dropped ?g f l M ?S"
      unfolding dropped_def S
    proof (intro conjI)
      show "\<exists>B u. array_at (ng_nv ?g) B u f l ?S (enc (?M(f + i := None)))"
        unfolding enc_simps(4) nv using s'(2) by (intro exI)
      show "files_ok (ng_files ?g) (?M(f + i := None))"
        unfolding nf using files_drop [OF fs] by (cases "c = k_bigarticle") (simp_all only: if_True if_False simp_thms)
      show "\<forall>j ov t. j \<in> ?S \<longrightarrow> M j = Some (Big ov t) \<longrightarrow> ng_files ?g (art_file j) = None"
        using ct(2) gone Some by auto
    qed
    ultimately show ?thesis using s'(3,4) by (intro exI [of _ ?g]) simp
  qed
qed

lemma drop_entries:
  assumes "dropped g f l M S" and "top_lock (locks (ng_nv g)) = ExclLock"
    and "\<forall>i \<in> set is. f + i \<in> {f..l} - S" and "distinct is"
  shows "\<exists>g'. ng_drop_entries f is g = (Ok (), g') \<and> dropped g' f l M (S \<union> (+) f ` set is)
    \<and> locks (ng_nv g') = locks (ng_nv g) \<and> fsize (ng_nv g') = fsize (ng_nv g) \<and> ng_name g' = ng_name g"
  using assms
proof (induction "is" arbitrary: g S)
  case Nil
  then show ?case by (simp add: ret_def)
next
  case (Cons i "is")
  have i: "f + i \<in> {f..l}" "f + i \<notin> S" using Cons.prems(3) by simp_all
  obtain g1 where g1: "ng_drop_entries f (i # is) g = ng_drop_entries f is g1"
    "dropped g1 f l M (insert (f + i) S)" "locks (ng_nv g1) = locks (ng_nv g)"
    "fsize (ng_nv g1) = fsize (ng_nv g)" "ng_name g1 = ng_name g"
    using drop_one [OF Cons.prems(1,2) i] by blast
  have "\<forall>j \<in> set is. f + j \<in> {f..l} - insert (f + i) S" using Cons.prems(3,4) by auto
  from Cons.IH [OF g1(2) _ this] Cons.prems(2,4) g1 show ?case by auto
qed

text \<open>The differences of bounds as the code computes them.\<close>

lemma long_sub64:
  assumes "a < 2 ^ 32" and "b < 2 ^ 32"
  shows "long (sub64 a b) = int a - int b" and "long (u64 (sub64 a b + 1)) = int a + 1 - int b"
proof -
  consider "b \<le> a" | "a + 1 = b" | "a + 1 < b" by linarith
  then have "long (sub64 a b) = int a - int b \<and> long (u64 (sub64 a b + 1)) = int a + 1 - int b"
  proof cases
    case 1
    then show ?thesis using assms by (simp add: long_def)
  next
    case 2
    then have "sub64 a b = 2 ^ 64 - 1" using assms by (simp add: sub64_def u64_def)
    then show ?thesis using 2 by (simp add: long_def u64_def)
  next
    case 3
    then have "sub64 a b = 2 ^ 64 + a - b" using assms by (simp add: sub64_def u64_def)
    then show ?thesis using 3 assms by (simp add: long_def u64_def)
  qed
  then show "long (sub64 a b) = int a - int b" "long (u64 (sub64 a b + 1)) = int a + 1 - int b" by simp_all
qed

text \<open>Both loops of \<open>setsize\<close>: everything outside the new bounds is dropped.\<close>

lemma drop_outside:
  assumes d: "dropped g f l M {}" and x: "top_lock (locks (ng_nv g)) = ExclLock"
    and fl: "f \<le> l + 1" "l < 2 ^ 32" and fl': "f' \<le> l' + 1" "l' < 2 ^ 32"
  shows "\<exists>g' S. nv_drop f' l' f l g = (Ok (), g') \<and> dropped g' f l M S \<and> S \<inter> {f..l} = {f..l} - {f'..l'} \<and> S \<inter> {f'..l'} = {}
    \<and> locks (ng_nv g') = locks (ng_nv g) \<and> fsize (ng_nv g') = fsize (ng_nv g) \<and> ng_name g' = ng_name g"
proof (cases "f \<le> l")
  case False
  then show ?thesis using d by (intro exI [of _ g] exI [of _ "{}"]) (simp add: nv_drop_def ret_def)
next
  case True
  have f': "f' < 2 ^ 32 \<or> f' = 2 ^ 32" using fl' by auto
  have n1: "nat (min (long (sub64 f' f)) (long (u64 (sub64 l f + 1)))) = min (f' - f) (l + 1 - f)"
  proof -
    have "long (sub64 f' f) = int f' - int f"
    proof (cases "f' < 2 ^ 32")
      case True
      then show ?thesis using long_sub64(1) fl \<open>f \<le> l\<close> by simp
    next
      case False
      then have "f' = 2 ^ 32" using f' by simp
      then show ?thesis using fl \<open>f \<le> l\<close> by (simp add: long_def)
    qed
    then show ?thesis using long_sub64(2) [of l f] fl True by simp
  qed
  have n2: "nat (long (u64 (sub64 l' f + 1))) = l' + 1 - f" "nat (long (u64 (sub64 l f + 1))) = l + 1 - f"
    using long_sub64(2) [of l' f] long_sub64(2) [of l f] fl fl' True by simp_all
  let ?I = "[0..<min (f' - f) (l + 1 - f)]" and ?J = "[l' + 1 - f..<l + 1 - f]"
  have im: "(+) f ` {a..<b} = {f + a..<f + b}" for a b using image_add_atLeastLessThan [of f a b] by (simp add: add.commute)
  have I0: "\<forall>i \<in> set ?I. f + i \<in> {f..l} - {}" by auto
  obtain g1 where g1: "ng_drop_entries f ?I g = (Ok (), g1)" "dropped g1 f l M ((+) f ` set ?I)"
    "locks (ng_nv g1) = locks (ng_nv g)" "fsize (ng_nv g1) = fsize (ng_nv g)" "ng_name g1 = ng_name g"
    using drop_entries [OF d x I0 distinct_upt] by auto
  have "\<forall>i \<in> set ?J. f + i \<in> {f..l} - (+) f ` set ?I" using fl' by auto
  from drop_entries [OF g1(2) _ this] x g1(3) obtain g2 where
    g2: "ng_drop_entries f ?J g1 = (Ok (), g2)" "dropped g2 f l M ((+) f ` set ?I \<union> (+) f ` set ?J)"
    "locks (ng_nv g2) = locks (ng_nv g)" "fsize (ng_nv g2) = fsize (ng_nv g)" "ng_name g2 = ng_name g"
    using g1(3-5) by auto
  have S: "(+) f ` set ?I \<union> (+) f ` set ?J = {f..<min (max f f') (l + 1)} \<union> {max f (l' + 1)..<l + 1}"
    using True by (auto simp: im)
  show ?thesis
  proof (intro exI conjI)
    show "nv_drop f' l' f l g = (Ok (), g2)"
      unfolding nv_drop_def Let_def n1 n2 using True by (simp only: if_True) (simp add: bnd_def g1(1) [simplified] g2(1) [simplified])
    show "dropped g2 f l M ((+) f ` set ?I \<union> (+) f ` set ?J)" by (rule g2(2))
    show "((+) f ` set ?I \<union> (+) f ` set ?J) \<inter> {f..l} = {f..l} - {f'..l'}" unfolding S using fl' by auto
    show "((+) f ` set ?I \<union> (+) f ` set ?J) \<inter> {f'..l'} = {}" unfolding S by auto
  qed (fact g2)+
qed

text \<open>\<open>setsize\<close> keeps what lies within the new bounds, and nothing else.\<close>

lemma setsize_ok:
  assumes g: "group_at g f l M" and ls: "length (locks (ng_nv g)) + 4 \<le> LOCKSTACKSIZE"
    and fl': "f' \<le> l' + 1" "l' < 2 ^ 32" and r: "table_room (ng_nv g) f' l'"
  shows "\<exists>g'. nv_setsize f' l' g = (Ok (), g') \<and> group_at g' f' l' (M |` {f'..l'})
    \<and> locks (ng_nv g') = locks (ng_nv g)
    \<and> (\<forall>i ov t. M i = Some (Big ov t) \<longrightarrow> i \<notin> {f'..l'} \<longrightarrow> ng_files g' (art_file i) = None)"
proof -
  have ls3: "length (locks (ng_nv g)) + 3 \<le> LOCKSTACKSIZE" using ls by simp
  obtain B u where a: "array_at (ng_nv g) B u f l {} (enc M)" and fs: "files_ok (ng_files g) M"
    using g by (auto simp: group_at_def)
  have fl: "f \<le> l + 1" "l < 2 ^ 32" using a by (simp_all add: array_at_def)
  have dm: "dom M \<subseteq> {f..l}" using a table_dom by (fastforce simp: array_at_def)
  obtain s1 where s1: "ng_lock ShrdLock g = (Ok (), g\<lparr>ng_nv := s1\<rparr>)" "array_at s1 B u f l {} (enc M)"
    "locks s1 = push_lock ShrdLock (locks (ng_nv g))" "fsize s1 = fsize (ng_nv g)" "(arrfst s1, arrlst s1) = (f, l)"
    using ng_lock_ok [OF a ls3, of ShrdLock] by auto
  show ?thesis
  proof (cases "f' = f \<and> l' = l")
    case True
    obtain s3 where s3: "ng_lock UnLock (g\<lparr>ng_nv := s1\<rparr>) = (Ok (), g\<lparr>ng_nv := s3\<rparr>)"
      "array_at s3 B u f l {} (enc M)" "locks s3 = locks (ng_nv g)"
      using ng_unlock_ok [of "g\<lparr>ng_nv := s1\<rparr>" B u f l "{}"] s1(2,3) by force
    have "nv_setsize f' l' g = (Ok (), g\<lparr>ng_nv := s3\<rparr>)"
      unfolding nv_setsize_def bnd_def using True s1(5)
      by (simp add: s1(1) gets_def bounds_def arr_getsize_def ret_def s3(1))
    moreover have "M |` {f'..l'} = M"
    proof
      fix i
      show "(M |` {f'..l'}) i = M i" using dm True by (cases "M i") (auto simp: restrict_map_def)
    qed
    ultimately show ?thesis using s3(2,3) fs dm True by (auto simp: group_at_def)
  next
    case False
    obtain s2 where s2: "ng_lock ExclLock (g\<lparr>ng_nv := s1\<rparr>) = (Ok (), g\<lparr>ng_nv := s2\<rparr>)" "array_at s2 B u f l {} (enc M)"
      "locks s2 = push_lock ExclLock (locks s1)" "fsize s2 = fsize (ng_nv g)" "(arrfst s2, arrlst s2) = (f, l)"
      using ng_lock_ok [of "g\<lparr>ng_nv := s1\<rparr>" B u f l "{}" "enc M" ExclLock] s1(2-4) ls by (auto simp: push_lock_def)
    have x: "top_lock (locks s2) = ExclLock" using s2(3) by (simp add: push_lock_def)
    have "dropped (g\<lparr>ng_nv := s2\<rparr>) f l M {}"
      using s2(2) fs by (auto simp: dropped_def restrict_map_def)
    from drop_outside [OF this _ fl fl'] x obtain g3 S where
      g3: "nv_drop f' l' f l (g\<lparr>ng_nv := s2\<rparr>) = (Ok (), g3)"
      "dropped g3 f l M S" "S \<inter> {f..l} = {f..l} - {f'..l'}" "S \<inter> {f'..l'} = {}"
      "locks (ng_nv g3) = locks s2" "fsize (ng_nv g3) = fsize (ng_nv g)"
      using s2(4) by auto
    have res: "M |` (- S) = M |` {f'..l'}"
    proof
      fix i
      show "(M |` (- S)) i = (M |` {f'..l'}) i"
      proof (cases "M i")
        case (Some k)
        then have "i \<in> {f..l}" using dm by blast
        then have "i \<in> S \<longleftrightarrow> i \<notin> {f'..l'}" using g3(3,4) by blast
        then show ?thesis by (simp add: restrict_map_def)
      qed (simp add: restrict_map_def)
    qed
    obtain B3 u3 where a3: "array_at (ng_nv g3) B3 u3 f l S (enc (M |` {f'..l'}))"
      and f3: "files_ok (ng_files g3) (M |` {f'..l'})"
      and gone: "\<And>i ov t. i \<in> S \<Longrightarrow> M i = Some (Big ov t) \<Longrightarrow> ng_files g3 (art_file i) = None"
      using g3(2) unfolding dropped_def res by blast
    have x3: "top_lock (locks (ng_nv g3)) = ExclLock" "table_room (ng_nv g3) f' l'"
      using x r g3(5,6) by (simp_all add: table_room_def nv_room_def)
    have "dom (enc (M |` {f'..l'})) \<subseteq> {f'..l'}" unfolding enc_simps(2) by simp
    from ssetsize_again [OF a3 x3(1) fl' x3(2) this g3(4)] obtain s4 B4 u4 where
      s4: "arr_ssetsize f' l' (ng_nv g3) = (Ok (), s4)" "array_at s4 B4 u4 f' l' {} (enc (M |` {f'..l'}))"
      "locks s4 = locks s2" using g3(5) by auto
    obtain s5 where s5: "ng_lock UnLock (g3\<lparr>ng_nv := s4\<rparr>) = (Ok (), g3\<lparr>ng_nv := s5\<rparr>)"
      "array_at s5 B4 u4 f' l' {} (enc (M |` {f'..l'}))" "locks s5 = locks s1"
      using ng_unlock_ok [of "g3\<lparr>ng_nv := s4\<rparr>" B4 u4 f' l' "{}" "enc (M |` {f'..l'})" ExclLock "locks s1"]
        s4(2,3) s2(3) by auto
    obtain s6 where s6: "ng_lock UnLock (g3\<lparr>ng_nv := s5\<rparr>) = (Ok (), g3\<lparr>ng_nv := s6\<rparr>)"
      "array_at s6 B4 u4 f' l' {} (enc (M |` {f'..l'}))" "locks s6 = locks (ng_nv g)"
      using ng_unlock_ok [of "g3\<lparr>ng_nv := s5\<rparr>" B4 u4 f' l' "{}" "enc (M |` {f'..l'})" ShrdLock "locks (ng_nv g)"]
        s5(2,3) s1(3) by auto
    have "nv_setsize f' l' g = (Ok (), g3\<lparr>ng_nv := s6\<rparr>)"
    proof -
      have b1: "bounds (g\<lparr>ng_nv := s1\<rparr>) = (f, l)" "bounds (g\<lparr>ng_nv := s2\<rparr>) = (f, l)"
        using s1(5) s2(5) by (simp_all add: bounds_def arr_getsize_def)
      show ?thesis
        unfolding nv_setsize_def bnd_def using False
        by (auto simp: s1(1) s2(1) gets_def b1 g3(1) in_nv_def s4(1) s5(1) s6(1))
    qed
    moreover have "ng_files g3 (art_file i) = None" if big: "M i = Some (Big ov t)" "i \<notin> {f'..l'}" for i ov t
    proof (rule gone [OF _ big(1)])
      have "i \<in> {f..l}" using dm big(1) by blast
      with big(2) g3(3) show "i \<in> S" by blast
    qed
    ultimately show ?thesis using s6(2,3) f3 by (auto simp: group_at_def)
  qed
qed

text \<open>A group whose database is new.\<close>

lemma none_lock:
  assumes a: "no_array (ng_nv g) B" and ls: "length (locks (ng_nv g)) + 3 \<le> LOCKSTACKSIZE" and c: "c \<noteq> UnLock"
  shows "\<exists>s. ng_lock c g = (Ok (), g\<lparr>ng_nv := s\<rparr>) \<and> no_array s B
    \<and> locks s = push_lock c (locks (ng_nv g)) \<and> fsize s = fsize (ng_nv g) \<and> (arrfst s, arrlst s) = (1, 0)"
proof -
  have h: "nv_holds (ng_nv g) B" and y: "arr_sync (ng_nv g)" using a by (simp_all add: no_array_def)
  have r: "ready (ng_nv g)" "length (locks (ng_nv g)) < LOCKSTACKSIZE" using h ls by (auto simp: nv_holds_def)
  obtain s where s: "lock c Block (ng_nv g) = (Ok 0, s)" "same_db (ng_nv g) s"
    "locks s = push_lock c (locks (ng_nv g))" "arr_sync s"
    using lock_ok [OF r(1) c r(2), of Block] y by blast
  moreover have "nv_holds s B" using holds_lock [OF h ls c] s(1) by auto
  ultimately have n: "no_array s B" using a by (simp add: no_array_def same_db_def)
  have "coherent s" using n s(3,4) by (auto simp: no_array_def arr_sync_def)
  then have "(arrfst s, arrlst s) = (1, 0)" using n by (simp add: no_array_def coherent_def arrs_def loaded_def)
  moreover have "ng_lock c g = (Ok (), g\<lparr>ng_nv := s\<rparr>)"
    by (simp add: ng_lock_def bnd_def in_nv_def s(1) ret_def)
  ultimately show ?thesis using n s(2,3) by (auto simp: same_db_def)
qed

lemma setsize_new:
  assumes a: "no_array (ng_nv g) B" and ls: "length (locks (ng_nv g)) + 4 \<le> LOCKSTACKSIZE"
    and fl': "f' \<le> l' + 1" "l' < 2 ^ 32" and r: "table_room (ng_nv g) f' l'" and ne: "(f', l') \<noteq> (1, 0)"
  shows "\<exists>g'. nv_setsize f' l' g = (Ok (), g') \<and> group_at g' f' l' Map.empty
    \<and> locks (ng_nv g') = locks (ng_nv g) \<and> ng_files g' = ng_files g \<and> ng_name g' = ng_name g"
proof -
  have ls3: "length (locks (ng_nv g)) + 3 \<le> LOCKSTACKSIZE" using ls by simp
  obtain s1 where s1: "ng_lock ShrdLock g = (Ok (), g\<lparr>ng_nv := s1\<rparr>)" "no_array s1 B"
    "locks s1 = push_lock ShrdLock (locks (ng_nv g))" "fsize s1 = fsize (ng_nv g)" "(arrfst s1, arrlst s1) = (1, 0)"
    using none_lock [OF a ls3, of ShrdLock] by auto
  obtain s2 where s2: "ng_lock ExclLock (g\<lparr>ng_nv := s1\<rparr>) = (Ok (), g\<lparr>ng_nv := s2\<rparr>)" "no_array s2 B"
    "locks s2 = push_lock ExclLock (locks s1)" "fsize s2 = fsize (ng_nv g)" "(arrfst s2, arrlst s2) = (1, 0)"
    using none_lock [of "g\<lparr>ng_nv := s1\<rparr>" B ExclLock] s1(2-4) ls by (auto simp: push_lock_def)
  have x: "top_lock (locks s2) = ExclLock" "table_room s2 f' l'"
    using s2(3,4) r by (simp_all add: push_lock_def table_room_def nv_room_def)
  obtain s4 B4 u4 where s4: "arr_ssetsize f' l' s2 = (Ok (), s4)" "array_at s4 B4 u4 f' l' {} Map.empty"
    "locks s4 = locks s2"
    using ssetsize_first [OF s2(2) x(1) fl' x(2)] by blast
  obtain s5 where s5: "ng_lock UnLock (g\<lparr>ng_nv := s4\<rparr>) = (Ok (), g\<lparr>ng_nv := s5\<rparr>)"
    "array_at s5 B4 u4 f' l' {} Map.empty" "locks s5 = locks s1"
    using ng_unlock_ok [of "g\<lparr>ng_nv := s4\<rparr>" B4 u4 f' l' "{}" Map.empty ExclLock "locks s1"] s4(2,3) s2(3) by auto
  obtain s6 where s6: "ng_lock UnLock (g\<lparr>ng_nv := s5\<rparr>) = (Ok (), g\<lparr>ng_nv := s6\<rparr>)"
    "array_at s6 B4 u4 f' l' {} Map.empty" "locks s6 = locks (ng_nv g)"
    using ng_unlock_ok [of "g\<lparr>ng_nv := s5\<rparr>" B4 u4 f' l' "{}" Map.empty ShrdLock "locks (ng_nv g)"]
      s5(2,3) s1(3) by auto
  have b1: "bounds (g\<lparr>ng_nv := s1\<rparr>) = (1, 0)" "bounds (g\<lparr>ng_nv := s2\<rparr>) = (1, 0)"
    using s1(5) s2(5) by (simp_all add: bounds_def arr_getsize_def)
  have "nv_setsize f' l' g = (Ok (), g\<lparr>ng_nv := s6\<rparr>)"
    unfolding nv_setsize_def bnd_def using ne
    by (auto simp: s1(1) s2(1) gets_def b1 nv_drop_def ret_def in_nv_def s4(1) s5(1) s6(1))
  with s6 show ?thesis by (auto simp: group_at_def files_ok_def)
qed

end
