(* ===== verification/Group_Spec.thy ===== *)
theory Group_Spec
  imports Newsgroup_Ok
begin

text \<open>
  What a newsgroup database promises: bounds and a map from article numbers to what is kept of
  them. Every operation that changes the database is a step of this abstract object, and what
  the database answers is a function of it.
\<close>

section \<open>Articles outside the bounds\<close>

lemma setarticle_outside:
  assumes g: "group_at g f l M" and ls: "length (locks (ng_nv g)) + 3 \<le> LOCKSTACKSIZE"
    and i: "u32_of_int (getnbr art) \<notin> {f..l}"
  shows "\<exists>g'. nv_setarticle fmt art g = (Ok (), g') \<and> group_at g' f l M
    \<and> locks (ng_nv g') = locks (ng_nv g) \<and> ng_name g' = ng_name g"
proof -
  obtain B u where a: "array_at (ng_nv g) B u f l {} (enc M)" and fs: "files_ok (ng_files g) M"
    using g by (auto simp: group_at_def)
  obtain s1 where s1: "ng_lock ExclLock g = (Ok (), g\<lparr>ng_nv := s1\<rparr>)" "array_at s1 B u f l {} (enc M)"
    "locks s1 = push_lock ExclLock (locks (ng_nv g))" "(arrfst s1, arrlst s1) = (f, l)"
    using ng_lock_ok [OF a ls, of ExclLock] by auto
  obtain s3 where s3: "ng_lock UnLock (g\<lparr>ng_nv := s1\<rparr>) = (Ok (), g\<lparr>ng_nv := s3\<rparr>)"
    "array_at s3 B u f l {} (enc M)" "locks s3 = locks (ng_nv g)"
    using ng_unlock_ok [of "g\<lparr>ng_nv := s1\<rparr>" B u f l "{}"] s1(2,3) by force
  have "nv_setarticle fmt art g = (Ok (), g\<lparr>ng_nv := s3\<rparr>)"
    unfolding nv_setarticle_def Let_def bnd_def
    using i s1(4) by (auto simp: s1(1) gets_def bounds_def arr_getsize_def ret_def s3(1))
  with s3 fs show ?thesis by (auto simp: group_at_def)
qed

section \<open>The steps\<close>

datatype gop = PutArticle article | PutOver string | SetBounds nat nat

fun run_op :: "overfmt \<Rightarrow> gop \<Rightarrow> (ngroup, unit) act" where
  "run_op fmt (PutArticle art) = nv_setarticle fmt art"
| "run_op fmt (PutOver ov) = nv_setover ov"
| "run_op fmt (SetBounds f l) = nv_setsize f l"

type_synonym agroup = "nat \<times> nat \<times> (nat \<rightharpoonup> kept)"

definition over_nbr :: "string \<Rightarrow> nat" where
  "over_nbr ov = u64_of_int (atoi (c_str ov))"

fun abs_op :: "gop \<Rightarrow> agroup \<Rightarrow> agroup" where
  "abs_op (PutArticle art) (f, l, M) =
     (let i = u32_of_int (getnbr art) in (f, l, if i \<in> {f..l} then M(i \<mapsto> Small (art_text art)) else M))"
| "abs_op (PutOver ov) (f, l, M) =
     (let i = over_nbr ov in (f, l, if i \<in> {f..l} \<and> M i = None then M(i \<mapsto> Over ov) else M))"
| "abs_op (SetBounds f' l') (f, l, M) = (f', l', M |` {f'..l'})"

fun op_fits :: "gop \<Rightarrow> nvc \<Rightarrow> bool" where
  "op_fits (PutArticle art) s \<longleftrightarrow> length (art_text art) \<le> 15360 \<and> nv_room s (length (art_text art) + 10)"
| "op_fits (PutOver ov) s \<longleftrightarrow> nv_room s (length ov + 10)"
| "op_fits (SetBounds f l) s \<longleftrightarrow> f \<le> l + 1 \<and> l < 2 ^ 32 \<and> table_room s f l"

definition holds_abs :: "ngroup \<Rightarrow> agroup \<Rightarrow> bool" where
  "holds_abs g a = (case a of (f, l, M) \<Rightarrow> group_at g f l M)"

lemma store_step:
  assumes "holds_abs g a" and ls: "length (locks (ng_nv g)) + 4 \<le> LOCKSTACKSIZE" and r: "op_fits op (ng_nv g)"
  shows "\<exists>g'. run_op fmt op g = (Ok (), g') \<and> holds_abs g' (abs_op op a) \<and> locks (ng_nv g') = locks (ng_nv g)"
proof -
  have ls3: "length (locks (ng_nv g)) + 3 \<le> LOCKSTACKSIZE" using ls by simp
  obtain f l M where a: "a = (f, l, M)" by (cases a)
  with assms(1) have g: "group_at g f l M" by (simp add: holds_abs_def)
  show ?thesis
  proof (cases op)
    case (PutArticle art)
    then show ?thesis
      using setarticle_ok [OF g ls3, of art fmt] setarticle_outside [OF g ls3, of art fmt] r a
      by (cases "u32_of_int (getnbr art) \<in> {f..l}") (auto simp: holds_abs_def Let_def)
  next
    case (PutOver ov)
    then show ?thesis
      using setover_ok [OF g ls3, of ov] r a by (auto simp: holds_abs_def Let_def over_nbr_def)
  next
    case (SetBounds f' l')
    then show ?thesis using setsize_ok [OF g ls, of f' l'] r a by (auto simp: holds_abs_def)
  qed
qed

section \<open>The answers\<close>

text \<open>The overview record the abstract object answers with.\<close>

definition abs_over :: "overfmt \<Rightarrow> nat \<Rightarrow> agroup \<Rightarrow> string outcome" where
  "abs_over fmt nbr a =
     (case a of (f, l, M) \<Rightarrow>
      case M nbr of None \<Rightarrow> Ok []
      | Some (Over ov) \<Rightarrow> Ok (c_str ov) | Some (Big ov t) \<Rightarrow> Ok (c_str ov)
      | Some (Small t) \<Rightarrow> (case convert_article fmt \<lparr>art_nbr = i32 (int nbr), art_text = t\<rparr> of
           Ok ov \<Rightarrow> Ok (c_str ov) | r \<Rightarrow> r))"

lemma c_str_c_str: "c_str (c_str s) = c_str s"
  by (simp add: c_str_def)

lemma getover_ok:
  assumes "holds_abs g a" and ls: "length (locks (ng_nv g)) + 3 \<le> LOCKSTACKSIZE"
    and ok: "abs_over fmt nbr a = Ok ov"
  shows "\<exists>g'. nv_getover fmt nbr g = (Ok ov, g') \<and> holds_abs g' a \<and> locks (ng_nv g') = locks (ng_nv g)"
proof -
  obtain f l M where av: "a = (f, l, M)" by (cases a)
  with assms(1) have g: "group_at g f l M" by (simp add: holds_abs_def)
  obtain B u where a: "array_at (ng_nv g) B u f l {} (enc M)" and fs: "files_ok (ng_files g) M"
    using g by (auto simp: group_at_def)
  have dm: "dom M \<subseteq> {f..l}" using a table_dom by (fastforce simp: array_at_def)
  obtain s1 where s1: "ng_lock ShrdLock g = (Ok (), g\<lparr>ng_nv := s1\<rparr>)" "array_at s1 B u f l {} (enc M)"
    "locks s1 = push_lock ShrdLock (locks (ng_nv g))" "(arrfst s1, arrlst s1) = (f, l)"
    using ng_lock_ok [OF a ls, of ShrdLock] by auto
  have lk: "locks s1 \<noteq> []" using s1(3) by (simp add: push_lock_def)
  note sg = array_sget [OF s1(2) lk, of nbr]
  obtain s3 where s3: "ng_lock UnLock (g\<lparr>ng_nv := s1\<rparr>) = (Ok (), g\<lparr>ng_nv := s3\<rparr>)"
    "array_at s3 B u f l {} (enc M)" "locks s3 = locks (ng_nv g)"
    using ng_unlock_ok [of "g\<lparr>ng_nv := s1\<rparr>" B u f l "{}"] s1(2,3) by force
  have b: "bounds (g\<lparr>ng_nv := s1\<rparr>) = (f, l)" using s1(4) by (simp add: bounds_def arr_getsize_def)
  have eq: "nv_getover fmt nbr g = (Ok ov, g\<lparr>ng_nv := s3\<rparr>)"
    if "nbr \<in> {f..l} \<Longrightarrow> \<exists>r. sget_over fmt nbr s1 = (Ok r, s1) \<and> ov = (case r of None \<Rightarrow> [] | Some t \<Rightarrow> c_str t)"
      and "nbr \<notin> {f..l} \<Longrightarrow> ov = []"
    using that unfolding nv_getover_def bnd_def
    by (cases "nbr \<in> {f..l}") (auto simp: s1(1) gets_def b in_nv_def s3(1) ret_def)
  have "nv_getover fmt nbr g = (Ok ov, g\<lparr>ng_nv := s3\<rparr>)"
  proof (rule eq)
    show "ov = []" if "nbr \<notin> {f..l}" using that ok dm av by (force simp: abs_over_def split: option.splits)
    assume i: "nbr \<in> {f..l}"
    show "\<exists>r. sget_over fmt nbr s1 = (Ok r, s1) \<and> ov = (case r of None \<Rightarrow> [] | Some t \<Rightarrow> c_str t)"
    proof (cases "M nbr")
      case None
      then show ?thesis
        using sg i ok av by (simp add: sget_over_def bnd_def ret_def abs_over_def)
    next
      case (Some k)
      obtain c t where ct: "encode k = c # t @ [NUL]" by (cases k) auto
      have e: "enc M nbr = Some (c # t @ [NUL])" using Some ct by simp
      note rd = element_reads [OF s1(2) lk e]
      show ?thesis
        using sg i ok av Some ct rd(1,3) rd(4) [of nbr]
        by (cases k) (auto simp: sget_over_def bnd_def ret_def abs_over_def k_overview_def k_article_def
            k_bigarticle_def c_str_c_str of_outcome_def split: outcome.splits)
    qed
  qed
  with s3 fs av show ?thesis by (auto simp: holds_abs_def group_at_def)
qed

end
