(* ===== verification/Server_Ok.thy ===== *)
theory Server_Ok
  imports Cache_Server Article_Ok Choice_Ok
begin

text \<open>
  What the connection to the upstream servers does: a command that is answered, one whose
  connection is lost, a network that is down, a server that refuses to be read from.
\<close>

section \<open>Evaluation\<close>

lemma net_first [act_simps]: "s\<lparr>sv_stream := st, sv_net := n\<rparr> = s\<lparr>sv_net := n, sv_stream := st\<rparr>"
  by simp

lemma current_eval [act_simps]:
  "sv_current s = Some i \<Longrightarrow> i < length (sv_list s) \<Longrightarrow> current s = (Ok (sv_list s ! i), s)"
  by (simp add: current_def)

lemma conn_eval [act_simps]:
  "sv_stream s = Some ss \<Longrightarrow> sv_good s = (Ok (good (ss_in ss)), s)"
  "sv_stream s = Some ss \<Longrightarrow> good (ss_in ss) \<Longrightarrow> net_say N t (sv_net s) = (back, n') \<Longrightarrow>
     sv_write N t s = (Ok (), s\<lparr>sv_stream := Some (ss\<lparr>ss_in := (ss_in ss)\<lparr>inp := inp (ss_in ss) @ back\<rparr>\<rparr>), sv_net := n'\<rparr>)"
  "sv_stream s = Some ss \<Longrightarrow> \<not> good (ss_in ss) \<Longrightarrow> sv_write N t s = (Ok (), s)"
  "sv_stream s = Some ss \<Longrightarrow> nlreadline (ss_in ss) old k = (l, is) \<Longrightarrow>
     sv_readline old k s = (Ok l, s\<lparr>sv_stream := Some (ss\<lparr>ss_in := is\<rparr>)\<rparr>)"
  by (simp_all add: sv_good_def sv_write_def sv_readline_def with_in_def on_conn_def)

lemma delete_eval [act_simps]:
  "sv_delete N s = (Ok (), s\<lparr>sv_stream := None,
     sv_net := (case sv_stream s of None \<Rightarrow> sv_net s | Some _ \<Rightarrow> net_close N (sv_net s))\<rparr>)"
  by (cases "sv_stream s") (simp_all add: sv_delete_def act_simps ss_disconnect_def)

text \<open>What may have changed: the state of the network and the stream.\<close>

definition same_but_net :: "'n nserver \<Rightarrow> 'n nserver \<Rightarrow> bool" where
  "same_but_net s s' \<longleftrightarrow> s'\<lparr>sv_net := sv_net s, sv_stream := sv_stream s\<rparr> = s"

lemma same_but_netD:
  assumes "same_but_net s s'"
  shows "sv_current s' = sv_current s" "sv_list s' = sv_list s" "sv_agroup s' = sv_agroup s" "sv_active s' = sv_active s"
  using assms unfolding same_but_net_def by (cases s; cases s'; simp)+

lemma same_but_net_refl [simp]: "same_but_net s (s\<lparr>sv_net := n, sv_stream := st\<rparr>)" "same_but_net s s"
  by (simp_all add: same_but_net_def)

lemma same_but_net_trans: "same_but_net s s1 \<Longrightarrow> same_but_net s1 s2 \<Longrightarrow> same_but_net s s2"
  unfolding same_but_net_def by (cases s; cases s1; cases s2; simp)

text \<open>What is left after any \<open>disconnect\<close>: no stream, and another state of the network.\<close>

lemma disconnect_eval: "\<exists>n. disconnect N s = (Ok (), s\<lparr>sv_net := n, sv_stream := None\<rparr>)"
proof (cases "sv_stream s")
  case None
  then show ?thesis by (intro exI [of _ "sv_net s"]) (simp add: disconnect_def act_simps)
next
  case (Some ss)
  obtain t n' where w: "net_say N (''quit'' @ CRLF) (sv_net s) = (t, n')" by fastforce
  show ?thesis
  proof (cases "good (ss_in ss)")
    case True
    show ?thesis
      using Some conn_eval(2) [OF Some True w]
      by (intro exI [of _ "net_close N n'"]) (simp add: disconnect_def act_simps)
  next
    case False
    show ?thesis
      using Some conn_eval(3) [OF Some False]
      by (intro exI [of _ "net_close N (sv_net s)"]) (simp add: disconnect_def act_simps)
  qed
qed

lemma disconnected: "\<exists>s'. disconnect N s = (Ok (), s') \<and> sv_stream s' = None \<and> same_but_net s s'"
  using disconnect_eval [of N s] by auto

text \<open>A line that is sent and terminated as it should be.\<close>

lemma nlreadline_sent:
  assumes "plain_line l" and "good is" and "inp is = l @ CRLF @ r"
  shows "nlreadline is old False = (l, is\<lparr>inp := r\<rparr>)"
proof -
  have "nlreadline is old True = (l @ CRLF, is\<lparr>inp := r\<rparr>)" by (rule nlreadline_line [OF assms])
  then show ?thesis by (auto simp: nlreadline_def split: prod.splits)
qed

lemma nlreadline_dry: "inp is = [] \<Longrightarrow> \<exists>l is'. nlreadline is old k = (l, is') \<and> \<not> good is' \<and> inp is' = []"
  by (auto simp: nlreadline_def getline_def good_def)

section \<open>The turns of the loop\<close>

declare issue_loop.simps [simp del] reconnect.simps [simp del]

lemma reconnect_turn:
  assumes "disconnect N s = (Ok (), s1)"
  shows "conn s1 = (Ok (), s2) \<Longrightarrow> reconnect N conn cmd x l (Suc (Suc k)) s = issue_loop N conn cmd x l (Suc k) s2"
    and "conn s1 = (Throw (SystemError m), s2) \<Longrightarrow>
      reconnect N conn cmd x l (Suc (Suc k)) s = reconnect N conn cmd x l (Suc k) s2"
    and "conn s1 = (Diverge, s2) \<Longrightarrow> reconnect N conn cmd x l (Suc (Suc k)) s = (Diverge, s2)"
  using assms by (simp_all add: reconnect.simps(2) [of N conn cmd x l "Suc k"] try_catch_def bnd_def ret_def)

lemma issue_started:
  assumes "sv_current s = Some i" "i < length (sv_list s)" "sv_list s ! i = e" "sv_stream s = Some ss"
  shows "issue (Suc n) N cmd x s
    = issue_loop N (connect_with N (issue n N)) cmd x [] (tries (retries e + 1)) s"
  using assms by (simp add: issue_with_def act_simps)

section \<open>A command that is answered\<close>

lemma issue_loop_answers:
  assumes st: "sv_stream s = Some ss" "good (ss_in ss)" "inp (ss_in ss) = []"
    and say: "net_say N cmd (sv_net s) = (l @ CRLF @ r, n')" and l: "plain_line l" "\<not> lost l"
  shows "issue_loop N conn cmd x old i s
    = check_answer cmd x l (s\<lparr>sv_stream := Some (ss\<lparr>ss_in := (ss_in ss)\<lparr>inp := r\<rparr>\<rparr>), sv_net := n'\<rparr>)"
proof -
  let ?is = "(ss_in ss)\<lparr>inp := l @ CRLF @ r\<rparr>"
  have rd: "nlreadline ?is old False = (l, (ss_in ss)\<lparr>inp := r\<rparr>)"
    using nlreadline_sent [OF l(1), of ?is r old] st(2) by (simp add: good_def)
  have "good ((ss_in ss)\<lparr>inp := r\<rparr>)" using st(2) by (simp add: good_def)
  then show ?thesis
    using st l(2) rd by (simp add: act_simps say issue_loop.simps)
qed

text \<open>The depth of the nesting does not matter when nothing is lost.\<close>

lemma issue_answers:
  assumes "sv_current s = Some i" "i < length (sv_list s)"
    and st: "sv_stream s = Some ss" "good (ss_in ss)" "inp (ss_in ss) = []"
    and say: "net_say N cmd (sv_net s) = (l @ CRLF @ r, n')" and l: "plain_line l" "\<not> lost l"
  shows "issue (Suc n) N cmd x s
    = check_answer cmd x l (s\<lparr>sv_stream := Some (ss\<lparr>ss_in := (ss_in ss)\<lparr>inp := r\<rparr>\<rparr>), sv_net := n'\<rparr>)"
  using issue_started [OF assms(1,2) refl st(1)] issue_loop_answers [OF st say l] by simp

section \<open>Connecting to a server that only greets\<close>

text \<open>A stream that is good is read to its end, whatever comes.\<close>

lemma getline_stays_good:
  assumes "getline is l = (l', is')" and "good is" and "\<not> is_eof is'"
  shows "good is'"
proof (cases "dropWhile (\<lambda>c. c \<noteq> LF) (inp is)")
  case Nil
  then show ?thesis using assms unfolding getline_def Let_def Nil by auto
next
  case (Cons c r)
  then have "is' = is\<lparr>inp := r\<rparr>" using assms(1,2) unfolding getline_def Let_def Cons by auto
  then show ?thesis using assms(2) by (simp add: good_def)
qed

lemma readxoin_ends:
  assumes "good is"
  shows "\<exists>fmt' is'. readxoin fmt is = Some (fmt', is')"
proof -
  have "\<exists>ts' fn' is'. readxoin_lines os is l fn ts = Some (ts', fn', is')" if "good is" for os l fn ts
    using that
  proof (induction os "is" l fn ts rule: readxoin_lines.induct)
    case (1 os "is" l fn ts)
    obtain l' is' where r: "nlreadline is l False = (l', is')" by fastforce
    show ?case
    proof (cases "l' = ''.'' \<or> is_eof is'")
      case True
      then show ?thesis using 1 r by (subst readxoin_lines.simps) (simp add: good_def)
    next
      case False
      obtain l0 where "getline is l = (l0, is')" using r by (auto simp: nlreadline_def split: prod.splits)
      then have "good is'" using getline_stays_good 1(2) False by blast
      then show ?thesis using 1 r False by (subst readxoin_lines.simps) (simp add: good_def)
    qed
  qed
  from this [OF assms, of "over fmt" "[]" 0 "map (\<lambda>_. (- 1, False)) (over fmt)"]
  show ?thesis by (auto simp: readxoin_def)
qed

lemma readxoin_standard_eval: "\<exists>fmt. sv_readxoin_standard s = (Ok (), s\<lparr>sv_fmt := fmt\<rparr>)"
  using readxoin_ends [of "\<lparr>inp = standard_overview, is_eof = False, is_fail = False\<rparr>" "sv_fmt s"]
  by (auto simp: sv_readxoin_standard_def good_def)

definition connected :: "'n nserver \<Rightarrow> 'n \<Rightarrow> string \<Rightarrow> 'n nserver" where
  "connected s n r = s\<lparr>sv_net := n,
     sv_stream := Some \<lparr>ss_in = \<lparr>inp = r, is_eof = False, is_fail = False\<rparr>, ss_connected = True\<rparr>\<rparr>"

lemma connected_simps [simp]:
  "sv_list (connected s n r) = sv_list s" "sv_current (connected s n r) = sv_current s"
  "sv_group (connected s n r) = sv_group s" "sv_net (connected s n r) = n"
  "sv_stream (connected s n r) = Some \<lparr>ss_in = \<lparr>inp = r, is_eof = False, is_fail = False\<rparr>, ss_connected = True\<rparr>"
  by (simp_all add: connected_def)

text \<open>Up to the greeting.\<close>

lemma greeting_read:
  assumes i: "sv_current s = Some i" "i < length (sv_list s)" "sv_list s ! i = e" "bindFrom e = []"
    and op: "net_open N (hostname e) (servicename e) (sv_net s) = (Some (''200'' @ l @ CRLF @ r), n')"
    and l: "plain_line l"
  shows "connect_once N iss again (s\<lparr>sv_stream := Some ss_new\<rparr>)
    = bnd (greeted N iss (''200'' @ l)) (\<lambda>d. if d then ret () else again e) (connected s n' r)"
proof -
  let ?g = "\<lparr>inp = ''200'' @ l @ CRLF @ r, is_eof = False, is_fail = False\<rparr>"
  let ?s1 = "connected s n' (''200'' @ l @ CRLF @ r)"
  have "plain_line (''200'' @ l)" using l by (simp add: plain_line_def is_eol_def)
  then have rd: "nlreadline ?g [] False = (''200'' @ l, ?g\<lparr>inp := r\<rparr>)"
    by (rule nlreadline_sent) (simp_all add: good_def)
  have "sv_connectTo N e (s\<lparr>sv_stream := Some ss_new\<rparr>) = (Ok (), ?s1)"
    using op i(4) by (simp add: sv_connectTo_def on_conn_def ss_connectTo_def ss_new_def act_simps connected_def)
  moreover have "sv_good ?s1 = (Ok True, ?s1)" "sv_good (connected s n' r) = (Ok True, connected s n' r)"
    by (simp_all add: sv_good_def on_conn_def good_def connected_def)
  moreover have "sv_readline [] False ?s1 = (Ok (''200'' @ l), connected s n' r)"
    using conn_eval(4) [of ?s1 "\<lparr>ss_in = ?g, ss_connected = True\<rparr>" "[]" False "''200'' @ l" "?g\<lparr>inp := r\<rparr>"] rd
    by (simp add: connected_def)
  moreover have "greeting_ok (''200'' @ l)" by (simp add: greeting_ok_def chr_at_def)
  moreover have "current (s\<lparr>sv_stream := Some ss_new\<rparr>) = (Ok e, s\<lparr>sv_stream := Some ss_new\<rparr>)"
    using i by (simp add: current_def)
  ultimately show ?thesis
    unfolding connect_once_def bnd_def by simp
qed

text \<open>No log-in, no mode to ask for, no group to select again.\<close>

definition only_greets :: "'n nserver \<Rightarrow> bool" where
  "only_greets s \<longleftrightarrow> (\<exists>i. sv_current s = Some i \<and> i < length (sv_list s)
     \<and> (let e = sv_list s ! i in user e = [] \<and> \<not> has_bit (nntpflags e) F_MODE_READER
          \<and> \<not> has_bit (nntpflags e) F_LIST_OVERVIEW_FMT \<and> bindFrom e = [])
     \<and> gi_name (sv_group s) = [])"

lemma connect_greeted:
  assumes g: "only_greets s" and st: "sv_stream s = None"
    and e: "e = sv_list s ! the (sv_current s)"
    and op: "net_open N (hostname e) (servicename e) (sv_net s) = (Some (''200'' @ l @ CRLF @ r), n')"
    and l: "plain_line l"
  shows "\<exists>fmt. connect_with N iss s = (Ok (), (connected s n' r)\<lparr>sv_fmt := fmt\<rparr>)"
proof -
  obtain i where i: "sv_current s = Some i" "i < length (sv_list s)" "user e = []"
    "\<not> has_bit (nntpflags e) F_MODE_READER" "\<not> has_bit (nntpflags e) F_LIST_OVERVIEW_FMT"
    "bindFrom e = []" "gi_name (sv_group s) = []"
    using g e by (auto simp: only_greets_def Let_def)
  have ei: "sv_list s ! i = e" using e i(1) by simp
  let ?c = "connected s n' r"
  obtain fmt where fmt: "sv_readxoin_standard ?c = (Ok (), ?c\<lparr>sv_fmt := fmt\<rparr>)"
    using readxoin_standard_eval by blast
  have cur: "current ?c = (Ok e, ?c)" using i(1,2) ei by (simp add: current_def)
  have "greeted N iss (''200'' @ l) ?c = (Ok True, ?c\<lparr>sv_fmt := fmt\<rparr>)"
    unfolding greeted_def login_def mode_reader_def ask_overview_def bnd_def
    using i fmt cur by (simp add: gets_def ret_def chr_at_def)
  then have once: "connect_once N iss again (s\<lparr>sv_stream := Some ss_new\<rparr>) = (Ok (), ?c\<lparr>sv_fmt := fmt\<rparr>)" for again
    using greeting_read [OF i(1,2) ei i(6) op l, of iss again] by (simp add: bnd_def ret_def)
  have "connect_loop N iss k (s\<lparr>sv_stream := Some ss_new\<rparr>) = (Ok (), ?c\<lparr>sv_fmt := fmt\<rparr>)" for k
    by (cases k) (simp_all add: once)
  then have "connect_with N iss s = (Ok (), ?c\<lparr>sv_fmt := fmt\<rparr>)"
    using st i(1,2) by (simp add: connect_with_def act_simps)
  then show ?thesis by blast
qed

text \<open>A connection lost at the first attempt, and a server that greets and answers when called again.\<close>

definition no_answer :: "string \<Rightarrow> bool" where
  "no_answer t \<longleftrightarrow> t = [] \<or> (\<exists>l r. t = l @ CRLF @ r \<and> plain_line l \<and> lost l)"

definition answers_again :: "'n net_env \<Rightarrow> mpentry \<Rightarrow> string \<Rightarrow> string \<Rightarrow> bool" where
  "answers_again N e cmd l \<longleftrightarrow> (\<forall>n. \<exists>g n1 n2. plain_line g
     \<and> net_open N (hostname e) (servicename e) n = (Some (''200'' @ g @ CRLF), n1)
     \<and> net_say N cmd n1 = (l @ CRLF, n2))"

lemma issue_loop_lost:
  assumes st: "sv_stream s = Some ss" "good (ss_in ss)" "inp (ss_in ss) = []"
    and say: "net_say N cmd (sv_net s) = (t, n')" and t: "no_answer t"
  shows "\<exists>l is. issue_loop N conn cmd x old i s
    = reconnect N conn cmd x l i (s\<lparr>sv_net := n', sv_stream := Some (ss\<lparr>ss_in := is\<rparr>)\<rparr>)"
proof -
  let ?i1 = "(ss_in ss)\<lparr>inp := t\<rparr>"
  let ?s1 = "s\<lparr>sv_net := n', sv_stream := Some (ss\<lparr>ss_in := ?i1\<rparr>)\<rparr>"
  obtain l' is' where rd: "nlreadline ?i1 old False = (l', is')" "\<not> good is' \<or> lost l'"
  proof (cases "t = []")
    case True
    then show ?thesis using nlreadline_dry [of ?i1 old False] that by auto
  next
    case False
    then obtain l r where l: "t = l @ CRLF @ r" "plain_line l" "lost l" using t by (auto simp: no_answer_def)
    have "nlreadline ?i1 old False = (l, ?i1\<lparr>inp := r\<rparr>)"
      by (rule nlreadline_sent [OF l(2)]) (use l(1) st(2) in \<open>simp_all add: good_def\<close>)
    then show ?thesis using l(3) that by blast
  qed
  have "issue_loop N conn cmd x old i s
      = reconnect N conn cmd x l' i (s\<lparr>sv_net := n', sv_stream := Some (ss\<lparr>ss_in := is'\<rparr>)\<rparr>)"
    using st rd(2) rd(1) by (auto simp: act_simps say issue_loop.simps)
  then show ?thesis by blast
qed

lemma issue_reconnects:
  assumes g: "only_greets s" and e: "e = sv_list s ! the (sv_current s)" and t2: "2 \<le> tries (retries e + 1)"
    and st: "sv_stream s = Some ss" "good (ss_in ss)" "inp (ss_in ss) = []"
    and first: "no_answer (fst (net_say N cmd (sv_net s)))" and again: "answers_again N e cmd l"
    and l: "plain_line l" "\<not> lost l" "3 \<le> length l"
  shows "\<exists>s'. issue (Suc n) N cmd None s = (Ok l, s') \<and> sv_list s' = sv_list s \<and> sv_current s' = sv_current s
    \<and> (\<exists>ss'. sv_stream s' = Some ss' \<and> good (ss_in ss') \<and> inp (ss_in ss') = [])"
proof -
  obtain i where i: "sv_current s = Some i" "i < length (sv_list s)"
    using g by (auto simp: only_greets_def)
  have ei: "sv_list s ! i = e" using e i(1) by simp
  obtain k where k: "tries (retries e + 1) = Suc (Suc k)"
    using t2 by (metis numeral_2_eq_2 Suc_le_D Suc_le_mono)
  obtain t n1 where say1: "net_say N cmd (sv_net s) = (t, n1)" by fastforce
  then have na: "no_answer t" using first by simp
  let ?conn = "connect_with N (issue n N)"
  obtain l0 is1 where lost: "issue_loop N ?conn cmd None [] (Suc (Suc k)) s
      = reconnect N ?conn cmd None l0 (Suc (Suc k)) (s\<lparr>sv_net := n1, sv_stream := Some (ss\<lparr>ss_in := is1\<rparr>)\<rparr>)"
    using issue_loop_lost [OF st say1 na] by blast
  obtain n2 where d: "disconnect N (s\<lparr>sv_net := n1, sv_stream := Some (ss\<lparr>ss_in := is1\<rparr>)\<rparr>)
      = (Ok (), s\<lparr>sv_net := n2, sv_stream := None\<rparr>)"
    using disconnect_eval [of N "s\<lparr>sv_net := n1, sv_stream := Some (ss\<lparr>ss_in := is1\<rparr>)\<rparr>"]
    by (auto simp: net_first [symmetric])
  let ?s2 = "s\<lparr>sv_net := n2, sv_stream := None\<rparr>"
  obtain gr n3 n4 where ag: "plain_line gr"
    "net_open N (hostname e) (servicename e) n2 = (Some (''200'' @ gr @ CRLF), n3)"
    "net_say N cmd n3 = (l @ CRLF, n4)"
    using again by (fastforce simp: answers_again_def)
  have g2: "only_greets ?s2" using g by (simp add: only_greets_def)
  obtain fmt where c: "?conn ?s2 = (Ok (), (connected ?s2 n3 [])\<lparr>sv_fmt := fmt\<rparr>)"
    using connect_greeted [OF g2, of e N gr "[]" n3 "issue n N"] e ag by auto
  let ?ss3 = "\<lparr>ss_in = \<lparr>inp = [], is_eof = False, is_fail = False\<rparr>, ss_connected = True\<rparr>"
  let ?s3 = "(connected ?s2 n3 [])\<lparr>sv_fmt := fmt\<rparr>"
  have "issue_loop N ?conn cmd None l0 (Suc k) ?s3
      = check_answer cmd None l (?s3\<lparr>sv_stream := Some (?ss3\<lparr>ss_in := (ss_in ?ss3)\<lparr>inp := []\<rparr>\<rparr>), sv_net := n4\<rparr>)"
    by (rule issue_loop_answers [OF _ _ _ _ l(1,2)]) (use ag(3) in \<open>simp_all add: good_def\<close>)
  then have ans: "issue_loop N ?conn cmd None l0 (Suc k) ?s3
      = (Ok l, ?s3\<lparr>sv_net := n4, sv_stream := Some ?ss3\<rparr>)"
    using l(3) by (simp add: check_answer_def ret_def)
  have "issue (Suc n) N cmd None s = (Ok l, ?s3\<lparr>sv_net := n4, sv_stream := Some ?ss3\<rparr>)"
    using issue_started [OF i ei st(1), of n N cmd None] lost reconnect_turn(1) [where conn = "connect_with N (issue n N)", OF d c] ans k by simp
  then show ?thesis
    by (intro exI [of _ "?s3\<lparr>sv_net := n4, sv_stream := Some ?ss3\<rparr>"]) (simp add: good_def connected_def del: issue.simps)
qed

section \<open>A server that cannot be read from\<close>

text \<open>It greets, and then answers every command with 400.\<close>

definition discontinued :: "'n net_env \<Rightarrow> bool" where
  "discontinued N \<longleftrightarrow> (\<forall>h p n. \<exists>g n'. plain_line g \<and> net_open N h p n = (Some (''200'' @ g @ CRLF), n'))
     \<and> (\<forall>t n. \<exists>l n'. plain_line l \<and> net_say N t n = (''400'' @ l @ CRLF, n'))"

lemma discontinuedD:
  assumes "discontinued N"
  shows "\<exists>g n'. plain_line g \<and> net_open N h p n = (Some (''200'' @ g @ CRLF), n')"
    and "no_answer (fst (net_say N t n))"
proof -
  show "\<exists>g n'. plain_line g \<and> net_open N h p n = (Some (''200'' @ g @ CRLF), n')"
    using assms by (simp add: discontinued_def)
  obtain l n' where l: "plain_line l" "net_say N t n = (''400'' @ l @ CRLF, n')"
    using assms unfolding discontinued_def by blast
  have "plain_line (''400'' @ l)" "lost (''400'' @ l)"
    using l(1) by (simp_all add: plain_line_def is_eol_def lost_def is_code_def c_str_def)
  with l(2) show "no_answer (fst (net_say N t n))"
    unfolding no_answer_def by (intro disjI2 exI [of _ "''400'' @ l"] exI [of _ "[]"]) simp
qed

text \<open>\<open>mode reader\<close> is the first command on the new connection.\<close>

lemma connect_mode_reader:
  assumes i: "sv_current s = Some i" "i < length (sv_list s)" "sv_list s ! i = e"
    and e: "user e = []" "bindFrom e = []" "has_bit (nntpflags e) F_MODE_READER" and st: "sv_stream s = None"
    and op: "net_open N (hostname e) (servicename e) (sv_net s) = (Some (''200'' @ l @ CRLF), n')" "plain_line l"
    and d: "iss (''mode reader'' @ CRLF) None (connected s n' []) = (Diverge, s')"
  shows "connect_with N iss s = (Diverge, s')"
proof -
  let ?c = "connected s n' []"
  have op': "net_open N (hostname e) (servicename e) (sv_net s) = (Some (''200'' @ l @ CRLF @ []), n')"
    using op(1) by simp
  have "current ?c = (Ok e, ?c)" using i by (simp add: current_def)
  then have "greeted N iss (''200'' @ l) ?c = (Diverge, s')"
    unfolding greeted_def login_def mode_reader_def bnd_def using e d by (simp add: ret_def)
  then have once: "connect_once N iss again (s\<lparr>sv_stream := Some ss_new\<rparr>) = (Diverge, s')" for again
    using greeting_read [OF i e(2) op' op(2), of iss again] by (simp add: bnd_def)
  have "connect_loop N iss k (s\<lparr>sv_stream := Some ss_new\<rparr>) = (Diverge, s')" for k
    by (cases k) (simp_all add: once)
  then show ?thesis using st i(1,2) by (simp add: connect_with_def act_simps)
qed

lemma connect_discontinued:
  assumes N: "discontinued N" and i: "sv_current s = Some i" "i < length (sv_list s)" "sv_list s ! i = e"
    and e: "user e = []" "bindFrom e = []" "has_bit (nntpflags e) F_MODE_READER" "2 \<le> tries (retries e + 1)"
    and st: "sv_stream s = None"
  shows "\<exists>s'. connect n N s = (Diverge, s')"
  using i st
proof (induction n arbitrary: s)
  case 0
  obtain g n' where g: "plain_line g" "net_open N (hostname e) (servicename e) (sv_net s) = (Some (''200'' @ g @ CRLF), n')"
    using discontinuedD(1) [OF N] by blast
  have "issue 0 N (''mode reader'' @ CRLF) None (connected s n' []) = (Diverge, connected s n' [])" by simp
  from connect_mode_reader [where iss = "issue 0 N" and l = g and n' = n', OF 0(1-3) e(1-3) 0(4) g(2,1) this] show ?case by (auto simp: connect_def)
next
  case (Suc n)
  obtain g n' where g: "plain_line g" "net_open N (hostname e) (servicename e) (sv_net s) = (Some (''200'' @ g @ CRLF), n')"
    using discontinuedD(1) [OF N] by blast
  let ?c = "connected s n' []" and ?cmd = "''mode reader'' @ CRLF" and ?conn = "connect_with N (issue n N)"
  obtain k where k: "tries (retries e + 1) = Suc (Suc k)"
    using e(4) by (metis numeral_2_eq_2 Suc_le_D Suc_le_mono)
  obtain t n1 where say: "net_say N ?cmd n' = (t, n1)" by fastforce
  have t: "no_answer t" using discontinuedD(2) [OF N, of ?cmd n'] say by simp
  let ?ss = "\<lparr>ss_in = \<lparr>inp = [], is_eof = False, is_fail = False\<rparr>, ss_connected = True\<rparr>"
  have c: "sv_stream ?c = Some ?ss" "good (ss_in ?ss)" "inp (ss_in ?ss) = []" "net_say N ?cmd (sv_net ?c) = (t, n1)"
    using say by (simp_all add: good_def)
  obtain l0 is1 where lost: "issue_loop N ?conn ?cmd None [] (Suc (Suc k)) ?c
      = reconnect N ?conn ?cmd None l0 (Suc (Suc k)) (?c\<lparr>sv_net := n1, sv_stream := Some (?ss\<lparr>ss_in := is1\<rparr>)\<rparr>)"
    using issue_loop_lost [OF c t] by blast
  let ?s1 = "?c\<lparr>sv_net := n1, sv_stream := Some (?ss\<lparr>ss_in := is1\<rparr>)\<rparr>"
  obtain s2 where d: "disconnect N ?s1 = (Ok (), s2)" "sv_stream s2 = None" "same_but_net ?s1 s2"
    using disconnected [of N ?s1] by blast
  obtain s' where s': "?conn s2 = (Diverge, s')"
    using Suc.IH [of s2] Suc.prems(1-3) d(2) same_but_netD [OF d(3)] by (auto simp: connect_def)
  have "issue (Suc n) N ?cmd None ?c = (Diverge, s')"
    using issue_started [of ?c i e ?ss n N ?cmd None] Suc.prems(1-3) c(1) lost reconnect_turn(3) [where conn = "connect_with N (issue n N)", OF d(1) s'] k by simp
  from connect_mode_reader [where iss = "issue (Suc n) N" and l = g and n' = n', OF Suc.prems(1-3) e(1-3) Suc.prems(4) g(2,1) this] show ?case
    by (auto simp: connect_def)
qed

section \<open>A network that is down\<close>

definition net_down :: "'n net_env \<Rightarrow> bool" where
  "net_down N \<longleftrightarrow> (\<forall>h p n. fst (net_open N h p n) = None) \<and> (\<forall>t n. fst (net_say N t n) = [])"

text \<open>Nothing that has been sent before is left to be read.\<close>

definition dry :: "'n nserver \<Rightarrow> bool" where
  "dry s \<longleftrightarrow> (\<forall>ss. sv_stream s = Some ss \<longrightarrow> inp (ss_in ss) = [])"

lemma connect_down:
  assumes N: "net_down N" and i: "sv_current s = Some i" "i < length (sv_list s)" and st: "sv_stream s = None"
  shows "\<exists>m s'. connect_with N iss s = (Throw (SystemError m), s') \<and> sv_stream s' = None \<and> same_but_net s s'"
proof -
  let ?e = "sv_list s ! i" and ?s0 = "s\<lparr>sv_stream := Some ss_new\<rparr>"
  let ?m = "''RServer::connect: cannot connect to news server''"
  have "\<exists>n ss. sv_connectTo N ?e ?s0 = (Ok (), s\<lparr>sv_net := n, sv_stream := Some ss\<rparr>) \<and> \<not> good (ss_in ss)"
  proof -
    obtain b n1 where b: "(if bindFrom ?e \<noteq> [] then net_bind N (bindFrom ?e) (sv_net s) else (True, sv_net s)) = (b, n1)"
      by fastforce
    obtain n2 where n2: "net_open N (hostname ?e) (servicename ?e) n1 = (None, n2)"
      using N by (metis net_down_def prod.collapse)
    show ?thesis
      using b n2
      by (intro exI [of _ "if b then n2 else n1"] exI [of _ "ss_bad ss_new"])
        (simp add: sv_connectTo_def on_conn_def ss_connectTo_def ss_new_def ss_bad_def good_def net_first)
  qed
  then obtain n ss where c: "sv_connectTo N ?e ?s0 = (Ok (), s\<lparr>sv_net := n, sv_stream := Some ss\<rparr>)" "\<not> good (ss_in ss)"
    by blast
  have "connect_once N iss again ?s0 = (Throw (SystemError ?m), s\<lparr>sv_net := net_close N n, sv_stream := None\<rparr>)" for again
    unfolding connect_once_def using i c by (simp add: act_simps)
  then have "connect_loop N iss k ?s0 = (Throw (SystemError ?m), s\<lparr>sv_net := net_close N n, sv_stream := None\<rparr>)" for k
    by (cases k) simp_all
  then have "connect_with N iss s = (Throw (SystemError ?m), s\<lparr>sv_net := net_close N n, sv_stream := None\<rparr>)"
    using st i by (simp add: connect_with_def act_simps)
  then show ?thesis by (intro exI conjI) (assumption, simp_all)
qed

lemma reconnect_down:
  assumes N: "net_down N" and i: "sv_current s = Some i" "i < length (sv_list s)" and d: "dry s"
  shows "\<exists>m s'. reconnect N (connect_with N iss) cmd x l (Suc k) s = (Throw (SystemError m), s')
    \<and> dry s' \<and> same_but_net s s'"
  using i d
proof (induction k arbitrary: s)
  case 0
  then show ?case
    by (simp add: reconnect.simps act_simps)
next
  case (Suc k)
  let ?conn = "connect_with N iss"
  obtain s1 where d: "disconnect N s = (Ok (), s1)" "sv_stream s1 = None" "same_but_net s s1"
    using disconnected by blast
  have i1: "sv_current s1 = Some i" "i < length (sv_list s1)"
    using Suc.prems(1,2) d(3) by (simp_all add: same_but_netD)
  obtain m s2 where c: "?conn s1 = (Throw (SystemError m), s2)" "sv_stream s2 = None" "same_but_net s1 s2"
    using connect_down [OF N i1 d(2), of iss] by blast
  have i2: "sv_current s2 = Some i" "i < length (sv_list s2)" "dry s2"
    using i1 c(2,3) by (simp_all add: same_but_netD dry_def)
  obtain m' s' where "reconnect N ?conn cmd x l (Suc k) s2 = (Throw (SystemError m'), s')" "dry s'" "same_but_net s2 s'"
    using Suc.IH [OF i2] by blast
  moreover from this d(3) c(3) have "same_but_net s s'" using same_but_net_trans by blast
  ultimately show ?case
    using reconnect_turn(2) [where conn = ?conn, OF d(1) c(1), of cmd x l k] by simp
qed

lemma tries_pos: "\<exists>k. tries i = Suc k"
  by (rule exI [of _ "tries i - 1"]) (simp add: tries_def)

lemma issue_down:
  assumes N: "net_down N" and i: "sv_current s = Some i" "i < length (sv_list s)" and d: "dry s"
  shows "\<exists>m s'. issue (Suc k) N cmd x s = (Throw (SystemError m), s') \<and> dry s' \<and> same_but_net s s'"
proof (cases "sv_stream s")
  case None
  obtain m s' where "connect_with N (issue k N) s = (Throw (SystemError m), s')" "sv_stream s' = None" "same_but_net s s'"
    using connect_down [OF N i None] by blast
  then show ?thesis using i None by (simp add: issue_with_def act_simps dry_def)
next
  case (Some ss)
  let ?conn = "connect_with N (issue k N)"
  obtain j where j: "tries (retries (sv_list s ! i) + 1) = Suc j" using tries_pos by blast
  note st = issue_started [OF i refl Some, of k N cmd x]
  have dr: "inp (ss_in ss) = []" using d Some by (simp add: dry_def)
  have "\<exists>l s1. issue_loop N ?conn cmd x [] (Suc j) s = reconnect N ?conn cmd x l (Suc j) s1
      \<and> dry s1 \<and> same_but_net s s1"
  proof (cases "good (ss_in ss)")
    case True
    obtain n' where say: "net_say N cmd (sv_net s) = ([], n')" using N by (metis net_down_def prod.collapse)
    obtain l' is' where rd: "nlreadline ((ss_in ss)\<lparr>inp := []\<rparr>) [] False = (l', is')" "\<not> good is'" "inp is' = []"
      using nlreadline_dry [of "(ss_in ss)\<lparr>inp := []\<rparr>" "[]" False] by auto
    let ?s1 = "s\<lparr>sv_net := n', sv_stream := Some (ss\<lparr>ss_in := (ss_in ss)\<lparr>inp := []\<rparr>\<rparr>)\<rparr>"
    let ?s2 = "s\<lparr>sv_net := n', sv_stream := Some (ss\<lparr>ss_in := is'\<rparr>)\<rparr>"
    have "sv_write N cmd s = (Ok (), ?s1)"
      using conn_eval(2) [OF Some True say] dr by simp
    moreover have "sv_readline [] False ?s1 = (Ok l', ?s2)"
      using conn_eval(4) [of ?s1 "ss\<lparr>ss_in := (ss_in ss)\<lparr>inp := []\<rparr>\<rparr>" "[]" False l' is'] rd(1) by simp
    moreover have "sv_good ?s2 = (Ok False, ?s2)" using rd(2) by (simp add: sv_good_def on_conn_def)
    ultimately have "issue_loop N ?conn cmd x [] (Suc j) s = reconnect N ?conn cmd x l' (Suc j) ?s2"
      unfolding issue_loop.simps bnd_def by simp
    moreover have "dry (s\<lparr>sv_net := n', sv_stream := Some (ss\<lparr>ss_in := is'\<rparr>)\<rparr>)" using rd(3) by (simp add: dry_def)
    ultimately show ?thesis by (intro exI [of _ l'] exI [of _ ?s2]) simp
  next
    case False
    obtain l' is' where rd: "nlreadline (ss_in ss) [] False = (l', is')" "\<not> good is'" "inp is' = []"
      using nlreadline_dry [OF dr] by blast
    have "issue_loop N ?conn cmd x [] (Suc j) s
        = reconnect N ?conn cmd x l' (Suc j) (s\<lparr>sv_net := sv_net s, sv_stream := Some (ss\<lparr>ss_in := is'\<rparr>)\<rparr>)"
      unfolding issue_loop.simps bnd_def
      using Some False rd by (simp add: act_simps)
    moreover have "dry (s\<lparr>sv_net := sv_net s, sv_stream := Some (ss\<lparr>ss_in := is'\<rparr>)\<rparr>)" using rd(3) by (simp add: dry_def)
    ultimately show ?thesis
      by (intro exI [of _ l'] exI [of _ "s\<lparr>sv_net := sv_net s, sv_stream := Some (ss\<lparr>ss_in := is'\<rparr>)\<rparr>"])
        (simp add: same_but_net_def)
  qed
  then obtain l s1 where l: "issue_loop N ?conn cmd x [] (Suc j) s = reconnect N ?conn cmd x l (Suc j) s1"
    "dry s1" "same_but_net s s1" by blast
  from l(3) i have i1: "sv_current s1 = Some i" "i < length (sv_list s1)" by (simp_all add: same_but_netD)
  show ?thesis
    using reconnect_down [OF N i1 l(2), of "issue k N" cmd x l j] l(1,3) st j same_but_net_trans by fastforce
qed

text \<open>Any command fails with the error that callers catch; what is known of a group is used.\<close>

lemma best_index_less:
  "best_index sel grp es i bm bmlen = Some k \<Longrightarrow> bm = Some k \<or> i \<le> k \<and> k < i + length es"
  by (induction es arbitrary: i bm bmlen) (fastforce simp: Let_def split: if_splits)+

lemma pick_server_less: "pick_server sel es grp = Some k \<Longrightarrow> k < length es"
  using best_index_less [of sel grp es 0 None 0 k] by (auto simp: pick_server_def split: option.splits if_splits)

lemma setserver_eval:
  "\<exists>s'. setserver N i s = (Ok (), s') \<and> sv_current s' = Some i \<and> sv_list s' = sv_list s \<and> sv_agroup s' = sv_agroup s
    \<and> sv_active s' = sv_active s \<and> (sv_stream s' = sv_stream s \<or> sv_stream s' = None)"
proof -
  obtain s1 where s1: "disconnect N s = (Ok (), s1)" "sv_stream s1 = None" "same_but_net s s1"
    using disconnected by blast
  then show ?thesis
    using same_but_netD [OF s1(3)] by (auto simp: setserver_def act_simps)
qed

lemma ask_group_down:
  assumes N: "net_down N" and k: "length name \<le> 512" "pick_server rd_groups (sv_list s) name = Some i" and d: "dry s"
  shows "\<exists>s'. ask_group (Suc n) N name True s = (Ok (), s') \<and> dry s' \<and> sv_agroup s' = sv_agroup s
    \<and> sv_active s' = sv_active s"
proof -
  obtain s1 where s1: "setserver N i s = (Ok (), s1)" "sv_current s1 = Some i" "sv_list s1 = sv_list s"
    "sv_agroup s1 = sv_agroup s" "sv_active s1 = sv_active s" "sv_stream s1 = sv_stream s \<or> sv_stream s1 = None"
    using setserver_eval by blast
  have "i < length (sv_list s1)" "dry s1"
    using pick_server_less [OF k(2)] s1(3,6) d by (auto simp: dry_def)
  from issue_down [OF N s1(2) this, of n "''group '' @ name @ CRLF" None] obtain m s2 where
    s2: "issue (Suc n) N (''group '' @ name @ CRLF) None s1 = (Throw (SystemError m), s2)" "dry s2" "same_but_net s1 s2"
    by blast
  have "rs_selectgroup (Suc n) N name True s = (Throw (SystemError m), s2)"
    unfolding rs_selectgroup_def selectgroup_with_def bnd_def
    using k s1(1) s2(1) by (simp add: gets_def del: issue.simps)
  then have "ask_group (Suc n) N name True s = (Ok (), s2)"
    by (simp add: ask_group_def try_catch_def bnd_def ret_def)
  then show ?thesis using s2(2) same_but_netD [OF s2(3)] s1(4,5) by auto
qed

lemma groupinfo_down:
  assumes N: "net_down N" and k: "length name \<le> 512" "pick_server rd_groups (sv_list s) name = Some i" and d: "dry s"
    and on: "\<not> offline (sv_list s ! i)"
    and db: "adb_get name (sv_agroup s) (sv_active s) = (Ok (Some gi), db)"
  shows "\<exists>s'. cache_groupinfo (Suc n) N name s = (Ok gi, s') \<and> sv_active s' = db \<and> dry s'"
proof -
  let ?s1 = "s\<lparr>sv_active := db, sv_agroup := gi\<rparr>"
  have srv: "server_of name s = (Ok (Some (sv_list s ! i)), s)" using k by (simp add: server_of_def gets_def)
  obtain s2 where s2: "ask_group (Suc n) N name True ?s1 = (Ok (), s2)" "dry s2" "sv_agroup s2 = gi" "sv_active s2 = db"
    using ask_group_down [OF N k(1), of ?s1 i n] k(2) d by (auto simp: dry_def)
  show ?thesis
  proof (cases "fresh_info (sv_now s) (sv_list s ! i) gi")
    case True
    then show ?thesis
      unfolding cache_groupinfo_def bnd_def
      using k(1) srv on db d by (simp add: in_active_def gets_def upd_def ret_def dry_def)
  next
    case False
    then show ?thesis
      unfolding cache_groupinfo_def bnd_def
      using k(1) srv on db s2 by (simp add: in_active_def gets_def upd_def ret_def)
  qed
qed

end
