(* ===== verification/Post_Ok.thy ===== *)
theory Post_Ok
  imports Cache_Newsgroup Server_Ok
begin

text \<open>
  What is made of the answer to \<open>listgroup\<close>, which servers an article is posted to, what is added
  to its header, and what becomes of an article that cannot be posted.
\<close>

section \<open>The articles of a group\<close>

lemma listgroup_lines_length: "length (fst (listgroup_lines is line f l lst)) = length lst"
  by (induction "is" line f l lst rule: listgroup_lines.induct)
    (subst listgroup_lines.simps, auto simp: Let_def split: prod.splits)

lemma number_line:
  assumes "k < 2 ^ 31"
  shows "u32_of_int (atoi (c_str (show_nat k @ CRLF))) = k" and "plain_line (show_nat k)" and "show_nat k \<noteq> ''.''"
proof -
  have d: "\<And>c. c \<in> set (show_nat k) \<Longrightarrow> isdigit c" by (rule show_nat_digits)
  have nd: "\<not> isdigit NUL" "\<not> isdigit CR" "\<not> isdigit LF" "\<not> isdigit (CHR ''.'')" by (simp_all add: isdigit_def)
  have n: "NUL \<notin> set (show_nat k @ CRLF)" using d nd(1) by (auto simp: CRLF_def)
  have "strtol (show_nat k @ CRLF) = (int k, CRLF)"
    using assms by (intro strtol_show_nat) (simp_all add: CRLF_def isdigit_def)
  then show "u32_of_int (atoi (c_str (show_nat k @ CRLF))) = k"
    using assms c_str_id [OF n] by (simp add: atoi_def)
  show "plain_line (show_nat k)" using d nd by (auto simp: plain_line_def is_eol_def)
  show "show_nat k \<noteq> ''.''" using d [of "CHR ''.''"] nd(4) by auto
qed

lemma listgroup_lines_ok:
  assumes "\<forall>k \<in> set ks. k < 2 ^ 31" and "good is" and "l < f + length lst"
    and "inp is = concat (map (\<lambda>k. show_nat k @ CRLF) ks) @ ''.'' @ CRLF @ rest"
  shows "listgroup_lines is line f l lst
    = (map (\<lambda>i. lst ! i \<or> f + i \<in> set ks \<and> f + i \<le> l) [0..<length lst], True, is\<lparr>inp := rest\<rparr>)"
  using assms
proof (induction ks arbitrary: "is" line lst)
  case Nil
  have "nlreadline is line True = (''.'' @ CRLF, is\<lparr>inp := rest\<rparr>)"
    by (rule nlreadline_line) (use Nil in \<open>simp_all add: plain_line_def is_eol_def\<close>)
  then show ?case using map_nth [of lst] by (subst listgroup_lines.simps) simp
next
  case (Cons k ks)
  let ?r = "concat (map (\<lambda>k. show_nat k @ CRLF) ks) @ ''.'' @ CRLF @ rest"
  have k: "k < 2 ^ 31" using Cons.prems(1) by simp
  note nl = number_line [OF k]
  have rd: "nlreadline is line True = (show_nat k @ CRLF, is\<lparr>inp := ?r\<rparr>)"
    by (rule nlreadline_line [OF nl(2) Cons.prems(2)]) (use Cons.prems(4) in simp)
  have ne: "show_nat k @ CRLF \<noteq> ''.'' @ CRLF" using nl(3) append_same_eq by blast
  have g: "good (is\<lparr>inp := ?r\<rparr>)" using Cons.prems(2) by (simp add: good_def)
  let ?lst = "if f \<le> k \<and> k \<le> l then lst[k - f := True] else lst"
  have len: "length ?lst = length lst" by simp
  have "listgroup_lines is line f l lst = listgroup_lines (is\<lparr>inp := ?r\<rparr>) (show_nat k @ CRLF) f l ?lst"
    using rd ne g nl(1) by (subst listgroup_lines.simps) simp
  also have "\<dots> = (map (\<lambda>i. ?lst ! i \<or> f + i \<in> set ks \<and> f + i \<le> l) [0..<length ?lst], True, is\<lparr>inp := rest\<rparr>)"
    using Cons.IH [of "is\<lparr>inp := ?r\<rparr>" ?lst "show_nat k @ CRLF"] Cons.prems(1,3) g by simp
  also have "map (\<lambda>i. ?lst ! i \<or> f + i \<in> set ks \<and> f + i \<le> l) [0..<length ?lst]
      = map (\<lambda>i. lst ! i \<or> f + i \<in> set (k # ks) \<and> f + i \<le> l) [0..<length lst]"
    using Cons.prems(3) by (auto simp: nth_list_update split: if_splits)
  finally show ?case .
qed

text \<open>Whatever the server sends, there is one flag for each number that was asked for.\<close>

lemma rs_listgroup_length:
  "rs_listgroup n N gname lst f l s = (Ok lst', s') \<Longrightarrow> length lst' = length lst"
  by (auto simp: rs_listgroup_def with_in_def on_conn_def throw_def ret_def elim!: bnd_OkE
      split: if_splits prod.splits option.splits) (metis listgroup_lines_length fst_conv)

lemma cg_listgroup_length:
  assumes "cg_listgroup n N lst f l sg = (Ok lst', sg')"
  shows "length lst' = length lst"
  using assms rs_listgroup_length
  by (fastforce simp: cg_listgroup_def cache_listgroup_def try_catch_def on_fst_def throw_def ret_def elim!: bnd_OkE
      split: if_splits prod.splits outcome.splits)

lemma listed_ok:
  assumes "length lst = u32_of_int (int l - int f + 1)" and "f \<le> i" and "i \<le> l" and "l < 2 ^ 32 - 1"
  shows "listed lst f i s = (Ok (lst ! (i - f)), s)"
proof -
  have "length lst = l - f + 1" using assms by (simp add: u32_of_int_def)
  moreover have "u32_of_int (int i - int f) = i - f" using assms by (simp add: u32_of_int_def)
  moreover have "i - f < length lst" using assms calculation(1) by simp
  ultimately show ?thesis by (simp add: listed_def ret_def Let_def)
qed

section \<open>The servers an article is posted to\<close>

lemma best_index_entry:
  "i \<le> length all \<Longrightarrow> es = drop i all \<Longrightarrow> (case bm of None \<Rightarrow> b = None | Some k \<Rightarrow> b = Some (all ! k)) \<Longrightarrow>
   best_entry sel grp es b bmlen = map_option ((!) all) (best_index sel grp es i bm bmlen)"
proof (induction es arbitrary: i bm b bmlen)
  case Nil
  then show ?case by (cases bm) auto
next
  case (Cons e es)
  have i: "i < length all" using Cons.prems(2) by (metis drop_eq_Nil list.distinct(1) not_le)
  then have e: "e = all ! i" "es = drop (i + 1) all"
    using Cons.prems(2) by (auto simp: Cons_nth_drop_Suc [symmetric])
  show ?case using Cons.IH [of "i + 1"] Cons.prems(3) e i by (auto simp: Let_def split: option.splits)
qed

lemma pick_server_entry:
  "map_option ((!) es) (pick_server sel es grp)
     = real_server (best_entry sel grp es None 0)"
  using best_index_entry [of 0 es es None None sel grp 0]
  by (auto simp: pick_server_def real_server_def split: option.splits)

text \<open>Each server once, and exactly those that take postings for one of the groups.\<close>

lemma add_servers:
  assumes "ms' = foldl (\<lambda>ms g. case pick_server post_groups es g of
      None \<Rightarrow> ms | Some i \<Rightarrow> if i \<in> set ms then ms else ms @ [i]) ms gs" and "distinct ms"
  shows "distinct ms' \<and> set ms' = set ms \<union> {i. \<exists>g \<in> set gs. pick_server post_groups es g = Some i}"
  using assms
proof (induction gs arbitrary: ms)
  case (Cons g gs)
  then show ?case by (cases "pick_server post_groups es g") auto
qed simp

lemma post_servers_ok:
  fixes newsgroups
  defines "gs \<equiv> group_words (dropWhile sep (c_str newsgroups))"
  shows "distinct (post_servers es newsgroups)" and "\<forall>i \<in> set (post_servers es newsgroups). i < length es"
    and "(!) es ` set (post_servers es newsgroups) = {e. \<exists>g \<in> set gs. postserver es g = Some e}"
proof -
  have a: "distinct (post_servers es newsgroups)
      \<and> set (post_servers es newsgroups) = {i. \<exists>g \<in> set gs. pick_server post_groups es g = Some i}"
    using add_servers [of _ es "[]" gs] by (simp add: post_servers_def gs_def)
  then show "distinct (post_servers es newsgroups)" by blast
  show "\<forall>i \<in> set (post_servers es newsgroups). i < length es" using a pick_server_less by blast
  have "postserver es g = map_option ((!) es) (pick_server post_groups es g)" for g
    by (simp add: postserver_def pick_server_entry)
  with a show "(!) es ` set (post_servers es newsgroups) = {e. \<exists>g \<in> set gs. postserver es g = Some e}"
    by auto
qed

section \<open>The header of an article\<close>

lemma has_field_ok:
  assumes "ok_name n" and "ok_fields fs" and "fs \<noteq> []" and "NUL \<notin> set body" and "length n < 511"
  shows "has_field (art fs body) (n @ '':'') = Ok (\<exists>f \<in> set fs. same_name n f)"
proof -
  let ?r = "dropWhile (\<lambda>f. \<not> same_name n f) fs"
  have ff: "find_field (art fs body) (n @ '':'') = Ok (compose ?r body)" by (rule find_field_ok [OF assms])
  show ?thesis
  proof (cases "?r = []")
    case True
    then have "\<forall>f \<in> set fs. \<not> same_name n f" by (simp add: dropWhile_eq_Nil_conv)
    then show ?thesis using ff True by (simp add: has_field_def)
  next
    case False
    then have "\<exists>f \<in> set fs. same_name n f" by (metis dropWhile_eq_Nil_conv)
    moreover have "deref (compose ?r body) \<noteq> NUL" "\<not> is_eol (deref (compose ?r body))"
      using deref_compose [OF ok_fields_suffix [OF assms(2)] False, of body] eol_space by auto
    ultimately show ?thesis using ff by (simp add: has_field_def)
  qed
qed

text \<open>The names that are asked for.\<close>

lemma field_names:
  "ok_name ''from''" "ok_name ''subject''" "ok_name ''newsgroups''" "ok_name ''message-id''" "ok_name ''Message-ID''"
  "same_name ''message-id'' = same_name ''Message-ID''"
proof -
  have "map tolower ''message-id'' = map tolower ''Message-ID''" by code_simp
  then show "same_name ''message-id'' = same_name ''Message-ID''" unfolding same_name_def by metis
qed (simp_all add: ok_name_def isspace_def)

definition own_id :: "'n nserver \<Rightarrow> string" where
  "own_id s = ''<newscache$'' @ base36 (sv_now s) @ ''$'' @ base36 (sv_pid s) @ ''$''
     @ base36 (sv_pc s) @ ''@'' @ sv_hostname s @ ''>''"

lemma own_message_id_line: "own_message_id s = field_line (''Message-ID'', own_id s)"
  by (simp add: own_message_id_def own_id_def field_line_def)

lemma update_new: "\<forall>f \<in> set fs. \<not> same_name n f \<Longrightarrow> update_field n g fs = fs @ [g]"
  by (induction fs) auto

text \<open>The number of the article within the second is always 1.\<close>

lemma add_fields_ok:
  assumes "sv_posting_host s = []" and "ok_fields fs" and "fs \<noteq> []" and "NUL \<notin> set body"
    and no: "\<forall>f \<in> set fs. \<not> same_name ''Message-ID'' f"
  shows "add_fields (s, art fs body)
    = (Ok (), (s\<lparr>sv_pc := 1\<rparr>, art (fs @ [(''Message-ID'', own_id s)]) body))"
proof -
  have h: "has_field (art fs body) ''message-id:'' = Ok False"
    using has_field_ok [OF field_names(4) assms(2-4)] no by (simp add: field_names(6))
  have s: "setfield (art fs body) ''Message-ID:'' (own_message_id s)
      = Ok (art (fs @ [(''Message-ID'', own_id s)]) body)"
    using setfield_ok [OF field_names(5) assms(2-4)] no
    by (simp add: own_message_id_line update_new)
  show ?thesis
    unfolding add_fields_def bnd_def
    using assms(1) by (simp add: gets_def ret_def of_outcome_def on_fst_def on_snd_def upd_def set_art_field_def h s)
qed

text \<open>Nothing is added to an article that has its identifier.\<close>

lemma add_fields_none:
  assumes "sv_posting_host s = []" and "ok_fields fs" and "fs \<noteq> []" and "NUL \<notin> set body"
    and "\<exists>f \<in> set fs. same_name ''Message-ID'' f"
  shows "add_fields (s, art fs body) = (Ok (), (s, art fs body))"
proof -
  have h: "has_field (art fs body) ''message-id:'' = Ok True"
    using has_field_ok [OF field_names(4) assms(2-4)] assms(5) by (simp add: field_names(6))
  show ?thesis
    unfolding add_fields_def bnd_def
    using assms(1) by (simp add: gets_def ret_def of_outcome_def h)
qed

section \<open>An article that cannot be posted now\<close>

lemma not_bytes: "\<not> strcaseeq (''newsgroups'' @ '':'') ''bytes:''" "\<not> strcaseeq ''message-id'' ''bytes:''"
  unfolding strcaseeq_def by (rule notI, drule arg_cong [where f = length], simp)+

lemma same_name_starts:
  assumes "same_name n f"
  shows "name_starts n f"
proof -
  have "length (map tolower (fst f)) = length n" using assms unfolding same_name_def by (metis length_map)
  then have "take (length n) (map tolower (fst f)) = map tolower (fst f)" by simp
  then show ?thesis using assms by (simp only: name_starts_def same_name_def)
qed

definition postable :: "field list \<Rightarrow> bool" where
  "postable fs \<longleftrightarrow> ok_fields fs \<and> (\<exists>f \<in> set fs. same_name ''from'' f) \<and> (\<exists>f \<in> set fs. same_name ''subject'' f)
     \<and> (\<exists>f \<in> set fs. same_name ''Message-ID'' f)"

lemma postable_nonempty: "postable fs \<Longrightarrow> fs \<noteq> []"
  by (auto simp: postable_def)

lemma required_fields_ok:
  assumes p: "postable fs" and b: "NUL \<notin> set body" and n: "find (same_name ''newsgroups'') fs = Some (m, v)"
  shows "required_fields (art fs body) = (Ok v, art fs body)"
proof -
  have ok: "ok_fields fs" "fs \<noteq> []" using p postable_nonempty by (auto simp: postable_def)
  have "has_field (art fs body) ''from:'' = Ok True" "has_field (art fs body) ''subject:'' = Ok True"
    using has_field_ok [OF field_names(1) ok b] has_field_ok [OF field_names(2) ok b] p
    by (simp_all add: postable_def)
  moreover have "getfield (art fs body) ''newsgroups:'' False = Ok v"
    using getfield_ok [OF field_names(3) ok b _ not_bytes(1)] n by simp
  ultimately show ?thesis
    by (simp add: required_fields_def try_catch_def bnd_def gets_def of_outcome_def)
qed

lemma post_all_offline:
  assumes "\<forall>i \<in> set is. offline (sv_list s ! i)"
  shows "post_all n N is k (s, a) = (Ok (k\<lparr>pc_spool := pc_spool k + length is\<rparr>), (s, a))"
  using assms
proof (induction "is" arbitrary: k)
  case (Cons i "is")
  then show ?case by (simp add: bnd_def gets_def ret_def offline_def)
qed (simp add: ret_def)

lemma rs_post_offline:
  assumes p: "postable fs" and b: "NUL \<notin> set body" and n: "find (same_name ''newsgroups'') fs = Some (m, v)"
    and h: "sv_posting_host s = []" and ms: "post_servers (sv_list s) v \<noteq> []"
    and off: "\<forall>i \<in> set (post_servers (sv_list s) v). offline (sv_list s ! i)"
  shows "rs_post n N (s, art fs body) = (Ok (- 1), (s, art fs body))"
proof -
  have ok: "ok_fields fs" "fs \<noteq> []" "\<exists>f \<in> set fs. same_name ''Message-ID'' f"
    using p postable_nonempty by (auto simp: postable_def)
  have "on_snd required_fields (s, art fs body) = (Ok v, (s, art fs body))"
    using required_fields_ok [OF p b n] by (simp add: on_snd_def)
  moreover have "add_fields (s, art fs body) = (Ok (), (s, art fs body))"
    by (rule add_fields_none [OF h ok(1,2) b ok(3)])
  ultimately show ?thesis
    using ms post_all_offline [OF off, of n N "\<lparr>pc_posts = 0, pc_spool = 0, pc_err = 0\<rparr>" "art fs body"]
    by (simp add: rs_post_def bnd_def gets_def of_outcome_def post_result_def)
qed

text \<open>The file of a spooled article: lines without a dot of their own, read to the end.\<close>

lemma readtext_to_end:
  assumes "\<forall>l \<in> set ls. plain_line l \<and> l \<noteq> ''.''" and "good is" and "inp is = concat (map (\<lambda>l. l @ CRLF) ls)"
  shows "fst (readtext_loop is old True (''.'' @ CRLF) acc n) = acc @ concat (map (\<lambda>l. l @ CRLF) ls)"
  using assms
proof (induction ls arbitrary: "is" old acc n)
  case Nil
  have "nlreadline is old True = (CRLF, is\<lparr>inp := [], is_eof := True, is_fail := True\<rparr>)"
    using Nil(2,3) by (simp add: nlreadline_def getline_def strip_eol_def)
  then show ?case by (subst readtext_loop.simps) (simp add: CRLF_def good_def)
next
  case (Cons l ls)
  let ?r = "concat (map (\<lambda>l. l @ CRLF) ls)"
  have "nlreadline is old True = (l @ CRLF, is\<lparr>inp := ?r\<rparr>)"
    by (rule nlreadline_line) (use Cons.prems in auto)
  moreover have "l @ CRLF \<noteq> ''.'' @ CRLF" using Cons.prems by simp
  moreover have "good (is\<lparr>inp := ?r\<rparr>)" using Cons.prems by (simp add: good_def)
  ultimately show ?case
    using Cons.IH [of "is\<lparr>inp := ?r\<rparr>"] Cons.prems
    by (subst readtext_loop.simps) simp
qed

definition text_lines :: "string \<Rightarrow> bool" where
  "text_lines t \<longleftrightarrow> (\<exists>ls. t = concat (map (\<lambda>l. l @ CRLF) ls) \<and> (\<forall>l \<in> set ls. plain_line l \<and> l \<noteq> ''.''))"

lemma read_spool_file:
  assumes "text_lines t"
  shows "fst (read_article article_new \<lparr>inp = t, is_eof = False, is_fail = False\<rparr>) = \<lparr>art_nbr = 0, art_text = t\<rparr>"
proof -
  obtain ls where t: "t = concat (map (\<lambda>l. l @ CRLF) ls)" "\<forall>l \<in> set ls. plain_line l \<and> l \<noteq> ''.''"
    using assms by (auto simp: text_lines_def)
  have "fst (readtext_loop \<lparr>inp = t, is_eof = False, is_fail = False\<rparr> [] True (''.'' @ CRLF) [] 0) = t"
    using readtext_to_end [OF t(2), of "\<lparr>inp = t, is_eof = False, is_fail = False\<rparr>" "[]" "[]" 0] t(1)
    by (simp add: good_def)
  then show ?thesis by (auto simp: read_article_def readtext_def article_new_def split: prod.splits)
qed

lemma compose_lines:
  assumes "ok_fields fs" and "text_lines body"
  shows "text_lines (compose fs body)"
  using assms
proof (induction fs)
  case Nil
  then obtain ls where "body = concat (map (\<lambda>l. l @ CRLF) ls)" "\<forall>l \<in> set ls. plain_line l \<and> l \<noteq> ''.''"
    by (auto simp: text_lines_def)
  then show ?case unfolding text_lines_def by (intro exI [of _ "[] # ls"]) (simp add: CRLF_def plain_line_def)
next
  case (Cons f fs)
  obtain m v where f: "f = (m, v)" by (cases f)
  have ok: "ok_name m" "ok_value v" "ok_fields fs" using Cons.prems(1) by (simp_all add: f ok_fields_Cons)
  obtain ls where ls: "compose fs body = concat (map (\<lambda>l. l @ CRLF) ls)" "\<forall>l \<in> set ls. plain_line l \<and> l \<noteq> ''.''"
    using Cons.IH [OF ok(3) Cons.prems(2)] by (auto simp: text_lines_def)
  let ?l = "m @ CHR '':'' # CHR '' '' # v"
  have "plain_line ?l" by (rule plain_field [OF ok(1,2)])
  moreover have "?l \<noteq> ''.''" by (auto dest: arg_cong [where f = length])
  ultimately show ?case
    unfolding text_lines_def using ls by (intro exI [of _ "?l # ls"]) (simp add: f CRLF_def)
qed

text \<open>
  The article goes to the spool; when the servers are still offline the next time the spool is
  posted, it goes to the bad articles, where nothing looks for it again.
\<close>

lemma spooled_offline:
  assumes p: "postable fs" and b: "NUL \<notin> set body" "text_lines body"
    and n: "find (same_name ''newsgroups'') fs = Some (m, v)"
    and h: "sv_posting_host s = []" and ms: "post_servers (sv_list s) v \<noteq> []"
    and off: "\<forall>i \<in> set (post_servers (sv_list s) v). offline (sv_list s ! i)"
    and e: "sv_spool s = []" "map_of (sv_bad s) (''art_'' @ createID s) = None"
  defines "f \<equiv> (''art_'' @ createID s, compose fs body)"
  shows "cache_post n N (s, art fs body) = (Ok 1, (s\<lparr>sv_spool := [f]\<rparr>, art fs body))"
    and "postspooled n N (s\<lparr>sv_spool := [f]\<rparr>) = (Ok (), s\<lparr>sv_bad := sv_bad s @ [f]\<rparr>)"
proof -
  note post = rs_post_offline [OF p b(1) n]
  show "cache_post n N (s, art fs body) = (Ok 1, (s\<lparr>sv_spool := [f]\<rparr>, art fs body))"
    using post [OF h ms off, of n N] e(1)
    by (simp add: cache_post_def bnd_def gets_def ret_def on_fst_def spoolArt_def storeArticle_def f_def art_def)
  let ?s = "s\<lparr>sv_spool := [f]\<rparr>" and ?s2 = "s\<lparr>sv_bad := sv_bad s @ [f]\<rparr>"
  have ok: "ok_fields fs" using p by (simp add: postable_def)
  have "is_art (fst f)" by (simp add: f_def is_art_def)
  then have g1: "getSpooledArt ?s = (Ok (Some (art fs body)), s)"
    using read_spool_file [OF compose_lines [OF ok b(2)]] e(1)
    by (simp add: getSpooledArt_def f_def art_def)
  have "\<exists>f \<in> set fs. name_starts ''message-id'' f"
    using p same_name_starts unfolding postable_def field_names(6) [symmetric] by blast
  then obtain w where w: "getfield (art fs body) ''message-id'' False = Ok w"
    using getfield_starts [OF field_names(4) ok b(1) _ not_bytes(2)] by auto
  have "post_one n N (s, art fs body) = (Ok (), (?s2, art fs body))"
    using post [OF h ms off, of n N] w e(2)
    by (simp add: post_one_def try_catch_def bnd_def store_failed_def gets_def of_outcome_def on_fst_def
        storeBadArt_def storeArticle_def f_def art_def)
  moreover have "postspooled_loop n N ?s2 = Some (Ok (), ?s2)"
    using e(1) by (subst postspooled_loop.simps) (simp add: getSpooledArt_def)
  ultimately have "postspooled_loop n N ?s = Some (Ok (), ?s2)"
    using g1 by (subst postspooled_loop.simps) simp
  then show "postspooled n N ?s = (Ok (), ?s2)" by (simp add: postspooled_def loop_def)
qed

end
