(* ===== verification/Passing_Ok.thy ===== *)
theory Passing_Ok
  imports Cache_Newsgroup
begin

text \<open>
  The overview records of a newsgroup that is only passed on: whatever the upstream server sends,
  they stay ordered by their numbers and within the bounds of the group.
\<close>

section \<open>Actions on a pair that keep a property of its second object\<close>

definition keeps_snd :: "('g \<Rightarrow> bool) \<Rightarrow> ('s \<times> 'g, 'a) act \<Rightarrow> bool" where
  "keeps_snd P f \<longleftrightarrow> (\<forall>s g. P g \<longrightarrow> P (snd (snd (f (s, g)))))"

named_theorems keeps_intros \<open>actions that keep a property\<close>

lemma keeps_sndD: "keeps_snd P f \<Longrightarrow> P g \<Longrightarrow> f (s, g) = (r, sg') \<Longrightarrow> P (snd sg')"
  by (metis keeps_snd_def snd_conv)

lemma keeps_basic [keeps_intros]:
  "keeps_snd P (ret a)" "keeps_snd P (throw e)" "keeps_snd P crash" "keeps_snd P (gets h)"
  by (simp_all add: keeps_snd_def act_simps)

lemma keeps_on_fst [keeps_intros]: "keeps_snd P (on_fst f)"
  by (simp add: keeps_snd_def on_fst_def split: prod.splits)

lemma keeps_on_snd: "(\<And>g. P g \<Longrightarrow> P (snd (f g))) \<Longrightarrow> keeps_snd P (on_snd f)"
  by (auto simp: keeps_snd_def on_snd_def split: prod.splits) (metis snd_conv)

lemma keeps_bnd [keeps_intros]:
  assumes f: "keeps_snd P f" and g: "\<And>a. keeps_snd P (g a)"
  shows "keeps_snd P (bnd f g)"
  unfolding keeps_snd_def
proof (intro allI impI)
  fix s x assume x: "P x"
  obtain r s' x' where r: "f (s, x) = (r, (s', x'))" by (metis prod.collapse)
  with keeps_sndD [OF f x r] have "P x'" by simp
  with g r show "P (snd (snd (bnd f g (s, x))))"
    by (cases r) (simp_all add: bnd_def keeps_snd_def)
qed

lemma keeps_if [keeps_intros]: "keeps_snd P f \<Longrightarrow> keeps_snd P g \<Longrightarrow> keeps_snd P (if b then f else g)"
  by simp

lemma keeps_upd_fst [keeps_intros]: "keeps_snd P (upd (\<lambda>(s, g). (h s, g)))"
  by (simp add: keeps_snd_def upd_def)

lemma keeps_read_over:
  assumes "\<And>fmt is g. P g \<Longrightarrow> P (snd (readover fmt is g))"
  shows "keeps_snd P (read_over readover)"
  unfolding read_over_def
  by (auto intro!: keeps_intros keeps_on_snd assms split: option.split)

definition inv_opt :: "('g \<Rightarrow> bool) \<Rightarrow> ('a outcome \<times> 's \<times> 'g) option \<Rightarrow> bool" where
  "inv_opt P r \<longleftrightarrow> (\<forall>y. r = Some y \<longrightarrow> P (snd (snd y)))"

lemma inv_some: "keeps_snd P f \<Longrightarrow> P (snd sg) \<Longrightarrow> inv_opt P (Some (f sg))"
  by (cases sg) (simp add: inv_opt_def keeps_snd_def)

lemma inv_obnd:
  assumes f: "keeps_snd P f" "P (snd sg)" and g: "\<And>a sg'. P (snd sg') \<Longrightarrow> inv_opt P (g a sg')"
  shows "inv_opt P (obnd (Some (f sg)) g)"
proof -
  obtain r sg' where r: "f sg = (r, sg')" by (cases "f sg")
  then have "P (snd sg')" using inv_some [OF f] by (simp add: inv_opt_def)
  with g r show ?thesis by (cases r) (auto simp: inv_opt_def)
qed

lemma inv_if: "inv_opt P a \<Longrightarrow> inv_opt P b \<Longrightarrow> inv_opt P (if c then a else b)"
  by simp

text \<open>The loop that tries \<open>over\<close> and \<open>xover\<close>, by induction over its run.\<close>

lemma keeps_overview_loop:
  fixes sg :: "'n nserver \<times> 'g"
  assumes ro: "keeps_snd P (read_over readover :: ('n nserver \<times> 'g, unit) act)"
    and run: "overview_loop n N readover x f l sg = Some y" and p: "P (snd sg)"
  shows "P (snd (snd y))"
proof -
  let ?Q = "\<lambda>n' N' ro' x f l sg y. ro' = readover \<and> P (snd sg) \<longrightarrow> P (snd (snd y))"
  note ind = overview_loop.raw_induct [where P = ?Q and xa = "((((((n, N), readover), x), f), l), sg)", unfolded prod.case]
  have "?Q n N readover x f l sg y"
  proof (rule ind [OF _ run], intro impI, goal_cases)
    case (1 rec n' N' ro' x f l sg y)
    have r: "inv_opt P (rec n' N' ro' x f l sg)" if "P (snd sg)" for x sg
      using 1(1) 1(3) that unfolding inv_opt_def by blast
    have eq: "ro' = readover" and q: "P (snd sg)" using 1(3) by blast+
    have ro': "keeps_snd P (read_over ro' :: ('n nserver \<times> 'g, unit) act)" unfolding eq by (rule ro)
    have "inv_opt P (Some y)"
      unfolding 1(2) [symmetric] Let_def
      by (intro inv_obnd inv_if inv_some keeps_on_fst keeps_basic ro' r q)
    then show ?case by (simp add: inv_opt_def)
  qed
  with p show ?thesis by blast
qed

lemma keeps_overviewdb [keeps_intros]:
  fixes N :: "'n net_env"
  assumes "keeps_snd P (read_over readover :: ('n nserver \<times> 'g, unit) act)"
  shows "keeps_snd P (cache_overviewdb n N name readover f l)"
proof -
  have "keeps_snd P (loop (overview_loop n N readover x f l))" for x
    unfolding keeps_snd_def loop_def
  proof (intro allI impI)
    fix s g assume "P g"
    then show "P (snd (snd (case overview_loop n N readover x f l (s, g) of None \<Rightarrow> (Diverge, (s, g)) | Some r \<Rightarrow> r)))"
      using keeps_overview_loop [OF assms, of n N x f l "(s, g)"] by (auto split: option.split)
  qed
  then show ?thesis
    unfolding cache_overviewdb_def rs_overviewdb_def by (intro keeps_intros)
qed

section \<open>The overview table\<close>

definition over_table :: "rgroup \<Rightarrow> bool" where
  "over_table g \<longleftrightarrow> sorted_wrt (<) (map fst (rg_overdb g))
     \<and> (\<forall>i \<in> fst ` set (rg_overdb g). rg_first g \<le> i \<and> i \<le> rg_last g)"

lemma nat_put_keys: "fst ` set (nat_put k v m) = insert k (fst ` set m)"
  by (induction k v m rule: nat_put.induct) auto

lemma nat_put_sorted: "sorted_wrt (<) (map fst m) \<Longrightarrow> sorted_wrt (<) (map fst (nat_put k v m))"
proof (induction k v m rule: nat_put.induct)
  case (2 k v k' v' m)
  have "\<forall>j \<in> set (map fst (nat_put k v m)). k' < j" if "k' < k"
    using 2(2) that nat_put_keys [of k v m] by auto
  with 2 show ?case by (auto simp: image_iff)
qed simp

lemma nat_put_lookup:
  "sorted_wrt (<) (map fst m) \<Longrightarrow> map_of (nat_put k v m) = (map_of m)(k \<mapsto> v)"
proof (induction k v m rule: nat_put.induct)
  case (2 k v k' v' m)
  then show ?case by (auto simp: fun_eq_iff)
qed simp

lemma setover_table: "over_table g \<Longrightarrow> over_table (snd (rg_setover ov g))"
proof -
  assume g: "over_table g"
  let ?i = "u32_of_int (atoi (c_str ov))"
  have "over_table (g\<lparr>rg_overdb := nat_put ?i ov (rg_overdb g)\<rparr>)" if "rg_first g \<le> ?i \<and> ?i \<le> rg_last g"
    using g that nat_put_sorted [of "rg_overdb g"] by (simp add: over_table_def nat_put_keys)
  with g show ?thesis by (simp add: rg_setover_def upd_def Let_def)
qed

lemma read_lines_table: "over_table g \<Longrightarrow> over_table (snd (rg_read_lines fmt is line g))"
proof (induction fmt "is" line arbitrary: g rule: rg_read_lines.induct)
  case (1 fmt i line)
  obtain l' i' where r: "nlreadline i line False = (l', i')" by fastforce
  show ?case
  proof (cases "is_fail i \<and> \<not> is_eof i \<or> l' = ''.'' \<or> is_eof i'")
    case True
    then show ?thesis using 1(2) r by (subst rg_read_lines.simps) (auto simp: ret_def)
  next
    case False
    let ?put = "if dotrans fmt then bnd (of_outcome (convert_record fmt l')) rg_setover else rg_setover l'"
    have "over_table (snd (?put g))"
      using 1(2) setover_table by (auto simp: bnd_def of_outcome_def split: outcome.split)
    moreover have "rg_read_lines fmt i line g = bnd ?put (\<lambda>_. rg_read_lines fmt i' l') g"
      using False r by (subst rg_read_lines.simps) auto
    moreover have ih: "over_table g' \<Longrightarrow> over_table (snd (rg_read_lines fmt i' l' g'))" for g'
      using 1(1) False r by auto
    ultimately show ?thesis
      by (cases "?put g", cases "fst (?put g)") (auto simp: bnd_def)
  qed
qed

lemma passing_overviewdb: "keeps_snd over_table (rg_overviewdb n N f l)"
  unfolding rg_overviewdb_def rg_readoverdb_def
  by (intro keeps_intros keeps_read_over read_lines_table)

lemma sorted_filter: "sorted_wrt R (map fst xs) \<Longrightarrow> sorted_wrt R (map fst (filter P xs))"
  by (induction xs) auto

lemma setsize_table:
  fixes N :: "'n net_env"
  shows "keeps_snd over_table (rg_setsize n N f l)"
  unfolding keeps_snd_def
proof (intro allI impI)
  fix s :: "'n nserver" and g assume g: "over_table g"
  let ?g1 = "if rg_first g < f then g\<lparr>rg_overdb := filter (\<lambda>e. f \<le> fst e) (rg_overdb g)\<rparr> else g"
  let ?g0 = "g\<lparr>rg_overdb := [], rg_first := f, rg_last := l\<rparr>" and ?g2 = "?g1\<lparr>rg_first := f, rg_last := l\<rparr>"
  have e: "rg_setsize n N f l (s, g) =
      (if f < rg_first g \<or> l < rg_last g then rg_overviewdb n N f l (s, ?g0)
       else if rg_last g < l then rg_overviewdb n N (u32 (rg_last g + 1)) l (s, ?g2)
       else (Ok (), (s, ?g1)))"
    by (simp add: rg_setsize_def bnd_def gets_def on_snd_def upd_def ret_def)
  have t0: "over_table ?g0" by (simp add: over_table_def)
  have t1: "over_table ?g1" using g sorted_filter by (auto simp: over_table_def)
  have t2: "over_table ?g2" if "\<not> f < rg_first g" "rg_last g < l"
    using t1 that by (fastforce simp: over_table_def)
  show "over_table (snd (snd (rg_setsize n N f l (s, g))))"
    unfolding e using t0 t1 t2 passing_overviewdb [of n N] by (auto simp: keeps_snd_def)
qed

end
