(* ===== verification/Spool_Clean.thy ===== *)
theory Spool_Clean
  imports Config_Read NV_Newsgroup
begin

text \<open>
  src/NewsCacheClean.cc: the program that removes the files of the spool directory that were used
  least recently, until the spool is below its size. The spool directory is the list of its
  files and directories by their path; nobody else works on it. Log output is left out.
\<close>

section \<open>The spool directory\<close>

text \<open>
  What \<open>stat\<close> tells of a path. A path whose entry is \<open>None\<close> is listed by \<open>readdir\<close> but cannot be
  examined. \<open>IsDir\<close> has whether the directory can be opened.
\<close>

datatype node_kind = IsReg | IsDir bool | IsOther

record fattr =
  fa_kind :: node_kind
  fa_atime :: int
  fa_mtime :: int
  fa_blocks :: int

type_synonym ftree = "(string \<times> fattr option) list"

definition stat_path :: "ftree \<Rightarrow> string \<Rightarrow> fattr option" where
  "stat_path t p = (case map_of t p of None \<Rightarrow> None | Some a \<Rightarrow> a)"

text \<open>The names in a directory in the order in which they are listed, those of \<open>.\<close> and \<open>..\<close> left out.\<close>

definition entry_of :: "string \<Rightarrow> string \<Rightarrow> bool" where
  "entry_of d p \<longleftrightarrow> take (length d + 1) p = d @ ''/'' \<and> length d + 1 < length p
     \<and> CHR ''/'' \<notin> set (drop (length d + 1) p)"

definition readdir :: "ftree \<Rightarrow> string \<Rightarrow> string list" where
  "readdir t d = map (drop (length d + 1)) (filter (entry_of d) (map fst t))"

definition opens :: "ftree \<Rightarrow> string \<Rightarrow> bool" where
  "opens t d = (case stat_path t d of Some a \<Rightarrow> fa_kind a = IsDir True | None \<Rightarrow> False)"

definition is_directory :: "fattr \<Rightarrow> bool" where
  "is_directory a = (case fa_kind a of IsDir _ \<Rightarrow> True | _ \<Rightarrow> False)"

text \<open>
  The rest of the world: what the operating system grants, the databases by their absolute path,
  the spool directory's own path and the paths that may not be removed.
\<close>

record cleanenv =
  ce_os :: osenv
  ce_disk :: "string \<Rightarrow> (mem \<times> nat) option"
  ce_spooldir :: string
  ce_protected :: "string \<Rightarrow> bool"

section \<open>The table of files\<close>

record pentry =
  pe_path :: string
  pe_atime :: int
  pe_blocks :: int

record cleaner =
  pvector :: "pentry list"
  cl_blocks :: int

definition note_entry :: "string \<Rightarrow> int \<Rightarrow> int \<Rightarrow> (cleaner, unit) act" where
  "note_entry p tm bl =
     upd (\<lambda>c. c\<lparr>pvector := pvector c @ [\<lparr>pe_path = p, pe_atime = tm, pe_blocks = bl\<rparr>], cl_blocks := cl_blocks c + bl\<rparr>)"

fun each :: "('a \<Rightarrow> ('s, unit) act) \<Rightarrow> 'a list \<Rightarrow> ('s, unit) act" where
  "each f [] = ret ()"
| "each f (x # xs) = bnd (f x) (\<lambda>_. each f xs)"

text \<open>\<open>sprintf\<close> into an array of \<open>MAXPATHLEN\<close> characters.\<close>

definition path_in :: "string \<Rightarrow> string \<Rightarrow> (cleaner, string) act" where
  "path_in d name =
     (let p = d @ ''/'' @ name in if MAXPATHLEN \<le> length p then crash else ret p)"

text \<open>The time of the database of a directory less one second, 0 where there is none.\<close>

definition note_db :: "ftree \<Rightarrow> string \<Rightarrow> (cleaner, int) act" where
  "note_db t p =
     (case stat_path t p of
        None \<Rightarrow> ret 0
      | Some a \<Rightarrow>
          (let tm = max (fa_atime a) (fa_mtime a)
           in bnd (note_entry p tm (fa_blocks a)) (\<lambda>_. ret (tm - 1))))"

section \<open>The bounds of a newsgroup\<close>

fun dots_for_slashes :: "string \<Rightarrow> string" where
  "dots_for_slashes [] = []"
| "dots_for_slashes (c # q) = (if c = CHR ''/'' then CHR ''.'' else c) # dots_for_slashes q"

definition dir_group :: "string \<Rightarrow> string" where
  "dir_group cpath = dots_for_slashes (drop 2 cpath)"

text \<open>
  \<open>firstnbr\<close> and \<open>lastnbr\<close> of a new \<open>NVNewsgroup\<close>, as \<open>int\<close>s; nothing if there is no database or no
  such group.
\<close>

definition group_range :: "cleanenv \<Rightarrow> ftree \<Rightarrow> string \<Rightarrow> (int \<times> int) option outcome" where
  "group_range E t cpath =
     (if stat_path t (cpath @ ''/.db'') = None then Ok None
      else
        case open_nv (ce_spooldir E @ ''/'' @ group2dir (c_str (dir_group cpath)) @ ''/.db'')
               (nvcontainer_new ClsArray (ce_os E) (ce_disk E)) of
          (Ok _, s) \<Rightarrow> (case arr_getsize s of (f, l) \<Rightarrow> Ok (Some (i32 (int f), i32 (int l))))
        | (Throw (NoSuchGroupError _), s) \<Rightarrow> Ok None
        | (Throw e, s) \<Rightarrow> Throw e
        | (Crash, s) \<Rightarrow> Crash
        | (Diverge, s) \<Rightarrow> Diverge)"

text \<open>\<open>sscanf\<close> with \<open>%d\<close>.\<close>

definition scan_int :: "string \<Rightarrow> int option" where
  "scan_int p =
     (let q = dropWhile isspace p;
          r = (if deref q = CHR ''-'' \<or> deref q = CHR ''+'' then tl q else q)
      in if isdigit (deref r) then Some (atoi p) else None)"

text \<open>
  A file of an article. It is never younger than its group's database, and has the time 0 if its
  number is outside the bounds.
\<close>

definition note_article :: "ftree \<Rightarrow> string \<Rightarrow> int \<Rightarrow> (int \<times> int) option \<Rightarrow> string \<Rightarrow> (cleaner, unit) act" where
  "note_article t cpath dbatime nrs name =
     bnd (path_in cpath name) (\<lambda>p.
     case stat_path t p of
       None \<Rightarrow> ret ()
     | Some a \<Rightarrow>
         if fa_kind a = IsReg \<and> dbatime \<noteq> 0 \<and> take 4 name = ''.art'' then
           (let tm = max (fa_atime a) (fa_mtime a);
                at = (if dbatime \<le> tm then dbatime else tm);
                at' = (case scan_int (drop 4 name) of
                         None \<Rightarrow> at
                       | Some nr \<Rightarrow> (case nrs of
                             None \<Rightarrow> 0
                           | Some (f, l) \<Rightarrow> if nr < f \<or> l < nr then 0 else at))
            in note_entry p at' (fa_blocks a))
         else ret ())"

section \<open>Walking through the directories\<close>

text \<open>
  The two exceptions are compared with the path of the database. The first argument bounds the
  depth of the directories.
\<close>

definition visit :: "ftree \<Rightarrow> (string \<Rightarrow> (cleaner, unit) act) \<Rightarrow> string \<Rightarrow> string \<Rightarrow> (cleaner, unit) act" where
  "visit t walk cpath name =
     bnd (path_in cpath name) (\<lambda>p.
     case stat_path t p of
       None \<Rightarrow> ret ()
     | Some a \<Rightarrow> if is_directory a then walk p else ret ())"

primrec clean :: "nat \<Rightarrow> cleanenv \<Rightarrow> ftree \<Rightarrow> string \<Rightarrow> (cleaner, unit) act" where
  "clean 0 E t cpath = (\<lambda>c. (Diverge, c))"
| "clean (Suc n) E t cpath =
     bnd (path_in cpath ''.db'') (\<lambda>p.
     if p = ''./.artSpool'' \<or> p = ''./.badArticles'' then ret ()
     else
       bnd (note_db t p) (\<lambda>dbatime.
       if \<not> opens t cpath then ret ()
       else
         bnd (each (visit t (clean n E t) cpath) (readdir t cpath)) (\<lambda>_.
         bnd (of_outcome (group_range E t cpath)) (\<lambda>nrs.
         each (note_article t cpath dbatime nrs) (readdir t cpath)))))"

section \<open>Removing\<close>

record cache_statistic =
  stPurgedDbCnt :: nat
  stPurgedDirCnt :: nat
  stPurgedArtCnt :: nat
  stPurgedOutArtCnt :: nat
  stDbCnt :: nat
  stArtCnt :: nat
  stOutArtCnt :: nat
  stPurgedDbSize :: int
  stPurgedArtSize :: int
  stPurgedOutArtSize :: int
  stDbSize :: int
  stArtSize :: int
  stOutArtSize :: int

definition statistic_new :: cache_statistic where
  "statistic_new = \<lparr>stPurgedDbCnt = 0, stPurgedDirCnt = 0, stPurgedArtCnt = 0, stPurgedOutArtCnt = 0,
     stDbCnt = 0, stArtCnt = 0, stOutArtCnt = 0, stPurgedDbSize = 0, stPurgedArtSize = 0,
     stPurgedOutArtSize = 0, stDbSize = 0, stArtSize = 0, stOutArtSize = 0\<rparr>"

definition unlink_path :: "cleanenv \<Rightarrow> string \<Rightarrow> ftree \<Rightarrow> ftree option" where
  "unlink_path E p t =
     (case map_of t p of
        None \<Rightarrow> None
      | Some a \<Rightarrow>
          if ce_protected E p \<or> (case a of Some a' \<Rightarrow> is_directory a' | None \<Rightarrow> False) then None
          else Some (filter (\<lambda>e. fst e \<noteq> p) t))"

text \<open>A directory is removed when it is empty; the path may end with a slash.\<close>

definition rmdir_path :: "cleanenv \<Rightarrow> string \<Rightarrow> ftree \<Rightarrow> ftree option" where
  "rmdir_path E p0 t =
     (let p = (if p0 \<noteq> [] \<and> last p0 = CHR ''/'' then butlast p0 else p0)
      in case stat_path t p of
           None \<Rightarrow> None
         | Some a \<Rightarrow>
             if is_directory a \<and> p \<noteq> ''.'' \<and> \<not> ce_protected E p \<and> readdir t p = []
             then Some (filter (\<lambda>e. fst e \<noteq> p) t) else None)"

definition is_db :: "pentry \<Rightarrow> bool" where
  "is_db e \<longleftrightarrow> drop (length (pe_path e) - 3) (pe_path e) = ''.db''"

definition count_entry :: "pentry \<Rightarrow> cache_statistic \<Rightarrow> cache_statistic" where
  "count_entry e st =
     (if is_db e then st\<lparr>stDbCnt := stDbCnt st + 1, stDbSize := stDbSize st + pe_blocks e\<rparr>
      else if pe_atime e \<noteq> 0 then st\<lparr>stArtCnt := stArtCnt st + 1, stArtSize := stArtSize st + pe_blocks e\<rparr>
      else st\<lparr>stOutArtCnt := stOutArtCnt st + 1, stOutArtSize := stOutArtSize st + pe_blocks e\<rparr>)"

definition count_purged :: "pentry \<Rightarrow> cache_statistic \<Rightarrow> cache_statistic" where
  "count_purged e st =
     (if is_db e then st\<lparr>stPurgedDbCnt := stPurgedDbCnt st + 1, stPurgedDbSize := stPurgedDbSize st + pe_blocks e\<rparr>
      else if pe_atime e \<noteq> 0
      then st\<lparr>stPurgedArtCnt := stPurgedArtCnt st + 1, stPurgedArtSize := stPurgedArtSize st + pe_blocks e\<rparr>
      else st\<lparr>stPurgedOutArtCnt := stPurgedOutArtCnt st + 1,
              stPurgedOutArtSize := stPurgedOutArtSize st + pe_blocks e\<rparr>)"

record purge =
  pg_tree :: ftree
  pg_blocks :: int
  pg_stat :: cache_statistic

definition remove_dir :: "cleanenv \<Rightarrow> pentry \<Rightarrow> purge \<Rightarrow> purge" where
  "remove_dir E e s =
     (case rmdir_path E (take (length (pe_path e) - 3) (pe_path e)) (pg_tree s) of
        None \<Rightarrow> s
      | Some t \<Rightarrow> s\<lparr>pg_tree := t, pg_stat := (pg_stat s)\<lparr>stPurgedDirCnt := stPurgedDirCnt (pg_stat s) + 1\<rparr>\<rparr>)"

definition remove_one :: "cleanenv \<Rightarrow> int \<Rightarrow> pentry \<Rightarrow> purge \<Rightarrow> purge" where
  "remove_one E max_blocks e s =
     (let s1 = s\<lparr>pg_stat := count_entry e (pg_stat s)\<rparr>
      in if pe_atime e \<noteq> 0 \<and> pg_blocks s1 \<le> max_blocks then s1
         else case unlink_path E (pe_path e) (pg_tree s1) of
                None \<Rightarrow> s1
              | Some t \<Rightarrow>
                  (let s2 = s1\<lparr>pg_tree := t, pg_blocks := pg_blocks s1 - pe_blocks e,
                               pg_stat := count_purged e (pg_stat s1)\<rparr>
                   in if is_db e then remove_dir E e s2 else s2))"

definition remove_elements :: "cleanenv \<Rightarrow> int \<Rightarrow> pentry list \<Rightarrow> purge \<Rightarrow> purge" where
  "remove_elements E max_blocks es s = fold (remove_one E max_blocks) es s"

definition sort_entries :: "pentry \<Rightarrow> pentry \<Rightarrow> bool" where
  "sort_entries l r \<longleftrightarrow> pe_atime l < pe_atime r"

section \<open>The program\<close>

text \<open>
  \<open>std::sort\<close> with \<open>sort_entries\<close> is an argument: it may order entries of the same time in any way. \<open>SpoolSize\<close> is
  in kilobytes, the blocks are of half a kilobyte.
\<close>

definition newscacheclean ::
  "(pentry list \<Rightarrow> pentry list) \<Rightarrow> cleanenv \<Rightarrow> config \<Rightarrow> bool \<Rightarrow> ftree \<Rightarrow> (pentry list \<times> purge) outcome" where
  "newscacheclean srt E cfg try_flag t =
     (case clean MAXPATHLEN E t ''.'' \<lparr>pvector = [], cl_blocks = 0\<rparr> of
        (Ok _, c) \<Rightarrow>
          (let es = srt (pvector c);
               s = \<lparr>pg_tree = t, pg_blocks = cl_blocks c, pg_stat = statistic_new\<rparr>
           in Ok (es, if try_flag then s else remove_elements E (SpoolSize cfg * 2) es s))
      | (Throw e, c) \<Rightarrow> Throw e
      | (Crash, c) \<Rightarrow> Crash
      | (Diverge, c) \<Rightarrow> Diverge)"

text \<open>What \<open>-p\<close> and \<open>-s\<close> print. Sizes are unsigned.\<close>

definition print_entry_line :: "pentry \<Rightarrow> string" where
  "print_entry_line e = pe_path e @ '' '' @ show_int (pe_atime e) @ '' '' @ show_int (pe_blocks e) @ '' '' @ [LF]"

definition table_rule :: string where
  "table_rule = replicate 16 CHR ''-'' @ '' Purge table '' @ replicate 16 CHR ''-'' @ [LF]"

definition print_purgetable :: "pentry list \<Rightarrow> string" where
  "print_purgetable es = table_rule @ concat (map print_entry_line es) @ table_rule"

definition megabytes :: "int \<Rightarrow> string" where
  "megabytes b = show_nat (u64_of_int b div 2 div 1024)"

definition print_statistic :: "cache_statistic \<Rightarrow> string" where
  "print_statistic st =
     ''PurgedDbCnt: '' @ show_nat (stPurgedDbCnt st) @ [LF] @
     ''PurgedDirCnt: '' @ show_nat (stPurgedDirCnt st) @ [LF] @
     ''PurgedArtCnt: '' @ show_nat (stPurgedArtCnt st) @ [LF] @
     ''PurgedOutArtCnt: '' @ show_nat (stPurgedOutArtCnt st) @ [LF] @
     ''DbCnt: '' @ show_nat (stDbCnt st) @ [LF] @
     ''DirCnt: '' @ show_nat 0 @ [LF] @
     ''ArtCnt: '' @ show_nat (stArtCnt st) @ [LF] @
     ''OutArtCnt: '' @ show_nat (stOutArtCnt st) @ [LF] @
     ''PurgedDbSize: '' @ megabytes (stPurgedDbSize st) @ ''Mb'' @ [LF] @
     ''PurgedArtSize: '' @ megabytes (stPurgedArtSize st) @ ''Mb'' @ [LF] @
     ''DbSize: '' @ megabytes (stDbSize st) @ ''Mb'' @ [LF] @
     ''ArtSize: '' @ megabytes (stArtSize st) @ ''Mb'' @ [LF] @
     ''OutArtSize: '' @ megabytes (stOutArtSize st) @ ''MB'' @ [LF]"

section \<open>The command line\<close>

text \<open>
  The options as \<open>getopt_long\<close> delivers them, an unknown one as a question mark: nothing when the
  program is only to show its version or usage, and otherwise the configuration file, the three
  switches for statistics, the table and trying, and whether there was an error.
\<close>

record clean_opts =
  co_conf :: string
  co_stat :: bool
  co_table :: bool
  co_try :: bool
  co_err :: bool

fun clean_options :: "(char \<times> string) list \<Rightarrow> clean_opts \<Rightarrow> clean_opts option outcome" where
  "clean_options [] r = Ok (Some r)"
| "clean_options ((c, a) # opts) r =
     (if c = CHR ''v'' \<or> c = CHR ''h'' then Ok None
      else if c = CHR ''c'' then
        (if MAXPATHLEN \<le> length (c_str a) then Crash else clean_options opts (r\<lparr>co_conf := c_str a\<rparr>))
      else if c = CHR ''s'' then clean_options opts (r\<lparr>co_stat := True\<rparr>)
      else if c = CHR ''t'' then clean_options opts (r\<lparr>co_try := True\<rparr>)
      else if c = CHR ''p'' then clean_options opts (r\<lparr>co_table := True\<rparr>)
      else clean_options opts (r\<lparr>co_err := True\<rparr>))"

text \<open>The status and what is printed on the standard output, but for version and usage, from a
  configuration that can be read.\<close>

definition clean_main ::
  "(pentry list \<Rightarrow> pentry list) \<Rightarrow> (config \<Rightarrow> cleanenv) \<Rightarrow> (string \<Rightarrow> config) \<Rightarrow> (char \<times> string) list \<Rightarrow> bool
    \<Rightarrow> string \<Rightarrow> ftree \<Rightarrow> (nat \<times> string \<times> ftree) outcome" where
  "clean_main srt E conf opts more_args default_conf t =
     (case clean_options opts \<lparr>co_conf = default_conf, co_stat = False, co_table = False, co_try = False, co_err = False\<rparr> of
        Ok None \<Rightarrow> Ok (0, [], t)
      | Ok (Some r) \<Rightarrow>
          if co_err r \<or> more_args then Ok (1, [], t)
          else
            (let cfg = conf (co_conf r)
             in case newscacheclean srt (E cfg) cfg (co_try r) t of
                  Ok (es, s) \<Rightarrow>
                    Ok (0, (if co_table r then print_purgetable es else [])
                      @ (if co_stat r then print_statistic (pg_stat s) else []), pg_tree s)
                | Throw e \<Rightarrow> Throw e | Crash \<Rightarrow> Crash | Diverge \<Rightarrow> Diverge)
      | Throw e \<Rightarrow> Throw e | Crash \<Rightarrow> Crash | Diverge \<Rightarrow> Diverge)"

end
