(* ===== verification/Clean_Ok.thy ===== *)
theory Clean_Ok
  imports Spool_Clean "HOL-Library.Multiset"
begin

text \<open>
  What NewsCacheClean removes: the outdated articles and then the files that were used least
  recently, no more than is needed, and the database of a newsgroup only after its articles.
\<close>

section \<open>The files of a directory tree\<close>

text \<open>Everything but the directories.\<close>

definition files :: "ftree \<Rightarrow> string \<rightharpoonup> fattr option" where
  "files t p = (case map_of t p of
      Some a \<Rightarrow> if (case a of Some a' \<Rightarrow> is_directory a' | None \<Rightarrow> False) then None else Some a
    | None \<Rightarrow> None)"

lemma map_of_others: "map_of (filter (\<lambda>e. fst e \<noteq> p) t) = (map_of t)(p := None)"
  by (induction t) (auto simp: fun_eq_iff)

lemma unlink_path_files:
  "unlink_path E p t = (if files t p \<noteq> None \<and> \<not> ce_protected E p then Some (filter (\<lambda>e. fst e \<noteq> p) t) else None)"
  by (auto simp: unlink_path_def files_def split: option.splits)

lemma files_unlink: "files (filter (\<lambda>e. fst e \<noteq> p) t) = (files t)(p := None)"
  by (auto simp: files_def map_of_others fun_eq_iff)

lemma rmdir_path_files: "rmdir_path E p t = Some t' \<Longrightarrow> files t' = files t"
  by (auto simp: rmdir_path_def Let_def stat_path_def files_def map_of_others fun_eq_iff
      split: option.splits if_splits)

section \<open>Removing one entry\<close>

definition removable :: "cleanenv \<Rightarrow> ftree \<Rightarrow> pentry \<Rightarrow> bool" where
  "removable E t e \<longleftrightarrow> files t (pe_path e) \<noteq> None \<and> \<not> ce_protected E (pe_path e)"

definition tried :: "int \<Rightarrow> pentry \<Rightarrow> int \<Rightarrow> bool" where
  "tried m e b \<longleftrightarrow> pe_atime e = 0 \<or> m < b"

lemma remove_dir_keeps:
  "files (pg_tree (remove_dir E e s)) = files (pg_tree s)" "pg_blocks (remove_dir E e s) = pg_blocks s"
  using rmdir_path_files by (auto simp: remove_dir_def split: option.splits)

lemma remove_one_eq:
  "files (pg_tree (remove_one E m e s)) =
     (if tried m e (pg_blocks s) \<and> removable E (pg_tree s) e then (files (pg_tree s))(pe_path e := None)
      else files (pg_tree s))"
  "pg_blocks (remove_one E m e s) =
     (if tried m e (pg_blocks s) \<and> removable E (pg_tree s) e then pg_blocks s - pe_blocks e else pg_blocks s)"
  by (simp_all add: remove_one_def Let_def tried_def removable_def unlink_path_files remove_dir_keeps files_unlink)

lemma remove_elements_simps [simp]:
  "remove_elements E m [] s = s"
  "remove_elements E m (e # es) s = remove_elements E m es (remove_one E m e s)"
  "remove_elements E m (es @ es') s = remove_elements E m es' (remove_elements E m es s)"
  by (simp_all add: remove_elements_def)

section \<open>How far the removing goes\<close>

fun purge_count :: "int \<Rightarrow> int \<Rightarrow> pentry list \<Rightarrow> nat" where
  "purge_count m b [] = 0"
| "purge_count m b (e # es) = (if tried m e b then Suc (purge_count m (b - pe_blocks e) es) else 0)"

abbreviation blocks_of :: "pentry list \<Rightarrow> int" where
  "blocks_of es \<equiv> sum_list (map pe_blocks es)"

lemma purge_count_le: "purge_count m b es \<le> length es"
  by (induction es arbitrary: b) auto

lemma purge_count_tried:
  "i < purge_count m b es \<Longrightarrow> tried m (es ! i) (b - blocks_of (take i es))"
proof (induction es arbitrary: b i)
  case (Cons e es)
  then show ?case by (cases i) (force split: if_splits simp: diff_diff_eq [symmetric])+
qed simp

lemma purge_count_stops:
  "purge_count m b es < length es
    \<Longrightarrow> \<not> tried m (es ! purge_count m b es) (b - blocks_of (take (purge_count m b es) es))"
proof (induction es arbitrary: b)
  case (Cons e es)
  then show ?case by (auto simp: diff_diff_eq [symmetric])
qed simp

lemma remove_stopped:
  assumes "\<forall>e \<in> set es. \<not> tried m e (pg_blocks s)"
  shows "files (pg_tree (remove_elements E m es s)) = files (pg_tree s)
    \<and> pg_blocks (remove_elements E m es s) = pg_blocks s"
  using assms
proof (induction es arbitrary: s)
  case (Cons e es)
  then have "pg_blocks (remove_one E m e s) = pg_blocks s"
    "files (pg_tree (remove_one E m e s)) = files (pg_tree s)" by (simp_all add: remove_one_eq)
  with Cons.IH [of "remove_one E m e s"] Cons.prems show ?case by simp
qed simp

lemma stays_stopped:
  assumes "sorted (map pe_atime (e # es))" and "0 \<le> pe_atime e" and "\<not> tried m e b"
  shows "\<forall>x \<in> set (e # es). \<not> tried m x b"
  using assms by (fastforce simp: tried_def)

lemma removes_least_recent:
  fixes m :: int
  assumes "sorted (map pe_atime es)" and "distinct (map pe_path es)"
    and "\<forall>e \<in> set es. removable E (pg_tree s) e \<and> 0 \<le> pe_atime e"
  defines "k \<equiv> purge_count m (pg_blocks s) es"
  shows "files (pg_tree (remove_elements E m es s)) = files (pg_tree s) |` (- pe_path ` set (take k es))
    \<and> pg_blocks (remove_elements E m es s) = pg_blocks s - blocks_of (take k es)"
  using assms(1-3) unfolding k_def
proof (induction es arbitrary: s)
  case (Cons e es)
  let ?s = "remove_one E m e s"
  show ?case
  proof (cases "tried m e (pg_blocks s)")
    case True
    with Cons.prems(3) have f: "files (pg_tree ?s) = (files (pg_tree s))(pe_path e := None)"
      and b: "pg_blocks ?s = pg_blocks s - pe_blocks e" by (simp_all add: remove_one_eq)
    have "removable E (pg_tree ?s) x \<and> 0 \<le> pe_atime x" if "x \<in> set es" for x
    proof -
      have "pe_path x \<noteq> pe_path e" using that Cons.prems(2) by (metis distinct.simps(2) image_eqI list.map(2) list.set_map)
      then show ?thesis using that Cons.prems(3) by (simp add: removable_def f)
    qed
    with Cons.IH [of ?s] Cons.prems(1,2) b True f show ?thesis
      by (auto simp: restrict_map_def fun_eq_iff)
  next
    case False
    then have "\<forall>x \<in> set (e # es). \<not> tried m x (pg_blocks s)"
      using stays_stopped [OF Cons.prems(1)] Cons.prems(3) by simp
    from remove_stopped [OF this, of E] False show ?thesis by simp
  qed
qed (simp add: restrict_map_def)

section \<open>Articles go before their database\<close>

lemma remove_shrinks:
  assumes "\<forall>e \<in> set es. 0 \<le> pe_blocks e"
  shows "pg_blocks (remove_elements E m es s) \<le> pg_blocks s"
    and "files (pg_tree s) p = None \<Longrightarrow> files (pg_tree (remove_elements E m es s)) p = None"
  using assms
proof (induction es arbitrary: s)
  case (Cons e es)
  {
    case 1
    then show ?case using Cons.IH(1) [of "remove_one E m e s"] by (auto simp: remove_one_eq split: if_splits)
  next
    case 2
    then show ?case using Cons.IH(2) [of "remove_one E m e s"] by (auto simp: remove_one_eq split: if_splits)
  }
qed simp_all

lemma untouched:
  assumes "p \<notin> pe_path ` set es"
  shows "files (pg_tree (remove_elements E m es s)) p = files (pg_tree s) p"
  using assms by (induction es arbitrary: s) (auto simp: remove_one_eq)

lemma older_goes_first:
  assumes so: "sorted (map pe_atime es)" and di: "distinct (map pe_path es)"
    and bl: "\<forall>e \<in> set es. 0 \<le> pe_blocks e"
    and x: "x \<in> set es" "pe_atime x \<noteq> 0" "files (pg_tree s) (pe_path x) \<noteq> None"
      "files (pg_tree (remove_elements E m es s)) (pe_path x) = None"
    and e: "e \<in> set es" "pe_atime e < pe_atime x" "\<not> ce_protected E (pe_path e)"
  shows "files (pg_tree (remove_elements E m es s)) (pe_path e) = None"
proof -
  obtain as bs where es: "es = as @ x # bs" using x(1) by (metis split_list)
  have "e \<in> set as" using so e(1,2) by (auto simp: es sorted_append)
  then obtain a1 a2 where as: "as = a1 @ e # a2" by (metis split_list)
  have nx: "pe_path x \<notin> pe_path ` set as" "pe_path x \<notin> pe_path ` set bs" using di by (auto simp: es)
  let ?sx = "remove_elements E m as s" and ?se = "remove_elements E m a1 s"
  have bl': "\<forall>e \<in> set as. 0 \<le> pe_blocks e" "\<forall>e \<in> set (e # a2). 0 \<le> pe_blocks e"
    "\<forall>e \<in> set (a2 @ x # bs). 0 \<le> pe_blocks e" using bl by (auto simp: es as)
  have "tried m x (pg_blocks ?sx)"
  proof (rule ccontr)
    assume "\<not> ?thesis"
    then have "files (pg_tree (remove_one E m x ?sx)) (pe_path x) = files (pg_tree s) (pe_path x)"
      using untouched [OF nx(1), of E m s] by (simp add: remove_one_eq)
    then show False using untouched [OF nx(2), of E m "remove_one E m x ?sx"] x(3,4) by (simp add: es)
  qed
  then have "m < pg_blocks ?sx" using x(2) by (simp add: tried_def)
  moreover have "pg_blocks ?sx \<le> pg_blocks ?se"
    using remove_shrinks(1) [OF bl'(2), of E m ?se] by (simp add: as)
  ultimately have "files (pg_tree (remove_one E m e ?se)) (pe_path e) = None"
    using e(3) by (auto simp: remove_one_eq tried_def removable_def)
  from remove_shrinks(2) [OF bl'(3) this, of E m] show ?thesis by (simp add: es as)
qed

section \<open>The table\<close>

definition db_time :: "ftree \<Rightarrow> string \<Rightarrow> int" where
  "db_time t d = (case stat_path t (d @ ''/.db'') of None \<Rightarrow> 0 | Some a \<Rightarrow> max (fa_atime a) (fa_mtime a) - 1)"

definition db_entries :: "ftree \<Rightarrow> string \<Rightarrow> pentry list" where
  "db_entries t d = (case stat_path t (d @ ''/.db'') of
      None \<Rightarrow> []
    | Some a \<Rightarrow> [\<lparr>pe_path = d @ ''/.db'', pe_atime = max (fa_atime a) (fa_mtime a), pe_blocks = fa_blocks a\<rparr>])"

definition art_time :: "fattr \<Rightarrow> int \<Rightarrow> (int \<times> int) option \<Rightarrow> string \<Rightarrow> int" where
  "art_time a dbatime nrs name =
     (let at = min dbatime (max (fa_atime a) (fa_mtime a))
      in case scan_int (drop 4 name) of
           None \<Rightarrow> at
         | Some nr \<Rightarrow> (case nrs of None \<Rightarrow> 0 | Some (f, l) \<Rightarrow> if nr < f \<or> l < nr then 0 else at))"

definition art_entries :: "ftree \<Rightarrow> string \<Rightarrow> (int \<times> int) option \<Rightarrow> string \<Rightarrow> pentry list" where
  "art_entries t d nrs name = (case stat_path t (d @ ''/'' @ name) of
      None \<Rightarrow> []
    | Some a \<Rightarrow>
        if fa_kind a = IsReg \<and> db_time t d \<noteq> 0 \<and> take 4 name = ''.art''
        then [\<lparr>pe_path = d @ ''/'' @ name, pe_atime = art_time a (db_time t d) nrs name, pe_blocks = fa_blocks a\<rparr>]
        else [])"

definition range_of :: "cleanenv \<Rightarrow> ftree \<Rightarrow> string \<Rightarrow> (int \<times> int) option" where
  "range_of E t d = (case group_range E t d of Ok r \<Rightarrow> r | _ \<Rightarrow> None)"

definition sub_dir :: "ftree \<Rightarrow> string \<Rightarrow> string \<Rightarrow> bool" where
  "sub_dir t d name \<longleftrightarrow> (case stat_path t (d @ ''/'' @ name) of None \<Rightarrow> False | Some a \<Rightarrow> is_directory a)"

primrec table :: "nat \<Rightarrow> cleanenv \<Rightarrow> ftree \<Rightarrow> string \<Rightarrow> pentry list" where
  "table 0 E t d = []"
| "table (Suc n) E t d = db_entries t d
     @ (if opens t d
        then concat (map (\<lambda>name. if sub_dir t d name then table n E t (d @ ''/'' @ name) else []) (readdir t d))
           @ concat (map (art_entries t d (range_of E t d)) (readdir t d))
        else [])"

definition noted :: "cleaner \<Rightarrow> pentry list \<Rightarrow> cleaner" where
  "noted c es = c\<lparr>pvector := pvector c @ es, cl_blocks := cl_blocks c + blocks_of es\<rparr>"

lemma noted_simps [simp]: "noted c [] = c" "noted (noted c es) es' = noted c (es @ es')"
  by (simp_all add: noted_def)

lemma note_entry_noted: "note_entry p tm bl c = (Ok (), noted c [\<lparr>pe_path = p, pe_atime = tm, pe_blocks = bl\<rparr>])"
  by (simp add: note_entry_def noted_def upd_def)

lemma each_noted:
  assumes "each f xs c = (Ok (), c')" and "\<And>x c c'. f x c = (Ok (), c') \<Longrightarrow> c' = noted c (g x)"
  shows "c' = noted c (concat (map g xs))"
  using assms(1)
proof (induction xs arbitrary: c)
  case (Cons x xs)
  then obtain c1 where "f x c = (Ok (), c1)" "each f xs c1 = (Ok (), c')" by (auto elim!: bnd_OkE)
  with assms(2) Cons.IH show ?case by (metis concat.simps(2) list.map(2) noted_simps(2))
qed (simp add: ret_def)

lemma path_in_Ok: "path_in d name c = (Ok p, c') \<longleftrightarrow> p = d @ ''/'' @ name \<and> c' = c \<and> length p < MAXPATHLEN"
  by (auto simp: path_in_def Let_def crash_def ret_def)

lemma note_db_noted: "note_db t (d @ ''/.db'') c = (Ok (db_time t d), noted c (db_entries t d))"
  by (auto simp: note_db_def db_time_def db_entries_def bnd_def note_entry_noted ret_def Let_def split: option.splits)

lemma note_article_noted:
  "note_article t d (db_time t d) nrs name c = (Ok (), c') \<Longrightarrow> c' = noted c (art_entries t d nrs name)"
  by (auto simp: note_article_def art_entries_def art_time_def path_in_Ok note_entry_noted ret_def Let_def min_def
      elim!: bnd_OkE split: option.splits if_splits)

lemma clean_table:
  "clean n E t d c = (Ok (), c') \<Longrightarrow> c' = noted c (table n E t d)"
proof (induction n arbitrary: d c c')
  case (Suc n)
  let ?p = "d @ ''/.db''"
  have np: "?p \<noteq> ''./.artSpool''" "?p \<noteq> ''./.badArticles''"
    by (auto dest!: arg_cong [where f = rev])
  have sub: "c2 = noted c1 (if sub_dir t d name then table n E t (d @ ''/'' @ name) else [])"
    if "visit t (clean n E t) d name c1 = (Ok (), c2)" for name c1 c2
    using that Suc.IH
    by (auto simp: visit_def sub_dir_def path_in_Ok ret_def elim!: bnd_OkE split: option.splits if_splits)
  show ?case
  proof (cases "opens t d")
    case False
    then show ?thesis
      using Suc.prems np by (auto simp: path_in_Ok note_db_noted ret_def elim!: bnd_OkE)
  next
    case True
    obtain c1 c2 where e: "each (visit t (clean n E t) d) (readdir t d) (noted c (db_entries t d)) = (Ok (), c1)"
      "of_outcome (group_range E t d) c1 = (Ok c2, c1)"
      "each (note_article t d (db_time t d) c2) (readdir t d) c1 = (Ok (), c')"
      using Suc.prems np True by (auto simp: path_in_Ok note_db_noted of_outcome_def elim!: bnd_OkE)
    then have "c2 = range_of E t d" by (simp add: of_outcome_def range_of_def)
    with each_noted [OF e(1) sub] each_noted [OF e(3) note_article_noted] True show ?thesis by simp
  qed
qed simp

section \<open>Where the entries come from\<close>

lemma readdir_name: "name \<in> set (readdir t d) \<Longrightarrow> CHR ''/'' \<notin> set name"
  by (auto simp: readdir_def entry_of_def)

lemma readdir_distinct:
  assumes "distinct (map fst t)"
  shows "distinct (readdir t d)"
proof -
  have "inj_on (drop (length d + 1)) (set (filter (entry_of d) (map fst t)))"
  proof (rule inj_onI)
    fix p q assume p: "p \<in> set (filter (entry_of d) (map fst t))" "q \<in> set (filter (entry_of d) (map fst t))"
      and dr: "drop (length d + 1) p = drop (length d + 1) q"
    from p have "take (length d + 1) p = take (length d + 1) q" by (simp add: entry_of_def)
    with dr show "p = q" by (metis append_take_drop_id)
  qed
  then show ?thesis using assms by (simp add: readdir_def distinct_map)
qed

lemma table_path:
  "e \<in> set (table n E t d) \<Longrightarrow> \<exists>r. pe_path e = d @ ''/'' @ r"
  by (induction n arbitrary: d)
    (auto simp: db_entries_def art_entries_def split: option.splits if_splits, fastforce+)

lemma slash_split:
  assumes "a @ CHR ''/'' # x = b @ CHR ''/'' # y" and "CHR ''/'' \<notin> set a" and "CHR ''/'' \<notin> set b"
  shows "a = b"
proof -
  have "takeWhile (\<lambda>c. c \<noteq> CHR ''/'') (a @ CHR ''/'' # x) = a" if "CHR ''/'' \<notin> set a" for a x
    using that by (subst takeWhile_append2) auto
  then show ?thesis using assms by metis
qed

lemma distinct_concat_map:
  assumes "distinct xs" and "\<And>x. x \<in> set xs \<Longrightarrow> distinct (map h (f x))"
    and "\<And>x y. x \<in> set xs \<Longrightarrow> y \<in> set xs \<Longrightarrow> x \<noteq> y \<Longrightarrow> h ` set (f x) \<inter> h ` set (f y) = {}"
  shows "distinct (map h (concat (map f xs)))"
  using assms
proof (induction xs)
  case (Cons x xs)
  have "h ` set (f x) \<inter> h ` set (f y) = {}" if "y \<in> set xs" for y
    using Cons.prems(1,3) that by (metis distinct.simps(2) list.set_intros)
  then have "h ` set (f x) \<inter> h ` (\<Union>y \<in> set xs. set (f y)) = {}" by blast
  with Cons show ?case by simp
qed simp

lemma art_entries_path:
  "e \<in> set (art_entries t d nrs name) \<Longrightarrow> pe_path e = d @ ''/'' @ name \<and> take 4 name = ''.art''"
  by (auto simp: art_entries_def split: option.splits if_splits)

lemma db_entries_path: "e \<in> set (db_entries t d) \<Longrightarrow> pe_path e = d @ ''/.db''"
  by (auto simp: db_entries_def split: option.splits)

lemma table_distinct:
  assumes t: "distinct (map fst t)"
  shows "distinct (map pe_path (table n E t d))"
proof (induction n arbitrary: d)
  case (Suc n)
  let ?f = "\<lambda>name. if sub_dir t d name then table n E t (d @ ''/'' @ name) else []"
  let ?g = "art_entries t d (range_of E t d)"
  have dn: "distinct (readdir t d)" by (rule readdir_distinct [OF t])
  have pf: "\<exists>r. pe_path e = d @ ''/'' @ name @ ''/'' @ r" if "e \<in> set (?f name)" for e name
    using table_path [of e n E t "d @ ''/'' @ name"] that by (auto split: if_splits)
  have subs: "distinct (map pe_path (concat (map ?f (readdir t d))))"
  proof (rule distinct_concat_map [OF dn])
    show "distinct (map pe_path (?f name))" for name using Suc.IH by simp
    show "pe_path ` set (?f x) \<inter> pe_path ` set (?f y) = {}"
      if "x \<in> set (readdir t d)" "y \<in> set (readdir t d)" "x \<noteq> y" for x y
    proof (rule ccontr)
      assume "pe_path ` set (?f x) \<inter> pe_path ` set (?f y) \<noteq> {}"
      then obtain e e' where "e \<in> set (?f x)" "e' \<in> set (?f y)" "pe_path e = pe_path e'" by force
      then obtain r r' where "d @ ''/'' @ x @ ''/'' @ r = d @ ''/'' @ y @ ''/'' @ r'" using pf by metis
      then have "x @ CHR ''/'' # r = y @ CHR ''/'' # r'" by simp
      then show False using slash_split readdir_name that by metis
    qed
  qed
  have "distinct (map pe_path (concat (map ?g (readdir t d))))"
  proof (rule distinct_concat_map [OF dn])
    show "distinct (map pe_path (?g name))" for name by (auto simp: art_entries_def split: option.splits)
    show "pe_path ` set (?g x) \<inter> pe_path ` set (?g y) = {}" if "x \<noteq> y" for x y
      using that by (auto dest!: art_entries_path)
  qed
  moreover have "pe_path e \<noteq> pe_path e'"
    if "e \<in> set (?f x)" "y \<in> set (readdir t d)" "e' \<in> set (?g y)" for e e' x y
  proof
    note h = that
    assume "pe_path e = pe_path e'"
    then obtain r where "d @ ''/'' @ y = d @ ''/'' @ x @ ''/'' @ r"
      using pf [OF h(1)] art_entries_path [OF h(3)] by metis
    then show False using readdir_name [OF that(2)] by simp
  qed
  moreover have "pe_path e \<noteq> pe_path e'" if "e \<in> set (db_entries t d)" "e' \<in> set (?g y)" for e e' y
    using db_entries_path [OF that(1)] art_entries_path [OF that(2)] by auto
  moreover have "pe_path e \<noteq> pe_path e'"
    if "e \<in> set (db_entries t d)" "x \<in> set (readdir t d)" "e' \<in> set (?f x)" for e e' x
  proof
    note h = that
    assume "pe_path e = pe_path e'"
    then obtain r where "d @ ''/.db'' = d @ ''/'' @ x @ ''/'' @ r"
      using pf [OF h(3)] db_entries_path [OF h(1)] by metis
    then have "''.db'' = x @ ''/'' @ r" by simp
    then have "CHR ''/'' \<in> set ''.db''" by (metis append_Cons in_set_conv_decomp)
    then show False by simp
  qed
  moreover have "distinct (map pe_path (db_entries t d))" by (auto simp: db_entries_def split: option.splits)
  ultimately show ?case using subs by (auto simp: image_iff)
qed simp

text \<open>With an entry the whole directory it is of is in the table.\<close>

lemma table_origin:
  assumes "e \<in> set (table n E t d)"
  shows "\<exists>k D. set (table (Suc k) E t D) \<subseteq> set (table n E t d)
    \<and> (e \<in> set (db_entries t D) \<or> (\<exists>name \<in> set (readdir t D). e \<in> set (art_entries t D (range_of E t D) name)))"
  using assms
proof (induction n arbitrary: d)
  case (Suc n)
  consider (sub) name where "opens t d" "name \<in> set (readdir t d)" "sub_dir t d name" "e \<in> set (table n E t (d @ ''/'' @ name))"
    | (own) "e \<in> set (db_entries t d) \<or> (\<exists>name \<in> set (readdir t d). e \<in> set (art_entries t d (range_of E t d) name))"
    using Suc.prems by (auto split: if_splits)
  then show ?case
  proof cases
    case sub
    then have "set (table n E t (d @ ''/'' @ name)) \<subseteq> set (table (Suc n) E t d)" by auto
    with Suc.IH [OF sub(4)] show ?thesis by blast
  qed blast
qed simp

lemma articles_of_database:
  assumes x: "x \<in> set (table n E t d)" "pe_path x = D @ ''/.db''" and o: "opens t D"
    and a: "name \<in> set (readdir t D)" "take 4 name = ''.art''" "stat_path t (D @ ''/'' @ name) = Some a" "fa_kind a = IsReg"
    and z: "db_time t D \<noteq> 0"
  shows "\<exists>e \<in> set (table n E t d). pe_path e = D @ ''/'' @ name
    \<and> pe_atime e = art_time a (db_time t D) (range_of E t D) name \<and> pe_atime x = db_time t D + 1"
proof -
  obtain k D' where k: "set (table (Suc k) E t D') \<subseteq> set (table n E t d)"
    "x \<in> set (db_entries t D') \<or> (\<exists>name \<in> set (readdir t D'). x \<in> set (art_entries t D' (range_of E t D') name))"
    using table_origin [OF x(1)] by blast
  have db: "x \<in> set (db_entries t D')"
  proof (rule ccontr)
    assume "x \<notin> set (db_entries t D')"
    then obtain nm where nm: "nm \<in> set (readdir t D')" "x \<in> set (art_entries t D' (range_of E t D') nm)" using k(2) by blast
    then have "D' @ ''/'' @ nm = D @ ''/.db''" "take 4 nm = ''.art''" using art_entries_path x(2) by metis+
    then have "rev nm @ CHR ''/'' # rev D' = rev ''.db'' @ CHR ''/'' # rev D"
      by (metis append_Cons append_Nil append_assoc rev.simps(2) rev_append)
    then have "rev nm = rev ''.db''"
      by (rule slash_split) (use readdir_name [OF nm(1)] in auto)
    then show False using \<open>take 4 nm = ''.art''\<close> by auto
  qed
  then have D: "D' = D" using db_entries_path x(2) by fastforce
  let ?e = "\<lparr>pe_path = D @ ''/'' @ name, pe_atime = art_time a (db_time t D) (range_of E t D) name, pe_blocks = fa_blocks a\<rparr>"
  have "?e \<in> set (art_entries t D (range_of E t D) name)" using a z by (simp add: art_entries_def)
  then have "?e \<in> set (table (Suc k) E t D)" using o a(1) by auto
  moreover have "pe_atime x = db_time t D + 1"
    using db by (auto simp: D db_entries_def db_time_def split: option.splits)
  ultimately show ?thesis using k(1) D by force
qed

section \<open>The walk ends\<close>

definition returns :: "('s, 'a) act \<Rightarrow> bool" where
  "returns f \<longleftrightarrow> (\<forall>s. fst (f s) \<noteq> Diverge)"

lemma returns_basic:
  "returns (ret a)" "returns (throw e)" "returns crash" "returns (gets g)" "returns (upd h)" "returns (check b e)"
  by (simp_all add: returns_def ret_def throw_def crash_def gets_def upd_def check_def)

lemma returns_bnd: "returns f \<Longrightarrow> (\<And>a. returns (g a)) \<Longrightarrow> returns (bnd f g)"
  by (auto simp: returns_def bnd_def split: prod.splits outcome.splits) (metis fst_conv)+

lemma returns_if: "returns f \<Longrightarrow> returns g \<Longrightarrow> returns (if b then f else g)"
  by simp

lemma returns_reads: "returns (rd a)" "returns (rd4 a)" "returns (nvflock c b)"
  by (auto simp: returns_def rd_def rd4_def nvflock_def Let_def split: option.splits)

lemmas returns_intros = returns_basic returns_bnd returns_if returns_reads

lemma returns_make_current: "returns make_current"
proof -
  have c: "returns is_current" "returns getdata" "returns close_nv" "returns rename_to_bad_and_close"
    unfolding is_current_def getdata_def close_nv_def rename_to_bad_and_close_def by (intro returns_intros)+
  have r: "returns remap_nv" unfolding remap_nv_def by (intro returns_intros c)
  have n: "returns make_current_nv" unfolding make_current_nv_def by (intro returns_intros c r)
  have "returns make_current_array" unfolding make_current_array_def by (intro returns_intros c n)
  moreover have "returns make_current_hash" unfolding make_current_hash_def by (intro returns_intros c n)
  ultimately show ?thesis
    unfolding make_current_def using n by (auto intro!: returns_intros split: vclass.splits)
qed

lemma returns_open: "returns (open_nv f)"
proof -
  have "returns close_nv" "returns init_file"
    unfolding close_nv_def init_file_def by (intro returns_intros)+
  then show ?thesis unfolding open_nv_def by (intro returns_intros returns_make_current)
qed

lemma group_range_returns: "group_range E t d \<noteq> Diverge"
  using returns_open unfolding group_range_def returns_def
  by (auto split: outcome.splits nserror.splits prod.splits) (metis fst_conv)+

lemma returns_each: "(\<And>x. returns (f x)) \<Longrightarrow> returns (each f xs)"
  by (induction xs) (simp_all add: returns_intros)

lemma returns_note: "returns (note_entry p tm bl)" "returns (path_in d name)"
  by (simp_all add: note_entry_def path_in_def Let_def returns_basic)

lemma clean_returns:
  assumes "MAXPATHLEN \<le> n + length d" and "length d < MAXPATHLEN"
  shows "returns (clean n E t d)"
  using assms
proof (induction n arbitrary: d)
  case (Suc n)
  have sub: "returns (visit t (clean n E t) d name)" for name
  proof -
    have "returns (\<lambda>c. clean n E t (d @ ''/'' @ name) c)" if "length (d @ ''/'' @ name) < MAXPATHLEN"
      using Suc.IH [of "d @ ''/'' @ name"] Suc.prems(1) that by simp
    then have "returns (bnd (path_in d name) (\<lambda>p. if length p < MAXPATHLEN then clean n E t p else ret ()))"
      by (auto simp: returns_def bnd_def path_in_def Let_def crash_def ret_def)
    then show ?thesis
      unfolding visit_def returns_def
      by (auto simp: bnd_def path_in_def Let_def crash_def ret_def split: option.splits)
  qed
  have "returns (note_article t d b r name)" for b r name
    unfolding note_article_def Let_def
    by (intro returns_intros returns_note) (auto simp: returns_intros returns_note split: option.splits)
  moreover have "returns (note_db t p)" for p
    unfolding note_db_def Let_def by (auto intro!: returns_intros returns_note split: option.splits)
  moreover have "returns (of_outcome (group_range E t d))"
    using group_range_returns by (simp add: returns_def of_outcome_def)
  ultimately show ?case
    unfolding clean.simps by (intro returns_intros returns_each returns_note sub)
qed simp

section \<open>The whole program\<close>

text \<open>What \<open>std::sort\<close> promises.\<close>

locale sorter =
  fixes srt :: "pentry list \<Rightarrow> pentry list"
  assumes same_entries: "mset (srt es) = mset es"
    and no_inversion: "sorted_wrt (\<lambda>l r. \<not> sort_entries r l) (srt es)"
begin

lemma in_order: "sorted (map pe_atime (srt es))"
  using no_inversion by (simp add: sorted_map sort_entries_def not_less)

lemma same_set: "set (srt es) = set es"
  using same_entries by (metis set_mset_mset)

lemma same_paths: "distinct (map pe_path (srt es)) = distinct (map pe_path es)"
  using same_entries by (metis mset_eq_imp_distinct_iff mset_map)

lemma same_blocks: "blocks_of (srt es) = blocks_of es"
  using same_entries by (metis mset_map sum_mset_sum_list)

lemma run_table:
  assumes "newscacheclean srt E cfg f t = Ok (es, s)"
  shows "es = srt (table MAXPATHLEN E t ''.'')"
    and "s = (let s0 = \<lparr>pg_tree = t, pg_blocks = blocks_of es, pg_stat = statistic_new\<rparr>
      in if f then s0 else remove_elements E (SpoolSize cfg * 2) es s0)"
proof -
  obtain c where c: "clean MAXPATHLEN E t ''.'' \<lparr>pvector = [], cl_blocks = 0\<rparr> = (Ok (), c)"
    using assms by (auto simp: newscacheclean_def split: prod.splits outcome.splits)
  have "pvector c = table MAXPATHLEN E t ''.''" "cl_blocks c = blocks_of (table MAXPATHLEN E t ''.'')"
    using clean_table [OF c] by (simp_all add: noted_def)
  with c assms show "es = srt (table MAXPATHLEN E t ''.'')"
    "s = (let s0 = \<lparr>pg_tree = t, pg_blocks = blocks_of es, pg_stat = statistic_new\<rparr>
      in if f then s0 else remove_elements E (SpoolSize cfg * 2) es s0)"
    by (auto simp: newscacheclean_def Let_def same_blocks)
qed

lemma purges_least_recent:
  assumes run: "newscacheclean srt E cfg False t = Ok (es, s)" and t: "distinct (map fst t)"
    and e: "\<forall>e \<in> set es. removable E t e \<and> 0 \<le> pe_atime e"
  defines "m \<equiv> SpoolSize cfg * 2"
  shows "\<exists>k \<le> length es. files (pg_tree s) = files t |` (- pe_path ` set (take k es))
    \<and> pg_blocks s = blocks_of (drop k es)
    \<and> (k < length es \<longrightarrow> pe_atime (es ! k) \<noteq> 0 \<and> pg_blocks s \<le> m)
    \<and> (\<forall>i < k. pe_atime (es ! i) = 0 \<or> m < blocks_of (drop i es))"
proof (intro exI conjI)
  let ?k = "purge_count m (blocks_of es) es" and ?s0 = "\<lparr>pg_tree = t, pg_blocks = blocks_of es, pg_stat = statistic_new\<rparr>"
  note es = run_table(1) [OF run]
  have s: "s = remove_elements E m es ?s0" using run_table(2) [OF run] by (simp add: m_def)
  have so: "sorted (map pe_atime es)" "distinct (map pe_path es)"
    using in_order same_paths table_distinct [OF t] by (simp_all add: es)
  have rest: "blocks_of es - blocks_of (take i es) = blocks_of (drop i es)" for i
    by (metis add_diff_cancel_left' append_take_drop_id map_append sum_list_append)
  note done' = removes_least_recent [OF so, of E ?s0 m]
  then show "files (pg_tree s) = files t |` (- pe_path ` set (take ?k es))" using e by (simp add: s)
  show b: "pg_blocks s = blocks_of (drop ?k es)" using done' e by (simp add: s rest)
  show "?k \<le> length es" by (rule purge_count_le)
  show "?k < length es \<longrightarrow> pe_atime (es ! ?k) \<noteq> 0 \<and> pg_blocks s \<le> m"
    using purge_count_stops [of m "blocks_of es" es] b by (auto simp: tried_def rest)
  show "\<forall>i < ?k. pe_atime (es ! i) = 0 \<or> m < blocks_of (drop i es)"
    using purge_count_tried [of _ m "blocks_of es" es] by (auto simp: tried_def rest)
qed

lemma articles_go_first:
  assumes run: "newscacheclean srt E cfg False t = Ok (es, s)" and t: "distinct (map fst t)"
    and good: "\<And>p a. (p, Some a) \<in> set t \<Longrightarrow> 0 \<le> fa_blocks a \<and> 1 < fa_mtime a"
    and d: "opens t d" "files t (d @ ''/.db'') \<noteq> None" "files (pg_tree s) (d @ ''/.db'') = None"
    and a: "name \<in> set (readdir t d)" "take 4 name = ''.art''" "stat_path t (d @ ''/'' @ name) = Some a" "fa_kind a = IsReg"
      "\<not> ce_protected E (d @ ''/'' @ name)"
  shows "files (pg_tree s) (d @ ''/'' @ name) = None"
proof -
  let ?T = "table MAXPATHLEN E t ''.''" and ?s0 = "\<lparr>pg_tree = t, pg_blocks = blocks_of es, pg_stat = statistic_new\<rparr>"
  note es = run_table(1) [OF run]
  have s: "s = remove_elements E (SpoolSize cfg * 2) es ?s0" using run_table(2) [OF run] by simp
  have so: "sorted (map pe_atime es)" "distinct (map pe_path es)" "set es = set ?T"
    using in_order same_paths same_set table_distinct [OF t] by (simp_all add: es)
  have st: "0 \<le> fa_blocks a \<and> 1 < fa_mtime a" if "stat_path t p = Some a" for p a
    using that good by (auto simp: stat_path_def split: option.splits dest!: map_of_SomeD)
  have "0 \<le> pe_blocks e" if "e \<in> set es" for e
  proof -
    from that so(3) obtain D where "e \<in> set (db_entries t D)
        \<or> (\<exists>name \<in> set (readdir t D). e \<in> set (art_entries t D (range_of E t D) name))"
      using table_origin by metis
    then show ?thesis using st by (auto simp: db_entries_def art_entries_def split: option.splits if_splits)
  qed
  then have bl: "\<forall>e \<in> set es. 0 \<le> pe_blocks e" by blast
  have "d @ ''/.db'' \<in> pe_path ` set es"
  proof (rule ccontr)
    assume "\<not> ?thesis"
    from untouched [OF this, of E "SpoolSize cfg * 2" ?s0] show False using d(2,3) by (simp add: s)
  qed
  then obtain x where x: "x \<in> set ?T" "pe_path x = d @ ''/.db''" using so(3) by auto
  have "1 \<le> db_time t d"
  proof -
    obtain k D where "x \<in> set (db_entries t D) \<or> (\<exists>name \<in> set (readdir t D). x \<in> set (art_entries t D (range_of E t D) name))"
      using table_origin [OF x(1)] by metis
    then have "stat_path t (pe_path x) \<noteq> None"
      by (cases "stat_path t (pe_path x)") (auto simp: db_entries_def art_entries_def split: option.splits if_splits)
    then show ?thesis using st unfolding x(2) by (fastforce simp: db_time_def)
  qed
  then have z: "db_time t d \<noteq> 0" "1 \<le> db_time t d" by simp_all
  obtain e where e: "e \<in> set ?T" "pe_path e = d @ ''/'' @ name"
    "pe_atime e = art_time a (db_time t d) (range_of E t d) name" "pe_atime x = db_time t d + 1"
    using articles_of_database [OF x d(1) a(1-4) z(1)] by blast
  have "pe_atime e < pe_atime x"
    using z(2) by (auto simp: e(3,4) art_time_def Let_def split: option.splits)
  then show ?thesis
    using older_goes_first [OF so(1,2) bl, of x ?s0 E "SpoolSize cfg * 2" e] so(3) x e(1,2,4) d(2,3) a(5) z(2)
    by (simp add: s)
qed

end

interpretation stable: sorter "sort_key pe_atime"
proof
  show "sorted_wrt (\<lambda>l r. \<not> sort_entries r l) (sort_key pe_atime es)" for es
    using sorted_sort_key [of pe_atime es] by (simp add: sorted_map sort_entries_def not_less)
qed simp

end
