(* ===== verification/Update_News.thy ===== *)
theory Update_News
  imports Cache_Groups Config_Read
begin

text \<open>
  src/updatenews.cc: the program that posts what is spooled, brings the list of the newsgroups up to
  date and fetches what is new in the groups of a file. Signals and log output are left out; the
  option for several workers is not among those that the program understands, so that it always
  works alone.
\<close>

section \<open>The command line\<close>

definition F_PREFETCH_ACTIVE :: "32 word" where "F_PREFETCH_ACTIVE = 0x01"
definition F_PREFETCH_GROUP :: "32 word" where "F_PREFETCH_GROUP = 0x02"
definition F_PREFETCH_OVER :: "32 word" where "F_PREFETCH_OVER = 0x04"
definition F_PREFETCH_LOCKGROUP :: "32 word" where "F_PREFETCH_LOCKGROUP = 0x08"

text \<open>What is done: the program ends with a status, or runs with flags and a configuration file.\<close>

datatype startup = ExitWith nat | RunWith "32 word" string

text \<open>
  The options as \<open>getopt_long\<close> delivers them, an unknown one as a question mark. The loop carries the
  flags, whether some were set, the configuration file and whether there was an error. The name of
  the file is copied into \<open>MAXPATHLEN\<close> characters.
\<close>

fun read_options :: "(char \<times> string) list \<Rightarrow> 32 word \<Rightarrow> bool \<Rightarrow> string \<Rightarrow> bool \<Rightarrow> (32 word \<times> bool \<times> string \<times> bool) option outcome" where
  "read_options [] fl set' cf err = Ok (Some (fl, set', cf, err))"
| "read_options ((c, a) # opts) fl set' cf err =
     (if c = CHR ''v'' \<or> c = CHR ''h'' then Ok None
      else if c = CHR ''a'' then read_options opts (fl OR F_PREFETCH_ACTIVE) True cf err
      else if c = CHR ''g'' then read_options opts (fl OR F_PREFETCH_GROUP) True cf err
      else if c = CHR ''o'' then read_options opts (fl OR F_PREFETCH_OVER) True cf err
      else if c = CHR ''l'' then read_options opts (fl OR F_PREFETCH_LOCKGROUP) True cf err
      else if c = CHR ''c'' then
        (if MAXPATHLEN \<le> length (c_str a) then Crash else read_options opts fl set' (c_str a) err)
      else read_options opts fl set' cf True)"

definition start_up :: "(char \<times> string) list \<Rightarrow> bool \<Rightarrow> string \<Rightarrow> startup outcome" where
  "start_up opts more_args default_conf =
     (case read_options opts 0 False default_conf False of
        Ok None \<Rightarrow> Ok (ExitWith 0)
      | Ok (Some (fl, set', cf, err)) \<Rightarrow>
          if err \<or> more_args then Ok (ExitWith 1)
          else Ok (RunWith (if set' then fl else F_PREFETCH_GROUP) cf)
      | Throw e \<Rightarrow> Throw e | Crash \<Rightarrow> Crash | Diverge \<Rightarrow> Diverge)"

text \<open>The servers of the configuration are all taken to be online, and nothing is fresh.\<close>

definition go_online :: "mpentry \<Rightarrow> mpentry" where
  "go_online e = e\<lparr>flags := flags e AND NOT (F_OFFLINE OR F_SEMIOFFLINE), groupTimeout := 0\<rparr>"

section \<open>The file of the groups\<close>

function readgroups_loop :: "istream \<Rightarrow> string \<Rightarrow> string list \<Rightarrow> string list" where
  "readgroups_loop is grp groups =
     (if is_fail is \<and> \<not> is_eof is then groups
      else
        let (grp', is') = nlreadline is grp False
        in if is_eof is' then groups
           else if deref grp' = CHR ''!'' then readgroups_loop is' grp' groups
           else readgroups_loop is' grp' (groups @ [grp']))"
  by pat_completeness auto
termination
proof (relation "measure (\<lambda>(is, g, gs). length (inp is))", goal_cases)
  case (2 "is" grp groups x grp' is')
  then show ?case using nlreadline_shorter [of "is" grp False grp' is'] by simp
next
  case (3 "is" grp groups x grp' is')
  then show ?case using nlreadline_shorter [of "is" grp False grp' is'] by simp
qed simp

declare readgroups_loop.simps [simp del]

text \<open>A file that cannot be opened has no groups.\<close>

definition readgroups :: "string option \<Rightarrow> string list" where
  "readgroups f = (case f of
      None \<Rightarrow> []
    | Some t \<Rightarrow> readgroups_loop \<lparr>inp = t, is_eof = False, is_fail = False\<rparr> [] [])"

section \<open>Fetching a group\<close>

text \<open>Only a newsgroup that is cached has anything to fetch.\<close>

definition prefetchGroup :: "nat \<Rightarrow> 'n net_env \<Rightarrow> nat \<Rightarrow> bool \<Rightarrow> ('n world, unit) act" where
  "prefetchGroup n N h lockgrp = call_obj h (ret ()) (\<lambda>_. cg_prefetchGroup n N lockgrp) (ret ())"

definition prefetchOverview :: "nat \<Rightarrow> 'n net_env \<Rightarrow> nat \<Rightarrow> ('n world, unit) act" where
  "prefetchOverview n N h = call_obj h (ret ()) (\<lambda>_. cg_prefetchOverview n N) (ret ())"

definition doprefetch :: "nat \<Rightarrow> 'n net_env \<Rightarrow> 32 word \<Rightarrow> string \<Rightarrow> ('n world, unit) act" where
  "doprefetch n N fl grp =
     try_catch
       (bnd (w_getgroup n N (c_str grp)) (\<lambda>h.
        bnd (if has_bit fl F_PREFETCH_GROUP then prefetchGroup n N h (has_bit fl F_PREFETCH_LOCKGROUP)
             else if has_bit fl F_PREFETCH_OVER then prefetchOverview n N h
             else ret ()) (\<lambda>_.
        w_freegroup h)))
       (\<lambda>_. ret ())"

section \<open>The update\<close>

fun prefetch_groups :: "nat \<Rightarrow> 'n net_env \<Rightarrow> 32 word \<Rightarrow> string list \<Rightarrow> ('n world, unit) act" where
  "prefetch_groups n N fl [] = ret ()"
| "prefetch_groups n N fl (g # gs) = bnd (doprefetch n N fl g) (\<lambda>_. prefetch_groups n N fl gs)"

text \<open>\<open>opn\<close> is what is read from a file of a name. The server object is new.\<close>

definition setttl :: "config \<Rightarrow> ('n nserver, unit) act" where
  "setttl cfg = upd (\<lambda>s. s\<lparr>sv_ttl_active := u64_of_int (ttl_list cfg)\<rparr>)"

definition update :: "nat \<Rightarrow> 'n net_env \<Rightarrow> (string \<Rightarrow> string option) \<Rightarrow> config \<Rightarrow> 32 word \<Rightarrow> ('n world, unit) act" where
  "update n N opn cfg fl =
     bnd (in_srv (setttl cfg)) (\<lambda>_.
     bnd (in_srv (postspooled n N)) (\<lambda>_.
     bnd (if has_bit fl F_PREFETCH_ACTIVE then in_srv invalidateActiveDB else ret ()) (\<lambda>_.
     bnd (in_srv (cache_active n N)) (\<lambda>_.
     if \<not> has_bit fl (F_PREFETCH_GROUP OR F_PREFETCH_OVER) then ret ()
     else prefetch_groups n N fl (readgroups (opn (PrefetchFile cfg)))))))"

text \<open>
  The program from the options on, with the configuration as it was read; \<open>srv\<close> makes the world of
  the new server.
\<close>

definition updatenews ::
  "nat \<Rightarrow> 'n net_env \<Rightarrow> (string \<Rightarrow> string option) \<Rightarrow> (string \<Rightarrow> config) \<Rightarrow> (mpentry list \<Rightarrow> 'n world)
    \<Rightarrow> (char \<times> string) list \<Rightarrow> bool \<Rightarrow> string \<Rightarrow> (startup \<times> 'n world option) outcome" where
  "updatenews n N opn conf srv opts more_args default_conf =
     (case start_up opts more_args default_conf of
        Ok (ExitWith k) \<Rightarrow> Ok (ExitWith k, None)
      | Ok (RunWith fl cf) \<Rightarrow>
          (case update n N opn (conf cf) fl (srv (map go_online (srvrs (conf cf)))) of
             (Ok _, w) \<Rightarrow> Ok (RunWith fl cf, Some w)
           | (Throw e, w) \<Rightarrow> Throw e | (Crash, w) \<Rightarrow> Crash | (Diverge, w) \<Rightarrow> Diverge)
      | Throw e \<Rightarrow> Throw e | Crash \<Rightarrow> Crash | Diverge \<Rightarrow> Diverge)"

section \<open>What is fetched\<close>

text \<open>
  Only full lines count, and those that start with an exclamation mark are left out. What is behind
  the last line feed is lost.
\<close>

lemma readgroups_lines:
  assumes "\<forall>l \<in> set ls. LF \<notin> set l \<and> (l = [] \<or> last l \<noteq> CR)" and "LF \<notin> set rest" and "good is"
    and "inp is = concat (map (\<lambda>l. l @ [LF]) ls) @ rest"
  shows "readgroups_loop is grp groups = groups @ filter (\<lambda>l. deref l \<noteq> CHR ''!'') ls"
  using assms
proof (induction ls arbitrary: "is" grp groups)
  case Nil
  have "dropWhile (\<lambda>c. c \<noteq> LF) (inp is) = []" using Nil(2,4) by (auto simp: dropWhile_eq_Nil_conv)
  then have "is_eof (snd (nlreadline is grp False))"
    using Nil(3) unfolding nlreadline_def getline_def Let_def by (simp only: list.case) simp
  then show ?case using Nil(3) by (subst readgroups_loop.simps) (auto simp: good_def split: prod.splits)
next
  case (Cons l ls)
  let ?r = "concat (map (\<lambda>l. l @ [LF]) ls) @ rest"
  have l: "\<forall>c \<in> set l. c \<noteq> LF" "l = [] \<or> last l \<noteq> CR" using Cons.prems(1) by auto
  have "strip_eol l = l"
    using l by (cases l rule: rev_cases) (simp_all add: strip_eol_def is_eol_def)
  then have "nlreadline is grp False = (l, is\<lparr>inp := ?r\<rparr>)"
    using takeWhile_stop [OF l(1), of LF ?r] Cons.prems(3,4)
    by (auto simp: nlreadline_def getline_def)
  moreover have "good (is\<lparr>inp := ?r\<rparr>)" using Cons.prems(3) by (simp add: good_def)
  ultimately show ?case
    using Cons.IH [of "is\<lparr>inp := ?r\<rparr>"] Cons.prems
    by (subst readgroups_loop.simps) (auto simp: good_def)
qed

lemma doprefetch_no_throw:
  "fst (doprefetch n N fl grp w) \<noteq> Throw e"
  by (auto simp: doprefetch_def try_catch_def ret_def split: prod.splits outcome.splits)

end
