(* ===== verification/Md5_Crypt.thy ===== *)
theory Md5_Crypt
  imports NC_Prelude "HOL-Library.Word"
begin

text \<open>
  md5lib/md5.cc and md5lib/md5crypt.cc: the message digest MD5, and the password hash that is its
  base 64 encoding, and crypt.cc. The code takes \<open>unsigned long\<close> for a type of 32 bits: the size of that
  type in bytes is a parameter. Where it is not four, the sixteen words that
  \<open>MD5Transform\<close> reads are more than the buffer of 64 bytes holds. The machine is little endian, so
  \<open>byteReverse\<close> does nothing.
\<close>

unbundle bit_operations_syntax

section \<open>The transformation\<close>

type_synonym md5state = "32 word \<times> 32 word \<times> 32 word \<times> 32 word"

definition F1 :: "32 word \<Rightarrow> 32 word \<Rightarrow> 32 word \<Rightarrow> 32 word" where
  "F1 x y z = z XOR (x AND (y XOR z))"

definition F2 :: "32 word \<Rightarrow> 32 word \<Rightarrow> 32 word \<Rightarrow> 32 word" where
  "F2 x y z = F1 z x y"

definition F3 :: "32 word \<Rightarrow> 32 word \<Rightarrow> 32 word \<Rightarrow> 32 word" where
  "F3 x y z = x XOR y XOR z"

definition F4 :: "32 word \<Rightarrow> 32 word \<Rightarrow> 32 word \<Rightarrow> 32 word" where
  "F4 x y z = y XOR (x OR NOT z)"

definition MD5STEP :: "(32 word \<Rightarrow> 32 word \<Rightarrow> 32 word \<Rightarrow> 32 word) \<Rightarrow>
    32 word \<Rightarrow> 32 word \<Rightarrow> 32 word \<Rightarrow> 32 word \<Rightarrow> 32 word \<Rightarrow> nat \<Rightarrow> 32 word" where
  "MD5STEP f w x y z data s =
     (let w1 = w + (f x y z + data); w2 = push_bit s w1 OR drop_bit (32 - s) w1 in w2 + x)"

text \<open>
  The steps of a round: the index of the word, the constant and the shift. After every step the
  four registers change places.
\<close>

fun md5_round :: "(32 word \<Rightarrow> 32 word \<Rightarrow> 32 word \<Rightarrow> 32 word) \<Rightarrow> (nat \<times> 32 word \<times> nat) list \<Rightarrow>
    32 word list \<Rightarrow> md5state \<Rightarrow> md5state" where
  "md5_round f [] ws st = st"
| "md5_round f ((i, k, s) # steps) ws (a, b, c, d) =
     md5_round f steps ws (d, MD5STEP f a b c d (ws ! i + k) s, b, c)"

definition round1 :: "(nat \<times> 32 word \<times> nat) list" where
  "round1 = [(0, 0xd76aa478, 7), (1, 0xe8c7b756, 12), (2, 0x242070db, 17), (3, 0xc1bdceee, 22),
     (4, 0xf57c0faf, 7), (5, 0x4787c62a, 12), (6, 0xa8304613, 17), (7, 0xfd469501, 22),
     (8, 0x698098d8, 7), (9, 0x8b44f7af, 12), (10, 0xffff5bb1, 17), (11, 0x895cd7be, 22),
     (12, 0x6b901122, 7), (13, 0xfd987193, 12), (14, 0xa679438e, 17), (15, 0x49b40821, 22)]"

definition round2 :: "(nat \<times> 32 word \<times> nat) list" where
  "round2 = [(1, 0xf61e2562, 5), (6, 0xc040b340, 9), (11, 0x265e5a51, 14), (0, 0xe9b6c7aa, 20),
     (5, 0xd62f105d, 5), (10, 0x02441453, 9), (15, 0xd8a1e681, 14), (4, 0xe7d3fbc8, 20),
     (9, 0x21e1cde6, 5), (14, 0xc33707d6, 9), (3, 0xf4d50d87, 14), (8, 0x455a14ed, 20),
     (13, 0xa9e3e905, 5), (2, 0xfcefa3f8, 9), (7, 0x676f02d9, 14), (12, 0x8d2a4c8a, 20)]"

definition round3 :: "(nat \<times> 32 word \<times> nat) list" where
  "round3 = [(5, 0xfffa3942, 4), (8, 0x8771f681, 11), (11, 0x6d9d6122, 16), (14, 0xfde5380c, 23),
     (1, 0xa4beea44, 4), (4, 0x4bdecfa9, 11), (7, 0xf6bb4b60, 16), (10, 0xbebfbc70, 23),
     (13, 0x289b7ec6, 4), (0, 0xeaa127fa, 11), (3, 0xd4ef3085, 16), (6, 0x04881d05, 23),
     (9, 0xd9d4d039, 4), (12, 0xe6db99e5, 11), (15, 0x1fa27cf8, 16), (2, 0xc4ac5665, 23)]"

definition round4 :: "(nat \<times> 32 word \<times> nat) list" where
  "round4 = [(0, 0xf4292244, 6), (7, 0x432aff97, 10), (14, 0xab9423a7, 15), (5, 0xfc93a039, 21),
     (12, 0x655b59c3, 6), (3, 0x8f0ccc92, 10), (10, 0xffeff47d, 15), (1, 0x85845dd1, 21),
     (8, 0x6fa87e4f, 6), (15, 0xfe2ce6e0, 10), (6, 0xa3014314, 15), (13, 0x4e0811a1, 21),
     (4, 0xf7537e82, 6), (11, 0xbd3af235, 10), (2, 0x2ad7d2bb, 15), (9, 0xeb86d391, 21)]"

definition md5_transform :: "32 word list \<Rightarrow> md5state \<Rightarrow> md5state" where
  "md5_transform ws st =
     (case st of (a0, b0, c0, d0) \<Rightarrow>
      case md5_round F4 round4 ws (md5_round F3 round3 ws (md5_round F2 round2 ws (md5_round F1 round1 ws st))) of
        (a, b, c, d) \<Rightarrow> (a0 + a, b0 + b, c0 + c, d0 + d))"

text \<open>Bytes read as words, and words written as bytes.\<close>

fun words_of :: "8 word list \<Rightarrow> 32 word list" where
  "words_of (a # b # c # d # r) =
     (ucast a OR push_bit 8 (ucast b) OR push_bit 16 (ucast c) OR push_bit 24 (ucast d)) # words_of r"
| "words_of _ = []"

definition word_bytes :: "32 word \<Rightarrow> 8 word list" where
  "word_bytes w = [ucast w, ucast (drop_bit 8 w), ucast (drop_bit 16 w), ucast (drop_bit 24 w)]"

section \<open>The context\<close>

record md5ctx =
  md_buf :: md5state
  md_bits :: "32 word \<times> 32 word"
  md_in :: "8 word list"

definition md5_start :: md5state where
  "md5_start = (0x67452301, 0xefcdab89, 0x98badcfe, 0x10325476)"

text \<open>The buffer keeps what was there.\<close>

definition MD5Init :: "md5ctx \<Rightarrow> md5ctx" where
  "MD5Init c = c\<lparr>md_buf := md5_start, md_bits := (0, 0)\<rparr>"

definition copy_in :: "nat \<Rightarrow> 8 word list \<Rightarrow> (md5ctx, unit) act" where
  "copy_in p bs = upd (\<lambda>c. c\<lparr>md_in := take p (md_in c) @ bs @ drop (p + length bs) (md_in c)\<rparr>)"

definition MD5Transform :: "nat \<Rightarrow> (md5ctx, unit) act" where
  "MD5Transform sz c =
     (if 16 * sz \<le> 64 then (Ok (), c\<lparr>md_buf := md5_transform (words_of (md_in c)) (md_buf c)\<rparr>) else (Crash, c))"

function md5_chunks :: "nat \<Rightarrow> 8 word list \<Rightarrow> (md5ctx, unit) act" where
  "md5_chunks sz bs =
     (if 64 \<le> length bs
      then bnd (copy_in 0 (take 64 bs)) (\<lambda>_. bnd (MD5Transform sz) (\<lambda>_. md5_chunks sz (drop 64 bs)))
      else copy_in 0 bs)"
  by pat_completeness auto
termination by (relation "measure (\<lambda>(sz, bs). length bs)") auto

declare md5_chunks.simps [simp del]

definition count_bits :: "nat \<Rightarrow> 32 word \<times> 32 word \<Rightarrow> 32 word \<times> 32 word" where
  "count_bits len bits =
     (case bits of (t, h) \<Rightarrow>
      let t' = t + push_bit 3 (word_of_nat len) in
      (t', (if t' < t then h + 1 else h) + drop_bit 29 (word_of_nat len)))"

definition bytes_in :: "32 word \<times> 32 word \<Rightarrow> nat" where
  "bytes_in bits = unat (drop_bit 3 (fst bits) AND 0x3f)"

definition MD5Update :: "nat \<Rightarrow> 8 word list \<Rightarrow> (md5ctx, unit) act" where
  "MD5Update sz bs =
     bnd (gets (\<lambda>c. bytes_in (md_bits c))) (\<lambda>t.
     bnd (upd (\<lambda>c. c\<lparr>md_bits := count_bits (length bs) (md_bits c)\<rparr>)) (\<lambda>_.
     if t \<noteq> 0 then
       (if length bs < 64 - t then copy_in t bs
        else bnd (copy_in t (take (64 - t) bs)) (\<lambda>_. bnd (MD5Transform sz) (\<lambda>_. md5_chunks sz (drop (64 - t) bs))))
     else md5_chunks sz bs))"

text \<open>The context is cleared at the end, and not used again.\<close>

definition MD5Final :: "nat \<Rightarrow> (md5ctx, 8 word list) act" where
  "MD5Final sz =
     bnd (gets (\<lambda>c. bytes_in (md_bits c))) (\<lambda>n.
     bnd (copy_in n [0x80]) (\<lambda>_.
     bnd (if 63 - n < 8
          then bnd (copy_in (n + 1) (replicate (63 - n) 0)) (\<lambda>_.
               bnd (MD5Transform sz) (\<lambda>_. copy_in 0 (replicate 56 0)))
          else copy_in (n + 1) (replicate (63 - n - 8) 0)) (\<lambda>_.
     bnd (if 16 * sz \<le> 64 then gets md_bits else crash) (\<lambda>(lo, hi).
     bnd (copy_in 56 (word_bytes lo @ word_bytes hi)) (\<lambda>_.
     bnd (MD5Transform sz) (\<lambda>_.
     gets (\<lambda>c. case md_buf c of (a, b, e, d) \<Rightarrow> word_bytes a @ word_bytes b @ word_bytes e @ word_bytes d)))))))"

section \<open>Base 64\<close>

definition Base64 :: string where
  "Base64 = ''ABCDEFGHIJKLMNOPQRSTUVWXYZabcdefghijklmnopqrstuvwxyz0123456789+/''"

text \<open>
  The bytes are numbers below 256. The target that is filled so far is carried along; nothing stands
  for the result -1, and a digit that is not below 64 for \<open>abort\<close>.
\<close>

definition digits64 :: "nat list \<Rightarrow> string outcome" where
  "digits64 ds = (if list_all (\<lambda>d. d < 64) ds then Ok (map ((!) Base64) ds) else Crash)"

fun b64_loop :: "nat list \<Rightarrow> nat \<Rightarrow> string \<Rightarrow> string option outcome" where
  "b64_loop (a # b # c # r) targsize target =
     (case digits64 [a div 4, a mod 4 * 16 + b div 16, b mod 16 * 4 + c div 64, c mod 64] of
        Ok ds \<Rightarrow> if targsize < length target + 4 then Ok None else b64_loop r targsize (target @ ds)
      | Throw e \<Rightarrow> Throw e | Crash \<Rightarrow> Crash | Diverge \<Rightarrow> Diverge)"
| "b64_loop [a, b] targsize target =
     (case digits64 [a div 4, a mod 4 * 16 + b div 16, b mod 16 * 4] of
        Ok ds \<Rightarrow> if targsize < length target + 4 then Ok None else b64_loop [] targsize (target @ ds @ ''='')
      | Throw e \<Rightarrow> Throw e | Crash \<Rightarrow> Crash | Diverge \<Rightarrow> Diverge)"
| "b64_loop [a] targsize target =
     (case digits64 [a div 4, a mod 4 * 16, 0] of
        Ok ds \<Rightarrow> if targsize < length target + 4 then Ok None else b64_loop [] targsize (target @ take 2 ds @ ''=='')
      | Throw e \<Rightarrow> Throw e | Crash \<Rightarrow> Crash | Diverge \<Rightarrow> Diverge)"
| "b64_loop [] targsize target = (if targsize \<le> length target then Ok None else Ok (Some target))"

definition b64_ntop :: "nat list \<Rightarrow> nat \<Rightarrow> string option outcome" where
  "b64_ntop src targsize = b64_loop src targsize []"

section \<open>The password hash\<close>

text \<open>\<open>in0\<close>: what was in the buffer before.\<close>

definition md5crypt :: "nat \<Rightarrow> 8 word list \<Rightarrow> string \<Rightarrow> string option outcome" where
  "md5crypt sz in0 password =
     (case bnd (MD5Update sz (map of_char (c_str password))) (\<lambda>_. MD5Final sz)
             (MD5Init \<lparr>md_buf = md5_start, md_bits = (0, 0), md_in = in0\<rparr>) of
        (Ok digest, c) \<Rightarrow> b64_ntop (map unat digest) 25
      | (Throw e, c) \<Rightarrow> Throw e | (Crash, c) \<Rightarrow> Crash | (Diverge, c) \<Rightarrow> Diverge)"

section \<open>The tool that prints an encrypted password\<close>

text \<open>
  crypt.cc. \<open>rand_max\<close> is one less than a power of two, so the division of floating point
  numbers is exact. The salt has no terminating zero: \<open>behind\<close> is what stands behind it. The
  result is the status, the output and the error output.
\<close>

definition salt_char :: "nat \<Rightarrow> char" where
  "salt_char r =
     (if r < 26 then ''abcdefghijklmnopqrstuvwxyz'' ! r
      else let r = r - 26 in
      if r < 26 then ''ABCDEFGHIJKLMNOPQRSTUVWXYZ'' ! r
      else let r = r - 26 in
      if r < 10 then ''0123456789'' ! r
      else if r < 1 then CHR ''.'' else CHR ''/'')"

definition getsaltchar :: "nat \<Rightarrow> nat \<Rightarrow> char" where
  "getsaltchar rand_max x = salt_char (64 * x div (rand_max + 1))"

definition crypt_main :: "(string \<Rightarrow> string \<Rightarrow> string) \<Rightarrow> nat \<Rightarrow> nat \<times> nat \<Rightarrow> string \<Rightarrow> string list \<Rightarrow>
    nat \<times> string \<times> string" where
  "crypt_main crypt rand_max xs behind argv =
     (if length argv \<noteq> 2 \<or> argv ! 1 = ''-?''
      then (1, [], ''Usage: '' @ argv ! 0 @ '' passwd'' @ [CHR 0x0A])
      else (0, ''crypt: '' @ crypt (argv ! 1) ([getsaltchar rand_max (fst xs), getsaltchar rand_max (snd xs)] @ behind)
              @ [CHR 0x0A], []))"

end
