(* ===== verification/Md5_Ok.thy ===== *)
theory Md5_Ok
  imports Md5_Crypt
begin

text \<open>
  The digest that is computed from a message in any number of pieces is the one of the padded message
  block by block, and the password hash its base 64 encoding, from which it can be decoded.
\<close>

section \<open>The message by blocks\<close>

function md5_blocks :: "8 word list \<Rightarrow> md5state \<Rightarrow> md5state" where
  "md5_blocks m st =
     (if 64 \<le> length m then md5_blocks (drop 64 m) (md5_transform (words_of (take 64 m)) st) else st)"
  by pat_completeness auto
termination by (relation "measure (\<lambda>(m, st). length m)") auto

declare md5_blocks.simps [simp del]

lemma md5_blocks_short: "length m < 64 \<Longrightarrow> md5_blocks m st = st"
  by (simp add: md5_blocks.simps [of m])

lemma md5_blocks_one: "length b = 64 \<Longrightarrow> md5_blocks (b @ m) st = md5_blocks m (md5_transform (words_of b) st)"
  by (simp add: md5_blocks.simps [of "b @ m"])

lemma md5_blocks_append:
  "64 dvd length a \<Longrightarrow> md5_blocks (a @ b) st = md5_blocks b (md5_blocks a st)"
proof (induction a st rule: md5_blocks.induct)
  case (1 a st)
  show ?case
  proof (cases "64 \<le> length a")
    case True
    then have a: "a = take 64 a @ drop 64 a" "length (take 64 a) = 64" by simp_all
    have d: "64 dvd length (drop 64 a)" using 1(2) by (simp add: dvd_diff_nat)
    have "md5_blocks (take 64 a @ drop 64 a @ b) st
        = md5_blocks (drop 64 a @ b) (md5_transform (words_of (take 64 a)) st)"
      by (rule md5_blocks_one [OF a(2)])
    moreover have "md5_blocks (take 64 a @ drop 64 a) st
        = md5_blocks (drop 64 a) (md5_transform (words_of (take 64 a)) st)"
      by (rule md5_blocks_one [OF a(2)])
    moreover have "a @ b = take 64 a @ drop 64 a @ b" by simp
    ultimately show ?thesis using 1(1) [OF True d] a(1) by metis
  next
    case False
    then have "a = []" using 1(2) by (auto dest: dvd_imp_le)
    then show ?thesis by (simp add: md5_blocks_short)
  qed
qed

definition left64 :: "'a list \<Rightarrow> 'a list" where
  "left64 m = drop (length m div 64 * 64) m"

definition full64 :: "'a list \<Rightarrow> 'a list" where
  "full64 m = take (length m div 64 * 64) m"

lemma full_left: "full64 m @ left64 m = m" "64 dvd length (full64 m)" "length (left64 m) = length m mod 64"
proof -
  have "length m div 64 * 64 \<le> length m" by simp
  then have "length (full64 m) = length m div 64 * 64" by (simp add: full64_def)
  then show "64 dvd length (full64 m)" by simp
  show "full64 m @ left64 m = m" by (simp add: full64_def left64_def)
  show "length (left64 m) = length m mod 64" by (simp add: left64_def minus_div_mult_eq_mod)
qed

lemma left64_append:
  assumes "64 dvd length a"
  shows "left64 (a @ b) = left64 b" and "length (a @ b) mod 64 = length b mod 64"
proof -
  obtain k where k: "length a = 64 * k" using assms by blast
  then have "length (a @ b) div 64 * 64 = length a + length b div 64 * 64" by simp
  then show "left64 (a @ b) = left64 b" by (simp add: left64_def)
  show "length (a @ b) mod 64 = length b mod 64" using k by simp
qed

lemma left64_short: "length m < 64 \<Longrightarrow> left64 m = m"
  by (simp add: left64_def)

lemma md5_blocks_more: "md5_blocks (m @ x) st = md5_blocks (left64 m @ x) (md5_blocks m st)"
proof -
  have "md5_blocks m st = md5_blocks (full64 m) st"
    using md5_blocks_append [OF full_left(2), of m "left64 m" st]
    by (simp add: full_left(1,3) md5_blocks_short)
  then show ?thesis
    using md5_blocks_append [OF full_left(2), of m "left64 m @ x" st] full_left(1) [of m]
    by (metis append_assoc)
qed

section \<open>The counters\<close>

lemma bytes_in_eq: "bytes_in (word_of_nat (8 * n), h) = n mod 64"
proof -
  have "(0x3f :: 32 word) = mask 6" by (simp add: mask_eq_exp_minus_1)
  then have "bytes_in (word_of_nat (8 * n), h) = unat (take_bit 6 (drop_bit 3 (word_of_nat (8 * n) :: 32 word)))"
    by (simp add: bytes_in_def take_bit_eq_mask)
  also have "\<dots> = take_bit 6 (drop_bit 3 (take_bit 32 (8 * n)))"
    by (simp add: unsigned_take_bit_eq unat_drop_bit_eq unsigned_of_nat del: of_nat_mult)
  also have "\<dots> = n mod 64"
  proof -
    have "8 * n mod 4294967296 = 8 * (n mod 536870912)" using mod_mult_mult1 [of 8 n 536870912] by simp
    then show ?thesis by (simp add: take_bit_eq_mod drop_bit_eq_div mod_mod_cancel)
  qed
  finally show ?thesis .
qed

lemma add_div_carry:
  fixes m :: nat
  assumes "0 < m"
  shows "(a + b) div m = a div m + b div m + (if (a + b) mod m < a mod m then 1 else 0)"
proof -
  let ?x = "a mod m" and ?y = "b mod m"
  have xy: "?x < m" "?y < m" using assms by simp_all
  have "(?x + ?y) div m = (if (?x + ?y) mod m < ?x then 1 else 0)"
  proof (cases "?x + ?y < m")
    case False
    then have lt: "?x + ?y - m < m" "?x + ?y - m < ?x" using xy by arith+
    with False have "(?x + ?y) mod m = ?x + ?y - m" "(?x + ?y) div m = 1"
      using assms le_mod_geq [of m "?x + ?y"] le_div_geq [of m "?x + ?y"] by simp_all
    with lt(2) show ?thesis by simp
  qed simp
  then show ?thesis by (simp add: div_add1_eq [of a b] mod_add_eq)
qed

lemma count_bits_eq:
  assumes "k < 2 ^ 32"
  shows "count_bits k (word_of_nat (8 * n), word_of_nat (8 * n div 2 ^ 32))
    = (word_of_nat (8 * (n + k)), word_of_nat (8 * (n + k) div 2 ^ 32))"
proof -
  let ?t = "word_of_nat (8 * n) :: 32 word" and ?k = "word_of_nat k :: 32 word"
  have p: "push_bit 3 ?k = word_of_nat (8 * k)" by (simp add: push_bit_eq_mult)
  have t': "?t + push_bit 3 ?k = word_of_nat (8 * (n + k))" by (simp add: p algebra_simps)
  have u: "unat ?t = 8 * n mod 2 ^ 32" "unat (?t + push_bit 3 ?k) = 8 * (n + k) mod 2 ^ 32"
    unfolding t' by (simp_all only: unat_of_nat) simp_all
  have c: "?t + push_bit 3 ?k < ?t \<longleftrightarrow> 8 * (n + k) mod 2 ^ 32 < 8 * n mod 2 ^ 32"
    using u by (simp add: word_less_nat_alt)
  have d: "drop_bit 29 ?k = word_of_nat (8 * k div 2 ^ 32)"
  proof (rule word_unat_eq_iff [THEN iffD2])
    have "unat (drop_bit 29 ?k) = k div 2 ^ 29"
    proof -
      have "unat ?k = k" using assms by (simp add: unat_of_nat)
      then show ?thesis using unat_drop_bit_eq [of 29 ?k] by (metis drop_bit_eq_div)
    qed
    moreover have "8 * k div 2 ^ 32 = k div 2 ^ 29" by simp
    moreover have "k div 2 ^ 29 < 2 ^ 32" using assms by (simp add: less_mult_imp_div_less)
    ultimately show "unat (drop_bit 29 ?k) = unat (word_of_nat (8 * k div 2 ^ 32) :: 32 word)"
      by (simp add: unat_of_nat)
  qed
  have "8 * (n + k) div 2 ^ 32 = 8 * n div 2 ^ 32 + 8 * k div 2 ^ 32
      + (if 8 * (n + k) mod 2 ^ 32 < 8 * n mod 2 ^ 32 then 1 else (0::nat))"
    using add_div_carry [of "2 ^ 32" "8 * n" "8 * k"] by (simp add: distrib_left)
  then show ?thesis
    unfolding count_bits_def Let_def prod.case t' [symmetric] c
    by (simp add: d del: of_nat_mult)
qed

section \<open>The context stands for what was read\<close>

definition stands :: "md5ctx \<Rightarrow> 8 word list \<Rightarrow> bool" where
  "stands c m \<longleftrightarrow> length (md_in c) = 64 \<and> md_buf c = md5_blocks m md5_start
     \<and> md_bits c = (word_of_nat (8 * length m), word_of_nat (8 * length m div 2 ^ 32))
     \<and> take (length m mod 64) (md_in c) = left64 m"

lemma copy_in_eval: "copy_in p bs c = (Ok (), c\<lparr>md_in := take p (md_in c) @ bs @ drop (p + length bs) (md_in c)\<rparr>)"
  by (simp add: copy_in_def upd_def)

lemma transform_eval: "MD5Transform 4 c = (Ok (), c\<lparr>md_buf := md5_transform (words_of (md_in c)) (md_buf c)\<rparr>)"
  by (simp add: MD5Transform_def)

lemma chunks_ok:
  assumes "length (md_in c) = 64"
  shows "\<exists>i. md5_chunks 4 bs c = (Ok (), c\<lparr>md_buf := md5_blocks bs (md_buf c), md_in := i\<rparr>)
    \<and> length i = 64 \<and> take (length bs mod 64) i = left64 bs"
  using assms
proof (induction bs arbitrary: c rule: length_induct)
  case (1 bs)
  show ?case
  proof (cases "64 \<le> length bs")
    case True
    let ?c = "c\<lparr>md_in := take 64 bs, md_buf := md5_transform (words_of (take 64 bs)) (md_buf c)\<rparr>"
    have sp: "take 64 bs @ drop 64 bs = bs" "64 dvd length (take 64 bs)" using True by simp_all
    have e: "md5_chunks 4 bs c = md5_chunks 4 (drop 64 bs) ?c"
      using True 1(2) by (subst md5_chunks.simps) (simp add: bnd_def copy_in_eval transform_eval)
    have l: "length (drop 64 bs) < length bs" "length (md_in ?c) = 64" using True by simp_all
    obtain i where i: "md5_chunks 4 (drop 64 bs) ?c = (Ok (), ?c\<lparr>md_buf := md5_blocks (drop 64 bs) (md_buf ?c), md_in := i\<rparr>)"
      "length i = 64" "take (length (drop 64 bs) mod 64) i = left64 (drop 64 bs)"
      using 1(1) l by blast
    have "md5_blocks (drop 64 bs) (md_buf ?c) = md5_blocks bs (md_buf c)"
      using True by (simp add: md5_blocks.simps [of bs])
    then have "md5_chunks 4 bs c = (Ok (), c\<lparr>md_buf := md5_blocks bs (md_buf c), md_in := i\<rparr>)"
      using e i(1) by simp
    moreover have "length (drop 64 bs) mod 64 = length bs mod 64" "left64 (drop 64 bs) = left64 bs"
      using left64_append [OF sp(2), of "drop 64 bs"] unfolding sp(1) by simp_all
    ultimately show ?thesis using i(2,3) by (intro exI [of _ i]) simp
  next
    case False
    then show ?thesis
      using 1(2) by (intro exI [of _ "bs @ drop (length bs) (md_in c)"], subst md5_chunks.simps)
        (simp add: copy_in_eval md5_blocks_short left64_short)
  qed
qed

lemma update_ok:
  assumes c: "stands c m" and k: "length bs < 2 ^ 32"
  shows "\<exists>c'. MD5Update 4 bs c = (Ok (), c') \<and> stands c' (m @ bs)"
proof -
  let ?t = "length m mod 64" and ?bits = "(word_of_nat (8 * length (m @ bs)), word_of_nat (8 * length (m @ bs) div 2 ^ 32))"
  let ?c = "c\<lparr>md_bits := ?bits\<rparr>"
  have i: "length (md_in c) = 64" "take ?t (md_in c) = left64 m" "md_buf c = md5_blocks m md5_start"
    and t: "bytes_in (md_bits c) = ?t" and b: "count_bits (length bs) (md_bits c) = ?bits"
    using c count_bits_eq [OF k, of "length m"] by (simp_all add: stands_def bytes_in_eq del: of_nat_mult)
  have blocks: "md5_blocks (m @ bs) md5_start = md5_blocks (left64 m @ bs) (md_buf c)"
    using md5_blocks_more i(3) by simp
  have mb: "m @ bs = full64 m @ left64 m @ bs" using full_left(1) [of m] by (metis append_assoc)
  have lm: "length (m @ bs) mod 64 = length (left64 m @ bs) mod 64" "left64 (m @ bs) = left64 (left64 m @ bs)"
    using left64_append [OF full_left(2), of m "left64 m @ bs"] unfolding mb [symmetric] by simp_all
  have upd': "MD5Update 4 bs c = (if ?t \<noteq> 0 then
       (if length bs < 64 - ?t then copy_in ?t bs
        else bnd (copy_in ?t (take (64 - ?t) bs)) (\<lambda>_. bnd (MD5Transform 4) (\<lambda>_. md5_chunks 4 (drop (64 - ?t) bs))))
     else md5_chunks 4 bs) ?c"
    by (simp only: MD5Update_def bnd_def gets_def upd_def outcome.case prod.case t b)
  consider (none) "?t = 0" | (short) "?t \<noteq> 0" "length bs < 64 - ?t" | (long) "?t \<noteq> 0" "64 - ?t \<le> length bs" by linarith
  then show ?thesis
  proof cases
    case none
    then have "left64 m = []" using full_left(3) [of m] by simp
    moreover obtain j where "md5_chunks 4 bs ?c = (Ok (), ?c\<lparr>md_buf := md5_blocks bs (md_buf ?c), md_in := j\<rparr>)"
      "length j = 64" "take (length bs mod 64) j = left64 bs" using chunks_ok [of ?c bs] i(1) by auto
    ultimately show ?thesis using upd' none blocks lm by (simp add: stands_def)
  next
    case short
    have l: "length (left64 m @ bs) < 64" using short full_left(3) [of m] by simp
    have "take ?t (md_in c) @ bs @ drop (?t + length bs) (md_in c) = (left64 m @ bs) @ drop (?t + length bs) (md_in c)"
      using i(2) by simp
    moreover have "?t + length bs = length (left64 m @ bs)" using full_left(3) [of m] by simp
    ultimately show ?thesis
      using upd' short blocks lm l i(1)
      by (simp add: copy_in_eval stands_def md5_blocks_short left64_short)
  next
    case long
    define b r where "b = left64 m @ take (64 - ?t) bs" and "r = drop (64 - ?t) bs"
    then have sp: "left64 m @ bs = b @ r" and lb: "length b = 64"
      using long(2) full_left(3) [of m] by (simp_all add: less_imp_le)
    have in': "take ?t (md_in c) @ take (64 - ?t) bs @ drop (?t + length (take (64 - ?t) bs)) (md_in c) = b"
      using i(1,2) long(2) by (simp add: less_imp_le b_def)
    let ?d = "?c\<lparr>md_in := b, md_buf := md5_transform (words_of b) (md_buf c)\<rparr>"
    have e: "MD5Update 4 bs c = md5_chunks 4 r ?d"
      using upd' long in' by (simp add: bnd_def copy_in_eval transform_eval r_def)
    obtain j where j: "md5_chunks 4 r ?d = (Ok (), ?d\<lparr>md_buf := md5_blocks r (md_buf ?d), md_in := j\<rparr>)"
      "length j = 64" "take (length r mod 64) j = left64 r"
      using chunks_ok [of ?d r] lb by auto
    have "md5_blocks (m @ bs) md5_start = md5_blocks r (md5_transform (words_of b) (md_buf c))"
      using blocks md5_blocks_one [OF lb, of r] unfolding sp by simp
    moreover have "length (m @ bs) mod 64 = length r mod 64" "left64 (m @ bs) = left64 r"
      using lm left64_append [of b r] lb unfolding sp by simp_all
    ultimately show ?thesis using e j by (simp add: stands_def del: length_append)
  qed
qed

section \<open>The digest\<close>

text \<open>The message, one bit that is set, zeros up to eight bytes before the end of a block, and the length in bits.\<close>

definition length_bytes :: "8 word list \<Rightarrow> 8 word list" where
  "length_bytes m = word_bytes (word_of_nat (8 * length m)) @ word_bytes (word_of_nat (8 * length m div 2 ^ 32))"

definition md5_pad :: "8 word list \<Rightarrow> 8 word list" where
  "md5_pad m = m @ 0x80 # replicate ((119 - length m mod 64) mod 64) 0 @ length_bytes m"

definition state_bytes :: "md5state \<Rightarrow> 8 word list" where
  "state_bytes st = (case st of (a, b, c, d) \<Rightarrow> word_bytes a @ word_bytes b @ word_bytes c @ word_bytes d)"

definition md5 :: "8 word list \<Rightarrow> 8 word list" where
  "md5 m = state_bytes (md5_blocks (md5_pad m) md5_start)"

lemma length_bytes_length: "length (length_bytes m) = 8"
  by (simp add: length_bytes_def word_bytes_def)

lemma final_ok:
  assumes c: "stands c m"
  shows "fst (MD5Final 4 c) = Ok (md5 m)"
proof -
  let ?n = "length m mod 64" and ?r = "left64 m" and ?W = "length_bytes m"
  have i: "length (md_in c) = 64" "take ?n (md_in c) = ?r" "md_buf c = md5_blocks m md5_start"
    and n: "bytes_in (md_bits c) = ?n" and lr: "length ?r = ?n" "?n < 64"
    using c full_left(3) [of m] by (simp_all add: stands_def bytes_in_eq del: of_nat_mult)
  obtain lo hi where w: "md_bits c = (lo, hi)" "word_bytes lo @ word_bytes hi = ?W"
    using c by (simp add: stands_def length_bytes_def)
  have lw: "length (word_bytes lo) + length (word_bytes hi) = 8" by (simp add: word_bytes_def)
  have pad: "md5_blocks (md5_pad m) md5_start
      = md5_blocks (?r @ 0x80 # replicate ((119 - ?n) mod 64) 0 @ ?W) (md_buf c)"
    using md5_blocks_more i(3) by (simp add: md5_pad_def)
  let ?i1 = "?r @ 0x80 # drop (?n + 1) (md_in c)"
  have l1: "length ?i1 = 64" using lr i(1) by simp
  have c1: "copy_in ?n [0x80] c = (Ok (), c\<lparr>md_in := ?i1\<rparr>)" using i(2) by (simp add: copy_in_eval)
  have fin: "fst (MD5Final 4 c) = Ok (state_bytes (md5_transform (words_of j) st))"
    if f: "(if 63 - ?n < 8 then bnd (copy_in (?n + 1) (replicate (63 - ?n) 0)) (\<lambda>_.
               bnd (MD5Transform 4) (\<lambda>_. copy_in 0 (replicate 56 0)))
            else copy_in (?n + 1) (replicate (63 - ?n - 8) 0)) (c\<lparr>md_in := ?i1\<rparr>)
          = (Ok (), c\<lparr>md_in := ib, md_buf := st\<rparr>)"
      and j: "take 56 ib @ ?W @ drop 64 ib = j" for ib st j
  proof -
    have lw': "56 + length (word_bytes lo @ word_bytes hi) = 64" using lw by simp
    let ?d = "c\<lparr>md_in := ib, md_buf := st\<rparr>"
    have "copy_in 56 (word_bytes lo @ word_bytes hi) ?d = (Ok (), ?d\<lparr>md_in := j\<rparr>)"
      unfolding copy_in_eval lw' j [symmetric] w(2) [symmetric] by simp
    moreover have "gets (\<lambda>c. bytes_in (md_bits c)) c = (Ok ?n, c)" by (simp add: gets_def n)
    moreover have "(if 16 * 4 \<le> (64 :: nat) then gets md_bits else crash) ?d = (Ok (lo, hi), ?d)" by (simp add: gets_def w(1))
    ultimately have "MD5Final 4 c = bnd (MD5Transform 4) (\<lambda>_. gets (\<lambda>c. state_bytes (md_buf c))) (?d\<lparr>md_in := j\<rparr>)"
      unfolding MD5Final_def state_bytes_def by (simp only: bnd_Ok c1 f prod.case)
    then show ?thesis by (simp add: bnd_def transform_eval gets_def)
  qed
  show ?thesis
  proof (cases "63 - ?n < 8")
    case True
    let ?b = "?r @ 0x80 # replicate (63 - ?n) 0" and ?e = "replicate 56 0 @ ?W"
    have lb: "length ?b = 64" "length ?e = 64" using lr by (simp_all add: length_bytes_length)
    have b: "take (?n + 1) ?i1 @ replicate (63 - ?n) 0 @ drop (?n + 1 + (63 - ?n)) ?i1 = ?b"
      using lr l1 by simp
    have e: "take 56 (replicate 56 0 @ drop 56 ?b) @ ?W @ drop 64 (replicate 56 0 @ drop 56 ?b) = ?e"
      using lb(1) by simp
    have c2: "copy_in (?n + 1) (replicate (63 - ?n) 0) (c\<lparr>md_in := ?i1\<rparr>) = (Ok (), c\<lparr>md_in := ?b\<rparr>)"
      using b by (simp add: copy_in_eval)
    have "(119 - ?n) mod 64 = (63 - ?n) + 56" using True lr(2) by simp
    then have "?r @ 0x80 # replicate ((119 - ?n) mod 64) 0 @ ?W = ?b @ ?e @ []" by (simp only: replicate_add append.simps append_assoc append_Nil2)
    then have "md5_blocks (md5_pad m) md5_start
        = md5_transform (words_of ?e) (md5_transform (words_of ?b) (md_buf c))"
      unfolding pad by (simp only: md5_blocks_one [OF lb(1)] md5_blocks_one [OF lb(2)]) (simp add: md5_blocks_short)
    moreover have "fst (MD5Final 4 c) = Ok (state_bytes (md5_transform (words_of ?e) (md5_transform (words_of ?b) (md_buf c))))"
      by (rule fin [OF _ e]) (simp only: True if_True bnd_def c2 prod.case outcome.case, simp add: copy_in_eval transform_eval)
    ultimately show ?thesis by (simp add: md5_def)
  next
    case False
    let ?b = "?r @ 0x80 # replicate (55 - ?n) 0 @ ?W"
    have lb: "length ?b = 64" using lr False by (simp add: length_bytes_length)
    let ?z = "take (?n + 1) ?i1 @ replicate (55 - ?n) 0 @ drop 56 ?i1"
    have z: "?z = (?r @ 0x80 # replicate (55 - ?n) 0) @ drop 56 ?i1"
      using lr by simp
    have "length (?r @ 0x80 # replicate (55 - ?n) 0) = 56" using lr False by simp
    moreover have "take 56 (x @ y) = x" if "length x = 56" for x y :: "8 word list" using that by simp
    ultimately have "take 56 ?z = ?r @ 0x80 # replicate (55 - ?n) 0" unfolding z by blast
    moreover have "length ?z = 64" using lr l1 False by simp
    then have "drop 64 ?z = []" by (simp only: drop_all order_refl)
    ultimately have b: "take 56 ?z @ ?W @ drop 64 ?z = ?b"
      by (simp only: append.simps append_assoc append_Nil2)
    have "?n + 1 + length (replicate (55 - ?n) (0 :: 8 word)) = 56" "63 - ?n - 8 = 55 - ?n" using False by simp_all
    then have c2: "copy_in (?n + 1) (replicate (63 - ?n - 8) 0) (c\<lparr>md_in := ?i1\<rparr>) = (Ok (), c\<lparr>md_in := ?z, md_buf := md_buf c\<rparr>)"
      unfolding copy_in_eval by simp
    have "(119 - ?n) mod 64 = 55 - ?n" using False by (simp add: mod_if [of "119 - ?n"])
    then have "md5_blocks (md5_pad m) md5_start = md5_transform (words_of ?b) (md_buf c)"
      unfolding pad using md5_blocks_one [OF lb, of "[]"] by (simp add: md5_blocks_short)
    moreover have "fst (MD5Final 4 c) = Ok (state_bytes (md5_transform (words_of ?b) (md_buf c)))"
      by (rule fin [OF _ b]) (simp only: False if_False c2)
    ultimately show ?thesis by (simp add: md5_def)
  qed
qed

section \<open>Base 64\<close>

fun encode64 :: "nat list \<Rightarrow> string" where
  "encode64 (a # b # c # r) = map ((!) Base64) [a div 4, a mod 4 * 16 + b div 16, b mod 16 * 4 + c div 64, c mod 64] @ encode64 r"
| "encode64 [a, b] = map ((!) Base64) [a div 4, a mod 4 * 16 + b div 16, b mod 16 * 4] @ ''=''"
| "encode64 [a] = map ((!) Base64) [a div 4, a mod 4 * 16] @ ''==''"
| "encode64 [] = []"

definition value64 :: "char \<Rightarrow> nat" where
  "value64 c = length (takeWhile (\<lambda>d. d \<noteq> c) Base64)"

fun decode64 :: "string \<Rightarrow> nat list" where
  "decode64 (w # x # y # z # r) =
     (let a = value64 w * 4 + value64 x div 16;
          b = value64 x mod 16 * 16 + value64 y div 4;
          c = value64 y mod 4 * 64 + value64 z
      in if y = CHR ''='' then [a] else if z = CHR ''='' then [a, b] else a # b # c # decode64 r)"
| "decode64 _ = []"

lemma encode64_length: "length (encode64 src) = (length src + 2) div 3 * 4"
proof (induction src rule: encode64.induct)
  case (1 a b c r)
  have "(length (a # b # c # r) + 2) div 3 = (length r + 2) div 3 + 1"
    using div_add_self2 [of 3 "length r + 2"] by (simp add: add.commute)
  then show ?case using 1 by simp
qed simp_all

lemma digits_in_range:
  fixes a :: nat
  shows "a < 256 \<Longrightarrow> a div 4 < 64" and "b < 256 \<Longrightarrow> a mod 4 * 16 + b div 16 < 64"
    and "c < 256 \<Longrightarrow> b mod 16 * 4 + c div 64 < 64" and "b mod 16 * 4 < 64" and "a mod 4 * 16 < 64" and "c mod 64 < 64"
proof -
  have "a mod 4 < 4" "b mod 16 < 16" by simp_all
  then show "a < 256 \<Longrightarrow> a div 4 < 64" "b < 256 \<Longrightarrow> a mod 4 * 16 + b div 16 < 64"
    "c < 256 \<Longrightarrow> b mod 16 * 4 + c div 64 < 64" "b mod 16 * 4 < 64" "a mod 4 * 16 < 64" "c mod 64 < 64"
    by linarith+
qed

lemma digits_joined:
  fixes b :: nat
  shows "b < 256 \<Longrightarrow> b div 16 div 16 = 0" and "b < 256 \<Longrightarrow> b div 16 mod 16 = b div 16"
    and "b < 256 \<Longrightarrow> b div 64 div 4 = 0" and "b < 256 \<Longrightarrow> b div 64 mod 4 = b div 64"
  by (simp_all add: less_mult_imp_div_less flip: div_mult2_eq)

lemma b64_loop_ok:
  assumes "\<forall>x \<in> set src. x < 256"
  shows "b64_loop src n target
    = Ok (if length target + length (encode64 src) < n then Some (target @ encode64 src) else None)"
  using assms
proof (induction src n target rule: b64_loop.induct)
  case (1 a b c r n target)
  then have "list_all (\<lambda>d. d < 64) [a div 4, a mod 4 * 16 + b div 16, b mod 16 * 4 + c div 64, c mod 64]"
    by (simp add: digits_in_range)
  then show ?case using 1 by (simp add: digits64_def)
next
  case (2 a b n target)
  then have "list_all (\<lambda>d. d < 64) [a div 4, a mod 4 * 16 + b div 16, b mod 16 * 4]"
    by (simp add: digits_in_range)
  then show ?case by (simp add: digits64_def)
next
  case (3 a n target)
  then have "list_all (\<lambda>d. d < 64) [a div 4, a mod 4 * 16, 0]"
    by (simp add: digits_in_range)
  then show ?case by (simp add: digits64_def)
qed simp

lemma value64_digit:
  assumes "d < 64"
  shows "value64 (Base64 ! d) = d" and "Base64 ! d \<noteq> CHR ''=''"
proof -
  have "list_all (\<lambda>d. value64 (Base64 ! d) = d \<and> Base64 ! d \<noteq> CHR ''='') [0..<64]" by code_simp
  then show "value64 (Base64 ! d) = d" "Base64 ! d \<noteq> CHR ''=''" using assms by (simp_all add: list_all_iff)
qed

lemma decode_encode:
  assumes "\<forall>x \<in> set src. x < 256"
  shows "decode64 (encode64 src) = src"
  using assms
proof (induction src rule: encode64.induct)
  case (1 a b c r)
  then show ?case by (simp add: Let_def value64_digit digits_in_range digits_joined)
next
  case (2 a b)
  then show ?case by (simp add: Let_def value64_digit digits_in_range digits_joined)
next
  case (3 a)
  then show ?case by (simp add: Let_def value64_digit digits_in_range digits_joined)
qed simp

section \<open>The password hash\<close>

lemma digest_length: "length (md5 m) = 16"
  by (simp add: md5_def state_bytes_def word_bytes_def split: prod.splits)

lemma digest_bytes: "\<forall>x \<in> set (map unat (md5 m)). x < 256"
  using unsigned_less [where 'a = nat and 'b = 8] by auto

lemma md5crypt_ok:
  assumes "length in0 = 64" and "length (c_str pw) < 2 ^ 32"
  shows "md5crypt 4 in0 pw = Ok (Some (encode64 (map unat (md5 (map of_char (c_str pw))))))"
proof -
  let ?c = "MD5Init \<lparr>md_buf = md5_start, md_bits = (0, 0), md_in = in0\<rparr>" and ?m = "map of_char (c_str pw)"
  have "stands ?c []" using assms(1) by (simp add: stands_def MD5Init_def md5_blocks_short left64_def)
  then obtain c' where c': "MD5Update 4 ?m ?c = (Ok (), c')" "stands c' ?m"
    using update_ok [of ?c "[]" ?m] assms(2) by auto
  obtain c2 where c2: "MD5Final 4 c' = (Ok (md5 ?m), c2)" using final_ok [OF c'(2)] by (metis prod.collapse)
  from b64_loop_ok [OF digest_bytes, of _ 25 "[]"] show ?thesis
    using c'(1) c2 digest_length by (simp add: md5crypt_def bnd_def b64_ntop_def encode64_length)
qed

lemma md5crypt_wide:
  assumes "4 < sz"
  shows "md5crypt sz in0 pw = Crash"
proof -
  have tr: "MD5Transform sz c = (Crash, c)" for c using assms by (simp add: MD5Transform_def)
  have ch: "fst (md5_chunks sz bs c) \<in> {Ok (), Crash}" for bs c
    by (subst md5_chunks.simps) (simp add: bnd_def copy_in_eval tr)
  have "fst (MD5Update sz bs c) \<in> {Ok (), Crash}" for bs c
    using ch by (simp add: MD5Update_def bnd_def gets_def upd_def copy_in_eval tr)
  moreover have "fst (MD5Final sz c) = Crash" for c
    using assms by (simp add: MD5Final_def bnd_def gets_def copy_in_eval tr crash_def)
  ultimately show ?thesis
    by (auto simp: md5crypt_def bnd_def split: prod.splits outcome.splits) (metis fst_conv insertE outcome.distinct singletonD)+
qed

section \<open>The salt\<close>

lemma salt_chars:
  assumes "x \<le> rand_max"
  shows "getsaltchar rand_max x \<in> set ''abcdefghijklmnopqrstuvwxyzABCDEFGHIJKLMNOPQRSTUVWXYZ0123456789/''"
    and "getsaltchar rand_max x \<noteq> CHR ''.''"
proof -
  have "list_all (\<lambda>r. salt_char r \<in> set ''abcdefghijklmnopqrstuvwxyzABCDEFGHIJKLMNOPQRSTUVWXYZ0123456789/''
      \<and> salt_char r \<noteq> CHR ''.'') [0..<64]" by code_simp
  moreover have "64 * x div (rand_max + 1) \<in> set [0..<64]"
    using assms less_mult_imp_div_less [of "64 * x" 64 "rand_max + 1"] by simp
  ultimately show "getsaltchar rand_max x \<in> set ''abcdefghijklmnopqrstuvwxyzABCDEFGHIJKLMNOPQRSTUVWXYZ0123456789/''"
    "getsaltchar rand_max x \<noteq> CHR ''.''" unfolding list_all_iff getsaltchar_def by blast+
qed

end
