(* ===== verification/Spec2Isabelle.thy ===== *)
theory Spec2Isabelle
  imports NV_List_Ok NV_Array Match_Ok Glob_Ref Article_Ok Config_Ok Choice_Ok Overview_Ok Active_DB Commands_Ok Cache_Groups Group_Spec Post_Ok Passing_Ok Clean_Ok Update_News Md5_Ok
begin

text \<open>
  NewsCache, a caching news server: a verification library of its code.

  \<^bold>\<open>The program.\<close> NewsCache stands between news readers and one or more upstream news servers.
  A reader's connection is served by \<open>nnrpd\<close> (src/NewsCache.cc), which reads commands, looks up
  what the client may do in the access list (src/AccessList.cc) and answers from newsgroup
  objects. A newsgroup object (NServer-0.9.1/NVNewsgroup.cc, CNewsgroup.cc, RNewsgroup.cc) holds
  articles and overview records in a memory mapped file and asks the server object
  (NServer-0.9.1/NServer.cc) for what it does not have; the server object keeps the list of
  newsgroups in a mapped file of its own, talks to the upstream servers, and spools what cannot
  be posted at once (ArtSpooler.cc). The mapped files are managed by NVClasses-0.9.1: a heap in a
  file with locks between processes, and a list, a hash table and an array on it.

  \<^bold>\<open>The theories.\<close> Each models one part, in the order in which the code calls them; the theories
  whose name ends in \<open>_Ok\<close> hold the lemmas of a part.
    \<^item> \<open>NC_Prelude\<close>: outcomes (a value, an exception, a crash, no end), the monad of stateful
      functions, the machine integers, C strings, input streams; the exceptions of NSError.h.
    \<^item> \<open>NV_Container\<close>: NVcontainer.cc, byte by byte: lock stack, kernel lock, mapping, \<open>nvalloc\<close>,
      \<open>nvfree\<close>, opening a file. \<open>NV_Locking\<close>, \<open>NV_Heap\<close>, \<open>NV_Alloc\<close>, \<open>NV_Free\<close>, \<open>NV_Store\<close>: the file is
      always a heap of adjacent blocks; locks form a stack whose top is the kernel's lock.
    \<^item> \<open>NV_List\<close>: NVlist.cc, NVList.cc and NVHash.cc; \<open>NV_List_Ok\<close>: the circular list in the file is
      a sequence of strings, with the contract of queues and stacks as a locale.
    \<^item> \<open>NV_Array\<close>: NVArray.cc; \<open>NV_Array_Ok\<close>: the table in the file is a map from numbers to strings,
      through storing, freeing and setting the bounds.
    \<^item> \<open>Group_Match\<close>: wildmat.c, \<open>matchgroup\<close> and the other functions of util.cc, NewsgroupFilter.h;
      \<open>Match_Ok\<close>, \<open>Glob_Ref\<close>: reference definitions and the proofs that the code computes them.
    \<^item> \<open>Article_Text\<close>: readline.cc, Article.cc; \<open>Article_Ok\<close>: articles as lists of header fields.
    \<^item> \<open>Overview_Fmt\<close>: OverviewFmt.cc; \<open>Overview_Ok\<close>: records as lists of fields.
    \<^item> \<open>Lexer_MP\<close>: Lexer.h, MPList.cc, the list of upstream servers and its syntax; \<open>Lexer_Ok\<close>,
      \<open>Choice_Ok\<close>: the choice of the server of a newsgroup, and the syntax read back.
    \<^item> \<open>Config_Read\<close>: Config.cc and AccessList.cc; \<open>Config_Ok\<close>: which entry a client gets.
    \<^item> \<open>Group_Info\<close>, \<open>Active_DB\<close>: GroupInfo.h, NVActiveDB.cc, the list of newsgroups.
    \<^item> \<open>Client_Auth\<close>, \<open>Client_Session\<close>, \<open>Client_Commands\<close>, \<open>Client_Loop\<close>: NewsCache.cc, the commands of
      a client, its passwords and the loop of \<open>nnrpd\<close>; \<open>Auth_Ok\<close>, \<open>Session_Ok\<close>, \<open>Commands_Ok\<close>:
      invariants of the reachable states of a session.
    \<^item> \<open>Remote_Server\<close>: sstream.cc and the class \<open>RServer\<close>; \<open>Remote_Post\<close>: \<open>RServer::post\<close>;
      \<open>Art_Spooler\<close>: ArtSpooler.cc; \<open>Cache_Server\<close>: the classes \<open>LServer\<close> and \<open>CServer\<close>.
    \<^item> \<open>NV_Newsgroup\<close>, \<open>Cache_Newsgroup\<close>: the three kinds of newsgroup objects; \<open>Newsgroup_Ok\<close>: the
      database of a newsgroup is a map from article numbers to what is kept of them, and the
      upstream server is a source of articles in the sense of a locale; \<open>Group_Spec\<close>: its
      operations as steps of that abstract object.
    \<^item> \<open>Server_Ok\<close>: commands that are answered, connections that are lost, servers that are gone;
      \<open>Post_Ok\<close>: where articles are posted to, what is added to them and what becomes of those that
      cannot be posted; \<open>Passing_Ok\<close>: the overview table of a group that is only passed on.
    \<^item> \<open>Cache_Groups\<close>: \<open>CServer::getgroup\<close>, and the caching server as the record of functions that a
      client session of \<open>Client_Session\<close> works with, so that the two halves compose.
    \<^item> \<open>Spool_Clean\<close>: NewsCacheClean.cc, which removes what was used least recently; \<open>Clean_Ok\<close>: its
      table of files, what it removes and in which order, for every order that \<open>std::sort\<close> may
      give (a locale). The depth of its walk is bounded by \<open>MAXPATHLEN\<close>, which is always enough,
      as the paths grow with every step. \<open>Update_News\<close>: updatenews.cc.
    \<^item> \<open>Md5_Crypt\<close>: md5.cc, md5crypt.cc and crypt.cc, for both sizes of \<open>unsigned long\<close>;
      \<open>Md5_Ok\<close>: a message that is read in pieces has the digest of its padded blocks, and base 64 is decoded.

  \<^bold>\<open>Conventions.\<close> A function that changes state takes and returns it; its outcome says how it
  ended. \<open>Crash\<close> is an access outside of what belongs to the program (a null pointer, the end of
  a buffer, an assertion: the assertions of the code are compiled in), \<open>Diverge\<close> a loop that does
  not end; a loop whose end is not obvious is a \<open>partial_function\<close> over options, and the two
  functions \<open>issue\<close> and \<open>connect\<close>, which call each other when a connection is lost, take the depth
  of that nesting as an argument. One is enough for a server that answers; a theorem says which
  servers make the nesting unbounded. Integers are \<open>nat\<close> and \<open>int\<close> with the wrap-around written
  out for 32 and 64 bits, flags are words. The platform has 64 bit \<open>long\<close>s, but for md5.cc, where their size is a parameter; the value of
  \<open>string::npos\<close> is a parameter where the code depends on it.

  \<^bold>\<open>Parameters.\<close> The kernel (locks, mapping, file operations), the password databases, \<open>crypt\<close> and
  PAM, the resolver and the upstream servers are arguments or fields of the state. What is sent
  to a server is sent at once, and what it sends back can be read at once; the clock stands
  still while a function runs; the files of the spool directories can be written, and nobody
  else changes them while they are cleaned.

  \<^bold>\<open>Not modelled.\<close> Log and debug output; sockets, signals and the start of the daemon; the lock of
  the article spool, which is always granted; the functions
  of \<open>RServer\<close> and \<open>LServer\<close> that \<open>CServer\<close> overrides and nothing calls; the several
  processes of updatenews.cc, which no option can ask for.
\<close>

section \<open>The persistent container\<close>

text \<open>The operating system that grants every request, and a new database file.\<close>

definition grant_all :: osenv where
  "grant_all = \<lparr>os_fcntl = (\<lambda>_ _. None), os_fstat = True, os_ftruncate = (\<lambda>_. True),
     os_mmap = (\<lambda>_. True), os_open = (\<lambda>_. True), os_write = True, os_rename = True\<rparr>"

definition store0 :: nvc where
  "store0 = opened ClsContainer grant_all (\<lambda>_. None) ''db''"

lemma grant_all_grants: "os_grants grant_all"
  by (simp add: os_grants_def grant_all_def)

lemma store0_facts:
  "ready store0" "heap (fbytes store0) (fsize store0) [(48, 65488, True)]" "locks store0 = []"
  "fsize store0 = 65536"
  using opened_ready [OF grant_all_grants, of ClsContainer "\<lambda>_. None" "''db''"]
  by (simp_all add: store0_def opened_def)

text \<open>
  C1. \<open>nvalloc\<close> on a well-formed heap returns a block that was not in use, at least as
  large as asked for, and leaves a well-formed heap in which exactly that block is new;
  the file grows if need be, the lock stack is as before, and the bytes of every block
  in use are untouched. No assertion of the code fires and no access leaves the mapping.
\<close>

theorem nvalloc_correct:
  assumes "ready s" and "heap (fbytes s) (fsize s) T"
    and "length (locks s) + 2 \<le> LOCKSTACKSIZE" and "fsize s + rsz + 0x10040 < 2 ^ 31"
  shows "\<exists>s' p k T'. nvalloc rsz s = (Ok (p + 8), s') \<and> ready s' \<and> mapped s' \<and> locks s' = locks s
     \<and> same_env s s' \<and> heap (fbytes s') (fsize s') T' \<and> fsize s \<le> fsize s' \<and> fsize s' < 2 ^ 31
     \<and> (p, k, False) \<notin> inuse T \<and> inuse T' = insert (p, k, False) (inuse T) \<and> rsz + 8 \<le> k
     \<and> keeps T (fbytes s) (fbytes s')"
  using nvalloc_ok [OF assms] by blast

theorem nvalloc_correct_witness:
  "\<exists>s' p k T'. nvalloc 100000 store0 = (Ok (p + 8), s') \<and> heap (fbytes s') (fsize s') T'
     \<and> inuse T' = {(p, k, False)} \<and> 100008 \<le> k"
  using nvalloc_correct [of store0 _ 100000, OF store0_facts(1,2)]
  by (fastforce simp: store0_facts(3,4) LOCKSTACKSIZE_def)

text \<open>
  C2. \<open>nvfree\<close> of a block in use ends without exception and leaves a well-formed heap from
  which exactly that block is gone, joined with its free neighbours; the other blocks
  keep their bytes and the lock stack is as before.
\<close>

theorem nvfree_correct:
  assumes "ready s" and "heap (fbytes s) (fsize s) T" and "(p, k, False) \<in> inuse T"
    and "length (locks s) < LOCKSTACKSIZE" and "fsize s < 2 ^ 31"
  shows "\<exists>s' T'. nvfree (p + 8) s = (Ok (), s') \<and> ready s' \<and> mapped s' \<and> locks s' = locks s
     \<and> same_env s s' \<and> fsize s' = fsize s \<and> heap (fbytes s') (fsize s') T'
     \<and> inuse T' = inuse T - {(p, k, False)} \<and> keeps T' (fbytes s) (fbytes s')"
  using nvfree_ok [OF assms] by blast

theorem nvfree_correct_witness:
  "\<exists>p s1 s2 T. nvalloc 100000 store0 = (Ok p, s1) \<and> nvfree p s1 = (Ok (), s2)
     \<and> heap (fbytes s2) (fsize s2) T \<and> inuse T = {}"
proof -
  obtain s1 p k T where a: "nvalloc 100000 store0 = (Ok (p + 8), s1)" "ready s1" "locks s1 = []"
    "heap (fbytes s1) (fsize s1) T" "fsize s1 < 2 ^ 31" "inuse T = {(p, k, False)}"
    using nvalloc_ok [of store0 _ 100000, OF store0_facts(1,2)]
    by (fastforce simp: store0_facts(3,4) LOCKSTACKSIZE_def)
  have "(p, k, False) \<in> inuse T" "length (locks s1) < LOCKSTACKSIZE"
    using a(3,6) by (simp_all add: LOCKSTACKSIZE_def)
  from nvfree_correct [OF a(2,4) this a(5)] a(1,6) show ?thesis by fastforce
qed



text \<open>
  The seventeenth nested lock and an unlock without a lock throw, and change nothing.
\<close>

theorem lock_stack_errors:
  assumes "lock_wf s" and "c \<noteq> UnLock"
  shows "(length (locks s) = LOCKSTACKSIZE \<longrightarrow>
            lock c b s = (Throw (Error ''NVContainer::lock(): Lock Stack overflow''), s))
       \<and> (locks s = [] \<longrightarrow>
            lock UnLock b s = (Throw (Error ''NVContainer::lock(): Lock Stack underflow''), s))"
  using lock_overflow [OF assms(1) _ assms(2)] lock_underflow [OF assms(1)] by blast

theorem lock_stack_errors_witness:
  "lock UnLock Block store0 = (Throw (Error ''NVContainer::lock(): Lock Stack underflow''), store0)"
  using lock_stack_errors [of store0 ShrdLock Block] store0_facts by (simp add: ready_def)

text \<open>
  C13. A \<open>NoBlock\<close> request that the kernel refuses returns \<open>-1\<close> with the lock stack as it was; but
  \<open>nvflock\<close> has already given back the lock held before, so the process goes on with a
  stack that promises a shared lock while the kernel holds none for it.
\<close>

theorem lock_upgrade_refused:
  assumes "lock_wf s" and "mem_fd s" and "length (locks s) < LOCKSTACKSIZE"
    and "top_lock (locks s) = ShrdLock"
    and "os_fcntl (os s) UnLock NoBlock = None"
    and "os_fcntl (os s) ExclLock NoBlock \<in> {Some EACCES, Some EAGAIN}"
  shows "\<exists>s'. lock ExclLock NoBlock s = (Ok (- 1), s') \<and> locks s' = locks s
    \<and> get_lock s' = ShrdLock \<and> klock s' = UnLock"
proof -
  obtain s' where s': "lock ExclLock NoBlock s = (Ok (- 1), s')" "locks s' = locks s" "klock s' = UnLock"
    "length (lck_stack s') = length (lck_stack s)"
    using lock_refused [OF assms(1,2) _ assms(3) _ _ assms(5,6)] assms(4) by auto
  have "length (lck_stack s') = LOCKSTACKSIZE" using s'(4) assms(1) by (simp add: lock_wf_def)
  moreover obtain ls where "drop (lck_stackp s') (lck_stack s') = ShrdLock # ls"
    using s'(2) assms(4) by (auto simp: top_lock_def locks_def split: list.splits)
  moreover from this have "lck_stackp s' < length (lck_stack s')"
    by (metis drop_eq_Nil list.distinct(1) not_le)
  ultimately have "get_lock s' = ShrdLock"
    by (simp add: get_lock_def Cons_nth_drop_Suc [symmetric])
  with s' show ?thesis by auto
qed

definition shared0 :: nvc where
  "shared0 = store0\<lparr>lck_stackp := 15, lck_stack := replicate 15 UnLock @ [ShrdLock], klock := ShrdLock,
     os := grant_all\<lparr>os_fcntl := (\<lambda>c _. if c = ExclLock then Some EAGAIN else None)\<rparr>\<rparr>"

theorem lock_upgrade_refused_witness:
  "\<exists>s'. lock ExclLock NoBlock shared0 = (Ok (- 1), s') \<and> get_lock s' = ShrdLock \<and> klock s' = UnLock"
proof -
  have l: "locks shared0 = [ShrdLock]" by (simp add: shared0_def locks_def)
  have "lock_wf shared0"
    using l by (simp add: lock_wf_def sticky_def top_lock_def)
      (simp add: shared0_def LOCKSTACKSIZE_def)
  moreover have "mem_fd shared0"
    by (simp add: shared0_def store0_def opened_def)
  ultimately show ?thesis
    using lock_upgrade_refused [of shared0] l
    by (auto simp: top_lock_def LOCKSTACKSIZE_def) (auto simp: shared0_def)
qed

lemma store0_holds: "nv_holds store0 {}"
  unfolding nv_holds_def using store0_facts
  by (auto simp: LOCKSTACKSIZE_def inuse_def intro!: exI [of _ "[(48, 65488, True)]"])

text \<open>
  Blocks in use never overlap: whatever \<open>nvalloc\<close> returns is disjoint from every block
  handed out before and not yet freed.
\<close>

theorem nvalloc_disjoint:
  assumes "nv_holds s B" and "nv_room s n"
  shows "\<exists>s' p c. nvalloc n s = (Ok p, s') \<and> n \<le> c \<and> nv_holds s' (insert (p, c) B)
    \<and> (\<forall>(q, d) \<in> B. p + c \<le> q \<or> q + d \<le> p)"
  using assms by (rule nv.alloc_fresh)

text \<open>
  Databases given by their bytes: one with a block of 24 bytes in use, at 56, and one in
  which that block is the only record of a list, with the data \<open>a\<close>.
\<close>

definition file0 :: "mem \<Rightarrow> nvc" where
  "file0 m = store0\<lparr>fbytes := m, mem_p := Live, mem_sz := 65536\<rparr>"

definition mem1 :: mem where
  "mem1 = wl (wl (wl (wl (wl init_mem 24 80) 32 65456) 48 32) 80 80) 88 65456"

definition mem2 :: mem where
  "mem2 = wl (wl (wl (wbytes mem1 72 ''a'') 56 56) 64 1) 40 56"

lemma file0_simps [simp]:
  "fbytes (file0 m) = m" "fsize (file0 m) = 65536" "mem_p (file0 m) = Live" "locks (file0 m) = []"
proof -
  have "locks store0 = []" by (rule store0_facts)
  then show "locks (file0 m) = []" by (simp add: file0_def locks_def)
qed (simp_all add: file0_def store0_facts)

lemma file0_holds:
  assumes "heap m 65536 T"
  shows "nv_holds (file0 m) ((\<lambda>t. (off t + 8, sz t - 8)) ` inuse T)"
proof -
  have r: "mem_fd store0" "lock_wf store0" "os_grants (os store0)" "locks store0 = []"
    using store0_facts by (simp_all add: ready_def mappable_def)
  have "hdr m 65536" using assms by (simp add: heap_def)
  then have "mappable (file0 m)" using r(1) by (simp add: mappable_def) (simp add: file0_def)
  moreover have "lock_wf (file0 m)" using r(2,4) by (simp add: lock_wf_def) (simp add: file0_def)
  moreover have "os_grants (os (file0 m))" using r(3) by (simp add: file0_def)
  ultimately have "ready (file0 m)" by (simp add: ready_def)
  with assms show ?thesis by (auto simp: nv_holds_def LOCKSTACKSIZE_def)
qed

lemma mem1_heap: "heap mem1 65536 [(48, 32, False), (80, 65456, True)]"
proof -
  have h0: "hdr init_mem 65536" using init_mem_heap by (simp add: heap_def)
  then have "hdr mem1 65536" by (simp add: mem1_def hdr_wl)
  moreover have "circ (rl mem1) [(80, 65456)]"
    by (simp add: circ_def mem1_def rl_wl_aligned)
  moreover have "rl mem1 24 = 80" "rl mem1 32 = 65456" "rl mem1 48 = 32"
    by (simp_all add: mem1_def rl_wl_aligned)
  ultimately show ?thesis
    by (simp add: heap_def coalesced_Cons)
qed

lemma mem2_heap: "heap mem2 65536 [(48, 32, False), (80, 65456, True)]"
proof -
  let ?T = "[(48, 32, False), (80, 65456, True)]"
  have t: "(48, 32, False) \<in> inuse ?T" by (simp add: inuse_def)
  have h1: "heap (wbytes mem1 72 ''a'') 65536 ?T"
    by (rule heap_payload [OF mem1_heap t]) (simp add: differs_wbytes)
  have h2: "heap (wl (wbytes mem1 72 ''a'') 56 56) 65536 ?T"
    by (rule heap_payload [OF h1 t]) (simp add: differs_wl)
  have h3: "heap (wl (wl (wbytes mem1 72 ''a'') 56 56) 64 1) 65536 ?T"
    by (rule heap_payload [OF h2 t]) (simp add: differs_wl)
  have hd: "hdr mem2 65536"
    using h3 by (simp add: mem2_def heap_def hdr_def rl_wl_aligned rdn_wl_low)
  show ?thesis
    by (rule heap_cong [OF h3 hd])
       (auto simp: mem2_def rl_wl_aligned intro!: agree_sym [OF agree_wl])
qed

lemma one_block: "(\<lambda>t. (off t + 8, sz t - 8)) ` inuse [(48, 32, False), (80, 65456, True)] = {(56, 24)}"
proof -
  have "inuse [(48, 32, False), (80, 65456, True)] = {(48, 32, False)}" by (auto simp: inuse_def)
  then show ?thesis by simp
qed

lemma list1: "list_db (file0 mem2) [''a'']"
proof -
  have "nv_holds (file0 mem2) {(56, 24)}"
    using file0_holds [OF mem2_heap] by (simp only: one_block)
  moreover have "rbytes mem2 72 1 = rbytes (wbytes mem1 72 ''a'') 72 (length ''a'')"
    by (rule trans [OF rbytes_cong]) (auto simp: mem2_def agree_def wl_def wrn_def)
  then have "rbytes mem2 72 1 = ''a''" by (simp only: rbytes_wbytes_same)
  then have "recs mem2 40 [(56, ''a'')]"
    by (simp add: recs_def circ_def)
       (simp add: mem2_def rl_wl_aligned)
  moreover have "in_blocks {(56, 24)} [(56, ''a'')]" by (simp add: in_blocks_def)
  ultimately show ?thesis
    unfolding list_db_def
    by (intro conjI exI [of _ "{(56, 24)}"] exI [of _ "[(56, ''a'')]"]) (simp_all add: LOCKSTACKSIZE_def)
qed

theorem nvalloc_disjoint_witness:
  "\<exists>s p c. nvalloc 200 (file0 mem1) = (Ok p, s) \<and> 200 \<le> c \<and> nv_holds s {(p, c), (56, 24)}
     \<and> (p + c \<le> 56 \<or> 80 \<le> p)"
  using nvalloc_disjoint [OF file0_holds [OF mem1_heap, unfolded one_block], of 200]
  by (auto simp: nv_room_def)

text \<open>
  Opening a name that is not there creates a database of one free block: it is mapped, not
  locked, and its user data word is null.
\<close>

theorem open_creates:
  assumes "os_grants e" and "os_open e f" and "os_write e" and "d f = None" and "f \<noteq> []"
  shows "\<exists>s. open_nv f (nvcontainer_new c e d) = (Ok (), s) \<and> ready s \<and> mapped s \<and> locks s = []
    \<and> heap (fbytes s) (fsize s) [(48, 65488, True)] \<and> fsize s = 0x10000 \<and> rl (fbytes s) 40 = 0"
  using assms by (rule open_nv_new)

theorem open_creates_witness:
  "\<exists>s. open_nv ''db'' (nvcontainer_new ClsContainer grant_all (\<lambda>_. None)) = (Ok (), s) \<and> ready s"
  using open_creates [OF grant_all_grants, of "''db''" "\<lambda>_. None" ClsContainer]
  by (auto simp: grant_all_def)

text \<open>
  C14. A file that cannot be opened raises an exception, but the object keeps its name: the
  same call again returns normally although no file is open.
\<close>

theorem open_failure_forgotten:
  assumes "\<not> os_open e f" and "f \<noteq> []"
  shows "\<exists>s. open_nv f (nvcontainer_new c e d)
      = (Throw (SystemError ''NVConatiner::open(): cannot open''), s)
    \<and> \<not> is_open s \<and> open_nv f s = (Ok (), s)"
  using assms by (rule open_nv_fails)

theorem open_failure_forgotten_witness:
  "\<exists>s. open_nv ''x'' (nvcontainer_new ClsContainer (grant_all\<lparr>os_open := \<lambda>_. False\<rparr>) (\<lambda>_. None))
      = (Throw (SystemError ''NVConatiner::open(): cannot open''), s) \<and> \<not> is_open s"
  using open_failure_forgotten [of "grant_all\<lparr>os_open := \<lambda>_. False\<rparr>" "''x''" ClsContainer "\<lambda>_. None"]
  by auto

text \<open>
  The modification time only grows, unless it is forced; the rest of the database stays.
\<close>

theorem setmtime_monotone:
  assumes "ready s" and "heap (fbytes s) (fsize s) T"
    and "length (locks s) < LOCKSTACKSIZE" and "tm < 2 ^ 64"
  shows "\<exists>s'. setmtime tm force s = (Ok (), s') \<and> locks s' = locks s
    \<and> heap (fbytes s') (fsize s') T \<and> keeps T (fbytes s) (fbytes s')
    \<and> rl (fbytes s') 16 = (if force then tm else max (rl (fbytes s) 16) tm)"
  using setmtime_ok [OF assms] by blast

theorem setmtime_monotone_witness:
  "\<exists>s. setmtime 1234 False store0 = (Ok (), s) \<and> rl (fbytes s) 16 = 1234"
proof -
  have "rl (fbytes store0) 16 = 0"
    by (simp add: store0_def opened_def init_mem_def Let_def rl_wl_aligned)
  then show ?thesis
    using setmtime_monotone [OF store0_facts(1,2), of 1234 False]
    by (auto simp: store0_facts(3) LOCKSTACKSIZE_def)
qed

section \<open>The list database\<close>

text \<open>
  C4. \<open>NVList::append\<close> adds at the end and \<open>NVList::remove\<close> takes from the front of the sequence of
  strings that the circular list in the mapped file stands for: a queue.
\<close>

theorem list_queue:
  assumes "list_db s (x # ds)" and "list_room s d"
  shows "\<exists>s1 s2. nvList_append d s = (Ok (), s1) \<and> list_db s1 (x # ds @ [d])
    \<and> nvList_remove s1 = (Ok (), s2) \<and> list_db s2 (ds @ [d])"
proof -
  obtain s1 where s1: "nvList_append d s = (Ok (), s1)" "list_db s1 (x # ds @ [d])"
    using nvl.append_law [OF assms] by auto
  with nvl.remove_law [OF s1(2)] show ?thesis by auto
qed

theorem list_queue_witness:
  "\<exists>s1 s2. nvList_append ''b'' (file0 mem2) = (Ok (), s1) \<and> list_db s1 [''a'', ''b'']
    \<and> nvList_remove s1 = (Ok (), s2) \<and> list_db s2 [''b'']"
  using list_queue [OF list1, of "''b''"] by (simp add: list_room_def nv_room_def)

text \<open>
  \<open>NVList::prepend\<close> adds at the front, so that with \<open>remove\<close> the list is a stack.
\<close>

theorem list_stack:
  assumes "list_db s ds" and "list_room s d"
  shows "\<exists>s1 s2. nvList_prepend d s = (Ok (), s1) \<and> list_db s1 (d # ds)
    \<and> nvList_remove s1 = (Ok (), s2) \<and> list_db s2 ds"
proof -
  obtain s1 where s1: "nvList_prepend d s = (Ok (), s1)" "list_db s1 (d # ds)"
    using nvl.prepend_law [OF assms] by auto
  with nvl.remove_law [OF s1(2)] show ?thesis by auto
qed

theorem list_stack_witness:
  "\<exists>s1 s2. nvList_prepend ''b'' (file0 mem2) = (Ok (), s1) \<and> list_db s1 [''b'', ''a'']
    \<and> nvList_remove s1 = (Ok (), s2) \<and> list_db s2 [''a'']"
  using list_stack [OF list1, of "''b''"] by (simp add: list_room_def nv_room_def)

text \<open>
  \<open>NVList::clear\<close> ends on every well-formed list and leaves the empty one.
\<close>

theorem list_clear_ends:
  assumes "list_db s ds"
  shows "\<exists>s'. nvList_clear s = (Ok (), s') \<and> list_db s' []"
  using assms by (rule nvl.clear_law)

theorem list_clear_ends_witness:
  "\<exists>s. nvList_clear (file0 mem2) = (Ok (), s) \<and> list_db s []"
  using list_clear_ends [OF list1] .

section \<open>Newsgroup rules\<close>

text \<open>
  C15. \<open>matchgroup\<close> decides by the best of the matching rules of the comma separated list:
  the first one with the longest match, whose leading exclamation mark gives the sign.
\<close>

theorem matchgroup_reference:
  assumes "CHR '','' \<notin> set g" and "CHR ''*'' \<notin> set g" and "NUL \<notin> set p"
  shows "matchgroup p g = best_match (rule_iter p) g"
  using matchgroup_best assms by (simp add: plain_name_def)

theorem matchgroup_reference_witness:
  "matchgroup ''at.*,!at.top.*,at.top.chat'' ''at.top.x'' = - 8
   \<and> matchgroup ''at.*,!at.top.*,at.top.chat'' ''at.top.x''
     = best_match (rule_iter ''at.*,!at.top.*,at.top.chat'') ''at.top.x''"
proof -
  have "matchgroup ''at.*,!at.top.*,at.top.chat'' ''at.top.x'' = - 8"
    by (simp add: matchgroup_def mg_loop.simps mg_rule_def ends_here_def chr_at_def isspace_def)
  then show ?thesis
    using matchgroup_reference [of "''at.top.x''" "''at.*,!at.top.*,at.top.chat''"] by simp
qed

text \<open>
  C16. \<open>wildmat\<close> answers like the reference matcher that tries every split of the text, for
  every pattern whose classes are closed: giving up with \<open>ABORT\<close> loses no match.
\<close>

theorem wildmat_reference:
  assumes "gparse p = Some ps"
  shows "wildmat t p = Some (gmatch ps t)"
  using assms by (rule wildmat_ok)

theorem wildmat_reference_witness:
  "wildmat ''comp.c'' ''c*.?'' = Some True"
proof -
  let ?ps = "[GOne (\<lambda>t. t = CHR ''c''), GStar, GOne (\<lambda>t. t = CHR ''.''), GOne (\<lambda>_. True)]"
  have "gparse ''c*.?'' = Some ?ps" by (simp add: gparse.simps)
  from wildmat_reference [OF this, of "''comp.c''"] show ?thesis
    by (auto intro!: exI [of _ "3::nat"])
qed

text \<open>
  The union of two filters: no rule twice, and exactly the accept rules of the first with
  those of its reject rules the second does not accept, and the rules of the second
  that the first does not accept.
\<close>

theorem filter_union:
  assumes "rules_fit (rulelist f)" "rules_fit (rulelist g)"
    and "[] \<notin> set (rule_iter (rulelist f))" "[] \<notin> set (rule_iter (rulelist g))"
    and "\<not> WildmatSearch f" "\<not> WildmatSearch g"
  shows "\<exists>h. filter_or f g = Some h \<and> distinct (rules (rulelist h))
    \<and> set (rules (rulelist h)) =
        {r \<in> set (rule_iter (rulelist f)). \<not> is_reject r \<or> matchgroup (rulelist g) (tl r) \<le> 0}
      \<union> {r \<in> set (rule_iter (rulelist g)). matchgroup (rulelist f) (rule_body r) \<le> 0}"
  using assms by (rule filter_or_rules)

theorem filter_union_witness:
  "\<exists>h. filter_or (filter_new ''a.*'') (filter_new ''b'') = Some h \<and> distinct (rules (rulelist h))"
proof -
  have r: "rule_iter ''a.*'' = [''a.*'']" "rule_iter ''b'' = [''b'']"
    by (simp_all add: rule_iter.simps Let_def)
  show ?thesis
    using filter_union [of "filter_new ''a.*''" "filter_new ''b''"]
    by (auto simp: filter_new_def rules_fit_def r MAXNEWSGROUPNAMELEN_def)
qed

text \<open>
  The intersection of two filters: no rule twice, and exactly the reject rules of the first
  with its accept rules the second accepts, and the rules of the second the first accepts.
\<close>

theorem filter_intersection:
  assumes "rules_fit (rulelist f)" "rules_fit (rulelist g)"
    and "[] \<notin> set (rule_iter (rulelist f))" "[] \<notin> set (rule_iter (rulelist g))"
    and "\<not> WildmatSearch f" "\<not> WildmatSearch g"
  shows "\<exists>h. filter_and f g = Some h \<and> distinct (rules (rulelist h))
    \<and> set (rules (rulelist h)) =
        {r \<in> set (rule_iter (rulelist f)). is_reject r \<or> 0 < matchgroup (rulelist g) r}
      \<union> {r \<in> set (rule_iter (rulelist g)). 0 < matchgroup (rulelist f) (rule_body r)}"
  using assms by (rule filter_and_rules)

theorem filter_intersection_witness:
  "\<exists>h. filter_and (filter_new ''a.*'') (filter_new ''a.b'') = Some h \<and> distinct (rules (rulelist h))"
proof -
  have r: "rule_iter ''a.*'' = [''a.*'']" "rule_iter ''a.b'' = [''a.b'']"
    by (simp_all add: rule_iter.simps Let_def)
  show ?thesis
    using filter_intersection [of "filter_new ''a.*''" "filter_new ''a.b''"]
    by (auto simp: filter_new_def rules_fit_def r MAXNEWSGROUPNAMELEN_def)
qed

section \<open>Articles\<close>

text \<open>
  C17. A text sent as lines with CRLF and ended by a line with a single dot is read back by
  \<open>readtext\<close> as it was sent, line by line counted, and the stream stands behind the dot.
\<close>

theorem readtext_roundtrip:
  assumes "\<forall>l \<in> set ls. plain_line l \<and> l \<noteq> ''.''" and "good is"
    and "inp is = concat (map (\<lambda>l. l @ CRLF) ls) @ ''.'' @ CRLF @ rest"
  shows "readtext is [] True (''.'' @ CRLF)
    = (concat (map (\<lambda>l. l @ CRLF) ls), length ls, is\<lparr>inp := rest\<rparr>)"
  using readtext_ok [OF assms, of "[]" "[]" 0] by (simp add: readtext_def)

theorem readtext_roundtrip_witness:
  "readtext \<lparr>inp = ''a'' @ CRLF @ ''..'' @ CRLF @ ''.'' @ CRLF @ ''QUIT'', is_eof = False, is_fail = False\<rparr> [] True (''.'' @ CRLF)
   = (''a'' @ CRLF @ ''..'' @ CRLF, 2, \<lparr>inp = ''QUIT'', is_eof = False, is_fail = False\<rparr>)"
  using readtext_roundtrip [of "[''a'', ''..'']"
    "\<lparr>inp = ''a'' @ CRLF @ ''..'' @ CRLF @ ''.'' @ CRLF @ ''QUIT'', is_eof = False, is_fail = False\<rparr>" "''QUIT''"]
  by (simp add: plain_line_def is_eol_def good_def)

text \<open>
  C18. On an article made of header fields, an empty line and a body, \<open>getfield\<close> returns the value
  of the first field of that name, in any case of letters, and throws if there is none.
\<close>

theorem getfield_lookup:
  assumes "ok_name n" and "ok_fields fs" and "fs \<noteq> []" and "NUL \<notin> set body" and "length n < 511"
    and "\<not> strcaseeq (n @ '':'') ''bytes:''"
  shows "getfield (art fs body) (n @ '':'') False =
    (case find (same_name n) fs of
       None \<Rightarrow> Throw (NoSuchFieldError (n @ '':''))
     | Some f \<Rightarrow> Ok (snd f))"
  using assms by (rule getfield_ok)

lemma ok_path: "ok_name ''Path''" "ok_name ''From''" "ok_fields [(''Path'', ''x''), (''From'', ''y z'')]"
  "ok_fields [(''Path'', []), (''From'', ''y z'')]"
  by (simp_all add: ok_name_def ok_fields_def ok_value_def plain_line_def isspace_def is_eol_def)

theorem getfield_lookup_witness:
  "getfield (art [(''Path'', ''x''), (''From'', ''y z'')] ''b'') ''From:'' False = Ok ''y z''"
  using getfield_lookup [OF ok_path(2,3), of "''b''"]
  by (simp add: strcaseeq_def same_name_def tolower_def)



text \<open>
  A field without a value is replaced together with the header line that follows it: the skipping
  of white space runs over the line end.
\<close>

theorem setfield_swallows_next:
  assumes "ok_name n" and "ok_fields ((n, []) # (m, v) # fs)" and "NUL \<notin> set body" and "length n < 511"
  shows "setfield (art ((n, []) # (m, v) # fs) body) (n @ '':'') (field_line (n, w)) = Ok (art ((n, w) # fs) body)"
  using assms by (rule setfield_empty)

theorem setfield_swallows_next_witness:
  "setfield (art [(''Path'', []), (''From'', ''y z'')] ''b'') ''Path:'' (field_line (''Path'', ''w''))
   = Ok (art [(''Path'', ''w'')] ''b'')"
  using setfield_swallows_next [OF ok_path(1,4), of "''b''" "''w''"] by simp

text \<open>
  With CRLF line ends \<open>write\<close> splits an article into its header and its body, and both together
  are the article.
\<close>

theorem write_parts:
  assumes "ok_fields fs" and "fs \<noteq> []" and "NUL \<notin> set body"
  shows "write_article (art fs body) True False = concat (map field_line fs)
    \<and> write_article (art fs body) False True = body
    \<and> write_article (art fs body) True True
      = write_article (art fs body) True False @ CRLF @ write_article (art fs body) False True"
  using write_ok [OF assms] by simp

theorem write_parts_witness:
  "write_article (art [(''Path'', ''x''), (''From'', ''y z'')] ''b'') False True = ''b''"
  using write_parts [OF ok_path(3), of "''b''"] by simp

section \<open>Overview records\<close>

text \<open>
  C23. A record translated from a server's format answers for every own field with the server's field
  of that name, empty if the server has none; a name that the own format does not want is
  taken off only up to its colon, which stays in the record.
\<close>

theorem overview_conversion:
  assumes "over fmt = over overfmt_new" and "dotrans fmt" and "length (trans fmt) = 8"
    and "length (split_tabs recin) \<le> 256" and "i < 8"
  shows "\<exists>r. convert_record fmt recin = Ok r
    \<and> over_getfield fmt r (fst (over fmt ! i)) (- 1)
      = Ok (converted (tl (split_tabs recin)) (over fmt ! i) (trans fmt ! i))"
  using assms by (rule convert_record_field)

theorem overview_conversion_witness:
  "\<exists>r. convert_record (overfmt_new\<lparr>dotrans := True, trans := (0, True) # replicate 7 (- 1, False)\<rparr>)
         (''7'' @ TAB # ''Subject: x'') = Ok r
     \<and> over_getfield (overfmt_new\<lparr>dotrans := True, trans := (0, True) # replicate 7 (- 1, False)\<rparr>) r ''Subject:'' (- 1)
       = Ok '': x''"
  using overview_conversion [of "overfmt_new\<lparr>dotrans := True, trans := (0, True) # replicate 7 (- 1, False)\<rparr>"
    "''7'' @ TAB # ''Subject: x''" 0]
  by (simp add: own_over split_tabs.simps converted_def)

section \<open>Configuration\<close>

text \<open>
  C21. The server of a group is the first of those with the best match of their read rules, the server
  that articles are posted to the first of those with the best match of their post rules; it
  must match at all and have a name.
\<close>

theorem server_choice:
  "(server es grp = Some e
      \<longleftrightarrow> (\<exists>i. best_at (\<lambda>e. matchgroup (rd_groups e) grp) es i \<and> e = es ! i \<and> hostname e \<noteq> []))
   \<and> (postserver es grp = Some e
      \<longleftrightarrow> (\<exists>i. best_at (\<lambda>e. matchgroup (post_groups e) grp) es i \<and> e = es ! i \<and> hostname e \<noteq> []))"
  unfolding server_def postserver_def real_server_best by blast


definition server0 :: mpentry where
  "server0 = mpentry_init\<lparr>hostname := ''news'', servicename := ''119'', rd_groups := ''*'', post_groups := ''*'', flags := 0\<rparr>"



text \<open>
  C22. A client gets the first entry of the access list whose pattern fits its name or address;
  what lies in front of the pattern in memory does not matter, although the code looks there.
\<close>

theorem client_first_match:
  "config_client aton before c name addr
    = find (\<lambda>e. pattern_fits aton (host_pattern (ae_hostname e)) name addr) (clnts c)"
  by (simp add: config_client_def client_find)

text \<open>
  The flags of an authentication entry never take a right away, and a word with an
  exclamation mark grants all the others: \<open>!read\<close> lets a client without rights post and debug.
\<close>

theorem access_flags_only_grow:
  "access_flags e AND access_flags (modifyAccessFlags e fl) = access_flags e
   \<and> access_flags (modifyAccessFlags access_new ''!read'') = NOT af_read"
proof -
  have "rule_iter ''!read'' = [''!read'']" by (simp add: rule_iter.simps Let_def)
  then show ?thesis
    by (simp add: modifyAccessFlags_def modify_flags_keep) (simp add: modify_flag_def access_new_def)
qed

section \<open>Newsgroups\<close>

text \<open>
  C24. The line that is printed of a newsgroup is read back: name, numbers and flag are the printed
  ones, the number of articles is computed from the first and the last, modulo $2^{32}$.
\<close>

theorem group_line_roundtrip:
  assumes "gi_ok gi" and "gi_ok old" and "\<forall>c \<in> set (gi_name gi). \<not> isspace c"
    and "\<not> isspace (gi_flag gi)" and "gi_flag gi \<noteq> NUL" and "now < 2 ^ 64"
  shows "\<exists>new. gi_set_line now old (print_group gi) = Ok new \<and> gi_ok new
    \<and> gi_name new = gi_name gi \<and> gi_fst new = gi_fst gi \<and> gi_lst new = gi_lst gi \<and> gi_flag new = gi_flag gi
    \<and> gi_mtime new = now \<and> gi_ctime new = gi_ctime old
    \<and> gi_n new = (if gi_lst gi < gi_fst gi then 0 else u32 (gi_lst gi - gi_fst gi + 1))"
  using assms by (rule set_line_print)

definition group0 :: group_info where
  "group0 = gi_new\<lparr>gi_arr := ''a.b'' @ NUL # replicate 508 NUL, gi_fst := 3, gi_lst := 9, gi_n := 5\<rparr>"

lemma group0_facts:
  "gi_ok group0" "gi_ok gi_new" "gi_name group0 = ''a.b''" "gi_flag group0 = CHR ''y''" "gi_fst group0 = 3"
  "gi_lst group0 = 9" "gi_n group0 = 5"
proof -
  show "gi_name group0 = ''a.b''"
    using c_str_append [of "''a.b''" "replicate 508 NUL"] by (simp add: gi_name_def group0_def)
qed (simp_all add: gi_ok_def group0_def gi_new_def GI_NAMELEN_def)

theorem group_line_roundtrip_witness:
  "\<exists>new. gi_set_line 100 gi_new (print_group group0) = Ok new \<and> gi_name new = ''a.b'' \<and> gi_n new = 7"
  using group_line_roundtrip [OF group0_facts(1,2), of 100]
  by (auto simp: group0_facts isspace_def)

text \<open>
  The bytes that are stored of a newsgroup give the same newsgroup back, whatever the object
  they are read into held before.
\<close>

theorem group_raw_roundtrip:
  assumes "gi_ok gi" and "gi_ok old"
  shows "\<exists>new. gi_setraw old (gi_getraw gi) = Ok new \<and> gi_ok new \<and> same_info new gi"
  using assms by (rule setraw_getraw)

theorem group_raw_roundtrip_witness:
  "\<exists>new. gi_setraw gi_new (gi_getraw group0) = Ok new \<and> gi_name new = ''a.b'' \<and> gi_n new = 5"
  using group_raw_roundtrip [OF group0_facts(1,2)] by (auto simp: same_info_def group0_facts)

section \<open>Sessions\<close>

text \<open>
  A server for the examples: one group \<open>a.b\<close> of the articles 3 to 9, of which only the fifth and
  the seventh are there; its world counts the articles that have been posted.
\<close>

definition article0 :: article where
  "article0 = art [(''Message-ID'', ''<1@x>''), (''Newsgroups'', ''a.b'')] ''text''"

definition over0 :: "nat \<Rightarrow> string" where
  "over0 i = (if i = 5 \<or> i = 7 then record_of ''5'' [''s'', ''f'', ''d'', ''<1@x>'', [], [], [], []] else [])"

definition server1 :: "(unit, nat) cserver" where
  "server1 = \<lparr>cs_groupinfo = (\<lambda>_. ret group0), cs_getgroup = (\<lambda>_. ret ()), cs_freegroup = (\<lambda>_. ret ()),
     cs_article = (\<lambda>_. ret article0), cs_active = ret (), cs_groups = ret [group0],
     cs_overviewfmt = (\<lambda>_. overfmt_new), cs_post = (\<lambda>_ n. (Ok 0, n + 1)),
     ng_setsize = (\<lambda>_ _ _. ret ()), ng_getsize = (\<lambda>_. ret (3, 9)),
     ng_getarticle = (\<lambda>_ _. ret (Some article0)), ng_getover = (\<lambda>_ i. ret (over0 i)),
     ng_printlistgroup = (\<lambda>_. ret ()), ng_printoverdb = (\<lambda>_ _ _. ret ()), ng_printheaderdb = (\<lambda>_ _ _ _. ret ())\<rparr>"

lemma server1_simps [simp]:
  "cs_groupinfo server1 g = ret group0" "cs_getgroup server1 g = ret ()" "cs_active server1 = ret ()"
  "cs_groups server1 = ret [group0]" "cs_overviewfmt server1 w = overfmt_new"
  "cs_post server1 a n = (Ok 0, n + 1)" "ng_getsize server1 u = ret (3, 9)"
  "ng_getarticle server1 u i = ret (Some article0)" "ng_getover server1 u i = ret (over0 i)"
  by (simp_all add: server1_def)

definition env1 :: cl_env where
  "env1 = \<lparr>md5_auto = False, md5_crypt = False, shadow_password = False, plain_text_passwords = False,
     pam_auth = False, env_crypt = (\<lambda>k _. Some k), env_md5crypt = (\<lambda>k. k),
     env_getpwnam = (\<lambda>u. if u = ''joe'' then Some (Some u, Some ''pw'') else None), env_getspnam = (\<lambda>_. None),
     env_groups = [], env_pam = (\<lambda>_ _ _. False), env_read = (\<lambda>_. None),
     have_tzname = False, now_gmt = None,
     now_local = \<lparr>tm_year = 103, tm_mon = 0, tm_mday = 1, tm_hour = 0, tm_min = 0, tm_sec = 0\<rparr>,
     env_daylight = 0, env_timezone = 0, local_dst = 0, env_mktime = (\<lambda>_ _. 0), out_good = (\<lambda>_. True),
     npos = 2 ^ 64 - 1, garbage = 0\<rparr>"

lemma out_env1: "out_good env1 = (\<lambda>_. True)"
  by (simp add: env1_def)

definition entry1 :: access_entry where
  "entry1 = access_new\<lparr>access_flags := af_read, ae_list := filter_new ''*'', ae_read := filter_new ''*,!a.b'',
     ae_postTo := filter_new ''*''\<rparr>"

lemma entry1_simps [simp]:
  "ae_list entry1 = filter_new ''*''" "ae_postTo entry1 = filter_new ''*''" "access_flags entry1 = af_read"
  by (simp_all add: entry1_def)

definition config1 :: config where
  "config1 = (config_init ''here'')\<lparr>clnts := [entry1]\<rparr>"

definition line1 :: "string \<Rightarrow> istream" where
  "line1 s = \<lparr>inp = s @ CRLF, is_eof = False, is_fail = False\<rparr>"

definition quiet :: round_event where
  "quiet = \<lparr>timed_out = False, xsignal = - 1\<rparr>"

definition started :: "access_entry \<Rightarrow> string \<Rightarrow> (unit, nat) client_data" where
  "started e l = (set_client_command_table
      ((client_new (line1 l) 0 (config1\<lparr>clnts := [e]\<rparr>) 0)\<lparr>clt_auth_state := initial_auth_state (authentication e)\<rparr>))
     \<lparr>clt_out := ''200 '' @ PACKAGE @ '' '' @ VERSION @ '', accepting NNRP commands'' @ CRLF\<rparr>"

lemma started_start:
  assumes "ae_hostname e = []" and "access_flags e \<noteq> 0"
  shows "nnrpd_start aton before (config1\<lparr>clnts := [e]\<rparr>) ''pc'' 0 (line1 l) 0 = Inr (started e l)"
  using assms by (simp add: nnrpd_start_def started_def config1_def Let_def)

lemma started_simps [simp]:
  "entry (started e l) = e" "clt_auth_state (started e l) = initial_auth_state (authentication e)"
  "clt_groupname (started e l) = []" "clt_grp (started e l) = None" "clt_world (started e l) = 0"
  "clt_in (started e l) = line1 l" "clt_auth_failures (started e l) = 0" "clt_auth_user (started e l) = []"
  by (simp_all add: started_def set_client_command_table_def client_new_def entry_def Let_def)

text \<open>The first round of such a session.\<close>

lemma getline_line1:
  assumes "LF \<notin> set l" and "length l < 1000"
  shows "ci_getline 1024 (line1 l) = (l @ [CR], \<lparr>inp = [], is_eof = False, is_fail = False\<rparr>)"
proof -
  have t: "take 1023 (l @ CRLF) = l @ CRLF" using assms(2) by (simp add: CRLF_def)
  have "\<forall>c \<in> set (l @ [CR]). c \<noteq> LF" using assms(1) by auto
  from takeWhile_stop [OF this, of LF "[]"]
  have "takeWhile (\<lambda>c. c \<noteq> LF) (l @ CRLF) = l @ [CR]" by (simp add: CRLF_def)
  then show ?thesis using t by (simp add: ci_getline_def line1_def good_def) (simp add: CRLF_def)
qed

lemma first_round:
  assumes "LF \<notin> set l" and "length l < 1000" and "req_args (l @ [CR]) = args"
    and "run_command S env args ((started e l)\<lparr>clt_in := \<lparr>inp = [], is_eof = False, is_fail = False\<rparr>\<rparr>) = (Ok GoOn, c)"
  shows "serves S env (started e l) c"
proof -
  have "client_round S env quiet (started e l) = (Ok GoOn, c)"
    using assms(4) unfolding client_round_def bnd_def
    by (simp add: gets_def upd_def quiet_def good_def getline_line1 [OF assms(1,2)] assms(3))
  with serves.start show ?thesis by (rule serves.round)
qed

text \<open>
  C25. A client whose entry of the access list demands a password at once, because its kind of
  authentication is none that the code knows or is \<open>unix\<close> without fields, is never let in:
  in no state its session can reach has it got past the demand, selected a group or touched
  the server, and neither does the round that ends the session.
\<close>

theorem password_demand_is_final:
  assumes "nnrpd_start aton before cfg name addr is w = Inr c0"
    and "demands_password (authentication (entry c0))" and "serves S env c0 c"
    and "client_round S env ev c = (r, c')"
  shows "clt_auth_state c = AUTH_REQUIRED \<and> news c = news c0 \<and> news c' = news c0"
proof -
  have "locked c0" using start_facts(5) [OF assms(1)] assms(2) by (simp add: locked_def demands_password_def)
  from serves_locked [OF assms(3) this] gated_round [OF _ assms(4)] show ?thesis by (auto simp: locked_def)
qed

theorem password_demand_is_final_witness:
  "\<exists>c r c'. serves server1 env1 (started (entry1\<lparr>authentication := [''unix'']\<rparr>) ''group a.b'') c
     \<and> clt_out c \<noteq> clt_out (started (entry1\<lparr>authentication := [''unix'']\<rparr>) ''group a.b'')
     \<and> client_round server1 env1 quiet c = (r, c') \<and> news c' = (0, [], None, - 1)"
proof -
  let ?e = "entry1\<lparr>authentication := [''unix'']\<rparr>"
  let ?c0 = "started ?e ''group a.b''"
  have e: "ae_hostname ?e = []" "access_flags ?e \<noteq> 0" by (simp_all add: entry1_def access_new_def af_read_def)
  have st: "initial_auth_state [''unix''] = AUTH_REQUIRED"
    by (simp add: initial_auth_state_def auth_getType_def auth_getNrOfFields_def)
  have dem: "demands_password (authentication (entry ?c0))"
    using st by (auto simp: demands_password_def auth_set_def colon_fields.simps intro!: exI [of _ "''unix''"])
  have a: "req_args (''group a.b'' @ [CR]) = [''group'', ''a.b'']"
    by (simp add: req_args_def cut_words.simps c_str_def isspace_def tolower_def)
  obtain c where c: "run_command server1 env1 [''group'', ''a.b'']
      (?c0\<lparr>clt_in := \<lparr>inp = [], is_eof = False, is_fail = False\<rparr>\<rparr>) = (Ok GoOn, c)" "clt_out c \<noteq> clt_out ?c0"
    using st by (simp add: run_command_def run_evals)
  have s: "serves server1 env1 ?c0 c" by (rule first_round [OF _ _ a c(1)]) simp_all
  obtain r c' where r: "client_round server1 env1 quiet c = (r, c')" by fastforce
  have "news ?c0 = (0, [], None, - 1)"
    by (simp add: news_def) (simp add: started_def set_client_command_table_def client_new_def Let_def)
  with password_demand_is_final [OF started_start [OF e] dem s r] s r c(2) show ?thesis by auto
qed

text \<open>
  C26. In every session the table of commands is the one of the client's access flags, whatever
  passwords it has given, and a command outside of it is answered with 500 and does nothing.
\<close>

theorem commands_follow_rights:
  assumes "nnrpd_start aton before cfg name addr is w = Inr c0" and "serves S env c0 c"
  shows "fst ` set (clt_commands c) = allowed_commands (access_flags (entry c))
    \<and> (clt_auth_state c \<noteq> AUTH_REQUIRED \<and> args \<noteq> [] \<and> length args < 256
         \<and> args ! 0 \<notin> allowed_commands (access_flags (entry c))
       \<longrightarrow> run_command S env args c = (Ok GoOn, c\<lparr>clt_out := clt_out c @ ''500 What?'' @ CRLF\<rparr>))"
proof -
  have "well_tabled c" by (rule serves_well_tabled [OF assms(2) start_facts(1) [OF assms(1)]])
  then have k: "fst ` set (clt_commands c) = allowed_commands (access_flags (entry c))"
    by (simp add: well_tabled_def)
  then show ?thesis by (auto simp: run_command_def run_evals)
qed

theorem commands_follow_rights_witness:
  "\<exists>c. serves server1 env1 (started entry1 ''post'') c \<and> ''post'' \<notin> fst ` set (clt_commands c)
     \<and> run_command server1 env1 [''post''] c = (Ok GoOn, c\<lparr>clt_out := clt_out c @ ''500 What?'' @ CRLF\<rparr>)"
proof -
  let ?c0 = "started entry1 ''post''"
  have e: "ae_hostname entry1 = []" "access_flags entry1 \<noteq> 0" "access_flags entry1 = af_read"
    by (simp_all add: entry1_def access_new_def af_read_def)
  have s: "serves server1 env1 ?c0 ?c0" by (rule serves.start)
  have st: "initial_auth_state (authentication entry1) = AUTH_OK"
    by (simp add: initial_auth_state_def auth_getType_def entry1_def access_new_def)
  have n: "''post'' \<notin> allowed_commands af_read"
    by (simp add: allowed_commands_def open_commands_def read_commands_def has_bit_def af_read_def af_post_def af_debug_def)
  from commands_follow_rights [OF started_start [OF e(1,2)] s, of "[''post'']"] s st n show ?thesis
    by (intro exI [of _ ?c0]) (simp add: e(3))
qed



text \<open>
  C31. Unless the log is in the style of INN, no session goes on after the third wrong password; with
  that style the test is skipped and a client may go on guessing.
\<close>

theorem three_passwords:
  assumes "nnrpd_start aton before cfg name addr is w = Inr c0" and "serves S env c0 c"
  shows "(\<not> has_bit (LogStyle cfg) LogINN \<longrightarrow> clt_auth_failures c < 3)
    \<and> (has_bit (LogStyle (clt_cfg c)) LogINN \<longrightarrow> after_command (- 1) c = (Ok GoOn, c))"
proof -
  have "after_command (- 1) c = (Ok GoOn, c)" if "has_bit (LogStyle (clt_cfg c)) LogINN"
    using that by (simp add: after_command_def run_evals)
  with serves_failures [OF assms(2)] start_facts(2,3,6) [OF assms(1)] show ?thesis by auto
qed

theorem three_passwords_witness:
  "\<exists>c. serves server1 env1 (started entry1 ''date'') c \<and> clt_auth_failures c < 3"
proof -
  have e: "ae_hostname entry1 = []" "access_flags entry1 \<noteq> 0" by (simp_all add: entry1_def access_new_def af_read_def)
  have "\<not> has_bit (LogStyle (config1\<lparr>clnts := [entry1]\<rparr>)) LogINN"
    by (simp add: config1_def config_init_def LogName_def LogAddr_def LogINN_def has_bit_def)
  with three_passwords [OF started_start [OF e] serves.start] show ?thesis using serves.start by blast
qed

text \<open>
  C28. \<open>group\<close> refuses a group that the client may not read and changes nothing; \<open>listgroup\<close>
  refuses it with the same words, but has selected it: the next \<open>article\<close> sends its first article.
\<close>

theorem listgroup_opens_group:
  assumes "matches (ae_read (entry c)) g = Some m" and "m \<le> 0"
    and "g \<noteq> []" and "length g < MAXNEWSGROUPNAMELEN" and "NUL \<notin> set g"
    and "clt_groupname c \<noteq> g" and "clt_grp c = None"
    and "cs_groupinfo S g (clt_world c) = (Ok gi, w1)" and "gi_fst gi \<le> gi_lst gi" and "gi_fst gi < 2 ^ 31"
    and "cs_getgroup S g w1 = (Ok h, w2)" and "ng_getarticle S h (gi_fst gi) w2 = (Ok (Some a), w3)"
    and "getfield a ''Message-ID:'' False = Ok mid"
  shows "ns_group S [''group'', g] c = (Ok 0, c\<lparr>clt_out := clt_out c @ ''480 authentication required'' @ CRLF\<rparr>)
    \<and> (\<exists>c1 c2. ns_listgroup S [''listgroup'', g] c = (Ok 0, c1)
        \<and> clt_out c1 = clt_out c @ ''480 authentication required'' @ CRLF
        \<and> ns_article S [''article''] c1 = (Ok 0, c2)
        \<and> clt_out c2 = clt_out c1 @ ''220 '' @ show_int (int (gi_fst gi)) @ '' '' @ mid
            @ '' article retrieved - head and body follow'' @ CRLF @ write_article a True True @ ''.'' @ CRLF)"
proof
  show "ns_group S [''group'', g] c = (Ok 0, c\<lparr>clt_out := clt_out c @ ''480 authentication required'' @ CRLF\<rparr>)"
    by (rule group_refused [OF assms(1,2)])
  let ?c1 = "c\<lparr>clt_world := w1, clt_nbr := i32 (int (gi_fst gi)), clt_stat_groups := i32 (clt_stat_groups c + 1),
      clt_stat_artingrp := 0, clt_groupname := g, clt_out := clt_out c @ ''480 authentication required'' @ CRLF\<rparr>"
  have l: "ns_listgroup S [''listgroup'', g] c = (Ok 0, ?c1)"
    using listgroup_refused [OF assms(8,6,7,4,5,1,2)] assms(9) by simp
  have n: "i32 (int (gi_fst gi)) = int (gi_fst gi)" using assms(10) by simp
  have "\<exists>c2. ns_article S [''article''] ?c1 = (Ok 0, c2)
    \<and> clt_out c2 = clt_out ?c1 @ ''220 '' @ show_int (clt_nbr ?c1) @ '' '' @ mid
        @ '' article retrieved - head and body follow'' @ CRLF @ write_article a True True @ ''.'' @ CRLF"
    by (rule article_current [where h = h and ?w1.0 = w2 and ?w2.0 = w3])
       (use assms n in simp_all)
  with l n show "\<exists>c1 c2. ns_listgroup S [''listgroup'', g] c = (Ok 0, c1)
        \<and> clt_out c1 = clt_out c @ ''480 authentication required'' @ CRLF
        \<and> ns_article S [''article''] c1 = (Ok 0, c2)
        \<and> clt_out c2 = clt_out c1 @ ''220 '' @ show_int (int (gi_fst gi)) @ '' '' @ mid
            @ '' article retrieved - head and body follow'' @ CRLF @ write_article a True True @ ''.'' @ CRLF"
    by auto
qed

lemma message_id: "getfield article0 ''Message-ID:'' False = Ok ''<1@x>''"
proof -
  have "ok_name ''Message-ID''" "ok_fields [(''Message-ID'', ''<1@x>''), (''Newsgroups'', ''a.b'')]"
    by (simp_all add: ok_name_def ok_fields_def ok_value_def plain_line_def isspace_def is_eol_def)
  from getfield_ok [OF this, of "''text''"] show ?thesis
    by (simp add: article0_def strcaseeq_def same_name_def tolower_def)
qed

lemma refuses_ab: "matches (ae_read entry1) ''a.b'' = Some (- 4)"
  by (simp add: matches_def entry1_def filter_new_def mg_loop.simps mg_rule_def ends_here_def chr_at_def isspace_def)

theorem listgroup_opens_group_witness:
  "\<exists>c1 c2. ns_listgroup server1 [''listgroup'', ''a.b''] (started entry1 '''') = (Ok 0, c1)
     \<and> ns_article server1 [''article''] c1 = (Ok 0, c2)
     \<and> clt_out c2 = clt_out c1 @ ''220 3 <1@x> article retrieved - head and body follow'' @ CRLF
         @ write_article article0 True True @ ''.'' @ CRLF"
proof -
  have "show_int (int 3) = ''3''" by code_simp
  then show ?thesis
    using listgroup_opens_group [of "started entry1 ''''" "''a.b''" "- 4" server1 group0 0 "()" 0 article0 0 "''<1@x>''"]
    by (auto simp: refuses_ab message_id server1_def ret_def group0_facts MAXNEWSGROUPNAMELEN_def)
qed

text \<open>
  C30. With a list filter without wild cards, \<open>list active\<close> prints the line of exactly the groups that
  the filter accepts, in the order of the active database, and changes nothing else.
\<close>

theorem list_shows_accepted:
  assumes "cs_active S (clt_world c) = (Ok (), w1)" and "cs_groups S w1 = (Ok gds, w2)"
    and "out_good env = (\<lambda>_. True)"
  shows "\<exists>c'. ns_list S env [''list''] c = (Ok 0, c') \<and> clt_world c' = w2
    \<and> clt_out c' = clt_out c @ ''215 List of newsgroups (Group High Low Flags) follows'' @ CRLF
        @ concat (map (\<lambda>gd. print_group gd @ CRLF)
            (filter (\<lambda>gd. 0 < matchgroup (rulelist (ae_list (entry c))) (gi_name gd)) gds))
        @ ''.'' @ CRLF"
  using assms by (rule list_active_eval)

theorem list_shows_accepted_witness:
  "\<exists>c'. ns_list server1 env1 [''list''] (started entry1 '''') = (Ok 0, c')
     \<and> clt_out c' = clt_out (started entry1 '''') @ ''215 List of newsgroups (Group High Low Flags) follows'' @ CRLF
         @ print_group group0 @ CRLF @ ''.'' @ CRLF"
proof -
  have "0 < matchgroup ''*'' ''a.b''"
    by (simp add: matchgroup_def mg_loop.simps mg_rule_def ends_here_def chr_at_def isspace_def)
  then show ?thesis
    using list_shows_accepted [of server1 "started entry1 ''''" 0 "[group0]" 0 env1]
    by (auto simp: ret_def group0_facts out_env1 filter_new_def)
qed






text \<open>
  C39. Where \<open>string::npos\<close> does not fit into the \<open>unsigned int\<close> that \<open>post\<close> compares it with, as on
  every LP64 platform, the end of the list of newsgroups is never found: no posting reaches
  the server, and one to a single group that is allowed is looked at without end.
\<close>

theorem posting_is_lost:
  assumes "2 ^ 32 \<le> npos env" and "ns_post S env args c = (r, c')"
  shows "clt_world c' = clt_world c
    \<and> (npos env = 2 ^ 64 - 1 \<and> args = [''post'']
         \<and> getfield (fst (read_article article_new (clt_in c))) ''newsgroups:'' False = Ok g
         \<and> matches (ae_postTo (entry c)) g = Some m \<and> 0 < m
         \<and> CHR '','' \<notin> set g \<and> NUL \<notin> set g \<and> length g < 2 ^ 32 - 1
       \<longrightarrow> r = Diverge)"
proof -
  have "r = Diverge"
    if h: "npos env = 2 ^ 64 - 1" "args = [''post'']" "matches (ae_postTo (entry c)) g = Some m" "0 < m"
      "getfield (fst (read_article article_new (clt_in c))) ''newsgroups:'' False = Ok g"
      "CHR '','' \<notin> set g" "NUL \<notin> set g" "length g < 2 ^ 32 - 1"
  proof -
    obtain art "is" where a: "read_article article_new (clt_in c) = (art, is)" by fastforce
    have "post_allowed (2 ^ 64 - 1) (ae_postTo (entry c)) g 0 (find_comma (2 ^ 64 - 1) g 0) = None"
      by (rule post_endless [OF h(3,4,6-8)])
    with h a assms(2) show ?thesis
      by (simp add: ns_post_def run_evals lift_loop_def entry_def)
  qed
  with post_world [OF assms] show ?thesis by blast
qed

theorem posting_is_lost_witness:
  "fst (ns_post server1 env1 [''post''] (started entry1 (''Newsgroups: a.b'' @ CRLF @ CRLF @ ''.''))) = Diverge"
proof -
  let ?c = "started entry1 (''Newsgroups: a.b'' @ CRLF @ CRLF @ ''.'')"
  have "readtext_loop (clt_in ?c) [] True (''.'' @ CRLF) [] 0 = (''Newsgroups: a.b'' @ CRLF @ CRLF, 2, (clt_in ?c)\<lparr>inp := []\<rparr>)"
    using readtext_ok [of "[''Newsgroups: a.b'', '''']" "clt_in ?c" "[]" "[]" "[]" 0]
    by (simp add: plain_line_def is_eol_def line1_def good_def)
  then have read: "fst (read_article article_new (clt_in ?c)) = art [(''Newsgroups'', ''a.b'')] []"
    by (simp add: read_article_def readtext_def article_new_def art_def compose_simps CRLF_def)
  have "ok_name ''newsgroups''" "ok_fields [(''Newsgroups'', ''a.b'')]"
    by (simp_all add: ok_name_def ok_fields_def ok_value_def plain_line_def isspace_def is_eol_def)
  from getfield_ok [OF this, of "[]"]
  moreover have "same_name ''newsgroups'' (''Newsgroups'', ''a.b'')" "\<not> strcaseeq ''newsgroups:'' ''bytes:''"
    by code_simp+
  ultimately have "getfield (art [(''Newsgroups'', ''a.b'')] []) ''newsgroups:'' False = Ok ''a.b''"
    by simp
  moreover have "matches (ae_postTo (entry ?c)) ''a.b'' = Some 1"
    by (simp add: matches_def filter_new_def mg_loop.simps mg_rule_def ends_here_def chr_at_def isspace_def)
  moreover obtain r c' where r: "ns_post server1 env1 [''post''] ?c = (r, c')" by fastforce
  moreover have "npos env1 = 2 ^ 64 - 1" by (simp add: env1_def)
  ultimately show ?thesis using posting_is_lost [OF _ r, of "''a.b''" 1] read by simp
qed

text \<open>
  Where it does fit, \<open>post\<close> takes the first group of a list as it is and the last one too, but
  what it looks up for one in between runs on into the next group's name, because \<open>substr\<close> is given
  the end of the group instead of its length: a group that the filter rejects by its full name
  gets through.
\<close>

theorem posting_between_commas:
  assumes "\<not> WildmatSearch f" and "CHR '','' \<notin> set a" and "CHR '','' \<notin> set b" and "CHR '','' \<notin> set c"
    and "NUL \<notin> set (a @ b @ c)" and "length (a @ b @ c) + 3 < 2 ^ 32"
  shows "post_allowed (2 ^ 32 - 1) f (a @ CHR '','' # b @ CHR '','' # c) 0
      (find_comma (2 ^ 32 - 1) (a @ CHR '','' # b @ CHR '','' # c) 0) =
    Some (Ok (0 < matchgroup (rulelist f) a
      \<and> 0 < matchgroup (rulelist f) (take (length a + 1 + length b) (b @ CHR '','' # c))
      \<and> 0 < matchgroup (rulelist f) c))"
  using assms by (rule post_three)

theorem posting_between_commas_witness:
  "post_allowed (2 ^ 32 - 1) (filter_new ''*,!secret'') ''a,secret,c'' 0
      (find_comma (2 ^ 32 - 1) ''a,secret,c'' 0) = Some (Ok True)
    \<and> matchgroup ''*,!secret'' ''secret'' < 0"
proof -
  note evals = matchgroup_def mg_loop.simps mg_rule_def ends_here_def chr_at_def isspace_def
  have "0 < matchgroup ''*,!secret'' ''a''" "0 < matchgroup ''*,!secret'' ''secret,c''"
    "0 < matchgroup ''*,!secret'' ''c''" "matchgroup ''*,!secret'' ''secret'' < 0"
    by (simp_all add: evals)
  then show ?thesis
    using posting_between_commas [of "filter_new ''*,!secret''" "''a''" "''secret''" "''c''"]
    by (simp add: filter_new_def)
qed

section \<open>Newsgroup databases\<close>

text \<open>The database of a group of the one article 5, of which there is nothing yet.\<close>

definition mem3 :: mem where
  "mem3 = wl (wl (wl (wl mem1 72 0) 56 5) 64 5) 40 56"

definition group1 :: ngroup where
  "group1 = \<lparr>ng_name = ''a.b'', ng_nv = (file0 mem3)\<lparr>vcls := ClsArray\<rparr>, ng_files = (\<lambda>_. None)\<rparr>"

lemma mem3_heap: "heap mem3 65536 [(48, 32, False), (80, 65456, True)]"
proof -
  let ?T = "[(48, 32, False), (80, 65456, True)]"
  have t: "(48, 32, False) \<in> inuse ?T" by (simp add: inuse_def)
  have h1: "heap (wl mem1 72 0) 65536 ?T"
    by (rule heap_payload [OF mem1_heap t]) (simp add: differs_wl)
  have h2: "heap (wl (wl mem1 72 0) 56 5) 65536 ?T"
    by (rule heap_payload [OF h1 t]) (simp add: differs_wl)
  have h3: "heap (wl (wl (wl mem1 72 0) 56 5) 64 5) 65536 ?T"
    by (rule heap_payload [OF h2 t]) (simp add: differs_wl)
  have hd: "hdr mem3 65536"
    using h3 by (simp add: mem3_def heap_def hdr_def rl_wl_aligned rdn_wl_low)
  show ?thesis
    by (rule heap_cong [OF h3 hd])
       (auto simp: mem3_def rl_wl_aligned intro!: agree_sym [OF agree_wl])
qed

lemma group1_facts: "group_at group1 5 5 Map.empty" "locks (ng_nv group1) = []" "fsize (ng_nv group1) = 65536"
proof -
  let ?s = "(file0 mem3)\<lparr>vcls := ClsArray\<rparr>"
  have l: "locks ?s = []" using file0_simps(4) [of mem3] by (simp add: locks_def)
  have h: "nv_holds (file0 mem3) {(56, 24)}"
    using file0_holds [OF mem3_heap] by (simp only: one_block)
  moreover have "nv_holds ?s B = nv_holds (file0 mem3) B" for B
    by (simp add: nv_holds_def ready_def mappable_def lock_wf_def locks_def mapped_def)
  ultimately have "nv_holds ?s {(56, 24)}" by simp
  moreover have "table_at (fbytes ?s) {(56, 24)} 56 5 5 {} (enc Map.empty)"
    by (simp add: table_at_def slot_def) (simp add: mem3_def rl_wl_aligned)
  ultimately have "array_at ?s {(56, 24)} 56 5 5 {} (enc Map.empty)"
    using l by (simp add: array_at_def arr_sync_def)
  then show "group_at group1 5 5 Map.empty" by (auto simp: group_at_def group1_def files_ok_def)
qed (use file0_simps(4) [of mem3] in \<open>simp_all add: group1_def locks_def\<close>)



text \<open>
  C9. The overview record that a group answers with is a function of the map alone: a stored
  record as it was stored, the record made of an article that is kept in the database, and
  nothing for a number of which nothing is kept. Asking changes nothing.
\<close>

theorem group_overview:
  assumes "holds_abs g a" and "length (locks (ng_nv g)) + 3 \<le> LOCKSTACKSIZE" and "abs_over fmt nbr a = Ok ov"
  shows "\<exists>g'. nv_getover fmt nbr g = (Ok ov, g') \<and> holds_abs g' a \<and> locks (ng_nv g') = locks (ng_nv g)"
  using assms by (rule getover_ok)

theorem group_overview_witness:
  "\<exists>g g'. nv_setover ''5 x'' group1 = (Ok (), g) \<and> nv_getover overfmt_new 5 g = (Ok ''5 x'', g')"
proof -
  have n: "over_nbr ''5 x'' = 5" by code_simp
  obtain g where "nv_setover ''5 x'' group1 = (Ok (), g)" "holds_abs g (5, 5, [5 \<mapsto> Over ''5 x''])"
    "locks (ng_nv g) = []"
    using store_step [of group1 "(5, 5, Map.empty)" "PutOver ''5 x''" overfmt_new] n
    by (auto simp: holds_abs_def group1_facts LOCKSTACKSIZE_def nv_room_def)
  moreover have "abs_over overfmt_new 5 (5, 5, [5 \<mapsto> Over ''5 x'']) = Ok ''5 x''"
    by (simp add: abs_over_def c_str_def)
  ultimately show ?thesis
    using group_overview [of g "(5, 5, [5 \<mapsto> Over ''5 x''])" overfmt_new 5 "''5 x''"]
    by (auto simp: LOCKSTACKSIZE_def)
qed

section \<open>Upstream servers\<close>

text \<open>
  A server object that is connected to its only server, and a network that answers the command
  for article 5 with one of a single header line and anything else with \<open>400\<close>.
\<close>

definition stream1 :: sstream where
  "stream1 = \<lparr>ss_in = \<lparr>inp = [], is_eof = False, is_fail = False\<rparr>, ss_connected = True\<rparr>"

definition upstream1 :: "mpentry \<Rightarrow> group_info \<Rightarrow> nat nserver" where
  "upstream1 e gi = \<lparr>sv_net = 0, sv_now = 1000, sv_usec = 7, sv_fmt = overfmt_new, sv_active = store0,
     sv_list = [e], sv_current = Some 0, sv_group = gi, sv_stream = Some stream1, sv_agroup = gi_new,
     sv_lgroup = gi_new, sv_pc = 1, sv_ttl_active = 600, sv_spooldir = ''/'', sv_hostname = ''h'',
     sv_posting_host = [], sv_pid = 42, sv_spool = [], sv_bad = []\<rparr>"

definition net1 :: "nat net_env" where
  "net1 = \<lparr>net_bind = (\<lambda>_ n. (True, n)), net_open = (\<lambda>_ _ n. (Some (''200'' @ [] @ CRLF), n)),
     net_say = (\<lambda>t n. (if t = ''article 5'' @ CRLF
        then ''220'' @ CRLF @ ''X: y'' @ CRLF @ ''.'' @ CRLF else ''400'' @ [] @ CRLF, n)),
     net_close = (\<lambda>n. n)\<rparr>"

lemma server0_fields:
  "hostname server0 = ''news''" "rd_groups server0 = ''*''" "post_groups server0 = ''*''" "flags server0 = 0"
  "retries server0 = 3" "user server0 = []" "bindFrom server0 = []" "nntpflags server0 = 0xffffffff"
  by (simp_all add: server0_def mpentry_init_def)

lemma any_group: "matchgroup ''*'' ''a.b'' = 1"
  by (simp add: matchgroup_def mg_loop.simps mg_rule_def ends_here_def chr_at_def isspace_def)

lemma serves:
  "rd_groups e = ''*'' \<Longrightarrow> hostname e \<noteq> [] \<Longrightarrow> pick_server rd_groups [e] ''a.b'' = Some 0"
  "post_groups e = ''*'' \<Longrightarrow> hostname e \<noteq> [] \<Longrightarrow> pick_server post_groups [e] ''a.b'' = Some 0"
  by (simp_all add: pick_server_def any_group)








text \<open>
  C11. A server that greets every connection and answers \<open>400\<close> to every command is called for ever:
  \<open>connect\<close> sends \<open>mode reader\<close>, and \<open>issue\<close> connects again to repeat it, one inside the other. No
  depth of nesting is enough, so that the attempts that are configured bound nothing.
\<close>

theorem discontinued_server:
  assumes "discontinued N" and "sv_current s = Some i" and "i < length (sv_list s)" and "sv_list s ! i = e"
    and "user e = []" and "bindFrom e = []" and "has_bit (nntpflags e) F_MODE_READER"
    and "2 \<le> tries (retries e + 1)" and "sv_stream s = None"
  shows "\<exists>s'. connect n N s = (Diverge, s')"
  using assms by (rule connect_discontinued)

theorem discontinued_server_witness:
  "\<exists>s. connect 1000 (net1\<lparr>net_say := (\<lambda>_ n. (''400'' @ [] @ CRLF, n))\<rparr>) ((upstream1 server0 gi_new)\<lparr>sv_stream := None\<rparr>)
     = (Diverge, s)"
proof -
  let ?N = "net1\<lparr>net_say := (\<lambda>_ n. (''400'' @ [] @ CRLF, n))\<rparr>"
  have "discontinued ?N" unfolding discontinued_def by (auto simp: net1_def plain_line_def)
  moreover have "2 \<le> tries (retries server0 + 1)" by (simp add: server0_fields tries_def u32_of_int_def)
  moreover have "has_bit (nntpflags server0) F_MODE_READER"
    by (simp add: server0_fields has_bit_def F_MODE_READER_def)
  ultimately show ?thesis
    using discontinued_server [of ?N "(upstream1 server0 gi_new)\<lparr>sv_stream := None\<rparr>" 0 server0 1000]
    by (simp add: upstream1_def server0_fields)
qed

section \<open>Posting\<close>

text \<open>
  C34. The number that is to tell the articles of a second apart never counts: two articles without
  a \<open>Message-ID\<close> that a process posts within the same second get the same one.
\<close>

theorem same_message_id:
  assumes "sv_posting_host s = []" and "sv_pc s = 1"
    and "ok_fields fs" and "fs \<noteq> []" and "NUL \<notin> set body" and "\<forall>f \<in> set fs. \<not> same_name ''Message-ID'' f"
    and "ok_fields fs'" and "fs' \<noteq> []" and "NUL \<notin> set body'" and "\<forall>f \<in> set fs'. \<not> same_name ''Message-ID'' f"
  shows "\<exists>t x. add_fields (s, art fs body) = (Ok (), (t, art (fs @ [(''Message-ID'', x)]) body))
    \<and> add_fields (t, art fs' body') = (Ok (), (t, art (fs' @ [(''Message-ID'', x)]) body'))"
proof -
  have "s\<lparr>sv_pc := 1\<rparr> = s" using assms(2) by simp
  then show ?thesis
    using add_fields_ok [OF assms(1,3-6)] add_fields_ok [OF assms(1,7-10)] by auto
qed

theorem same_message_id_witness:
  "\<exists>t x. add_fields (upstream1 server0 gi_new, art [(''Path'', ''x''), (''From'', ''y z'')] ''b'')
      = (Ok (), (t, art [(''Path'', ''x''), (''From'', ''y z''), (''Message-ID'', x)] ''b''))
    \<and> add_fields (t, art [(''Path'', ''x''), (''From'', ''y z'')] ''c'')
      = (Ok (), (t, art [(''Path'', ''x''), (''From'', ''y z''), (''Message-ID'', x)] ''c''))"
proof -
  have "\<forall>f \<in> set [(''Path'', ''x''), (''From'', ''y z'')]. \<not> same_name ''Message-ID'' f"
    by (simp add: same_name_def tolower_def)
  from same_message_id [of "upstream1 server0 gi_new", OF _ _ ok_path(3) _ _ this ok_path(3) _ _ this,
      where body = "''b''" and body' = "''c''"]
  show ?thesis by (simp add: upstream1_def)
qed


text \<open>
  C33. An article that cannot be posted because its servers are offline is kept in the spool; but when
  the spool is posted while they are still offline, it is moved to the bad articles and is not
  tried again.
\<close>

theorem spooled_article_given_up:
  assumes "postable fs" and "NUL \<notin> set body" and "text_lines body"
    and "find (same_name ''newsgroups'') fs = Some (m, v)"
    and "sv_posting_host s = []" and "post_servers (sv_list s) v \<noteq> []"
    and "\<forall>i \<in> set (post_servers (sv_list s) v). offline (sv_list s ! i)"
    and "sv_spool s = []" and "map_of (sv_bad s) (''art_'' @ createID s) = None"
  shows "\<exists>t f. cache_post n N (s, art fs body) = (Ok 1, (t, art fs body)) \<and> sv_spool t = [f]
    \<and> snd f = compose fs body \<and> postspooled n N t = (Ok (), s\<lparr>sv_bad := sv_bad s @ [f]\<rparr>)"
  using spooled_offline [OF assms, of n N] by auto

definition offline1 :: mpentry where
  "offline1 = server0\<lparr>flags := F_OFFLINE\<rparr>"

definition fields1 :: "field list" where
  "fields1 = [(''From'', ''x''), (''Subject'', ''y''), (''Newsgroups'', ''a.b''), (''Message-ID'', ''<z>'')]"

theorem spooled_article_given_up_witness:
  "\<exists>t f. cache_post 5 net1 (upstream1 offline1 gi_new, art fields1 []) = (Ok 1, (t, art fields1 []))
    \<and> sv_spool t = [f] \<and> snd f = compose fields1 []
    \<and> postspooled 5 net1 t = (Ok (), (upstream1 offline1 gi_new)\<lparr>sv_bad := [f]\<rparr>)"
proof -
  let ?s = "upstream1 offline1 gi_new"
  have ok: "ok_fields fields1"
    by (simp add: fields1_def ok_name_def ok_fields_def ok_value_def plain_line_def isspace_def is_eol_def)
  have names: "same_name ''from'' (''From'', ''x'')" "same_name ''subject'' (''Subject'', ''y'')"
    "same_name ''Message-ID'' (''Message-ID'', ''<z>'')" "same_name ''newsgroups'' (''Newsgroups'', ''a.b'')"
    "\<not> same_name ''newsgroups'' (''From'', ''x'')" "\<not> same_name ''newsgroups'' (''Subject'', ''y'')"
    by code_simp+
  then have p: "postable fields1" and n: "find (same_name ''newsgroups'') fields1 = Some (''Newsgroups'', ''a.b'')"
    using ok by (auto simp: postable_def fields1_def)
  have l: "text_lines []" unfolding text_lines_def by (intro exI [of _ "[]"]) simp
  have gw: "group_words (dropWhile sep (c_str ''a.b'')) = [''a.b'']"
    by (simp add: group_words.simps sep_def c_str_def isspace_def)
  have e: "post_groups offline1 = ''*''" "hostname offline1 \<noteq> []" "offline offline1"
    by (simp_all add: offline1_def server0_fields offline_def has_bit_def F_OFFLINE_def)
  have ps: "post_servers [offline1] ''a.b'' = [0]"
    unfolding post_servers_def gw using serves(2) [OF e(1,2)] by simp
  have s: "sv_posting_host ?s = []" "sv_list ?s = [offline1]" "sv_spool ?s = []" "sv_bad ?s = []"
    by (simp_all add: upstream1_def)
  show ?thesis
    using spooled_article_given_up [OF p _ l n, of ?s 5 net1] by (auto simp: s ps e(3))
qed

section \<open>Newsgroups of a server\<close>



text \<open>
  C36. The numbers that a server sends to \<open>listgroup\<close> set the flags of those articles up to the last one,
  keep every other flag and are read up to the line with the dot.
\<close>

theorem listgroup_flags:
  assumes "\<forall>k \<in> set ks. k < 2 ^ 31" and "good is" and "l < f + length lst"
    and "inp is = concat (map (\<lambda>k. show_nat k @ CRLF) ks) @ ''.'' @ CRLF @ rest"
  shows "listgroup_lines is line f l lst
    = (map (\<lambda>i. lst ! i \<or> f + i \<in> set ks \<and> f + i \<le> l) [0..<length lst], True, is\<lparr>inp := rest\<rparr>)"
  using assms by (rule listgroup_lines_ok)

theorem listgroup_flags_witness:
  "fst (listgroup_lines \<lparr>inp = ''7'' @ CRLF @ ''5'' @ CRLF @ ''.'' @ CRLF, is_eof = False, is_fail = False\<rparr> [] 5 7
     (replicate 3 False)) = [True, False, True]"
proof -
  have s: "show_nat 7 = ''7''" "show_nat 5 = ''5''" by code_simp+
  have r: "[0..<3] = [0, 1, 2::nat]" by (simp add: upt_rec)
  show ?thesis
    using listgroup_flags [of "[7, 5]" "\<lparr>inp = ''7'' @ CRLF @ ''5'' @ CRLF @ ''.'' @ CRLF, is_eof = False, is_fail = False\<rparr>"
        7 5 "replicate 3 False" "[]" "[]"]
    by (simp add: s good_def r)
qed



section \<open>Cleaning the spool\<close>


text \<open>
  C8. What NewsCacheClean removes is the head of its table in the order of the times: the outdated
  articles, whose time is 0, and then only as long as what is left is more than \<open>SpoolSize\<close>, so
  that no file is removed while one that was used longer ago stays; everything else stays as
  it was, and the blocks that it reports are those of the files that are left.
\<close>

theorem purge_least_recent:
  assumes "sorter srt" and "newscacheclean srt E cfg False t = Ok (es, s)" and "distinct (map fst t)"
    and "\<forall>e \<in> set es. removable E t e \<and> 0 \<le> pe_atime e"
  shows "\<exists>k \<le> length es. files (pg_tree s) = files t |` (- pe_path ` set (take k es))
    \<and> pg_blocks s = blocks_of (drop k es)
    \<and> (k < length es \<longrightarrow> pe_atime (es ! k) \<noteq> 0 \<and> pg_blocks s \<le> SpoolSize cfg * 2)
    \<and> (\<forall>i < k. pe_atime (es ! i) = 0 \<or> SpoolSize cfg * 2 < blocks_of (drop i es))"
  using assms by (rule sorter.purges_least_recent)

text \<open>
  C7. The database of a newsgroup is removed only after the files of its articles, whatever their
  times are: where it is gone, so is every article that lay beside it and could be removed.
\<close>

theorem articles_before_database:
  assumes "sorter srt" and "newscacheclean srt E cfg False t = Ok (es, s)" and "distinct (map fst t)"
    and "\<And>p a. (p, Some a) \<in> set t \<Longrightarrow> 0 \<le> fa_blocks a \<and> 1 < fa_mtime a"
    and "opens t d" and "files t (d @ ''/.db'') \<noteq> None" and "files (pg_tree s) (d @ ''/.db'') = None"
    and "name \<in> set (readdir t d)" and "take 4 name = ''.art''" and "stat_path t (d @ ''/'' @ name) = Some a"
    and "fa_kind a = IsReg" and "\<not> ce_protected E (d @ ''/'' @ name)"
  shows "files (pg_tree s) (d @ ''/'' @ name) = None"
  using sorter.articles_go_first [OF assms(1-3) _ assms(5-12)] assms(4) by blast

text \<open>A spool directory with one newsgroup, whose database is empty, and one article.\<close>

definition plain_file :: "int \<Rightarrow> int \<Rightarrow> fattr" where
  "plain_file tm bl = \<lparr>fa_kind = IsReg, fa_atime = tm, fa_mtime = tm, fa_blocks = bl\<rparr>"

definition directory :: fattr where
  "directory = \<lparr>fa_kind = IsDir True, fa_atime = 9, fa_mtime = 9, fa_blocks = 8\<rparr>"

definition spool1 :: ftree where
  "spool1 = [(''.'', Some directory), (''./a'', Some directory), (''./a/.db'', Some (plain_file 10 8)),
     (''./a/.art5'', Some (plain_file 3 4))]"

definition clean1 :: cleanenv where
  "clean1 = \<lparr>ce_os = grant_all, ce_disk = (\<lambda>_. None), ce_spooldir = ''/s'', ce_protected = (\<lambda>_. False)\<rparr>"

definition empty_spool :: config where
  "empty_spool = (config_init ''here'')\<lparr>SpoolSize := 0\<rparr>"

lemma spool1_dirs: "readdir spool1 ''.'' = [''a'']" "readdir spool1 ''./a'' = [''.db'', ''.art5'']"
  "opens spool1 ''.''" "opens spool1 ''./a''"
  by code_simp+

lemma spool1_stat: "stat_path spool1 ''./.db'' = None" "stat_path spool1 ''./a'' = Some directory"
  "stat_path spool1 ''./a/.db'' = Some (plain_file 10 8)" "stat_path spool1 ''./a/.art5'' = Some (plain_file 3 4)"
  by (simp_all add: stat_path_def spool1_def)

lemma spool1_range: "\<exists>r. group_range clean1 spool1 ''./a'' = Ok r"
proof -
  have "\<exists>s. open_nv ''/s/a/.db'' (nvcontainer_new ClsArray grant_all (\<lambda>_. None)) = (Ok (), s)"
    using open_nv_new [OF grant_all_grants, of "''/s/a/.db''" "\<lambda>_. None" ClsArray] by (auto simp: grant_all_def)
  moreover have "ce_spooldir clean1 @ ''/'' @ group2dir (c_str (dir_group ''./a'')) @ ''/.db'' = ''/s/a/.db''"
    by (simp add: clean1_def dir_group_def c_str_def)
  ultimately show ?thesis
    unfolding group_range_def by (auto simp: spool1_stat clean1_def split: prod.splits)
qed

lemma spool1_clean:
  "\<exists>tm \<le> 3. 0 \<le> tm \<and> clean MAXPATHLEN clean1 spool1 ''.'' \<lparr>pvector = [], cl_blocks = 0\<rparr>
    = (Ok (), \<lparr>pvector = [\<lparr>pe_path = ''./a/.db'', pe_atime = 10, pe_blocks = 8\<rparr>,
         \<lparr>pe_path = ''./a/.art5'', pe_atime = tm, pe_blocks = 4\<rparr>], cl_blocks = 12\<rparr>)"
proof -
  obtain r where r: "group_range clean1 spool1 ''./a'' = Ok r" using spool1_range by blast
  have r0: "group_range clean1 spool1 ''.'' = Ok None" by (simp add: group_range_def spool1_stat)
  have n: "scan_int ''5'' = Some 5" by code_simp
  let ?tm = "case r of None \<Rightarrow> 0 | Some (f, l) \<Rightarrow> if 5 < f \<or> l < 5 then 0 else (3 :: int)"
  let ?e = "\<lparr>pe_path = ''./a/.db'', pe_atime = 10, pe_blocks = 8\<rparr>"
    and ?a = "\<lparr>pe_path = ''./a/.art5'', pe_atime = ?tm, pe_blocks = 4\<rparr>"
  note evals = path_in_def Let_def bnd_def ret_def note_db_def note_entry_def upd_def plain_file_def MAXPATHLEN_def
  have art: "note_article spool1 ''./a'' 9 r ''.art5'' c
      = (Ok (), c\<lparr>pvector := pvector c @ [?a], cl_blocks := cl_blocks c + 4\<rparr>)" for c
    by (cases r) (auto simp: note_article_def evals spool1_stat n)
  have db: "note_article spool1 ''./a'' 9 r ''.db'' c = (Ok (), c)" for c
    by (simp add: note_article_def evals spool1_stat)
  have files': "visit spool1 f ''./a'' ''.db'' c = (Ok (), c)" "visit spool1 f ''./a'' ''.art5'' c = (Ok (), c)" for f c
    by (simp_all add: visit_def evals spool1_stat is_directory_def)
  have sub: "clean (Suc k) clean1 spool1 ''./a'' \<lparr>pvector = [], cl_blocks = 0\<rparr>
      = (Ok (), \<lparr>pvector = [?e, ?a], cl_blocks = 12\<rparr>)" for k
    unfolding clean.simps by (simp add: evals spool1_stat spool1_dirs files' of_outcome_def r art db)
  have dir: "visit spool1 (clean (Suc k) clean1 spool1) ''.'' ''a'' \<lparr>pvector = [], cl_blocks = 0\<rparr>
      = (Ok (), \<lparr>pvector = [?e, ?a], cl_blocks = 12\<rparr>)" for k
    unfolding visit_def by (simp only: bnd_def) (simp add: path_in_def MAXPATHLEN_def ret_def spool1_stat directory_def is_directory_def sub del: clean.simps)
  have top: "note_article spool1 ''.'' 0 None ''a'' c = (Ok (), c)" for c
    by (simp add: note_article_def evals spool1_stat directory_def)
  have "clean (Suc (Suc k)) clean1 spool1 ''.'' \<lparr>pvector = [], cl_blocks = 0\<rparr>
      = (Ok (), \<lparr>pvector = [?e, ?a], cl_blocks = 12\<rparr>)" for k
    by (subst clean.simps(2)) (simp add: evals spool1_stat spool1_dirs of_outcome_def r0 dir top del: clean.simps)
  from this [of 4094] have "clean MAXPATHLEN clean1 spool1 ''.'' \<lparr>pvector = [], cl_blocks = 0\<rparr>
      = (Ok (), \<lparr>pvector = [?e, ?a], cl_blocks = 12\<rparr>)"
    unfolding MAXPATHLEN_def by (simp del: clean.simps)
  moreover have "?tm \<le> 3 \<and> 0 \<le> ?tm" by (simp split: option.splits)
  ultimately show ?thesis by blast
qed

lemma spool1_files:
  "files spool1 ''./a/.db'' = Some (Some (plain_file 10 8))" "files spool1 ''./a/.art5'' = Some (Some (plain_file 3 4))"
  "\<not> ce_protected clean1 p"
  by (simp_all add: files_def spool1_def plain_file_def is_directory_def clean1_def)

lemma spool1_run:
  "\<exists>tm s. 0 \<le> tm \<and> newscacheclean (sort_key pe_atime) clean1 empty_spool False spool1
    = (Ok ([\<lparr>pe_path = ''./a/.art5'', pe_atime = tm, pe_blocks = 4\<rparr>,
         \<lparr>pe_path = ''./a/.db'', pe_atime = 10, pe_blocks = 8\<rparr>], s)) \<and> files (pg_tree s) ''./a/.db'' = None"
proof -
  obtain tm where tm: "tm \<le> 3" "0 \<le> tm" "clean MAXPATHLEN clean1 spool1 ''.'' \<lparr>pvector = [], cl_blocks = 0\<rparr>
    = (Ok (), \<lparr>pvector = [\<lparr>pe_path = ''./a/.db'', pe_atime = 10, pe_blocks = 8\<rparr>,
         \<lparr>pe_path = ''./a/.art5'', pe_atime = tm, pe_blocks = 4\<rparr>], cl_blocks = 12\<rparr>)"
    using spool1_clean by blast
  show ?thesis
    by (rule exI [of _ tm])
       (use tm in \<open>simp add: newscacheclean_def Let_def remove_one_eq tried_def removable_def empty_spool_def spool1_files\<close>)
qed

theorem purge_least_recent_witness:
  "\<exists>es s. newscacheclean (sort_key pe_atime) clean1 empty_spool False spool1 = Ok (es, s) \<and> length es = 2
    \<and> pg_blocks s \<le> 0"
proof -
  obtain tm s where r: "0 \<le> tm" "newscacheclean (sort_key pe_atime) clean1 empty_spool False spool1
    = (Ok ([\<lparr>pe_path = ''./a/.art5'', pe_atime = tm, pe_blocks = 4\<rparr>,
         \<lparr>pe_path = ''./a/.db'', pe_atime = 10, pe_blocks = 8\<rparr>], s))" using spool1_run by blast
  have "distinct (map fst spool1)" by (simp add: spool1_def)
  from purge_least_recent [OF stable.sorter_axioms r(2) this]
  have "pg_blocks s \<le> 0"
    using r(1) by (auto simp: removable_def spool1_files empty_spool_def drop_Cons' split: if_splits)
  with r(2) show ?thesis by auto
qed

theorem articles_before_database_witness:
  "\<exists>es s. newscacheclean (sort_key pe_atime) clean1 empty_spool False spool1 = Ok (es, s)
    \<and> files (pg_tree s) ''./a/.art5'' = None"
proof -
  obtain es s where r: "newscacheclean (sort_key pe_atime) clean1 empty_spool False spool1 = Ok (es, s)"
    "files (pg_tree s) ''./a/.db'' = None" using spool1_run by blast
  have "distinct (map fst spool1)" by (simp add: spool1_def)
  moreover have "0 \<le> fa_blocks a \<and> 1 < fa_mtime a" if "(p, Some a) \<in> set spool1" for p a
    using that by (auto simp: spool1_def plain_file_def directory_def)
  ultimately have "files (pg_tree s) (''./a'' @ ''/'' @ ''.art5'') = None"
    using articles_before_database [OF stable.sorter_axioms r(1), of "''./a''" "''.art5''" "plain_file 3 4"] r(2)
    by (simp add: spool1_dirs spool1_stat spool1_files plain_file_def)
  with r(1) show ?thesis by auto
qed

section \<open>Updating\<close>

text \<open>
  C38. The option for several workers is described and given to \<open>getopt_long\<close>, but the program does not
  know it: with it, updatenews always prints its usage and ends with status 1.
\<close>

theorem workers_refused:
  assumes "(CHR ''w'', k) \<in> set opts"
    and "\<forall>(c, a) \<in> set opts. c \<noteq> CHR ''v'' \<and> c \<noteq> CHR ''h'' \<and> length (c_str a) < MAXPATHLEN"
  shows "start_up opts more_args default_conf = Ok (ExitWith 1)"
proof -
  have all_read: "\<exists>fl' set'' cf' err'. read_options opts fl set' cf err = Ok (Some (fl', set'', cf', err'))
      \<and> (err \<or> CHR ''w'' \<in> fst ` set opts \<longrightarrow> err')"
    if "\<forall>(c, a) \<in> set opts. c \<noteq> CHR ''v'' \<and> c \<noteq> CHR ''h'' \<and> length (c_str a) < MAXPATHLEN" for opts fl set' cf err
    using that
  proof (induction opts arbitrary: fl set' cf err)
    case (Cons o' opts)
    obtain c a where o': "o' = (c, a)" by (cases o')
    note ih = Cons.IH [where err = True] Cons.IH [where err = err]
    have c: "c \<noteq> CHR ''v''" "c \<noteq> CHR ''h''" "\<not> MAXPATHLEN \<le> length (c_str a)"
      and r: "\<forall>(c, a) \<in> set opts. c \<noteq> CHR ''v'' \<and> c \<noteq> CHR ''h'' \<and> length (c_str a) < MAXPATHLEN"
      using Cons.prems o' by auto
    show ?case
    proof (cases "c \<in> {CHR ''a'', CHR ''g'', CHR ''o'', CHR ''l'', CHR ''c''}")
      case True
      then have "c \<noteq> CHR ''w''" by auto
      with True c ih(2) [OF r] show ?thesis by (auto simp: o')
    next
      case False
      then have "read_options (o' # opts) fl set' cf err = read_options opts fl set' cf True" using c by (simp add: o')
      with ih(1) [OF r, of fl set' cf] show ?thesis by auto
    qed
  qed simp
  have "CHR ''w'' \<in> fst ` set opts" using assms(1) by force
  with all_read [OF assms(2), of 0 False default_conf False] show ?thesis by (auto simp: start_up_def)
qed

theorem workers_refused_witness:
  "start_up [(CHR ''g'', []), (CHR ''w'', ''4'')] False ''newscache.conf'' = Ok (ExitWith 1)"
  by (rule workers_refused [where k = "''4''"]) (simp_all add: c_str_def MAXPATHLEN_def)

section \<open>The password hash\<close>



end
